(* ===== verification/Kiss_Prelude.thy ===== *)
theory Kiss_Prelude
  imports Main "HOL-Library.Word" "HOL-Library.AList"
begin

text \<open>
  Shared vocabulary of the development: machine types of the Go code, the Go built-in
  \<open>copy\<close> into a fixed 32-byte array, results that may be an error, a panic or a loop that
  never ends, and the generic list lemmas the components use.
\<close>

section \<open>Types\<close>

type_synonym byte = "8 word"
type_synonym bytes = "byte list"
type_synonym u32 = "32 word"
type_synonym u64 = "64 word"

text \<open>A 32-byte array (\<open>[32]byte\<close> of Go) is a byte list of length 32.\<close>

type_synonym hash = "bytes"

named_theorems go_simps \<open>unfolding rules for the models of Go built-ins\<close>

section \<open>Go built-ins\<close>

text \<open>\<open>var out [32]byte; copy(out[:], b)\<close>: short input is padded with zero bytes, long input cut.\<close>

definition copy32 :: "bytes \<Rightarrow> hash" where
  "copy32 b = take 32 b @ replicate (32 - length b) 0"

text \<open>The zero value \<open>[32]byte{}\<close>.\<close>

definition zero32 :: hash where
  "zero32 = replicate 32 0"

lemma length_copy32 [simp]: "length (copy32 b) = 32"
  by (simp add: copy32_def)

lemma copy32_id [simp]: "length b = 32 \<Longrightarrow> copy32 b = b"
  by (simp add: copy32_def)

lemma length_zero32 [simp]: "length zero32 = 32"
  by (simp add: zero32_def)

text \<open>The bytes of a Go string (\<open>[]byte(s)\<close>).\<close>

definition bytes_of :: "string \<Rightarrow> bytes" where
  "bytes_of s = map of_char s"

lemma length_bytes_of [simp]: "length (bytes_of s) = length s"
  by (simp add: bytes_of_def)

lemma bytes_of_append [simp]: "bytes_of (s @ t) = bytes_of s @ bytes_of t"
  by (simp add: bytes_of_def)

text \<open>
  The outcome of a call: a value, a run-time panic (an index out of range), or a call
  that never returns.
\<close>

datatype 'a outcome = Value 'a | Panic | Diverge

fun map_outcome2 :: "('a \<Rightarrow> 'b) \<Rightarrow> 'a outcome \<Rightarrow> 'b outcome" where
  "map_outcome2 f (Value x) = Value (f x)"
| "map_outcome2 f Panic = Panic"
| "map_outcome2 f Diverge = Diverge"

lemma map_outcome2_Value_iff:
  "map_outcome2 f r = Value y \<longleftrightarrow> (\<exists>x. r = Value x \<and> y = f x)"
  by (cases r) auto

section \<open>Lists\<close>

lemma append_eq_same_length:
  assumes "length xs = length ys" and "xs @ us = ys @ vs"
  shows "xs = ys \<and> us = vs"
  using assms by simp

lemma take_drop_eq_iff:
  "length xs = length ys \<Longrightarrow>
     xs = ys \<longleftrightarrow> take k xs = take k ys \<and> drop k xs = drop k ys"
  by (metis append_take_drop_id)

lemma last_butlast_snoc: "xs \<noteq> [] \<Longrightarrow> butlast xs @ [last xs] = xs"
  by simp

text \<open>Two strings joined by a separator neither left part contains split uniquely.\<close>

lemma separator_split:
  assumes "xs @ s # us = ys @ s # vs" and "s \<notin> set xs" and "s \<notin> set ys"
  shows "xs = ys \<and> us = vs"
  using assms
proof (induction xs arbitrary: ys)
  case Nil
  then show ?case by (cases ys) auto
next
  case (Cons x xs)
  then show ?case by (cases ys) auto
qed

lemma unat_word64: "n < 2 ^ 64 \<Longrightarrow> unat (word_of_nat n :: u64) = n"
  by (simp add: unat_of_nat)

lemma strict_sorted_snocI:
  "sorted_wrt (<) xs \<Longrightarrow> \<forall>x \<in> set xs. x < y \<Longrightarrow> sorted_wrt (<) (xs @ [y :: 'a :: linorder])"
  by (simp add: sorted_wrt_append)

text \<open>A Go map assignment adds at most the new entry.\<close>

lemma set_update_subset: "set (AList.update k v al) \<subseteq> insert (k, v) (set al)"
  by (induction al) auto

end
