(* ===== verification/Go_Encoding.thy ===== *)
theory Go_Encoding
  imports Kiss_Prelude
begin

text \<open>
  The parts of Go's standard library the programs use on bytes: \<open>encoding/hex\<close>
  (\<open>EncodeToString\<close>, \<open>DecodeString\<close>) and the big-endian integers of \<open>encoding/binary\<close>,
  with their round trips.
\<close>

section \<open>Hexadecimal strings\<close>

definition hexdigits :: string where
  "hexdigits = ''0123456789abcdef''"

definition hexdigit :: "nat \<Rightarrow> char" where
  "hexdigit n = hexdigits ! n"

text \<open>\<open>fromHexChar\<close>: both cases of the letters are accepted.\<close>

definition fromHexChar :: "char \<Rightarrow> nat option" where
  "fromHexChar c =
     (let n = of_char c :: nat in
      if 48 \<le> n \<and> n \<le> 57 then Some (n - 48)
      else if 97 \<le> n \<and> n \<le> 102 then Some (n - 97 + 10)
      else if 65 \<le> n \<and> n \<le> 70 then Some (n - 65 + 10)
      else None)"

fun hex_encode :: "bytes \<Rightarrow> string" where
  "hex_encode [] = []"
| "hex_encode (b # bs) = hexdigit (unat b div 16) # hexdigit (unat b mod 16) # hex_encode bs"

text \<open>\<open>hex.DecodeString\<close>: an odd length or a character that is no digit is an error (\<open>None\<close>).\<close>

fun hex_decode :: "string \<Rightarrow> bytes option" where
  "hex_decode [] = Some []"
| "hex_decode [c] = None"
| "hex_decode (c # d # cs) =
     (case (fromHexChar c, fromHexChar d, hex_decode cs) of
        (Some h, Some l, Some bs) \<Rightarrow> Some (word_of_nat (16 * h + l) # bs)
      | _ \<Rightarrow> None)"

lemma hexdigit_table: "list_all (\<lambda>n. fromHexChar (hexdigit n) = Some n) [0..<16]"
  by code_simp

lemma fromHexChar_hexdigit: "n < 16 \<Longrightarrow> fromHexChar (hexdigit n) = Some n"
  using hexdigit_table by (simp add: list_all_iff)

lemma byte_nibbles: "16 * (unat (b::byte) div 16) + unat b mod 16 = unat b"
  by simp

lemma byte_nibble_bounds: "unat (b::byte) div 16 < 16" "unat (b::byte) mod 16 < 16"
  using unsigned_less [of b, where 'a = nat] by auto

lemma hex_decode_encode [simp]: "hex_decode (hex_encode bs) = Some bs"
  by (induction bs) (simp_all add: fromHexChar_hexdigit byte_nibble_bounds byte_nibbles)

lemma length_hex_encode [simp]: "length (hex_encode bs) = 2 * length bs"
  by (induction bs) auto

lemma hex_encode_inj [simp]: "hex_encode a = hex_encode b \<longleftrightarrow> a = b"
  by (metis hex_decode_encode option.inject)

lemma hex_encode_eq_Nil [simp]: "hex_encode b = [] \<longleftrightarrow> b = []"
  by (cases b) auto

section \<open>Big-endian integers\<close>

text \<open>\<open>be_bytes k n\<close>: the low \<open>8 * k\<close> bits of \<open>n\<close>, most significant byte first.\<close>

fun be_bytes :: "nat \<Rightarrow> nat \<Rightarrow> bytes" where
  "be_bytes 0 n = []"
| "be_bytes (Suc k) n = be_bytes k (n div 256) @ [word_of_nat (n mod 256)]"

definition be_nat :: "bytes \<Rightarrow> nat" where
  "be_nat = foldl (\<lambda>a b. a * 256 + unat b) 0"

lemma length_be_bytes [simp]: "length (be_bytes k n) = k"
  by (induction k arbitrary: n) auto

lemma be_nat_snoc: "be_nat (bs @ [b]) = be_nat bs * 256 + unat b"
  by (simp add: be_nat_def)

lemma be_nat_be_bytes: "be_nat (be_bytes k n) = n mod 256 ^ k"
proof (induction k arbitrary: n)
  case 0
  show ?case by (simp add: be_nat_def)
next
  case (Suc k)
  have "unat (word_of_nat (n mod 256) :: byte) = n mod 256"
    by (simp add: unat_of_nat)
  moreover have "n mod 256 ^ Suc k = (n div 256 mod 256 ^ k) * 256 + n mod 256"
    by (simp add: mod_mult2_eq mult.commute)
  ultimately show ?case
    by (simp only: be_bytes.simps be_nat_snoc Suc.IH)
qed

lemma be_nat_be_bytes_id: "n < 256 ^ k \<Longrightarrow> be_nat (be_bytes k n) = n"
  by (simp add: be_nat_be_bytes)

lemma be_bytes_inj:
  assumes "m < 256 ^ k" and "n < 256 ^ k"
  shows "be_bytes k m = be_bytes k n \<longleftrightarrow> m = n"
  using be_nat_be_bytes_id [OF assms(1)] be_nat_be_bytes_id [OF assms(2)] by metis

text \<open>\<open>binary.BigEndian.PutUint64\<close> and \<open>PutUint32\<close>/\<open>AppendUint32\<close>, \<open>Uint32\<close>.\<close>

definition put_u64 :: "u64 \<Rightarrow> bytes" where
  "put_u64 w = be_bytes 8 (unat w)"

definition put_u32 :: "u32 \<Rightarrow> bytes" where
  "put_u32 w = be_bytes 4 (unat w)"

definition get_u32 :: "bytes \<Rightarrow> u32" where
  "get_u32 bs = word_of_nat (be_nat bs)"

lemma length_put_u64 [simp]: "length (put_u64 w) = 8"
  by (simp add: put_u64_def)

lemma length_put_u32 [simp]: "length (put_u32 w) = 4"
  by (simp add: put_u32_def)

lemma get_put_u32 [simp]: "get_u32 (put_u32 w) = w"
proof -
  have "unat w < 256 ^ 4" using unsigned_less [of w, where 'a = nat] by simp
  then show ?thesis by (simp add: get_u32_def put_u32_def be_nat_be_bytes_id)
qed

lemma put_u64_inj [simp]: "put_u64 a = put_u64 b \<longleftrightarrow> a = b"
proof -
  have "unat a < 256 ^ 8" "unat b < 256 ^ 8" using unsigned_less [of a, where 'a = nat] unsigned_less [of b, where 'a = nat] by simp_all
  then show ?thesis by (simp add: put_u64_def be_bytes_inj word_unat_eq_iff)
qed

section \<open>Base64\<close>

text \<open>\<open>base64.StdEncoding\<close>: three bytes become four digits, the last group is padded.\<close>

definition b64_digits :: string where
  "b64_digits = ''ABCDEFGHIJKLMNOPQRSTUVWXYZabcdefghijklmnopqrstuvwxyz0123456789+/''"

definition b64_char :: "nat \<Rightarrow> char" where
  "b64_char n = b64_digits ! n"

fun base64_encode :: "bytes \<Rightarrow> string" where
  "base64_encode [] = []"
| "base64_encode [a] =
     [b64_char (unat a div 4), b64_char (unat a mod 4 * 16), CHR ''='', CHR ''='']"
| "base64_encode [a, b] =
     [b64_char (unat a div 4), b64_char (unat a mod 4 * 16 + unat b div 16), b64_char (unat b mod 16 * 4), CHR ''='']"
| "base64_encode (a # b # c # r) =
     b64_char (unat a div 4) # b64_char (unat a mod 4 * 16 + unat b div 16) #
     b64_char (unat b mod 16 * 4 + unat c div 64) # b64_char (unat c mod 64) # base64_encode r"

definition b64_value :: "char \<Rightarrow> nat" where
  "b64_value c = length (takeWhile (\<lambda>d. d \<noteq> c) b64_digits)"

text \<open>The reader of such a text, for the round trip.\<close>

fun base64_decode :: "string \<Rightarrow> bytes" where
  "base64_decode (p # q # r # s # rest) =
     (let a = word_of_nat (b64_value p * 4 + b64_value q div 16); b = word_of_nat (b64_value q mod 16 * 16 + b64_value r div 4);
          c = word_of_nat (b64_value r mod 4 * 64 + b64_value s)
      in if r = CHR ''='' then [a] else if s = CHR ''='' then [a, b] else a # b # c # base64_decode rest)"
| "base64_decode _ = []"

lemma length_b64_digits: "length b64_digits = 64"
  by (simp add: b64_digits_def)

lemma distinct_b64_digits: "distinct b64_digits"
  by (simp add: b64_digits_def)

lemma b64_value_char: "n < 64 \<Longrightarrow> b64_value (b64_char n) = n"
proof -
  assume n: "n < 64"
  have "takeWhile (\<lambda>d. d \<noteq> b64_digits ! n) b64_digits = take n b64_digits"
    using n distinct_b64_digits length_b64_digits
    by (intro takeWhile_eq_take_P_nth) (auto simp: nth_eq_iff_index_eq)
  then show ?thesis using n length_b64_digits by (simp add: b64_value_def b64_char_def)
qed

lemma b64_char_pad: "n < 64 \<Longrightarrow> b64_char n \<noteq> CHR ''=''"
proof -
  assume "n < 64"
  then have "b64_char n \<in> set b64_digits" using length_b64_digits by (simp add: b64_char_def)
  then show ?thesis by (auto simp: b64_digits_def)
qed

lemma unat_byte: "unat (w :: byte) < 256"
  using unsigned_less [of w] by simp

lemma six_bits:
  fixes x y :: nat
  assumes "x < 256" "y < 256"
  shows "x div 4 < 64" "x mod 4 * 16 < 64" "y div 16 < 16" "x mod 4 * 16 + y div 16 < 64" "y mod 16 * 4 < 64" "x div 64 < 4"
    "y mod 16 * 4 + x div 64 < 64" "x mod 64 < 64"
proof -
  have d: "x div 4 < 64" "y div 16 < 16" "x div 64 < 4" using assms by (simp_all add: less_mult_imp_div_less)
  have m: "x mod 4 < 4" "y mod 16 < 16" by simp_all
  show "x div 4 < 64" "y div 16 < 16" "x div 64 < 4" by fact+
  show "x mod 4 * 16 < 64" "y mod 16 * 4 < 64" "x mod 64 < 64" using m by simp_all
  show "x mod 4 * 16 + y div 16 < 64" "y mod 16 * 4 + x div 64 < 64" using d m by linarith+
qed

lemma base64_roundtrip: "base64_decode (base64_encode b) = b"
proof (induction b rule: base64_encode.induct)
  case (2 a)
  show ?case
    using six_bits [OF unat_byte [of a] unat_byte [of a]] by (simp add: Let_def b64_value_char b64_char_pad)
next
  case (3 a b)
  show ?case
    using six_bits [OF unat_byte [of a] unat_byte [of b]] by (simp add: Let_def b64_value_char b64_char_pad)
next
  case (4 a b c r)
  show ?case
    using 4 six_bits [OF unat_byte [of a] unat_byte [of b]] six_bits [OF unat_byte [of c] unat_byte [of b]]
    by (simp add: Let_def b64_value_char b64_char_pad)
qed simp

end
