(* ===== verification/Witness_Env.thy ===== *)
theory Witness_Env
  imports Go_Encoding
begin

text \<open>
  What the witness log relies on: log entries and tree heads (\<open>store.Entry\<close>,
  \<open>store.TreeHead\<close>), the signer interface of \<open>internal/signer\<close>, the encryption layer of
  \<open>internal/encrypt\<close> and Go's UTF-8 sanitising. The cryptographic primitives (BLAKE3,
  SHA-256, ed25519, AES-GCM) and the JSON text of the two structs are the fields of the
  parameter \<open>env\<close>; \<open>env_ok\<close> states the documented laws that the code relies on.
\<close>

section \<open>Data\<close>

text \<open>A time is its number of nanoseconds since the Unix epoch.\<close>

type_synonym time = int

record entry =
  eSeq :: u64
  eTimestamp :: time
  eLevel :: string
  eEvent :: string
  eSource :: string
  eData :: "bytes option"

record tree_head =
  thSize :: u64
  thRoot :: string
  thPrevRoot :: string
  thTimestamp :: string
  thMAC :: string
  thSignature :: string
  thSignerKey :: string

record signer =
  sgSign :: "bytes \<Rightarrow> bytes option"
  sgPublicKey :: bytes

record env =
  blake3 :: "bytes \<Rightarrow> bytes"
  blake3_keyed :: "bytes \<Rightarrow> bytes \<Rightarrow> bytes"
  sha256 :: "bytes \<Rightarrow> bytes"
  ed_verify :: "bytes \<Rightarrow> bytes \<Rightarrow> bytes \<Rightarrow> bool"
  gcm_seal :: "bytes \<Rightarrow> bytes \<Rightarrow> bytes \<Rightarrow> bytes"
  gcm_open :: "bytes \<Rightarrow> bytes \<Rightarrow> bytes \<Rightarrow> bytes option"
  marshal_entry :: "entry \<Rightarrow> bytes option"
  unmarshal_entry :: "bytes \<Rightarrow> entry option"
  marshal_head :: "tree_head \<Rightarrow> bytes"
  unmarshal_head :: "bytes \<Rightarrow> tree_head option"
  compact_json :: "bytes \<Rightarrow> bool"

definition SignatureSize :: nat where
  "SignatureSize = 64"

definition PublicKeySize :: nat where
  "PublicKeySize = 32"

section \<open>UTF-8\<close>

text \<open>
  \<open>strings.ToValidUTF8(s, "\xef\xbf\xbd")\<close>: every run of bytes that is not part of a valid
  encoding becomes one replacement character. \<open>rune_width\<close> is the width of the valid
  encoding at the front of the string, 0 if there is none.
\<close>

definition cont :: "nat \<Rightarrow> nat \<Rightarrow> nat \<Rightarrow> bool" where
  "cont lo hi c \<longleftrightarrow> lo \<le> c \<and> c \<le> hi"

definition second_range :: "nat \<Rightarrow> nat \<times> nat" where
  "second_range b0 =
     (if b0 = 224 then (160, 191) else if b0 = 237 then (128, 159)
      else if b0 = 240 then (144, 191) else if b0 = 244 then (128, 143) else (128, 191))"

fun rune_width :: "string \<Rightarrow> nat" where
  "rune_width [] = 0"
| "rune_width (c # rest) =
     (let b0 = of_char c :: nat; (lo, hi) = second_range b0 in
      if b0 < 128 then 1
      else if 194 \<le> b0 \<and> b0 \<le> 223 then
        (case rest of c1 # _ \<Rightarrow> if cont lo hi (of_char c1) then 2 else 0 | _ \<Rightarrow> 0)
      else if 224 \<le> b0 \<and> b0 \<le> 239 then
        (case rest of c1 # c2 # _ \<Rightarrow>
           if cont lo hi (of_char c1) \<and> cont 128 191 (of_char c2) then 3 else 0 | _ \<Rightarrow> 0)
      else if 240 \<le> b0 \<and> b0 \<le> 244 then
        (case rest of c1 # c2 # c3 # _ \<Rightarrow>
           if cont lo hi (of_char c1) \<and> cont 128 191 (of_char c2) \<and> cont 128 191 (of_char c3)
           then 4 else 0 | _ \<Rightarrow> 0)
      else 0)"

definition replacement :: string where
  "replacement = [CHR 0xEF, CHR 0xBF, CHR 0xBD]"

function to_valid :: "bool \<Rightarrow> string \<Rightarrow> string" where
  "to_valid invalid s =
     (if s = [] then []
      else let w = rune_width s in
        if w = 0 then (if invalid then [] else replacement) @ to_valid True (drop 1 s)
        else take w s @ to_valid False (drop w s))"
  by pat_completeness auto
termination
  by (relation "measure (\<lambda>(i, s). length s)") auto

declare to_valid.simps [simp del]

definition ToValidUTF8 :: "string \<Rightarrow> string" where
  "ToValidUTF8 s = to_valid False s"

function valid_utf8 :: "string \<Rightarrow> bool" where
  "valid_utf8 s =
     (if s = [] then True
      else if rune_width s = 0 then False else valid_utf8 (drop (rune_width s) s))"
  by pat_completeness auto
termination
  by (relation "measure length") auto

declare valid_utf8.simps [simp del]

lemma rune_width_le: "rune_width s \<le> length s"
  by (cases s) (auto simp: Let_def split: list.splits prod.splits)

lemma rune_width_prefix:
  "rune_width s \<noteq> 0 \<Longrightarrow> rune_width (take (rune_width s) s @ t) = rune_width s"
  by (cases s) (auto simp: Let_def split: list.splits prod.splits if_splits)

lemma valid_utf8_cons:
  assumes "rune_width s \<noteq> 0" and "valid_utf8 t"
  shows "valid_utf8 (take (rune_width s) s @ t)"
proof -
  have "s \<noteq> []" using assms(1) by auto
  then show ?thesis
    using assms rune_width_prefix [OF assms(1), of t] rune_width_le [of s]
    by (subst valid_utf8.simps) simp
qed

lemma valid_replacement: "valid_utf8 t \<Longrightarrow> valid_utf8 (replacement @ t)"
  using valid_utf8_cons [of replacement t]
  by (simp add: replacement_def second_range_def cont_def)

lemma valid_to_valid: "valid_utf8 (to_valid i s)"
proof (induction i s rule: to_valid.induct)
  case (1 i s)
  consider "s = []" | "s \<noteq> []" "rune_width s = 0" | "s \<noteq> []" "rune_width s \<noteq> 0" by blast
  then show ?case
  proof cases
    case 1
    then show ?thesis by (simp add: to_valid.simps valid_utf8.simps)
  next
    case 2
    then show ?thesis using "1.IH"(1) by (subst to_valid.simps) (simp add: valid_replacement)
  next
    case 3
    then show ?thesis using "1.IH"(2) by (subst to_valid.simps) (simp add: valid_utf8_cons Let_def)
  qed
qed

lemma to_valid_id: "valid_utf8 s \<Longrightarrow> to_valid i s = s"
proof (induction i s rule: to_valid.induct)
  case (1 i s)
  then show ?case
    by (subst to_valid.simps, subst (asm) (3) valid_utf8.simps) (auto simp: Let_def split: if_splits)
qed

lemma valid_ToValidUTF8 [simp]: "valid_utf8 (ToValidUTF8 s)"
  by (simp add: ToValidUTF8_def valid_to_valid)

lemma ToValidUTF8_id [simp]: "valid_utf8 s \<Longrightarrow> ToValidUTF8 s = s"
  by (simp add: ToValidUTF8_def to_valid_id)

lemma to_valid_ascii: "list_all (\<lambda>c. (of_char c :: nat) < 128) s \<Longrightarrow> to_valid i s = s"
proof (induction s arbitrary: i)
  case Nil
  then show ?case by (simp add: to_valid.simps)
next
  case (Cons c s)
  have "rune_width (c # s) = 1" using Cons.prems by (simp add: Let_def split: prod.split)
  then show ?case using Cons by (subst to_valid.simps) simp
qed

section \<open>Encryption\<close>

text \<open>
  \<open>internal/encrypt\<close>: AES-256-GCM with a random 12-byte nonce in front. \<open>aes.NewCipher\<close>
  fails unless the key has 16, 24 or 32 bytes; the random nonce is an argument (\<open>None\<close>: the
  random source failed).
\<close>

definition NonceSize :: nat where
  "NonceSize = 12"

definition aes_key_ok :: "bytes \<Rightarrow> bool" where
  "aes_key_ok key \<longleftrightarrow> length key = 16 \<or> length key = 24 \<or> length key = 32"

definition encrypt_Seal :: "env \<Rightarrow> bytes option \<Rightarrow> bytes \<Rightarrow> bytes \<Rightarrow> bytes option" where
  "encrypt_Seal C rnd plaintext key =
     (if \<not> aes_key_ok key then None
      else case rnd of
        None \<Rightarrow> None
      | Some nonce \<Rightarrow> Some (nonce @ gcm_seal C key nonce plaintext))"

definition encrypt_Open :: "env \<Rightarrow> bytes \<Rightarrow> bytes \<Rightarrow> bytes option" where
  "encrypt_Open C ciphertext key =
     (if \<not> aes_key_ok key then None
      else if length ciphertext < NonceSize then None
      else gcm_open C key (take NonceSize ciphertext) (drop NonceSize ciphertext))"

section \<open>Laws of the environment\<close>

text \<open>
  A JSON round trip holds for entries whose strings are valid UTF-8 (\<open>json.Marshal\<close> replaces
  invalid bytes) and whose data is the compact text \<open>json.Marshal\<close> itself produces.
\<close>

definition wf_entry :: "env \<Rightarrow> entry \<Rightarrow> bool" where
  "wf_entry C e \<longleftrightarrow>
     valid_utf8 (eLevel e) \<and> valid_utf8 (eEvent e) \<and> valid_utf8 (eSource e) \<and>
     (case eData e of None \<Rightarrow> True | Some d \<Rightarrow> compact_json C d)"

definition env_ok :: "env \<Rightarrow> bool" where
  "env_ok C \<longleftrightarrow>
     (\<forall>k n p. gcm_open C k n (gcm_seal C k n p) = Some p) \<and>
     (\<forall>e b. wf_entry C e \<and> marshal_entry C e = Some b \<longrightarrow> unmarshal_entry C b = Some e) \<and>
     (\<forall>h. unmarshal_head C (marshal_head C h) = Some h)"

definition signer_ok :: "env \<Rightarrow> signer \<Rightarrow> bool" where
  "signer_ok C s \<longleftrightarrow>
     length (sgPublicKey s) = PublicKeySize \<and>
     (\<forall>m sig. sgSign s m = Some sig \<longrightarrow>
        length sig = SignatureSize \<and> ed_verify C (sgPublicKey s) m sig)"

lemma seal_open:
  assumes "env_ok C" "length nonce = NonceSize" "encrypt_Seal C (Some nonce) p key = Some b"
  shows "encrypt_Open C b key = Some p"
  using assms by (auto simp: encrypt_Seal_def encrypt_Open_def env_ok_def split: if_splits)

lemma seal_nonempty:
  "encrypt_Seal C (Some nonce) p key = Some b \<Longrightarrow> length nonce = NonceSize \<Longrightarrow> 0 < length b"
  by (auto simp: encrypt_Seal_def NonceSize_def split: if_splits)

end
