(* ===== verification/Sample_Env.thy ===== *)
theory Sample_Env
  imports Witness_Env
begin

text \<open>
  A concrete environment for the witnesses: a self-delimiting text for entries and heads,
  a cipher and a signature that only check their arguments. It shows that the laws
  \<open>env_ok\<close> and \<open>signer_ok\<close> can hold together; it models no code.
\<close>

fun enc_bytes :: "bytes \<Rightarrow> bytes" where
  "enc_bytes [] = [0]"
| "enc_bytes (b # bs) = 1 # b # enc_bytes bs"

fun dec_bytes :: "bytes \<Rightarrow> (bytes \<times> bytes) option" where
  "dec_bytes (t # r) =
     (if t = 0 then Some ([], r)
      else case r of [] \<Rightarrow> None
        | b # r' \<Rightarrow> map_option (\<lambda>(bs, r''). (b # bs, r'')) (dec_bytes r'))"
| "dec_bytes [] = None"

lemma dec_enc_bytes [simp]: "dec_bytes (enc_bytes bs @ r) = Some (bs, r)"
  by (induction bs) auto

definition string_of :: "bytes \<Rightarrow> string" where
  "string_of bs = map (\<lambda>b. char_of (unat b)) bs"

lemma unat_of_char: "unat (of_char c :: byte) = of_char c"
  by (cases c) (simp add: of_char_def horner_sum_simps split: if_splits)

lemma string_of_bytes_of [simp]: "string_of (bytes_of s) = s"
  by (simp add: string_of_def bytes_of_def unat_of_char o_def)

definition enc_string :: "string \<Rightarrow> bytes" where
  "enc_string s = enc_bytes (bytes_of s)"

definition dec_string :: "bytes \<Rightarrow> (string \<times> bytes) option" where
  "dec_string b = map_option (\<lambda>(bs, r). (string_of bs, r)) (dec_bytes b)"

lemma dec_enc_string [simp]: "dec_string (enc_string s @ r) = Some (s, r)"
  by (simp add: dec_string_def enc_string_def)

definition enc_u64 :: "u64 \<Rightarrow> bytes" where
  "enc_u64 w = put_u64 w"

definition dec_u64 :: "bytes \<Rightarrow> (u64 \<times> bytes) option" where
  "dec_u64 b = Some (word_of_nat (be_nat (take 8 b)), drop 8 b)"

lemma dec_enc_u64 [simp]: "dec_u64 (enc_u64 w @ r) = Some (w, r)"
proof -
  have "unat w < 256 ^ 8" using unsigned_less [of w, where 'a = nat] by simp
  then show ?thesis by (simp add: dec_u64_def enc_u64_def put_u64_def be_nat_be_bytes_id)
qed

text \<open>Integers in unary, with a sign.\<close>

definition enc_int :: "int \<Rightarrow> bytes" where
  "enc_int i = enc_bytes (replicate (nat \<bar>i\<bar>) (if i < 0 then 1 else 0))"

definition dec_int :: "bytes \<Rightarrow> (int \<times> bytes) option" where
  "dec_int b = map_option (\<lambda>(bs, r). ((if bs \<noteq> [] \<and> hd bs = 1 then -1 else 1) * int (length bs), r)) (dec_bytes b)"

lemma dec_enc_int [simp]: "dec_int (enc_int i @ r) = Some (i, r)"
  by (auto simp: dec_int_def enc_int_def)

definition enc_data :: "bytes option \<Rightarrow> bytes" where
  "enc_data d = (case d of None \<Rightarrow> [0] | Some b \<Rightarrow> 1 # enc_bytes b)"

definition dec_data :: "bytes \<Rightarrow> (bytes option \<times> bytes) option" where
  "dec_data b =
     (case b of [] \<Rightarrow> None
      | t # r \<Rightarrow> if t = 0 then Some (None, r) else map_option (\<lambda>(x, r'). (Some x, r')) (dec_bytes r))"

lemma dec_enc_data [simp]: "dec_data (enc_data d @ r) = Some (d, r)"
  by (cases d) (auto simp: enc_data_def dec_data_def)

definition sample_enc_entry :: "entry \<Rightarrow> bytes" where
  "sample_enc_entry e =
     1 # enc_u64 (eSeq e) @ enc_int (eTimestamp e) @ enc_string (eLevel e) @ enc_string (eEvent e) @
     enc_string (eSource e) @ enc_data (eData e)"

definition sample_dec_entry :: "bytes \<Rightarrow> entry option" where
  "sample_dec_entry b =
     Option.bind (dec_u64 (drop 1 b)) (\<lambda>(s, r). Option.bind (dec_int r) (\<lambda>(t, r).
     Option.bind (dec_string r) (\<lambda>(l, r). Option.bind (dec_string r) (\<lambda>(ev, r).
     Option.bind (dec_string r) (\<lambda>(so, r). Option.bind (dec_data r) (\<lambda>(d, r).
       Some \<lparr>eSeq = s, eTimestamp = t, eLevel = l, eEvent = ev, eSource = so, eData = d\<rparr>))))))"

lemma sample_entry_roundtrip: "sample_dec_entry (sample_enc_entry e) = Some e"
  using dec_enc_data [of "eData e" "[]"] by (simp add: sample_dec_entry_def sample_enc_entry_def)

definition sample_enc_head :: "tree_head \<Rightarrow> bytes" where
  "sample_enc_head h =
     enc_u64 (thSize h) @ enc_string (thRoot h) @ enc_string (thPrevRoot h) @ enc_string (thTimestamp h) @
     enc_string (thMAC h) @ enc_string (thSignature h) @ enc_string (thSignerKey h)"

definition sample_dec_head :: "bytes \<Rightarrow> tree_head option" where
  "sample_dec_head b =
     Option.bind (dec_u64 b) (\<lambda>(n, r). Option.bind (dec_string r) (\<lambda>(ro, r).
     Option.bind (dec_string r) (\<lambda>(pr, r). Option.bind (dec_string r) (\<lambda>(ts, r).
     Option.bind (dec_string r) (\<lambda>(m, r). Option.bind (dec_string r) (\<lambda>(sg, r).
     Option.bind (dec_string r) (\<lambda>(k, r).
       Some \<lparr>thSize = n, thRoot = ro, thPrevRoot = pr, thTimestamp = ts, thMAC = m,
             thSignature = sg, thSignerKey = k\<rparr>)))))))"

lemma sample_head_roundtrip: "sample_dec_head (sample_enc_head h) = Some h"
  using dec_enc_string [of "thSignerKey h" "[]"] by (simp add: sample_dec_head_def sample_enc_head_def)

definition sample_env :: env where
  "sample_env =
     \<lparr>blake3 = (\<lambda>x. x), blake3_keyed = (\<lambda>k x. x), sha256 = (\<lambda>x. copy32 x),
      ed_verify = (\<lambda>pub m sig. sig = pub @ pub),
      gcm_seal = (\<lambda>k n p. p), gcm_open = (\<lambda>k n c. Some c),
      marshal_entry = (\<lambda>e. Some (sample_enc_entry e)), unmarshal_entry = sample_dec_entry,
      marshal_head = sample_enc_head, unmarshal_head = sample_dec_head,
      compact_json = (\<lambda>b. True)\<rparr>"

definition sample_key :: bytes where
  "sample_key = replicate 32 7"

definition sample_signer :: signer where
  "sample_signer = \<lparr>sgSign = (\<lambda>m. Some (replicate 64 5)), sgPublicKey = replicate 32 5\<rparr>"

lemma sample_env_ok: "env_ok sample_env"
  by (simp add: env_ok_def sample_env_def sample_entry_roundtrip sample_head_roundtrip)

lemma sample_signer_ok: "signer_ok sample_env sample_signer"
  by (simp add: signer_ok_def sample_env_def sample_signer_def PublicKeySize_def SignatureSize_def
      flip: replicate_add)

end
