(* ===== verification/Gossip.thy ===== *)
theory Gossip
  imports Sample_Env "HOL-Library.AList" "HOL-Library.Signed_Division"
begin

text \<open>
  The heartbeat mesh of \<open>internal/gossip\<close>: the wire format, the peer list, sending, the
  handling of packets and the watch over silent peers. The JSON texts of the messages are the
  parameter \<open>gossip_codec\<close>; the network delivers whatever bytes it likes.
\<close>

section \<open>Wire format\<close>

definition packetMagic :: u32 where
  "packetMagic = 0x57495453"

definition maxPacketBytes :: nat where
  "maxPacketBytes = 512"

text \<open>\<open>copy\<close> of the signature into the last 64 bytes of the zeroed buffer.\<close>

definition encodePacket :: "bytes \<Rightarrow> bytes \<Rightarrow> bytes" where
  "encodePacket payload sig =
     put_u32 packetMagic @ put_u32 (word_of_nat (length payload)) @ payload @
     take SignatureSize sig @ replicate (SignatureSize - length sig) 0"

datatype packet_error = TooShort | BadMagic | LengthMismatch

definition decodePacket :: "bytes \<Rightarrow> packet_error + (bytes \<times> bytes)" where
  "decodePacket data =
     (if length data < 4 + 4 + SignatureSize then Inl TooShort
      else if get_u32 (take 4 data) \<noteq> packetMagic then Inl BadMagic
      else let payLen = unat (get_u32 (take 4 (drop 4 data))) in
        if 8 + payLen + SignatureSize \<noteq> length data then Inl LengthMismatch
        else Inr (take payLen (drop 8 data), drop (8 + payLen) data))"

section \<open>Peers\<close>

record peer =
  prLabel :: string
  prAddr :: string
  prPubKey :: bytes

datatype peer_error = LabelExists | PubKeyExists | PeerNotFound | SaveFailed | InvalidPubKey

record peer_wire =
  pwLabel :: string
  pwAddr :: string
  pwPubKey :: string

definition Peer_Marshal :: "peer \<Rightarrow> peer_wire" where
  "Peer_Marshal p = \<lparr>pwLabel = prLabel p, pwAddr = prAddr p, pwPubKey = hex_encode (prPubKey p)\<rparr>"

definition Peer_Unmarshal :: "peer_wire \<Rightarrow> peer_error + peer" where
  "Peer_Unmarshal w =
     (case hex_decode (pwPubKey w) of
        None \<Rightarrow> Inl InvalidPubKey
      | Some b \<Rightarrow> if length b \<noteq> PublicKeySize then Inl InvalidPubKey
                  else Inr \<lparr>prLabel = pwLabel w, prAddr = pwAddr w, prPubKey = b\<rparr>)"

record peer_store =
  psPeers :: "peer list"
  psDisk :: "peer_wire list option"

text \<open>\<open>save\<close> writes a temporary file and renames it; the flag says whether that worked.\<close>

definition save_peers :: "bool \<Rightarrow> peer_store \<Rightarrow> peer_error option \<times> peer_store" where
  "save_peers ok ps =
     (if ok then (None, ps\<lparr>psDisk := Some (map Peer_Marshal (psPeers ps))\<rparr>) else (Some SaveFailed, ps))"

fun findDuplicate :: "peer \<Rightarrow> peer list \<Rightarrow> peer_error option" where
  "findDuplicate p [] = None"
| "findDuplicate p (e # es) =
     (if prLabel e = prLabel p then Some LabelExists
      else if prPubKey e = prPubKey p then Some PubKeyExists
      else findDuplicate p es)"

definition Add :: "bool \<Rightarrow> peer_store \<Rightarrow> peer \<Rightarrow> peer_error option \<times> peer_store" where
  "Add ok ps p =
     (case findDuplicate p (psPeers ps) of
        Some err \<Rightarrow> (Some err, ps)
      | None \<Rightarrow> save_peers ok (ps\<lparr>psPeers := psPeers ps @ [p]\<rparr>))"

definition Remove :: "bool \<Rightarrow> peer_store \<Rightarrow> string \<Rightarrow> peer_error option \<times> peer_store" where
  "Remove ok ps label =
     (let filtered = filter (\<lambda>p. prLabel p \<noteq> label) (psPeers ps) in
      if length filtered = length (psPeers ps) then (Some PeerNotFound, ps)
      else save_peers ok (ps\<lparr>psPeers := filtered\<rparr>))"

section \<open>Nodes\<close>

datatype PeerStatus = PeerAlive | PeerSilent | PeerPresumedCompromised

record peer_state =
  stPeer :: peer
  stLastSeen :: time
  stLastSeq :: u64
  stStatus :: PeerStatus

record node_config =
  ncSigner :: "signer option"
  ncPeers :: "peer list"
  ncListenAddr :: string
  ncInterval :: int
  ncMissedThreshold :: int
  ncDeathThreshold :: int

record node =
  ndSigner :: "signer option"
  ndPeers :: "peer list"
  ndListenOn :: string
  ndInterval :: int
  ndMissed :: int
  ndDeath :: int
  ndStates :: "(string \<times> peer_state) list"
  ndSeq :: u64

definition initStates :: "time \<Rightarrow> peer list \<Rightarrow> (string \<times> peer_state) list" where
  "initStates now peers =
     foldl (\<lambda>m p. AList.update (hex_encode (prPubKey p))
              \<lparr>stPeer = p, stLastSeen = now, stLastSeq = 0, stStatus = PeerAlive\<rparr> m) [] peers"

definition NewNode :: "node_config \<Rightarrow> time \<Rightarrow> node" where
  "NewNode cfg now =
     \<lparr>ndSigner = ncSigner cfg, ndPeers = ncPeers cfg,
      ndListenOn = (if ncListenAddr cfg = [] then '':9273'' else ncListenAddr cfg),
      ndInterval = (if ncInterval cfg = 0 then 30 * 10 ^ 9 else ncInterval cfg),
      ndMissed = (if ncMissedThreshold cfg = 0 then 3 else ncMissedThreshold cfg),
      ndDeath = (if ncDeathThreshold cfg = 0 then 6 else ncDeathThreshold cfg),
      ndStates = initStates now (ncPeers cfg), ndSeq = 0\<rparr>"

record heartbeat_msg =
  hbType :: string
  hbPeerID :: string
  hbSeq :: u64
  hbTs :: string
  hbNonce :: string

record death_report =
  drType :: string
  drMachineID :: string
  drPeerID :: string
  drReason :: string
  drTs :: string
  drSeq :: u64

text \<open>\<open>gc_header\<close> reads the two fields \<open>peer_id\<close> and \<open>seq\<close> out of any payload.\<close>

record gossip_codec =
  gc_heartbeat :: "heartbeat_msg \<Rightarrow> bytes option"
  gc_death :: "death_report \<Rightarrow> bytes option"
  gc_header :: "bytes \<Rightarrow> (string \<times> u64) option"

text \<open>The packets sent, one per peer that can be reached, in order.\<close>

definition sendHeartbeat ::
  "gossip_codec \<Rightarrow> node \<Rightarrow> string \<Rightarrow> bytes \<Rightarrow> (peer \<Rightarrow> bool) \<Rightarrow> node \<times> (peer \<times> bytes) list" where
  "sendHeartbeat G n now nonce reachable =
     (case ndSigner n of
        None \<Rightarrow> (n, [])
      | Some s \<Rightarrow>
          (let n' = n\<lparr>ndSeq := ndSeq n + 1\<rparr>;
               msg = \<lparr>hbType = ''heartbeat'', hbPeerID = hex_encode (sgPublicKey s), hbSeq = ndSeq n',
                      hbTs = now, hbNonce = hex_encode nonce\<rparr>
           in case gc_heartbeat G msg of
                None \<Rightarrow> (n', [])
              | Some payload \<Rightarrow>
                  (case sgSign s payload of
                     None \<Rightarrow> (n', [])
                   | Some sig \<Rightarrow> (n', map (\<lambda>p. (p, encodePacket payload sig)) (filter reachable (ndPeers n))))))"

definition BroadcastDeath ::
  "gossip_codec \<Rightarrow> peer list \<Rightarrow> signer option \<Rightarrow> string \<Rightarrow> string \<Rightarrow> u64 \<Rightarrow> string \<Rightarrow> (peer \<Rightarrow> bool) \<Rightarrow>
   (peer \<times> bytes) list" where
  "BroadcastDeath G peers s machineID reason sq now reachable =
     (case s of
        None \<Rightarrow> []
      | Some sg \<Rightarrow>
          if peers = [] then []
          else (case gc_death G \<lparr>drType = ''death'', drMachineID = machineID, drPeerID = hex_encode (sgPublicKey sg),
                                 drReason = reason, drTs = now, drSeq = sq\<rparr> of
                  None \<Rightarrow> []
                | Some payload \<Rightarrow>
                    (case sgSign sg payload of
                       None \<Rightarrow> []
                     | Some sig \<Rightarrow> map (\<lambda>p. (p, encodePacket payload sig)) (filter reachable peers))))"

definition handlePacket :: "env \<Rightarrow> gossip_codec \<Rightarrow> node \<Rightarrow> time \<Rightarrow> bytes \<Rightarrow> node" where
  "handlePacket C G n now data =
     (case decodePacket data of
        Inl _ \<Rightarrow> n
      | Inr (payload, sig) \<Rightarrow>
          (case gc_header G payload of
             None \<Rightarrow> n
           | Some (peerID, sq) \<Rightarrow>
               if peerID = [] then n
               else case hex_decode peerID of
                 None \<Rightarrow> n
               | Some pub \<Rightarrow>
                   if length pub \<noteq> PublicKeySize then n
                   else case map_of (ndStates n) peerID of
                     None \<Rightarrow> n
                   | Some st \<Rightarrow>
                       if \<not> ed_verify C pub payload sig then n
                       else if sq \<le> stLastSeq st then n
                       else n\<lparr>ndStates := AList.update peerID
                              (st\<lparr>stLastSeen := now, stLastSeq := sq, stStatus := PeerAlive\<rparr>) (ndStates n)\<rparr>))"

text \<open>\<open>recvLoop\<close> cuts a datagram to its buffer before handling it.\<close>

definition recvPacket :: "env \<Rightarrow> gossip_codec \<Rightarrow> node \<Rightarrow> time \<Rightarrow> bytes \<Rightarrow> node" where
  "recvPacket C G n now data = handlePacket C G n now (take maxPacketBytes data)"

definition missedIntervals :: "node \<Rightarrow> time \<Rightarrow> peer_state \<Rightarrow> int" where
  "missedIntervals n now st = (now - stLastSeen st) sdiv ndInterval n"

text \<open>The verdict on one peer: its new state and the callback it triggers.\<close>

datatype alarm = NoAlarm | Silent | Dead

definition checkPeer :: "node \<Rightarrow> time \<Rightarrow> peer_state \<Rightarrow> peer_state \<times> alarm" where
  "checkPeer n now st =
     (let missed = missedIntervals n now st in
      if ndDeath n \<le> missed \<and> stStatus st \<noteq> PeerPresumedCompromised
      then (st\<lparr>stStatus := PeerPresumedCompromised\<rparr>, Dead)
      else if ndMissed n \<le> missed \<and> stStatus st = PeerAlive
      then (st\<lparr>stStatus := PeerSilent\<rparr>, Silent)
      else (st, NoAlarm))"

definition checkPeers :: "node \<Rightarrow> time \<Rightarrow> node \<times> peer list \<times> peer list" where
  "checkPeers n now =
     (let verdicts = map (\<lambda>(i, st). (i, checkPeer n now st)) (ndStates n) in
      (n\<lparr>ndStates := map (\<lambda>(i, st, _). (i, st)) verdicts\<rparr>,
       map (\<lambda>(_, st, _). stPeer st) (filter (\<lambda>(_, _, a). a = Silent) verdicts),
       map (\<lambda>(_, st, _). stPeer st) (filter (\<lambda>(_, _, a). a = Dead) verdicts)))"

definition PeerStatuses :: "node \<Rightarrow> (string \<times> PeerStatus) list" where
  "PeerStatuses n = map (\<lambda>(i, st). (i, stStatus st)) (ndStates n)"

section \<open>Packets\<close>

lemma be_bytes_be_nat: "length b = k \<Longrightarrow> be_bytes k (be_nat b) = b"
proof (induction k arbitrary: b)
  case 0
  then show ?case by simp
next
  case (Suc k)
  then obtain c x where b: "b = c @ [x]" "length c = k" by (cases b rule: rev_cases) auto
  have "unat x < 256" using unsigned_less [of x, where 'a = nat] by simp
  then have "(be_nat c * 256 + unat x) div 256 = be_nat c" by simp
  moreover have "word_of_nat (be_nat c * 256 + unat x) = (x :: byte)"
  proof -
    have "(256 :: byte) = 0" by simp
    then show ?thesis by (simp only: of_nat_add of_nat_mult of_nat_numeral mult_zero_right add_0 of_nat_unat ucast_id)
  qed
  ultimately show ?case using Suc.IH [OF b(2)] by (simp add: b(1) be_nat_snoc)
qed

lemma be_nat_less: "be_nat b < 256 ^ length b"
proof (induction b rule: rev_induct)
  case Nil
  then show ?case by (simp add: be_nat_def)
next
  case (snoc x b)
  have "unat x < 256" using unsigned_less [of x, where 'a = nat] by simp
  moreover have "Suc (be_nat b) * 256 \<le> 256 ^ length b * 256" using snoc by (intro mult_le_mono1) simp
  ultimately show ?case by (simp add: be_nat_snoc)
qed

lemma put_get_u32: "length b = 4 \<Longrightarrow> put_u32 (get_u32 b) = b"
proof -
  assume len: "length b = 4"
  have "be_nat b < 256 ^ 4" using be_nat_less [of b] len by simp
  then show ?thesis using be_bytes_be_nat [OF len] by (simp add: put_u32_def get_u32_def unat_of_nat)
qed

lemma decode_encodePacket:
  assumes "length sig = SignatureSize" "length payload < 2 ^ 32"
  shows "decodePacket (encodePacket payload sig) = Inr (payload, sig)"
proof -
  have "unat (word_of_nat (length payload) :: u32) = length payload" using assms(2) by (simp add: unat_of_nat)
  then show ?thesis using assms by (simp add: decodePacket_def encodePacket_def Let_def)
qed

lemma encode_decodePacket:
  assumes "decodePacket data = Inr (payload, sig)"
  shows "encodePacket payload sig = data \<and> length sig = SignatureSize \<and> length payload < 2 ^ 32"
proof -
  let ?n = "unat (get_u32 (take 4 (drop 4 data)))"
  have d: "4 + 4 + SignatureSize \<le> length data" "get_u32 (take 4 data) = packetMagic"
      "8 + ?n + SignatureSize = length data" "payload = take ?n (drop 8 data)" "sig = drop (8 + ?n) data"
    using assms by (auto simp: decodePacket_def Let_def split: if_splits)
  have magic: "put_u32 packetMagic = take 4 data" using d(1,2) put_get_u32 [of "take 4 data"] by simp
  have len: "put_u32 (word_of_nat ?n) = take 4 (drop 4 data)"
    using d(1) put_get_u32 [of "take 4 (drop 4 data)"] by simp
  have "take 4 data @ take 4 (drop 4 data) @ take ?n (drop 8 data) @ drop (8 + ?n) data = data"
  proof -
    have "take ?n (drop 8 data) @ drop (8 + ?n) data = drop 8 data"
      by (metis append_take_drop_id drop_drop add.commute)
    moreover have "take 4 (drop 4 data) @ drop 8 data = drop 4 data"
      using append_take_drop_id [of 4 "drop 4 data"] by simp
    ultimately show ?thesis by simp
  qed
  moreover have "length payload = ?n" "length sig = SignatureSize" using d by simp_all
  moreover have "?n < 2 ^ 32" using unsigned_less [of "get_u32 (take 4 (drop 4 data))", where 'a = nat] by simp
  ultimately show ?thesis using magic len d(4,5) by (simp add: encodePacket_def)
qed

text \<open>
  The wire format is exact: a packet decodes to the payload and the signature
  it was built from, and whatever bytes decode at all are the packet of exactly those parts.
\<close>

lemma packet_roundtrip:
  "(length sig = SignatureSize \<and> length payload < 2 ^ 32 \<longrightarrow>
      decodePacket (encodePacket payload sig) = Inr (payload, sig)) \<and>
   (decodePacket data = Inr (payload', sig') \<longrightarrow> encodePacket payload' sig' = data)"
  using decode_encodePacket encode_decodePacket by blast

lemma packet_roundtrip_witness:
  "decodePacket (encodePacket [1, 2] (replicate 64 5)) = Inr ([1, 2], replicate 64 5)"
  using packet_roundtrip [of "replicate 64 5" "[1, 2]"] by (simp add: SignatureSize_def)

section \<open>Replay\<close>

text \<open>What only grows: no peer is forgotten and no sequence number falls back.\<close>

definition node_le :: "node \<Rightarrow> node \<Rightarrow> bool" where
  "node_le n n' \<longleftrightarrow>
     (\<forall>i. rel_option (\<lambda>st st'. stPeer st' = stPeer st \<and> stLastSeq st \<le> stLastSeq st')
        (map_of (ndStates n) i) (map_of (ndStates n') i))"

lemma node_le_refl: "node_le n n"
  by (simp add: node_le_def option.rel_refl)

text \<open>
  The sender and sequence number of a packet that passes every check but the last one, and
  packets that no longer have an effect on the node.
\<close>

definition authentic :: "env \<Rightarrow> gossip_codec \<Rightarrow> node \<Rightarrow> bytes \<Rightarrow> (string \<times> u64) option" where
  "authentic C G n data =
     (case decodePacket data of
        Inl _ \<Rightarrow> None
      | Inr (payload, sig) \<Rightarrow>
          (case gc_header G payload of
             None \<Rightarrow> None
           | Some (i, sq) \<Rightarrow>
               (case hex_decode i of
                  None \<Rightarrow> None
                | Some pub \<Rightarrow>
                    if i \<noteq> [] \<and> length pub = PublicKeySize \<and> map_of (ndStates n) i \<noteq> None \<and> ed_verify C pub payload sig
                    then Some (i, sq) else None)))"

lemma handlePacket_authentic:
  "handlePacket C G n now data =
     (case authentic C G n data of
        None \<Rightarrow> n
      | Some (i, sq) \<Rightarrow>
          (let st = the (map_of (ndStates n) i) in
           if sq \<le> stLastSeq st then n
           else n\<lparr>ndStates := AList.update i (st\<lparr>stLastSeen := now, stLastSeq := sq, stStatus := PeerAlive\<rparr>)
                   (ndStates n)\<rparr>))"
  by (auto simp: handlePacket_def authentic_def Let_def split: sum.splits option.splits)

lemma authentic_known: "authentic C G n data = Some (i, sq) \<Longrightarrow> \<exists>st. map_of (ndStates n) i = Some st"
  by (auto simp: authentic_def split: sum.splits option.splits if_splits)

lemma node_leD:
  "node_le n n' \<Longrightarrow> rel_option (\<lambda>st st'. stPeer st' = stPeer st \<and> stLastSeq st \<le> stLastSeq st')
     (map_of (ndStates n) i) (map_of (ndStates n') i)"
  unfolding node_le_def by blast

lemma node_le_trans:
  assumes "node_le a b" "node_le b c"
  shows "node_le a c"
  unfolding node_le_def
proof
  fix i
  show "rel_option (\<lambda>st st'. stPeer st' = stPeer st \<and> stLastSeq st \<le> stLastSeq st')
      (map_of (ndStates a) i) (map_of (ndStates c) i)"
    using node_leD [OF assms(1), of i] node_leD [OF assms(2), of i] by (auto elim!: option.rel_cases)
qed

lemma node_le_known: "node_le n n' \<Longrightarrow> map_of (ndStates n) i = None \<longleftrightarrow> map_of (ndStates n') i = None"
  using node_leD [of n n' i] by (auto elim: option.rel_cases)

lemma node_le_authentic:
  assumes "node_le n n'"
  shows "authentic C G n' data = authentic C G n data"
proof -
  have known: "(map_of (ndStates n') i \<noteq> None) = (map_of (ndStates n) i \<noteq> None)" for i
    by (simp only: node_le_known [OF assms])
  show ?thesis unfolding authentic_def known ..
qed

definition stale :: "env \<Rightarrow> gossip_codec \<Rightarrow> node \<Rightarrow> bytes \<Rightarrow> bool" where
  "stale C G n data \<longleftrightarrow>
     (\<forall>i sq. authentic C G n data = Some (i, sq) \<longrightarrow> sq \<le> stLastSeq (the (map_of (ndStates n) i)))"

lemma stale_ignored: "stale C G n data \<Longrightarrow> handlePacket C G n now data = n"
  by (auto simp: stale_def handlePacket_authentic split: option.splits)

lemma handlePacket_le: "node_le n (handlePacket C G n now data)"
proof (cases "handlePacket C G n now data = n")
  case True
  then show ?thesis by (simp add: node_le_refl)
next
  case False
  then obtain i sq where a: "authentic C G n data = Some (i, sq)"
      "\<not> sq \<le> stLastSeq (the (map_of (ndStates n) i))"
    by (auto simp: handlePacket_authentic Let_def split: option.splits if_splits)
  obtain st where "map_of (ndStates n) i = Some st" using authentic_known [OF a(1)] by blast
  then show ?thesis
    using a by (auto simp: node_le_def handlePacket_authentic Let_def update_conv' option.rel_refl)
qed

lemma handled_stale: "stale C G (handlePacket C G n now data) data"
proof -
  let ?n = "handlePacket C G n now data"
  have auth: "authentic C G ?n data = authentic C G n data" by (rule node_le_authentic [OF handlePacket_le])
  show ?thesis
    unfolding stale_def auth
    by (auto simp: handlePacket_authentic Let_def update_conv')
qed

lemma stale_mono:
  assumes "stale C G n data" "node_le n n'"
  shows "stale C G n' data"
  unfolding stale_def
proof (intro allI impI)
  fix i sq
  assume "authentic C G n' data = Some (i, sq)"
  then have a: "authentic C G n data = Some (i, sq)" using node_le_authentic [OF assms(2)] by simp
  obtain st where st: "map_of (ndStates n) i = Some st" using authentic_known [OF a] by blast
  then obtain st' where "map_of (ndStates n') i = Some st'" "stLastSeq st \<le> stLastSeq st'"
    using node_leD [OF assms(2), of i] by (auto elim: option.rel_cases)
  then show "sq \<le> stLastSeq (the (map_of (ndStates n') i))"
    using assms(1) a st unfolding stale_def by (metis option.sel order_trans)
qed

lemma checkPeer_le: "stPeer (fst (checkPeer n now st)) = stPeer st \<and> stLastSeq (fst (checkPeer n now st)) = stLastSeq st"
  by (simp add: checkPeer_def Let_def)

lemma checkPeers_states: "ndStates (fst (checkPeers n now)) = map (\<lambda>(i, st). (i, fst (checkPeer n now st))) (ndStates n)"
  by (simp add: checkPeers_def Let_def split_beta)

lemma map_of_checkPeers:
  "map_of (ndStates (fst (checkPeers n now))) i = map_option (\<lambda>st. fst (checkPeer n now st)) (map_of (ndStates n) i)"
  unfolding checkPeers_states by (simp add: map_of_map)

lemma checkPeers_le: "node_le n (fst (checkPeers n now))"
  by (simp add: node_le_def map_of_checkPeers option.rel_map checkPeer_le option.rel_refl)

datatype node_event = Packet time bytes | Tick time

fun node_step :: "env \<Rightarrow> gossip_codec \<Rightarrow> node \<Rightarrow> node_event \<Rightarrow> node" where
  "node_step C G n (Packet now data) = recvPacket C G n now data"
| "node_step C G n (Tick now) = fst (checkPeers n now)"

lemma run_le: "node_le n (foldl (node_step C G) n evs)"
proof (induction evs arbitrary: n)
  case (Cons ev evs)
  have "node_le n (node_step C G n ev)"
    by (cases ev) (simp_all add: handlePacket_le recvPacket_def checkPeers_le)
  then show ?case using Cons.IH node_le_trans by fastforce
qed (simp add: node_le_refl)

text \<open>
  Property C37. A packet counts at most once, and only from a peer: a packet changes the
  node only if it carries a signature that verifies under the key of a configured peer, over
  a payload with a sequence number above the last one accepted from that peer; and once it
  was handled, the same packet never has an effect again, whatever happens in between.
\<close>

theorem packet_counts_once:
  "(handlePacket C G n now data \<noteq> n \<longrightarrow>
     (\<exists>payload sig i sq pub st. decodePacket data = Inr (payload, sig) \<and> gc_header G payload = Some (i, sq) \<and>
        hex_decode i = Some pub \<and> ed_verify C pub payload sig \<and> map_of (ndStates n) i = Some st \<and>
        stLastSeq st < sq)) \<and>
   (let n' = foldl (node_step C G) (handlePacket C G n now data) evs in handlePacket C G n' later data = n')"
proof
  show "handlePacket C G n now data \<noteq> n \<longrightarrow>
     (\<exists>payload sig i sq pub st. decodePacket data = Inr (payload, sig) \<and> gc_header G payload = Some (i, sq) \<and>
        hex_decode i = Some pub \<and> ed_verify C pub payload sig \<and> map_of (ndStates n) i = Some st \<and>
        stLastSeq st < sq)"
    by (auto simp: handlePacket_def not_le split: sum.splits option.splits if_splits)
  have "stale C G (foldl (node_step C G) (handlePacket C G n now data) evs) data"
    by (rule stale_mono [OF handled_stale run_le])
  then show "let n' = foldl (node_step C G) (handlePacket C G n now data) evs in handlePacket C G n' later data = n'"
    by (simp add: stale_ignored)
qed

definition sample_peer :: peer where
  "sample_peer = \<lparr>prLabel = ''p'', prAddr = ''h:1'', prPubKey = replicate 32 5\<rparr>"

definition sample_node :: node where
  "sample_node = NewNode \<lparr>ncSigner = None, ncPeers = [sample_peer], ncListenAddr = [], ncInterval = 10,
     ncMissedThreshold = 0, ncDeathThreshold = 0\<rparr> 0"

definition sample_gossip :: gossip_codec where
  "sample_gossip = \<lparr>gc_heartbeat = (\<lambda>m. Some []), gc_death = (\<lambda>m. Some []),
     gc_header = (\<lambda>b. Some (hex_encode (replicate 32 5), 1))\<rparr>"

lemma sample_node_state:
  "map_of (ndStates sample_node) (hex_encode (replicate 32 5)) =
     Some \<lparr>stPeer = sample_peer, stLastSeen = 0, stLastSeq = 0, stStatus = PeerAlive\<rparr>"
  by (simp add: sample_node_def NewNode_def initStates_def sample_peer_def)

lemma sample_authentic:
  "authentic sample_env sample_gossip sample_node (encodePacket [] (replicate 64 5)) =
     Some (hex_encode (replicate 32 5), 1)"
proof -
  have "decodePacket (encodePacket [] (replicate 64 5)) = Inr ([], replicate 64 5)"
    by (rule decode_encodePacket) (simp_all add: SignatureSize_def)
  moreover have "ed_verify sample_env (replicate 32 5) [] (replicate 64 5)"
    by (simp add: sample_env_def flip: replicate_add)
  moreover have "gc_header sample_gossip [] = Some (hex_encode (replicate 32 5), 1)" by (simp add: sample_gossip_def)
  ultimately show ?thesis by (simp add: authentic_def sample_node_state PublicKeySize_def)
qed

theorem packet_counts_once_witness:
  "handlePacket sample_env sample_gossip sample_node 7 (encodePacket [] (replicate 64 5)) \<noteq> sample_node \<and>
   (let n' = foldl (node_step sample_env sample_gossip)
       (handlePacket sample_env sample_gossip sample_node 7 (encodePacket [] (replicate 64 5))) [Tick 9]
    in handlePacket sample_env sample_gossip n' 11 (encodePacket [] (replicate 64 5)) = n')"
proof
  have "map_of (ndStates (handlePacket sample_env sample_gossip sample_node 7 (encodePacket [] (replicate 64 5))))
      (hex_encode (replicate 32 5)) \<noteq> map_of (ndStates sample_node) (hex_encode (replicate 32 5))"
    by (simp add: handlePacket_authentic sample_authentic sample_node_state update_conv')
  then show "handlePacket sample_env sample_gossip sample_node 7 (encodePacket [] (replicate 64 5)) \<noteq> sample_node"
    by auto
qed (use packet_counts_once in blast)

section \<open>Watching\<close>

text \<open>The alarms one peer causes at successive checks while nothing is heard from it.\<close>

fun peer_alarms :: "node \<Rightarrow> time list \<Rightarrow> peer_state \<Rightarrow> alarm list" where
  "peer_alarms n [] st = []"
| "peer_alarms n (t # ts) st = (case checkPeer n t st of (st', a) \<Rightarrow> a # peer_alarms n ts st')"

lemma peer_alarms_dead: "stStatus st = PeerPresumedCompromised \<Longrightarrow> filter (\<lambda>a. a \<noteq> NoAlarm) (peer_alarms n ts st) = []"
  by (induction ts arbitrary: st) (auto simp: checkPeer_def Let_def)

lemma peer_alarms_silent:
  "stStatus st = PeerSilent \<Longrightarrow> filter (\<lambda>a. a \<noteq> NoAlarm) (peer_alarms n ts st) \<in> {[], [Dead]}"
  by (induction ts arbitrary: st) (auto simp: checkPeer_def Let_def peer_alarms_dead)

lemma checkPeer_cases:
  "checkPeer n t st = (st, NoAlarm) \<or> checkPeer n t st = (st\<lparr>stStatus := PeerSilent\<rparr>, Silent) \<or>
   checkPeer n t st = (st\<lparr>stStatus := PeerPresumedCompromised\<rparr>, Dead)"
  by (simp add: checkPeer_def Let_def)

lemma peer_alarms_once:
  "filter (\<lambda>a. a \<noteq> NoAlarm) (peer_alarms n ts st) \<in> {[], [Silent], [Dead], [Silent, Dead]}"
proof (induction ts arbitrary: st)
  case (Cons t ts)
  show ?case
    using checkPeer_cases [of n t st]
  proof (elim disjE, goal_cases)
    case 1
    then show ?thesis using Cons.IH [of st] by simp
  next
    case 2
    then show ?thesis using peer_alarms_silent [of "st\<lparr>stStatus := PeerSilent\<rparr>" n ts] by auto
  next
    case 3
    then show ?thesis by (simp add: peer_alarms_dead)
  qed
qed simp

lemma sdiv_nonneg: "0 \<le> a \<Longrightarrow> 0 < b \<Longrightarrow> (a::int) sdiv b = a div b"
  by (auto simp: signed_divide_int_def sgn_if)

lemma missed_at_least:
  assumes "0 < ndInterval n" "0 \<le> k" "k * ndInterval n \<le> now - stLastSeen st"
  shows "k \<le> missedIntervals n now st"
proof -
  have "0 \<le> now - stLastSeen st" using assms by (meson mult_nonneg_nonneg order.strict_implies_order order_trans)
  then show ?thesis
    using assms zdiv_mono1 [OF assms(3,1)] by (simp add: missedIntervals_def sdiv_nonneg)
qed

lemma missed_below:
  assumes "0 < ndInterval n" "0 \<le> now - stLastSeen st" "now - stLastSeen st < k * ndInterval n"
  shows "missedIntervals n now st < k"
proof (rule ccontr)
  let ?d = "now - stLastSeen st" and ?b = "ndInterval n"
  assume "\<not> missedIntervals n now st < k"
  then have "k * ?b \<le> (?d div ?b) * ?b"
    using assms(1,2) by (intro mult_right_mono) (simp_all add: missedIntervals_def sdiv_nonneg)
  also have "\<dots> \<le> ?d" using assms(1) by (simp flip: minus_mod_eq_div_mult)
  finally show False using assms(3) by simp
qed



section \<open>The peer list\<close>

definition peers_inv :: "peer_store \<Rightarrow> bool" where
  "peers_inv ps \<longleftrightarrow> distinct (map prLabel (psPeers ps)) \<and> distinct (map prPubKey (psPeers ps))"

lemma findDuplicate_None:
  "findDuplicate p es = None \<longleftrightarrow> prLabel p \<notin> prLabel ` set es \<and> prPubKey p \<notin> prPubKey ` set es"
  by (induction es) auto

lemma Add_inv: "peers_inv ps \<Longrightarrow> peers_inv (snd (Add ok ps p))"
  by (auto simp: Add_def save_peers_def peers_inv_def findDuplicate_None split: option.splits)

lemma Remove_inv: "peers_inv ps \<Longrightarrow> peers_inv (snd (Remove ok ps label))"
  by (auto simp: Remove_def save_peers_def peers_inv_def Let_def distinct_map_filter)

lemma Peer_roundtrip: "length (prPubKey p) = PublicKeySize \<Longrightarrow> Peer_Unmarshal (Peer_Marshal p) = Inr p"
  by (simp add: Peer_Unmarshal_def Peer_Marshal_def)

end
