(* ===== verification/Merkle.thy ===== *)
theory Merkle
  imports Go_Encoding "HOL-Library.While_Combinator"
begin

text \<open>
  The append-only Merkle tree of \<open>internal/merkle\<close> (tree.go, proof.go). The hash function
  \<open>lukechampine.com/blake3\<close> is a parameter \<open>B\<close> of every definition. Lengths of in-memory
  slices are natural numbers; the index and size of a proof, which a verifier reads from
  outside, are 64-bit words with Go's conversions to \<open>int\<close> written out.
\<close>

section \<open>Hashes\<close>

definition leafPrefix :: byte where
  "leafPrefix = 0"

definition nodePrefix :: byte where
  "nodePrefix = 1"

definition HashLeaf :: "(bytes \<Rightarrow> bytes) \<Rightarrow> bytes \<Rightarrow> hash" where
  "HashLeaf B data = copy32 (B ([leafPrefix] @ data))"

definition HashNode :: "(bytes \<Rightarrow> bytes) \<Rightarrow> hash \<Rightarrow> hash \<Rightarrow> hash" where
  "HashNode B left right = copy32 (B ([nodePrefix] @ left @ right))"

section \<open>The split point\<close>

text \<open>\<open>for k < n { k <<= 1 }; return k >> 1\<close> on a slice length.\<close>

definition splitPoint :: "nat \<Rightarrow> nat" where
  "splitPoint n = while (\<lambda>k. k < n) (\<lambda>k. 2 * k) 1 div 2"

text \<open>
  The same loop on a 64-bit \<open>int\<close>: \<open>k <<= 1\<close> wraps, so for large \<open>n\<close> it never ends.
\<close>

partial_function (option) split_loop64 :: "u64 \<Rightarrow> u64 \<Rightarrow> u64 option" where
  "split_loop64 k n = (if k <s n then split_loop64 (push_bit 1 k) n else Some k)"

definition splitPoint64 :: "u64 \<Rightarrow> u64 option" where
  "splitPoint64 n = map_option (signed_drop_bit 1) (split_loop64 1 n)"

lemma splitPoint_power:
  assumes "2 \<le> n"
  shows "\<exists>i. splitPoint n = 2 ^ i \<and> 2 ^ i < n \<and> n \<le> 2 ^ Suc i"
proof -
  let ?P = "\<lambda>k. \<exists>i. k = 2 ^ i \<and> (i = 0 \<or> 2 ^ (i - 1) < n)"
  let ?Q = "\<lambda>k. \<exists>i. k div 2 = 2 ^ i \<and> 2 ^ i < n \<and> n \<le> 2 ^ Suc i"
  have "?Q (while (\<lambda>k. k < n) (\<lambda>k. 2 * k) 1)"
  proof (rule while_rule [where P = ?P and r = "measure (\<lambda>k. n - k)"])
    show "?P 1" by (rule exI [of _ 0]) simp
  next
    fix k assume "?P k" "k < n"
    then obtain i where "k = 2 ^ i" by blast
    then show "?P (2 * k)" using \<open>k < n\<close> by (intro exI [of _ "Suc i"]) simp
  next
    fix k assume "?P k" "\<not> k < n"
    then obtain i where k: "k = 2 ^ i" and i: "i = 0 \<or> 2 ^ (i - 1) < n" by blast
    have "i \<noteq> 0" using k \<open>\<not> k < n\<close> assms by (cases i) auto
    then obtain j where "i = Suc j" by (cases i) auto
    then show "?Q k" using k i \<open>\<not> k < n\<close> by (intro exI [of _ j]) simp
  next
    show "wf (measure (\<lambda>k. n - k))" by simp
  next
    fix k assume P: "?P k" and "k < n"
    have "0 < k" using P by auto
    then show "(2 * k, k) \<in> measure (\<lambda>k. n - k)" using \<open>k < n\<close> by simp
  qed
  then show ?thesis by (simp add: splitPoint_def)
qed

lemma splitPoint_bounds: "2 \<le> n \<Longrightarrow> 0 < splitPoint n \<and> splitPoint n < n"
  using splitPoint_power [of n] by (metis zero_less_numeral zero_less_power)

lemma power2_bracket_unique:
  assumes "(2::nat) ^ i < n" "n \<le> 2 ^ Suc i" "2 ^ j < n" "n \<le> 2 ^ Suc j"
  shows "i = j"
proof (rule ccontr)
  assume "i \<noteq> j"
  then have "Suc i \<le> j \<or> Suc j \<le> i" by arith
  then have "(2::nat) ^ Suc i \<le> 2 ^ j \<or> (2::nat) ^ Suc j \<le> 2 ^ i"
    by (meson one_le_numeral power_increasing)
  then show False using assms by linarith
qed

lemma splitPoint_eqI:
  assumes "2 ^ i < n" "n \<le> 2 ^ Suc i"
  shows "splitPoint n = 2 ^ i"
proof -
  have "1 \<le> (2::nat) ^ i" by simp
  with assms(1) have "2 \<le> n" by linarith
  then obtain j where j: "splitPoint n = 2 ^ j" "2 ^ j < n" "n \<le> 2 ^ Suc j"
    using splitPoint_power by blast
  then have "i = j" using assms by (intro power2_bracket_unique [of i n j])
  then show ?thesis using j by simp
qed

subsection \<open>The 64-bit loop\<close>

lemma sint_word_of_nat: "m < 2 ^ 63 \<Longrightarrow> sint (word_of_nat m :: u64) = int m"
  by (simp add: signed_of_nat signed_take_bit_int_eq_self)

lemma push_bit_word_of_nat: "push_bit 1 (word_of_nat m :: u64) = word_of_nat (2 * m)"
  by (simp add: push_bit_eq_mult)

lemma signed_drop_bit_word_of_nat:
  assumes "m < 2 ^ 63"
  shows "signed_drop_bit 1 (word_of_nat m :: u64) = word_of_nat (m div 2)"
proof -
  have "sint (signed_drop_bit 1 (word_of_nat m :: u64)) = sint (word_of_nat (m div 2) :: u64)"
    using assms
    by (simp add: sint_signed_drop_bit_eq sint_word_of_nat drop_bit_eq_div zdiv_int)
  then show ?thesis by (rule signed_word_eqI)
qed

lemma split_loop64_small:
  assumes "n \<le> 2 ^ 62" and "i \<le> 62" and "i = 0 \<or> 2 ^ (i - 1) < n"
  shows "\<exists>j. j \<le> 62 \<and> split_loop64 (word_of_nat (2 ^ i)) (word_of_nat n) = Some (word_of_nat (2 ^ j))
            \<and> n \<le> 2 ^ j \<and> (j = 0 \<or> 2 ^ (j - 1) < n)"
  using assms(2,3)
proof (induction "62 - i" arbitrary: i)
  case 0
  then have i: "i = 62" by simp
  have "\<not> (word_of_nat (2 ^ i) :: u64) <s word_of_nat n"
    using assms(1) i by (simp add: word_sless_alt sint_word_of_nat)
  then show ?case using 0 assms(1) i by (subst split_loop64.simps) (auto intro!: exI [of _ 62])
next
  case (Suc d)
  have lt: "(2::nat) ^ i < 2 ^ 63" using Suc.prems(1) by (intro power_strict_increasing) auto
  have sless: "(word_of_nat (2 ^ i) :: u64) <s word_of_nat n \<longleftrightarrow> 2 ^ i < n"
  proof -
    have "sint (word_of_nat (2 ^ i) :: u64) = int (2 ^ i)" by (rule sint_word_of_nat [OF lt])
    moreover have "sint (word_of_nat n :: u64) = int n"
      using assms(1) by (intro sint_word_of_nat) simp
    ultimately show ?thesis by (simp only: word_sless_alt of_nat_less_iff)
  qed
  show ?case
  proof (cases "2 ^ i < n")
    case True
    have "d = 62 - Suc i" "Suc i \<le> 62" "Suc i = 0 \<or> 2 ^ (Suc i - 1) < n"
      using Suc.hyps(2) True by auto
    from Suc.hyps(1) [OF this] show ?thesis
      using True sless by (subst split_loop64.simps) (simp only: push_bit_word_of_nat power_Suc if_True)
  next
    case False
    then show ?thesis using Suc.prems sless
      by (subst split_loop64.simps) (auto intro!: exI [of _ i])
  qed
qed

lemma splitPoint64_small:
  assumes "2 \<le> n" and "n \<le> 2 ^ 62"
  shows "splitPoint64 (word_of_nat n) = Some (word_of_nat (splitPoint n))"
proof -
  obtain j where j: "j \<le> 62" "n \<le> 2 ^ j" "j = 0 \<or> 2 ^ (j - 1) < n"
    and loop: "split_loop64 (word_of_nat (2 ^ 0)) (word_of_nat n) = Some (word_of_nat (2 ^ j))"
    using split_loop64_small [of n 0] assms by auto
  have "j \<noteq> 0" using j(2) assms(1) by (cases j) auto
  then obtain i where i: "j = Suc i" by (cases j) auto
  have "splitPoint n = 2 ^ i" using j i by (intro splitPoint_eqI) auto
  moreover have "(2::nat) ^ j < 2 ^ 63" using j(1) by (intro power_strict_increasing) auto
  ultimately have "signed_drop_bit 1 (word_of_nat (2 ^ j) :: u64) = word_of_nat (splitPoint n)"
    using i signed_drop_bit_word_of_nat [of "2 ^ j"] by simp
  moreover have "split_loop64 1 (word_of_nat n) = Some (word_of_nat (2 ^ j))"
    using loop by simp
  ultimately show ?thesis by (simp only: splitPoint64_def option.map)
qed

text \<open>Above \<open>2 ^ 62\<close> the variable passes through the sign bit to zero and stays there.\<close>

lemma sint_push_bit_one_le: "sint (push_bit i 1 :: u64) \<le> 2 ^ 62"
proof (cases "i < 63")
  case True
  have "(2::nat) ^ i \<le> 2 ^ 62" using True by (intro power_increasing) auto
  moreover have "push_bit i 1 = (word_of_nat (2 ^ i) :: u64)" by (simp add: push_bit_eq_mult)
  ultimately have "sint (push_bit i 1 :: u64) = int (2 ^ i)"
    by (simp only: sint_word_of_nat) (rule sint_word_of_nat, simp)
  also have "\<dots> \<le> int (2 ^ 62)" using \<open>(2::nat) ^ i \<le> 2 ^ 62\<close> by (simp only: of_nat_le_iff)
  finally show ?thesis by simp
next
  case False
  then consider "i = 63" | "64 \<le> i" by arith
  then show ?thesis
  proof cases
    case 2
    then have "push_bit i 1 = (0::u64)" by (simp add: push_bit_eq_mult)
    then have "sint (push_bit i 1 :: u64) = 0" by (simp only: sint_0)
    then show ?thesis by (rule ord_eq_le_trans) simp
  qed (simp add: push_bit_eq_mult)
qed

lemma split_loop64_not_Some:
  assumes "2 ^ 62 < sint n"
  shows "split_loop64 k n = Some r \<Longrightarrow> k \<noteq> push_bit i 1"
proof -
  assume ret: "split_loop64 k n = Some r"
  have "2 ^ 62 < sint n \<longrightarrow> (\<forall>i. k \<noteq> push_bit i 1)"
  proof (rule split_loop64.raw_induct
      [where P = "\<lambda>k n r. 2 ^ 62 < sint n \<longrightarrow> (\<forall>i. k \<noteq> push_bit i 1)", OF _ ret], intro impI allI notI)
    fix loop :: "u64 \<Rightarrow> u64 \<Rightarrow> u64 option" and k n r i
    assume IH: "\<And>k n r. loop k n = Some r \<Longrightarrow> 2 ^ 62 < sint n \<longrightarrow> (\<forall>i. k \<noteq> push_bit i 1)"
      and eq: "(if k <s n then loop (push_bit 1 k) n else Some k) = Some r"
      and big: "2 ^ 62 < sint n" and k: "k = push_bit i 1"
    have "k <s n" 
      unfolding k word_sless_alt by (rule le_less_trans [OF sint_push_bit_one_le big])
    then have "loop (push_bit (Suc i) 1) n = Some r" using eq k by (simp add: mult.commute)
    then show False using IH big by blast
  qed
  then show ?thesis using assms by blast
qed

lemma splitPoint64_diverges: "2 ^ 62 < sint n \<Longrightarrow> splitPoint64 n = None"
proof -
  assume "2 ^ 62 < sint n"
  then have "split_loop64 1 n = Some r \<Longrightarrow> False" for r
    using split_loop64_not_Some [of n 1 r 0] by auto
  then show ?thesis by (cases "split_loop64 1 n") (auto simp: splitPoint64_def)
qed

section \<open>Roots\<close>

function (sequential) subtreeRoot :: "(bytes \<Rightarrow> bytes) \<Rightarrow> hash list \<Rightarrow> hash" where
  "subtreeRoot B [] = zero32"
| "subtreeRoot B [h] = h"
| "subtreeRoot B leaves =
     (let k = splitPoint (length leaves)
      in HashNode B (subtreeRoot B (take k leaves)) (subtreeRoot B (drop k leaves)))"
  by pat_completeness auto
termination
proof (relation "measure (\<lambda>(B, leaves). length leaves)", goal_cases)
  case (2 B a b ls k)
  then show ?case using splitPoint_bounds [of "length (a # b # ls)"] by auto
next
  case (3 B a b ls k)
  then show ?case using splitPoint_bounds [of "length (a # b # ls)"] by auto
qed simp

definition Root :: "(bytes \<Rightarrow> bytes) \<Rightarrow> hash list \<Rightarrow> hash" where
  "Root B leaves = subtreeRoot B leaves"

section \<open>Inclusion proofs\<close>

record merkle_proof =
  Index :: u64
  Size :: u64
  Path :: "hash list"

datatype merkle_error = IndexOutOfRange | EmptyProof | IndexOutOfRangeInProof | RootMismatch

text \<open>
  The case \<open>n = 0\<close>, which \<open>Prove\<close> excludes, is joined with \<open>n = 1\<close>.
\<close>

function auditPath :: "(bytes \<Rightarrow> bytes) \<Rightarrow> hash list \<Rightarrow> nat \<Rightarrow> nat \<Rightarrow> hash list" where
  "auditPath B leaves index n =
     (if n \<le> 1 then []
      else let k = splitPoint n in
        if index < k
        then auditPath B (take k leaves) index k @ [subtreeRoot B (drop k leaves)]
        else auditPath B (drop k leaves) (index - k) (n - k) @ [subtreeRoot B (take k leaves)])"
  by pat_completeness auto
termination
  by (relation "measure (\<lambda>(B, leaves, index, n). n)") (use splitPoint_bounds in auto)

definition Prove :: "(bytes \<Rightarrow> bytes) \<Rightarrow> hash list \<Rightarrow> u64 \<Rightarrow> merkle_error + merkle_proof" where
  "Prove B leaves index =
     (let n = (word_of_nat (length leaves) :: u64) in
      if n = 0 \<or> n \<le> index then Inl IndexOutOfRange
      else Inr \<lparr>Index = index, Size = n, Path = auditPath B leaves (unat index) (unat n)\<rparr>)"

text \<open>
  \<open>path[len(path)-1]\<close> on an empty path is a run-time panic.
\<close>

function recompute :: "(bytes \<Rightarrow> bytes) \<Rightarrow> hash \<Rightarrow> u64 \<Rightarrow> u64 \<Rightarrow> hash list \<Rightarrow> hash outcome" where
  "recompute B h index sz path =
     (if sz = 1 then Value h
      else case splitPoint64 sz of
        None \<Rightarrow> Diverge
      | Some k \<Rightarrow>
          if path = [] then Panic
          else let outer = last path; inner = butlast path in
            if index < k
            then map_outcome2 (\<lambda>x. HashNode B x outer) (recompute B h index k inner)
            else map_outcome2 (\<lambda>x. HashNode B outer x) (recompute B h (index - k) (sz - k) inner))"
  by pat_completeness auto
termination
  by (relation "measure (\<lambda>(B, h, index, sz, path). length path)") auto

declare auditPath.simps [simp del] recompute.simps [simp del]

text \<open>\<open>Verify\<close>: \<open>Value None\<close> is Go's \<open>nil\<close> error.\<close>

definition Verify :: "(bytes \<Rightarrow> bytes) \<Rightarrow> hash \<Rightarrow> hash \<Rightarrow> merkle_proof \<Rightarrow> merkle_error option outcome" where
  "Verify B root leafHash p =
     (if Size p = 0 then Value (Some EmptyProof)
      else if Size p \<le> Index p then Value (Some IndexOutOfRangeInProof)
      else map_outcome2 (\<lambda>r. if r \<noteq> root then Some RootMismatch else None)
             (recompute B leafHash (Index p) (Size p) (Path p)))"

section \<open>Structure of roots\<close>

lemma subtreeRoot_split:
  "2 \<le> length leaves \<Longrightarrow>
     subtreeRoot B leaves =
       HashNode B (subtreeRoot B (take (splitPoint (length leaves)) leaves))
                  (subtreeRoot B (drop (splitPoint (length leaves)) leaves))"
  by (cases "(B, leaves)" rule: subtreeRoot.cases) (simp_all add: Let_def)

lemma subtreeRoot_single: "length leaves = 1 \<Longrightarrow> subtreeRoot B leaves = leaves ! 0"
  by (cases "(B, leaves)" rule: subtreeRoot.cases) simp_all

lemma length_HashNode [simp]: "length (HashNode B l r) = 32"
  by (simp add: HashNode_def)

lemma length_HashLeaf [simp]: "length (HashLeaf B d) = 32"
  by (simp add: HashLeaf_def)

lemma length_subtreeRoot:
  "\<forall>h \<in> set leaves. length h = 32 \<Longrightarrow> length (subtreeRoot B leaves) = 32"
  by (cases "(B, leaves)" rule: subtreeRoot.cases) (simp_all add: Let_def)

lemma length_Root: "\<forall>h \<in> set leaves. length h = 32 \<Longrightarrow> length (Root B leaves) = 32"
  by (simp add: Root_def length_subtreeRoot)

text \<open>Induction along the tree: a list of two or more leaves is split at its split point.\<close>

lemma tree_induct [case_names Nil Single Split]:
  assumes "P []" and "\<And>h. P [h]"
    and "\<And>ls. 2 \<le> length ls \<Longrightarrow> P (take (splitPoint (length ls)) ls) \<Longrightarrow>
            P (drop (splitPoint (length ls)) ls) \<Longrightarrow> P ls"
  shows "P ls"
proof (induction ls rule: length_induct)
  case (1 ls)
  show ?case
  proof (cases "2 \<le> length ls")
    case True
    let ?k = "splitPoint (length ls)"
    have k: "0 < ?k" "?k < length ls" using splitPoint_bounds [OF True] by auto
    have "P (take ?k ls)" "P (drop ?k ls)" using "1.IH" k by simp_all
    with True show ?thesis by (rule assms(3))
  next
    case False
    then have "ls = [] \<or> (\<exists>h. ls = [h])" by (cases ls) (auto simp: Suc_le_eq)
    then show ?thesis using assms(1,2) by blast
  qed
qed

section \<open>Completeness of inclusion proofs\<close>

lemma auditPath_split:
  "2 \<le> n \<Longrightarrow> auditPath B leaves index n =
     (let k = splitPoint n in
        if index < k
        then auditPath B (take k leaves) index k @ [subtreeRoot B (drop k leaves)]
        else auditPath B (drop k leaves) (index - k) (n - k) @ [subtreeRoot B (take k leaves)])"
  by (subst auditPath.simps) simp

lemma word_of_nat_less_u64:
  "a < 2 ^ 64 \<Longrightarrow> b < 2 ^ 64 \<Longrightarrow> (word_of_nat a :: u64) < word_of_nat b \<longleftrightarrow> a < b"
  by (simp add: word_less_nat_alt unat_of_nat)

lemma word_of_nat_eq_1_u64: "n < 2 ^ 64 \<Longrightarrow> (word_of_nat n :: u64) = 1 \<longleftrightarrow> n = 1"
  using word_of_nat_eq_iff [of n 1, where 'a = 64] by (simp add: take_bit_nat_eq_self)

lemma recompute_step:
  assumes "2 \<le> n" "n \<le> 2 ^ 62" "i < n"
  defines "k \<equiv> splitPoint n"
  shows "recompute B h (word_of_nat i) (word_of_nat n) (path @ [s]) =
     (if i < k
      then map_outcome2 (\<lambda>x. HashNode B x s) (recompute B h (word_of_nat i) (word_of_nat k) path)
      else map_outcome2 (\<lambda>x. HashNode B s x)
             (recompute B h (word_of_nat (i - k)) (word_of_nat (n - k)) path))"
proof -
  have k: "0 < k" "k < n" using splitPoint_bounds [OF assms(1)] k_def by auto
  have "n < 2 ^ 64" "k < 2 ^ 64" "i < 2 ^ 64" using assms k by auto
  moreover have "(word_of_nat n :: u64) \<noteq> 1"
    using \<open>n < 2 ^ 64\<close> assms(1) by (simp add: word_of_nat_eq_1_u64)
  moreover have "k \<le> i \<Longrightarrow> (word_of_nat i :: u64) - word_of_nat k = word_of_nat (i - k)"
    and "(word_of_nat n :: u64) - word_of_nat k = word_of_nat (n - k)"
    using k by (simp_all add: of_nat_diff)
  ultimately show ?thesis
    using splitPoint64_small [OF assms(1,2)] word_of_nat_less_u64 [of i k]
    by (subst recompute.simps) (simp add: k_def)
qed

lemma recompute_auditPath:
  assumes "length leaves \<le> 2 ^ 62" "i < length leaves"
  shows "recompute B (leaves ! i) (word_of_nat i) (word_of_nat (length leaves))
           (auditPath B leaves i (length leaves)) = Value (subtreeRoot B leaves)"
  using assms
proof (induction leaves arbitrary: i rule: tree_induct)
  case Nil
  then show ?case by simp
next
  case (Single h)
  then show ?case by (simp add: recompute.simps [of B h 0 1])
next
  case (Split ls)
  let ?n = "length ls" and ?k = "splitPoint (length ls)"
  have k: "0 < ?k" "?k < ?n" using splitPoint_bounds [OF Split.hyps] by auto
  show ?case
  proof (cases "i < ?k")
    case True
    have "recompute B (take ?k ls ! i) (word_of_nat i) (word_of_nat ?k)
            (auditPath B (take ?k ls) i ?k) = Value (subtreeRoot B (take ?k ls))"
      using Split.IH(1) [of i] Split.prems True k by simp
    then show ?thesis
      using True Split.prems Split.hyps subtreeRoot_split [OF Split.hyps, of B]
      by (simp add: auditPath_split [OF Split.hyps] recompute_step Let_def)
  next
    case False
    have "recompute B (drop ?k ls ! (i - ?k)) (word_of_nat (i - ?k)) (word_of_nat (?n - ?k))
            (auditPath B (drop ?k ls) (i - ?k) (?n - ?k)) = Value (subtreeRoot B (drop ?k ls))"
      using Split.IH(2) [of "i - ?k"] Split.prems False k by simp
    then show ?thesis
      using False Split.prems Split.hyps k subtreeRoot_split [OF Split.hyps, of B]
      by (simp add: auditPath_split [OF Split.hyps] recompute_step Let_def)
  qed
qed

section \<open>Soundness and binding\<close>

text \<open>
  A collision of the hash function breaks any Merkle tree, and a 32-byte hash has
  collisions. The theorems therefore name the inputs that were actually hashed and assume
  that the hash function is injective on those (\<open>collision_free\<close>).
\<close>

definition H :: "(bytes \<Rightarrow> bytes) \<Rightarrow> bytes \<Rightarrow> hash" where
  "H B x = copy32 (B x)"

lemma HashNode_H: "HashNode B l r = H B (nodePrefix # l @ r)"
  by (simp add: HashNode_def H_def)

lemma HashLeaf_H: "HashLeaf B d = H B (leafPrefix # d)"
  by (simp add: HashLeaf_def H_def)

definition collision_free :: "(bytes \<Rightarrow> bytes) \<Rightarrow> bytes set \<Rightarrow> bool" where
  "collision_free B X \<longleftrightarrow> inj_on (H B) X"

lemma collision_freeD:
  "collision_free B X \<Longrightarrow> H B x = H B y \<Longrightarrow> x \<in> X \<Longrightarrow> y \<in> X \<Longrightarrow> x = y"
  by (auto simp: collision_free_def inj_on_def)

lemma collision_free_subset: "collision_free B X \<Longrightarrow> Y \<subseteq> X \<Longrightarrow> collision_free B Y"
  by (auto simp: collision_free_def intro: inj_on_subset)

lemma collision_free_node:
  assumes "collision_free B X" "HashNode B l r = HashNode B l' r'"
    and "nodePrefix # l @ r \<in> X" "nodePrefix # l' @ r' \<in> X" "length l = length l'"
  shows "l = l' \<and> r = r'"
  using collision_freeD [OF assms(1) _ assms(3,4)] assms(2,5) by (simp add: HashNode_H)

text \<open>The node inputs hashed while a root is computed.\<close>

function (sequential) node_inputs :: "(bytes \<Rightarrow> bytes) \<Rightarrow> hash list \<Rightarrow> bytes set" where
  "node_inputs B [] = {}"
| "node_inputs B [h] = {}"
| "node_inputs B leaves =
     (let k = splitPoint (length leaves)
      in insert (nodePrefix # subtreeRoot B (take k leaves) @ subtreeRoot B (drop k leaves))
           (node_inputs B (take k leaves) \<union> node_inputs B (drop k leaves)))"
  by pat_completeness auto
termination
proof (relation "measure (\<lambda>(B, leaves). length leaves)", goal_cases)
  case (2 B a b ls k)
  then show ?case using splitPoint_bounds [of "length (a # b # ls)"] by auto
next
  case (3 B a b ls k)
  then show ?case using splitPoint_bounds [of "length (a # b # ls)"] by auto
qed simp

lemma node_inputs_split:
  "2 \<le> length leaves \<Longrightarrow> node_inputs B leaves =
     (let k = splitPoint (length leaves)
      in insert (nodePrefix # subtreeRoot B (take k leaves) @ subtreeRoot B (drop k leaves))
           (node_inputs B (take k leaves) \<union> node_inputs B (drop k leaves)))"
  by (cases "(B, leaves)" rule: node_inputs.cases) simp_all

text \<open>The node inputs hashed while a proof is checked.\<close>

function path_inputs :: "(bytes \<Rightarrow> bytes) \<Rightarrow> hash \<Rightarrow> u64 \<Rightarrow> u64 \<Rightarrow> hash list \<Rightarrow> bytes set" where
  "path_inputs B h index sz path =
     (if sz = 1 then {}
      else case splitPoint64 sz of
        None \<Rightarrow> {}
      | Some k \<Rightarrow>
          if path = [] then {}
          else let outer = last path; inner = butlast path in
            if index < k
            then (case recompute B h index k inner of
                    Value x \<Rightarrow> {nodePrefix # x @ outer} | _ \<Rightarrow> {}) \<union> path_inputs B h index k inner
            else (case recompute B h (index - k) (sz - k) inner of
                    Value x \<Rightarrow> {nodePrefix # outer @ x} | _ \<Rightarrow> {})
                 \<union> path_inputs B h (index - k) (sz - k) inner)"
  by pat_completeness auto
termination
  by (relation "measure (\<lambda>(B, h, index, sz, path). length path)") auto

declare path_inputs.simps [simp del]

lemma length_recompute:
  "recompute B h i n path = Value x \<Longrightarrow> length h = 32 \<Longrightarrow> length x = 32"
  by (subst (asm) recompute.simps)
    (auto simp: Let_def map_outcome2_Value_iff split: if_splits option.splits)

lemma path_inputs_step:
  assumes "2 \<le> n" "n \<le> 2 ^ 62" "i < n"
  defines "k \<equiv> splitPoint n"
  shows "path_inputs B h (word_of_nat i) (word_of_nat n) (path @ [s]) =
     (if i < k
      then (case recompute B h (word_of_nat i) (word_of_nat k) path of
              Value x \<Rightarrow> {nodePrefix # x @ s} | _ \<Rightarrow> {})
           \<union> path_inputs B h (word_of_nat i) (word_of_nat k) path
      else (case recompute B h (word_of_nat (i - k)) (word_of_nat (n - k)) path of
              Value x \<Rightarrow> {nodePrefix # s @ x} | _ \<Rightarrow> {})
           \<union> path_inputs B h (word_of_nat (i - k)) (word_of_nat (n - k)) path)"
proof -
  have k: "0 < k" "k < n" using splitPoint_bounds [OF assms(1)] k_def by auto
  have "n < 2 ^ 64" "k < 2 ^ 64" "i < 2 ^ 64" using assms k by auto
  moreover have "(word_of_nat n :: u64) \<noteq> 1"
    using \<open>n < 2 ^ 64\<close> assms(1) by (simp add: word_of_nat_eq_1_u64)
  moreover have "k \<le> i \<Longrightarrow> (word_of_nat i :: u64) - word_of_nat k = word_of_nat (i - k)"
    and "(word_of_nat n :: u64) - word_of_nat k = word_of_nat (n - k)"
    using k by (simp_all add: of_nat_diff)
  ultimately show ?thesis
    using splitPoint64_small [OF assms(1,2)] word_of_nat_less_u64 [of i k]
    by (subst path_inputs.simps) (simp add: k_def)
qed

lemma recompute_no_path:
  assumes "2 \<le> n" "n \<le> 2 ^ 62"
  shows "recompute B h i (word_of_nat n) [] = Panic"
proof -
  have "(word_of_nat n :: u64) \<noteq> 1" using assms by (simp add: word_of_nat_eq_1_u64)
  then show ?thesis using splitPoint64_small [OF assms] by (subst recompute.simps) simp
qed

lemma recompute_sound:
  assumes "recompute B h (word_of_nat i) (word_of_nat (length leaves)) path = Value (subtreeRoot B leaves)"
    and "collision_free B (node_inputs B leaves \<union>
           path_inputs B h (word_of_nat i) (word_of_nat (length leaves)) path)"
    and "length leaves \<le> 2 ^ 62" "i < length leaves"
    and "length h = 32" "\<forall>l \<in> set leaves. length l = 32" "\<forall>s \<in> set path. length s = 32"
  shows "h = leaves ! i"
  using assms
proof (induction leaves arbitrary: i path rule: tree_induct)
  case Nil
  then show ?case by simp
next
  case (Single l)
  then show ?case by (simp add: recompute.simps [of B h 0 1])
next
  case (Split ls)
  let ?n = "length ls" and ?k = "splitPoint (length ls)"
  let ?L = "subtreeRoot B (take ?k ls)" and ?R = "subtreeRoot B (drop ?k ls)"
  note root = subtreeRoot_split [OF Split.hyps, of B]
  have k: "0 < ?k" "?k < ?n" using splitPoint_bounds [OF Split.hyps] by auto
  have "path \<noteq> []"
    using Split.prems(1,3) recompute_no_path [OF Split.hyps] by (metis outcome.distinct(1))
  then obtain inner s where path: "path = inner @ [s]" by (metis rev_exhaust)
  note steps = recompute_step [OF Split.hyps Split.prems(3,4)] path_inputs_step [OF Split.hyps Split.prems(3,4)]
  have tops: "nodePrefix # ?L @ ?R \<in> node_inputs B ls"
    "node_inputs B (take ?k ls) \<subseteq> node_inputs B ls" "node_inputs B (drop ?k ls) \<subseteq> node_inputs B ls"
    using node_inputs_split [OF Split.hyps, of B] by (auto simp: Let_def)
  have len: "length ?L = 32" "length ?R = 32" "length s = 32"
    using Split.prems(6,7) path
    by (auto intro!: length_subtreeRoot dest: in_set_takeD in_set_dropD)
  have sub: "\<forall>l \<in> set (take ?k ls). length l = 32" "\<forall>l \<in> set (drop ?k ls). length l = 32"
    using Split.prems(6) by (auto dest: in_set_takeD in_set_dropD)
  show ?case
  proof (cases "i < ?k")
    case True
    let ?m = "word_of_nat ?k :: u64"
    from Split.prems(1) path True root obtain x where
      x: "recompute B h (word_of_nat i) ?m inner = Value x" and hash: "HashNode B ?L ?R = HashNode B x s"
      by (auto simp: steps map_outcome2_Value_iff)
    have inp: "nodePrefix # x @ s \<in> path_inputs B h (word_of_nat i) (word_of_nat ?n) path"
      "path_inputs B h (word_of_nat i) ?m inner \<subseteq> path_inputs B h (word_of_nat i) (word_of_nat ?n) path"
      using path True x by (auto simp: steps)
    have "?L = x"
      using collision_free_node [OF Split.prems(2) hash] tops(1) inp(1) len
        length_recompute [OF x Split.prems(5)] by simp
    moreover have "collision_free B (node_inputs B (take ?k ls) \<union> path_inputs B h (word_of_nat i) ?m inner)"
      using Split.prems(2) by (rule collision_free_subset) (use tops inp in blast)
    ultimately have "h = take ?k ls ! i"
      using Split.IH(1) [of i inner] x True k Split.prems(3,5,7) path sub by simp
    then show ?thesis using True by simp
  next
    case False
    let ?m = "word_of_nat (?n - ?k) :: u64" and ?i = "word_of_nat (i - ?k) :: u64"
    from Split.prems(1) path False root obtain x where
      x: "recompute B h ?i ?m inner = Value x" and hash: "HashNode B ?L ?R = HashNode B s x"
      by (auto simp: steps map_outcome2_Value_iff)
    have inp: "nodePrefix # s @ x \<in> path_inputs B h (word_of_nat i) (word_of_nat ?n) path"
      "path_inputs B h ?i ?m inner \<subseteq> path_inputs B h (word_of_nat i) (word_of_nat ?n) path"
      using path False x by (auto simp: steps)
    have "?R = x"
      using collision_free_node [OF Split.prems(2) hash] tops(1) inp(1) len by simp
    moreover have "collision_free B (node_inputs B (drop ?k ls) \<union> path_inputs B h ?i ?m inner)"
      using Split.prems(2) by (rule collision_free_subset) (use tops inp in blast)
    ultimately have "h = drop ?k ls ! (i - ?k)"
      using Split.IH(2) [of "i - ?k" inner] x False k Split.prems(3,4,5,7) path sub by simp
    then show ?thesis using False k by simp
  qed
qed

text \<open>The inputs hashed when a log of records \<open>ds\<close> is turned into a root.\<close>

definition log_inputs :: "(bytes \<Rightarrow> bytes) \<Rightarrow> bytes list \<Rightarrow> bytes set" where
  "log_inputs B ds = (\<lambda>d. leafPrefix # d) ` set ds \<union> node_inputs B (map (HashLeaf B) ds)"

lemma log_inputs_split:
  assumes "2 \<le> length ds"
  defines "k \<equiv> splitPoint (length ds)"
  shows "log_inputs B (take k ds) \<subseteq> log_inputs B ds" "log_inputs B (drop k ds) \<subseteq> log_inputs B ds"
    and "nodePrefix # subtreeRoot B (map (HashLeaf B) (take k ds)) @
           subtreeRoot B (map (HashLeaf B) (drop k ds)) \<in> log_inputs B ds"
  using assms node_inputs_split [of "map (HashLeaf B) ds" B]
  by (auto simp: log_inputs_def Let_def take_map drop_map dest: in_set_takeD in_set_dropD)

lemma log_root_split:
  assumes "2 \<le> length ds"
  defines "k \<equiv> splitPoint (length ds)"
  shows "subtreeRoot B (map (HashLeaf B) ds) =
    HashNode B (subtreeRoot B (map (HashLeaf B) (take k ds))) (subtreeRoot B (map (HashLeaf B) (drop k ds)))"
  using assms subtreeRoot_split [of "map (HashLeaf B) ds" B] by (simp add: take_map drop_map)

text \<open>The root of a log with records is the hash of one of its inputs.\<close>

definition root_input :: "(bytes \<Rightarrow> bytes) \<Rightarrow> bytes list \<Rightarrow> bytes" where
  "root_input B ds =
     (if length ds = 1 then leafPrefix # hd ds
      else let k = splitPoint (length ds) in
        nodePrefix # subtreeRoot B (map (HashLeaf B) (take k ds)) @
          subtreeRoot B (map (HashLeaf B) (drop k ds)))"

lemma list_length_cases: "ds = [] \<or> (\<exists>d. ds = [d]) \<or> 2 \<le> length ds"
  by (cases ds; cases "tl ds") auto

lemma root_input:
  assumes "ds \<noteq> []"
  shows "subtreeRoot B (map (HashLeaf B) ds) = H B (root_input B ds)" "root_input B ds \<in> log_inputs B ds"
  using list_length_cases [of ds] assms log_root_split [of ds B] log_inputs_split(3) [of ds B]
  by (auto simp: root_input_def HashLeaf_H HashNode_H Let_def log_inputs_def)

lemma log_root_binding:
  assumes "subtreeRoot B (map (HashLeaf B) ds) = subtreeRoot B (map (HashLeaf B) ds')"
    and "collision_free B (log_inputs B ds \<union> log_inputs B ds')"
    and "zero32 \<notin> H B ` (log_inputs B ds \<union> log_inputs B ds')"
  shows "ds = ds'"
  using assms
proof (induction ds arbitrary: ds' rule: tree_induct)
  case Nil
  then show ?case using root_input [of ds' B] by (cases "ds' = []") auto
next
  case (Single d)
  then have "ds' \<noteq> []" using root_input [of "[d]" B] by auto
  then have "root_input B [d] = root_input B ds'"
    using Single root_input [of "[d]" B] root_input [of ds' B] by (auto dest: collision_freeD)
  then show ?case
    using list_length_cases [of ds'] \<open>ds' \<noteq> []\<close>
    by (auto simp: root_input_def Let_def leafPrefix_def nodePrefix_def)
next
  case (Split ds)
  let ?k = "splitPoint (length ds)" and ?k' = "splitPoint (length ds')"
  let ?f = "\<lambda>xs. subtreeRoot B (map (HashLeaf B) xs)"
  have ne: "ds \<noteq> []" using Split.hyps by auto
  have ne': "ds' \<noteq> []"
  proof
    assume "ds' = []"
    then have "zero32 = H B (root_input B ds)" using Split.prems(1) root_input(1) [OF ne, of B] by simp
    then show False using Split.prems(3) root_input(2) [OF ne, of B] by blast
  qed
  have inp: "root_input B ds = root_input B ds'"
    using Split.prems root_input [OF ne, of B] root_input [OF ne', of B]
    by (auto dest: collision_freeD)
  have len': "2 \<le> length ds'"
    using inp Split.hyps list_length_cases [of ds'] ne'
    by (auto simp: root_input_def Let_def leafPrefix_def nodePrefix_def)
  have len: "length (?f xs) = 32" for xs by (auto intro!: length_subtreeRoot)
  have "?f (take ?k ds) @ ?f (drop ?k ds) = ?f (take ?k' ds') @ ?f (drop ?k' ds')"
    using inp Split.hyps len' by (simp add: root_input_def Let_def)
  then have "?f (take ?k ds) = ?f (take ?k' ds')" "?f (drop ?k ds) = ?f (drop ?k' ds')"
    using len by (simp_all add: append_eq_append_conv)
  moreover have
    "log_inputs B (take ?k ds) \<union> log_inputs B (take ?k' ds') \<subseteq> log_inputs B ds \<union> log_inputs B ds'"
    "log_inputs B (drop ?k ds) \<union> log_inputs B (drop ?k' ds') \<subseteq> log_inputs B ds \<union> log_inputs B ds'"
    using log_inputs_split(1,2) [OF Split.hyps, of B] log_inputs_split(1,2) [OF len', of B] by blast+
  ultimately have "take ?k ds = take ?k' ds'" "drop ?k ds = drop ?k' ds'"
    using Split.IH Split.prems(2,3) by (blast intro: collision_free_subset)+
  then show ?case by (metis append_take_drop_id)
qed

section \<open>The interface of an inclusion scheme\<close>

text \<open>
  What the log store and the export rely on: a commitment to a list of leaves, proofs for
  the leaf at an index, and a check that accepts them and, as long as no hash collision is
  involved (\<open>safe\<close>), accepts nothing else.
\<close>

locale inclusion_scheme =
  fixes commit :: "'l list \<Rightarrow> 'r"
    and open_at :: "'l list \<Rightarrow> nat \<Rightarrow> 'p option"
    and accepts :: "'r \<Rightarrow> 'l \<Rightarrow> 'p \<Rightarrow> bool"
    and pos :: "'p \<Rightarrow> nat"
    and total :: "'p \<Rightarrow> nat"
    and fits :: "'l list \<Rightarrow> bool"
    and safe :: "'l list \<Rightarrow> 'l \<Rightarrow> 'p \<Rightarrow> bool"
  assumes opens: "fits ls \<Longrightarrow> i < length ls \<Longrightarrow>
      \<exists>p. open_at ls i = Some p \<and> pos p = i \<and> total p = length ls \<and> accepts (commit ls) (ls ! i) p"
    and closed: "length ls \<le> i \<Longrightarrow> fits ls \<Longrightarrow> i < 2 ^ 64 \<Longrightarrow> open_at ls i = None"
    and sound: "fits ls \<Longrightarrow> safe ls x p \<Longrightarrow> total p = length ls \<Longrightarrow> accepts (commit ls) x p \<Longrightarrow>
      pos p < length ls \<and> x = ls ! pos p"
begin

lemma no_equivocation:
  assumes "fits ls" "safe ls x p" "safe ls y q" "total p = length ls" "total q = length ls"
    and "pos p = pos q" "accepts (commit ls) x p" "accepts (commit ls) y q"
  shows "x = y"
  using sound [OF assms(1,2,4,7)] sound [OF assms(1,3,5,8)] assms(6) by simp

lemma open_at_iff: "fits ls \<Longrightarrow> i < 2 ^ 64 \<Longrightarrow> open_at ls i \<noteq> None \<longleftrightarrow> i < length ls"
  using opens closed by (metis linorder_not_le option.distinct(1))

end

definition fits64 :: "hash list \<Rightarrow> bool" where
  "fits64 leaves \<longleftrightarrow> length leaves \<le> 2 ^ 62 \<and> (\<forall>l \<in> set leaves. length l = 32)"

definition proof_safe :: "(bytes \<Rightarrow> bytes) \<Rightarrow> hash list \<Rightarrow> hash \<Rightarrow> merkle_proof \<Rightarrow> bool" where
  "proof_safe B leaves h p \<longleftrightarrow>
     length h = 32 \<and> (\<forall>s \<in> set (Path p). length s = 32) \<and>
     collision_free B (node_inputs B leaves \<union> path_inputs B h (Index p) (Size p) (Path p))"

lemma Prove_complete:
  assumes "length leaves \<le> 2 ^ 62" "i < length leaves"
  shows "\<exists>p. Prove B leaves (word_of_nat i) = Inr p \<and> Index p = word_of_nat i \<and>
     Size p = word_of_nat (length leaves) \<and> Verify B (Root B leaves) (leaves ! i) p = Value None"
proof -
  let ?n = "word_of_nat (length leaves) :: u64"
  have n: "unat ?n = length leaves" "unat (word_of_nat i :: u64) = i"
    using assms by (simp_all add: unat_of_nat)
  have "?n \<noteq> 0" "\<not> ?n \<le> word_of_nat i"
    using n assms by (auto simp: word_le_nat_alt unat_eq_zero)
  then show ?thesis
    using recompute_auditPath [OF assms, of B] n by (simp add: Prove_def Verify_def Root_def)
qed

lemma Prove_out_of_range:
  assumes "length leaves \<le> 2 ^ 62" "length leaves \<le> i" "i < 2 ^ 64"
  shows "Prove B leaves (word_of_nat i) = Inl IndexOutOfRange"
  using assms by (simp add: Prove_def word_le_nat_alt unat_of_nat)

lemma Verify_sound:
  assumes "fits64 leaves" "proof_safe B leaves h p" "unat (Size p) = length leaves"
    and "Verify B (Root B leaves) h p = Value None"
  shows "unat (Index p) < length leaves \<and> h = leaves ! unat (Index p)"
proof -
  have idx: "unat (Index p) < length leaves"
    and rec: "recompute B h (Index p) (Size p) (Path p) = Value (subtreeRoot B leaves)"
    using assms(3,4)
    by (auto simp: Verify_def Root_def map_outcome2_Value_iff word_le_nat_alt split: if_splits)
  have "word_of_nat (length leaves) = Size p" "word_of_nat (unat (Index p)) = Index p"
    using assms(3) by (simp_all flip: assms(3))
  then show ?thesis
    using recompute_sound [of B h "unat (Index p)" leaves "Path p"] assms(1,2) idx rec
    by (simp add: fits64_def proof_safe_def)
qed

interpretation mk: inclusion_scheme "Root B"
  "\<lambda>leaves i. case Prove B leaves (word_of_nat i) of Inl _ \<Rightarrow> None | Inr p \<Rightarrow> Some p"
  "\<lambda>root h p. Verify B root h p = Value None"
  "\<lambda>p. unat (Index p)" "\<lambda>p. unat (Size p)" fits64 "proof_safe B" for B
proof (unfold_locales, goal_cases)
  case (1 ls i)
  then obtain p where "Prove B ls (word_of_nat i) = Inr p" "Index p = word_of_nat i"
      "Size p = word_of_nat (length ls)" "Verify B (Root B ls) (ls ! i) p = Value None"
    using Prove_complete [of ls i B] by (auto simp: fits64_def)
  moreover have "unat (word_of_nat i :: u64) = i" "unat (word_of_nat (length ls) :: u64) = length ls"
    using 1 by (simp_all add: unat_of_nat fits64_def)
  ultimately show ?case by simp
next
  case (2 ls i)
  then show ?case using Prove_out_of_range [of ls i B] by (simp add: fits64_def)
next
  case (3 ls x p)
  then show ?case using Verify_sound by blast
qed

section \<open>Properties\<close>

text \<open>
  Property C5. For a log of at most \<open>2 ^ 62\<close> leaves and an index inside it, \<open>Prove\<close>
  returns a proof that names that index and the size of the log, and \<open>Verify\<close> accepts it
  for the leaf at that index against the root of the log.
\<close>

theorem inclusion_proof_complete:
  assumes "length leaves \<le> 2 ^ 62" and "i < length leaves"
  shows "\<exists>p. Prove B leaves (word_of_nat i) = Inr p \<and> Index p = word_of_nat i \<and>
     Size p = word_of_nat (length leaves) \<and> Verify B (Root B leaves) (leaves ! i) p = Value None"
  using assms by (rule Prove_complete)

theorem inclusion_proof_complete_witness:
  "length [replicate 32 (1::byte), replicate 32 2, replicate 32 3] \<le> 2 ^ 62 \<and>
   2 < length [replicate 32 (1::byte), replicate 32 2, replicate 32 3] \<and>
   (\<exists>p. Prove (\<lambda>x. rev x) [replicate 32 1, replicate 32 2, replicate 32 3] (word_of_nat 2) = Inr p \<and>
      Index p = word_of_nat 2 \<and>
      Size p = word_of_nat (length [replicate 32 (1::byte), replicate 32 2, replicate 32 3]) \<and>
      Verify (\<lambda>x. rev x) (Root (\<lambda>x. rev x) [replicate 32 1, replicate 32 2, replicate 32 3])
        ([replicate 32 1, replicate 32 2, replicate 32 3] ! 2) p = Value None)"
proof -
  have "length [replicate 32 (1::byte), replicate 32 2, replicate 32 3] \<le> 2 ^ 62"
    and "2 < length [replicate 32 (1::byte), replicate 32 2, replicate 32 3]" by simp_all
  then show ?thesis using inclusion_proof_complete by blast
qed

text \<open>
  Property C4. An inclusion proof cannot lie: if \<open>Verify\<close> accepts a proof for the size of
  the log against its root, and no hash collision occurs among the inputs hashed by the
  tree and by the check, then the index is inside the log and the leaf is the one there.
\<close>

theorem inclusion_proof_sound:
  assumes "fits64 leaves" and "proof_safe B leaves h p" and "unat (Size p) = length leaves"
    and "Verify B (Root B leaves) h p = Value None"
  shows "unat (Index p) < length leaves \<and> h = leaves ! unat (Index p)"
  using assms by (rule mk.sound)

definition sample_leaves :: "hash list" where
  "sample_leaves = [replicate 32 1, replicate 32 2]"

definition sample_proof :: merkle_proof where
  "sample_proof = \<lparr>Index = 1, Size = 2, Path = [replicate 32 1]\<rparr>"

lemma splitPoint_2: "splitPoint 2 = 1" "splitPoint (Suc (Suc 0)) = 1"
  by (simp_all add: splitPoint_def while_unfold)

lemma splitPoint64_2: "splitPoint64 2 = Some 1"
  using splitPoint64_small [of 2] by (simp add: splitPoint_2)

lemma sample_recompute:
  "recompute (\<lambda>x. x) (replicate 32 2) 1 2 [replicate 32 1] =
     Value (HashNode (\<lambda>x. x) (replicate 32 1) (replicate 32 2))"
  by (simp add: recompute.simps [of _ _ 1 2] recompute.simps [of _ _ 0 1] splitPoint64_2)

lemma sample_root:
  "Root (\<lambda>x. x) sample_leaves = HashNode (\<lambda>x. x) (replicate 32 1) (replicate 32 2)"
  by (simp add: Root_def sample_leaves_def Let_def splitPoint_2)

lemma sample_inputs:
  "path_inputs (\<lambda>x. x) (replicate 32 2) 1 2 [replicate 32 1] = {nodePrefix # replicate 32 1 @ replicate 32 2}"
  "node_inputs (\<lambda>x. x) sample_leaves = {nodePrefix # replicate 32 1 @ replicate 32 2}"
  by (simp_all add: path_inputs.simps [of _ _ 1 2] path_inputs.simps [of _ _ 0 1]
      recompute.simps [of _ _ 0 1] splitPoint64_2 sample_leaves_def Let_def splitPoint_2)

theorem inclusion_proof_sound_witness:
  "fits64 sample_leaves \<and> proof_safe (\<lambda>x. x) sample_leaves (replicate 32 2) sample_proof \<and>
   unat (Size sample_proof) = length sample_leaves \<and>
   Verify (\<lambda>x. x) (Root (\<lambda>x. x) sample_leaves) (replicate 32 2) sample_proof = Value None \<and>
   unat (Index sample_proof) < length sample_leaves \<and>
   replicate 32 2 = sample_leaves ! unat (Index sample_proof)"
proof -
  have 1: "fits64 sample_leaves" by (auto simp: fits64_def sample_leaves_def)
  have 2: "proof_safe (\<lambda>x. x) sample_leaves (replicate 32 2) sample_proof"
    by (simp add: proof_safe_def sample_proof_def sample_inputs collision_free_def)
  have 3: "unat (Size sample_proof) = length sample_leaves"
    by (simp add: sample_proof_def sample_leaves_def)
  have 4: "Verify (\<lambda>x. x) (Root (\<lambda>x. x) sample_leaves) (replicate 32 2) sample_proof = Value None"
    by (simp add: Verify_def sample_proof_def sample_recompute sample_root word_le_nat_alt)
  show ?thesis using 1 2 3 4 inclusion_proof_sound [OF 1 2 3 4] by blast
qed

text \<open>
  The root commits to the whole log, its length included: two lists of records
  with the same root are the same list, unless a collision or a preimage of the zero hash
  occurs among the inputs that were hashed.
\<close>

lemma root_binds_log:
  assumes "Root B (map (HashLeaf B) ds) = Root B (map (HashLeaf B) ds')"
    and "collision_free B (log_inputs B ds \<union> log_inputs B ds')"
    and "zero32 \<notin> H B ` (log_inputs B ds \<union> log_inputs B ds')"
  shows "ds = ds'"
  using assms unfolding Root_def by (rule log_root_binding)

lemma root_binds_log_witness:
  "Root (\<lambda>x. x) (map (HashLeaf (\<lambda>x. x)) [[7]]) = Root (\<lambda>x. x) (map (HashLeaf (\<lambda>x. x)) [[7]]) \<and>
   collision_free (\<lambda>x. x) (log_inputs (\<lambda>x. x) [[7]] \<union> log_inputs (\<lambda>x. x) [[7]]) \<and>
   zero32 \<notin> H (\<lambda>x. x) ` (log_inputs (\<lambda>x. x) [[7]] \<union> log_inputs (\<lambda>x. x) [[7]]) \<and>
   [[7::byte]] = [[7]]"
proof -
  have 1: "collision_free (\<lambda>x. x) (log_inputs (\<lambda>x. x) [[7]] \<union> log_inputs (\<lambda>x. x) [[7]])"
    by (simp add: log_inputs_def collision_free_def)
  have "H (\<lambda>x. x) (leafPrefix # [7]) ! 1 \<noteq> zero32 ! 1"
    by (simp add: H_def copy32_def zero32_def nth_append)
  then have 2: "zero32 \<notin> H (\<lambda>x. x) ` (log_inputs (\<lambda>x. x) [[7]] \<union> log_inputs (\<lambda>x. x) [[7]])"
    by (auto simp: log_inputs_def)
  show ?thesis using 1 2 root_binds_log [OF refl 1 2] by blast
qed



text \<open>
  \<open>Verify\<close> does not check the shape of a proof before it walks it: with an
  index in range, a size between 2 and \<open>2 ^ 62\<close> and an empty path it panics, and with a size
  above \<open>2 ^ 62\<close> (as a signed number) it never returns.
\<close>

lemma Verify_malformed_proof:
  assumes "Index p < Size p"
  shows "(Path p = [] \<and> 2 \<le> unat (Size p) \<and> unat (Size p) \<le> 2 ^ 62 \<longrightarrow> Verify B root h p = Panic) \<and>
         (2 ^ 62 < sint (Size p) \<longrightarrow> Verify B root h p = Diverge)"
proof (intro conjI impI)
  have nz: "Size p \<noteq> 0" "\<not> Size p \<le> Index p" using assms by auto
  show "Verify B root h p = Panic"
    if "Path p = [] \<and> 2 \<le> unat (Size p) \<and> unat (Size p) \<le> 2 ^ 62"
    using nz recompute_no_path [of "unat (Size p)" B h "Index p"] that by (simp add: Verify_def)
  show "Verify B root h p = Diverge" if big: "2 ^ 62 < sint (Size p)"
  proof -
    have "Size p \<noteq> 1" using big by auto
    then show ?thesis
      using nz splitPoint64_diverges [OF big] by (simp add: Verify_def recompute.simps [of _ _ _ "Size p"])
  qed
qed

lemma Verify_malformed_proof_witness:
  "Verify (\<lambda>x. x) zero32 zero32 \<lparr>Index = 0, Size = 2, Path = []\<rparr> = Panic \<and>
   Verify (\<lambda>x. x) zero32 zero32 \<lparr>Index = 0, Size = 2 ^ 62 + 1, Path = []\<rparr> = Diverge"
  using Verify_malformed_proof [of "\<lparr>Index = 0, Size = 2, Path = []\<rparr>" "\<lambda>x. x" zero32 zero32]
    Verify_malformed_proof [of "\<lparr>Index = 0, Size = 2 ^ 62 + 1, Path = []\<rparr>" "\<lambda>x. x" zero32 zero32]
  by simp

end
