(* ===== verification/Log_Store.thy ===== *)
theory Log_Store
  imports Merkle Witness_Env
begin

text \<open>
  The encrypted append-only log of \<open>internal/store/store.go\<close>. The two files of a store
  directory, \<open>witness.log\<close> and \<open>tree-head.json\<close>, and the quarantine files are the record
  \<open>disk\<close>; the open store is the record \<open>store\<close>. Everything the operating system decides
  (a failed write and how far it got, a failed rename, the clock, random bytes) is an
  argument of the operation.
\<close>

section \<open>Files and state\<close>

datatype fcontent = Missing | Unreadable | Content bytes

record disk =
  log_file :: fcontent
  head_file :: fcontent
  quarantined :: "(nat \<times> bytes) list"

record uncovered =
  ucRecords :: nat
  ucBytes :: nat

record recovery =
  rcBytes :: nat
  rcUncommittedRecords :: nat
  rcQuarantineFile :: "nat option"

definition no_uncovered :: uncovered where
  "no_uncovered = \<lparr>ucRecords = 0, ucBytes = 0\<rparr>"

definition no_recovery :: recovery where
  "no_recovery = \<lparr>rcBytes = 0, rcUncommittedRecords = 0, rcQuarantineFile = None\<rparr>"

definition zero_entry :: entry where
  "zero_entry = \<lparr>eSeq = 0, eTimestamp = 0, eLevel = [], eEvent = [], eSource = [], eData = None\<rparr>"

record store =
  stKey :: bytes
  stSigner :: "signer option"
  stTrusted :: "bytes list"
  stPinned :: "bytes list"
  stUnsignedHead :: bool
  stRecovered :: recovery
  stReadOnly :: bool
  stUncovered :: uncovered
  stLast :: entry
  stHasLast :: bool
  stSeq :: u64
  stLeaves :: "hash list"

datatype store_error =
    MkdirFailed | ReadLogFailed | OpenLogFailed | QuarantineFailed
  | HeadNotExist | HeadUnreadable | ParseHead | ErrMissingTreeHead
  | MalformedRoot | HeadRootMismatch | HeadSizeMismatch | MalformedMAC | MACFailed
  | ErrHeadNotSigned | MalformedSignature | MalformedSignerKey | ErrUnexpectedSigner
  | SignatureFailed
  | OpenedReadOnly | MarshalFailed | SealFailed | WriteFailed | SignFailed | HeadWriteFailed
  | SizeExceeds | ProofOutOfRange

section \<open>Reading the log\<close>

definition max_record :: nat where
  "max_record = 64 * 2 ^ 20"

text \<open>
  The loop of \<open>readLog\<close> from offset \<open>off\<close> on: entries, the offset past each entry's frame,
  and the offset past the last complete frame. A frame that does not decrypt or parse is
  skipped; a bad length or a short frame ends the loop.
\<close>

function readFrames :: "env \<Rightarrow> bytes \<Rightarrow> bytes \<Rightarrow> nat \<Rightarrow> entry list \<times> nat list \<times> nat" where
  "readFrames C key rest off =
     (if length rest < 4 then ([], [], off)
      else let len = unat (get_u32 (take 4 rest)) in
        if len = 0 \<or> len > max_record then ([], [], off)
        else if length (drop 4 rest) < len then ([], [], off)
        else let
            frame_body = take len (drop 4 rest);
            off' = off + 4 + len;
            (es, ends, frames) = readFrames C key (drop (4 + len) rest) off'
          in case encrypt_Open C frame_body key of
               None \<Rightarrow> (es, ends, frames)
             | Some plain \<Rightarrow> (case unmarshal_entry C plain of
                 None \<Rightarrow> (es, ends, frames)
               | Some e \<Rightarrow> (e # es, off' # ends, frames)))"
  by pat_completeness auto
termination
  by (relation "measure (\<lambda>(C, key, rest, off). length rest)") auto

declare readFrames.simps [simp del]

definition readLog :: "env \<Rightarrow> fcontent \<Rightarrow> bytes \<Rightarrow> store_error + (entry list \<times> nat list \<times> nat \<times> nat)" where
  "readLog C f key =
     (case f of
        Missing \<Rightarrow> Inr ([], [], 0, 0)
      | Unreadable \<Rightarrow> Inl ReadLogFailed
      | Content b \<Rightarrow> (case readFrames C key b 0 of (es, ends, frames) \<Rightarrow> Inr (es, ends, frames, length b)))"

definition ReadAll :: "env \<Rightarrow> disk \<Rightarrow> bytes \<Rightarrow> store_error + entry list" where
  "ReadAll C d key =
     (case readLog C (log_file d) key of Inl err \<Rightarrow> Inl err | Inr (es, _, _, _) \<Rightarrow> Inr es)"

definition leafHash :: "env \<Rightarrow> entry \<Rightarrow> hash" where
  "leafHash C e =
     HashLeaf (blake3 C) (case marshal_entry C e of None \<Rightarrow> [] | Some b \<Rightarrow> b)"

section \<open>Tree heads\<close>

definition treeHeadSigInput :: "u64 \<Rightarrow> hash \<Rightarrow> bytes" where
  "treeHeadSigInput sz root = put_u64 sz @ copy32 root"

definition computeMAC :: "env \<Rightarrow> bytes \<Rightarrow> u64 \<Rightarrow> hash \<Rightarrow> hash" where
  "computeMAC C key sz root = copy32 (blake3_keyed C key (treeHeadSigInput sz root))"

unbundle bit_operations_syntax

fun mac_diff :: "byte \<Rightarrow> bytes \<Rightarrow> bytes \<Rightarrow> byte" where
  "mac_diff diff (a # as) (b # bs) = mac_diff (diff OR (a XOR b)) as bs"
| "mac_diff diff _ _ = diff"

definition macEqual :: "bytes \<Rightarrow> bytes \<Rightarrow> bool" where
  "macEqual a b = (if length a \<noteq> length b then False else mac_diff 0 a b = 0)"

definition keyAccepted :: "bytes \<Rightarrow> bytes option \<Rightarrow> bytes list \<Rightarrow> bool" where
  "keyAccepted pub own trusted =
     (if pub = (case own of None \<Rightarrow> [] | Some k \<Rightarrow> k) then True
      else list_ex (\<lambda>k. pub = k) trusted)"

definition readStoredHead :: "env \<Rightarrow> fcontent \<Rightarrow> store_error + tree_head" where
  "readStoredHead C f =
     (case f of
        Missing \<Rightarrow> Inl HeadNotExist
      | Unreadable \<Rightarrow> Inl HeadUnreadable
      | Content b \<Rightarrow> (case unmarshal_head C b of None \<Rightarrow> Inl ParseHead | Some h \<Rightarrow> Inr h))"

text \<open>The signature part of \<open>checkTreeHead\<close>, then the whole check (\<open>None\<close>: no error).\<close>

definition checkSignature ::
  "env \<Rightarrow> tree_head \<Rightarrow> signer option \<Rightarrow> bytes list \<Rightarrow> bytes list \<Rightarrow> hash list \<Rightarrow> store_error option" where
  "checkSignature C head s trusted pinned leaves =
     (if pinned \<noteq> [] \<and> thSignature head = [] then Some ErrHeadNotSigned
      else if thSignature head = [] then None
      else case hex_decode (thSignature head) of
        None \<Rightarrow> Some MalformedSignature
      | Some rawSig \<Rightarrow>
          if length rawSig \<noteq> SignatureSize then Some MalformedSignature
          else case hex_decode (thSignerKey head) of
            None \<Rightarrow> Some MalformedSignerKey
          | Some pub \<Rightarrow>
              if length pub \<noteq> PublicKeySize then Some MalformedSignerKey
              else if pinned \<noteq> [] \<and> \<not> keyAccepted pub None pinned then Some ErrUnexpectedSigner
              else if (case s of None \<Rightarrow> False
                       | Some sg \<Rightarrow> \<not> keyAccepted pub (Some (sgPublicKey sg)) trusted)
              then Some ErrUnexpectedSigner
              else if \<not> ed_verify C pub
                     (treeHeadSigInput (word_of_nat (length leaves)) (Root (blake3 C) leaves)) rawSig
              then Some SignatureFailed
              else None)"

definition checkTreeHead ::
  "env \<Rightarrow> tree_head \<Rightarrow> bytes \<Rightarrow> signer option \<Rightarrow> bytes list \<Rightarrow> bytes list \<Rightarrow> hash list \<Rightarrow> store_error option" where
  "checkTreeHead C head key s trusted pinned leaves =
     (let root = Root (blake3 C) leaves; n = (word_of_nat (length leaves) :: u64) in
      case hex_decode (thRoot head) of
        None \<Rightarrow> Some MalformedRoot
      | Some storedRoot \<Rightarrow>
          if length storedRoot \<noteq> 32 then Some MalformedRoot
          else if root \<noteq> copy32 storedRoot then Some HeadRootMismatch
          else if thSize head \<noteq> n then Some HeadSizeMismatch
          else case hex_decode (thMAC head) of
            None \<Rightarrow> Some MalformedMAC
          | Some storedMAC \<Rightarrow>
              if length storedMAC \<noteq> 32 then Some MalformedMAC
              else if \<not> macEqual (computeMAC C key n root) storedMAC then Some MACFailed
              else checkSignature C head s trusted pinned leaves)"

definition verifyTreeHead ::
  "env \<Rightarrow> fcontent \<Rightarrow> bytes \<Rightarrow> signer option \<Rightarrow> bytes list \<Rightarrow> bytes list \<Rightarrow> hash list \<Rightarrow> store_error option" where
  "verifyTreeHead C f key s trusted pinned leaves =
     (case f of
        Missing \<Rightarrow>
          if pinned \<noteq> [] \<and> leaves = [] then Some ErrHeadNotSigned
          else if leaves = [] then None
          else Some ErrMissingTreeHead
      | Unreadable \<Rightarrow> Some HeadUnreadable
      | Content b \<Rightarrow> (case unmarshal_head C b of
          None \<Rightarrow> Some ParseHead
        | Some head \<Rightarrow> checkTreeHead C head key s trusted pinned leaves))"

datatype head_write = HeadTmpFailed | HeadRenameFailed | HeadWritten

text \<open>
  \<open>writeTreeHead\<close>: the head is built, signed, written to a temporary file and renamed, so
  the head file is either the old one or the whole new one.
\<close>

definition newHead :: "env \<Rightarrow> fcontent \<Rightarrow> bytes \<Rightarrow> hash list \<Rightarrow> string \<Rightarrow> tree_head" where
  "newHead C f key leaves now =
     (let root = Root (blake3 C) leaves; n = (word_of_nat (length leaves) :: u64) in
      \<lparr>thSize = n, thRoot = hex_encode root,
       thPrevRoot = (case readStoredHead C f of Inr old \<Rightarrow> thRoot old | Inl _ \<Rightarrow> []),
       thTimestamp = now, thMAC = hex_encode (computeMAC C key n root),
       thSignature = [], thSignerKey = []\<rparr>)"

definition signHead :: "env \<Rightarrow> signer option \<Rightarrow> hash list \<Rightarrow> tree_head \<Rightarrow> tree_head option" where
  "signHead C s leaves head =
     (case s of
        None \<Rightarrow> Some head
      | Some sg \<Rightarrow>
          (case sgSign sg (treeHeadSigInput (word_of_nat (length leaves)) (Root (blake3 C) leaves)) of
             None \<Rightarrow> None
           | Some sig \<Rightarrow> Some (head\<lparr>thSignature := hex_encode sig,
                                   thSignerKey := hex_encode (sgPublicKey sg)\<rparr>)))"

definition writeTreeHead ::
  "env \<Rightarrow> disk \<Rightarrow> bytes \<Rightarrow> signer option \<Rightarrow> hash list \<Rightarrow> string \<Rightarrow> head_write \<Rightarrow> store_error option \<times> disk" where
  "writeTreeHead C d key s leaves now w =
     (case signHead C s leaves (newHead C (head_file d) key leaves now) of
        None \<Rightarrow> (Some SignFailed, d)
      | Some head \<Rightarrow>
          (case w of
             HeadWritten \<Rightarrow> (None, d\<lparr>head_file := Content (marshal_head C head)\<rparr>)
           | _ \<Rightarrow> (Some HeadWriteFailed, d)))"

section \<open>Opening\<close>

datatype quarantine_io = QReadFails | QWriteFails | QTruncateFails | QOk

text \<open>\<open>quarantineTail\<close> copies the bytes from \<open>from\<close> on aside, then truncates the log.\<close>

definition quarantineTail :: "disk \<Rightarrow> nat \<Rightarrow> nat \<Rightarrow> quarantine_io \<Rightarrow> store_error option \<times> disk" where
  "quarantineTail d from stamp q =
     (case log_file d of
        Content b \<Rightarrow>
          (let d' = d\<lparr>quarantined := quarantined d @ [(stamp, drop from b)]\<rparr> in
           case q of
             QReadFails \<Rightarrow> (Some QuarantineFailed, d)
           | QWriteFails \<Rightarrow> (Some QuarantineFailed, d)
           | QTruncateFails \<Rightarrow> (Some QuarantineFailed, d')
           | QOk \<Rightarrow> (None, d'\<lparr>log_file := Content (take from b)\<rparr>))
      | _ \<Rightarrow> (Some QuarantineFailed, d))"

record open_io =
  oiMkdir :: bool
  oiOpenFile :: bool
  oiQuarantine :: quarantine_io
  oiStamp :: nat

text \<open>The number of records the stored head covers, if one complete record follows them.\<close>

definition committed_count :: "env \<Rightarrow> fcontent \<Rightarrow> nat \<Rightarrow> nat" where
  "committed_count C f n =
     (case readStoredHead C f of
        Inr h \<Rightarrow> if 1 \<le> thSize h \<and> thSize h + 1 = word_of_nat n then unat (thSize h) else n
      | Inl _ \<Rightarrow> n)"

definition finishOpen ::
  "env \<Rightarrow> disk \<Rightarrow> bytes \<Rightarrow> signer option \<Rightarrow> bytes list \<Rightarrow> bytes list \<Rightarrow> open_io \<Rightarrow> recovery \<Rightarrow>
   entry list \<Rightarrow> hash list \<Rightarrow> (store_error + store) \<times> disk" where
  "finishOpen C d key s trusted pinned io rec entries leaves =
     (let last_e = (if entries = [] then zero_entry else last entries);
          unsigned = (s \<noteq> None \<and> leaves \<noteq> [] \<and>
            (case readStoredHead C (head_file d) of Inr h \<Rightarrow> thSignature h = [] | Inl _ \<Rightarrow> False));
          d' = (if log_file d = Missing then d\<lparr>log_file := Content []\<rparr> else d)
      in if \<not> oiOpenFile io then (Inl OpenLogFailed, d)
         else (Inr \<lparr>stKey = key, stSigner = s, stTrusted = trusted, stPinned = pinned,
                    stUnsignedHead = unsigned, stRecovered = rec, stReadOnly = False,
                    stUncovered = no_uncovered, stLast = last_e, stHasLast = (entries \<noteq> []),
                    stSeq = eSeq last_e, stLeaves = leaves\<rparr>, d'))"

definition openStore ::
  "env \<Rightarrow> disk \<Rightarrow> bytes \<Rightarrow> signer option \<Rightarrow> bytes list \<Rightarrow> bytes list \<Rightarrow> open_io \<Rightarrow> (store_error + store) \<times> disk" where
  "openStore C d key s trusted pinned io =
     (if \<not> oiMkdir io then (Inl MkdirFailed, d)
      else case readLog C (log_file d) key of
        Inl err \<Rightarrow> (Inl err, d)
      | Inr (entries, ends, frames, sz) \<Rightarrow>
          (let leaves = map (leafHash C) entries;
               checked = (leaves \<noteq> [] \<or> pinned \<noteq> []);
               committed = (if checked then committed_count C (head_file d) (length leaves)
                            else length leaves)
           in case (if checked
                    then verifyTreeHead C (head_file d) key s trusted pinned (take committed leaves)
                    else None) of
             Some err \<Rightarrow> (Inl err, d)
           | None \<Rightarrow>
               (let cut = (if 0 < committed then ends ! (committed - 1) else 0);
                    lastGood = (if ends = [] then cut else last ends)
                in if cut < sz \<and> frames = lastGood
                   then (case quarantineTail d cut (oiStamp io) (oiQuarantine io) of
                           (Some err, d') \<Rightarrow> (Inl err, d')
                         | (None, d') \<Rightarrow>
                             finishOpen C d' key s trusted pinned io
                               \<lparr>rcBytes = sz - cut, rcUncommittedRecords = length leaves - committed,
                                rcQuarantineFile = Some (oiStamp io)\<rparr>
                               (take committed entries) (take committed leaves))
                   else if committed < length leaves
                   then (case verifyTreeHead C (head_file d) key s trusted pinned leaves of
                           Some err \<Rightarrow> (Inl err, d)
                         | None \<Rightarrow> finishOpen C d key s trusted pinned io no_recovery entries leaves)
                   else finishOpen C d key s trusted pinned io no_recovery entries leaves)))"

definition OpenTrusting ::
  "env \<Rightarrow> disk \<Rightarrow> bytes \<Rightarrow> signer option \<Rightarrow> bytes list \<Rightarrow> open_io \<Rightarrow> (store_error + store) \<times> disk" where
  "OpenTrusting C d key s trusted io = openStore C d key s trusted [] io"

definition Open :: "env \<Rightarrow> disk \<Rightarrow> bytes \<Rightarrow> signer option \<Rightarrow> open_io \<Rightarrow> (store_error + store) \<times> disk" where
  "Open C d key s io = OpenTrusting C d key s [] io"

section \<open>Read-only opening\<close>

text \<open>
  What one attempt of \<open>readCommitted\<close> sees of the two files while the daemon may be writing:
  the head, then the log, then (only if there was no head) the head once more.
\<close>

record view =
  vHead :: fcontent
  vLog :: fcontent
  vHeadAgain :: fcontent

record committed_log =
  clEntries :: "entry list"
  clLeaves :: "hash list"
  clUncovered :: uncovered

definition readOnlyAttempts :: nat where
  "readOnlyAttempts = 5"

datatype 'a attempt = Retry store_error | Done "store_error + 'a"

definition readCommittedOnce :: "env \<Rightarrow> view \<Rightarrow> bytes \<Rightarrow> bytes list \<Rightarrow> committed_log attempt" where
  "readCommittedOnce C v key pinned =
     (let h = readStoredHead C (vHead v) in
      if (case h of Inl err \<Rightarrow> err \<noteq> HeadNotExist | Inr _ \<Rightarrow> False) then Done (Inl (projl h))
      else case readLog C (vLog v) key of
        Inl err \<Rightarrow> Done (Inl err)
      | Inr (entries, ends, frames, sz) \<Rightarrow>
          (case h of
             Inl _ \<Rightarrow>
               if entries \<noteq> [] then Retry ErrMissingTreeHead
               else (case verifyTreeHead C (vHeadAgain v) key None [] pinned [] of
                       Some err \<Rightarrow> Done (Inl err)
                     | None \<Rightarrow> Done (Inr \<lparr>clEntries = [], clLeaves = [],
                                           clUncovered = \<lparr>ucRecords = 0, ucBytes = sz\<rparr>\<rparr>))
           | Inr head \<Rightarrow>
               if (word_of_nat (length entries) :: u64) < thSize head then Retry HeadSizeMismatch
               else (let covered = take (unat (thSize head)) entries;
                         leaves = map (leafHash C) covered
                     in case checkTreeHead C head key None [] pinned leaves of
                          Some err \<Rightarrow> Done (Inl err)
                        | None \<Rightarrow>
                            (let cut = (if covered = [] then 0 else ends ! (length covered - 1))
                             in Done (Inr \<lparr>clEntries = covered, clLeaves = leaves,
                                  clUncovered = \<lparr>ucRecords = length ends - length covered,
                                                 ucBytes = sz - cut\<rparr>\<rparr>)))))"

text \<open>The views are those of successive attempts; \<open>n\<close> attempts are left.\<close>

fun readCommittedLoop ::
  "env \<Rightarrow> nat \<Rightarrow> (nat \<Rightarrow> view) \<Rightarrow> bytes \<Rightarrow> bytes list \<Rightarrow> store_error \<Rightarrow> store_error + committed_log" where
  "readCommittedLoop C 0 vs key pinned lastErr = Inl lastErr"
| "readCommittedLoop C (Suc n) vs key pinned lastErr =
     (case readCommittedOnce C (vs (readOnlyAttempts - Suc n)) key pinned of
        Done r \<Rightarrow> r
      | Retry err \<Rightarrow> readCommittedLoop C n vs key pinned err)"

definition readCommitted ::
  "env \<Rightarrow> (nat \<Rightarrow> view) \<Rightarrow> bytes \<Rightarrow> bytes list \<Rightarrow> store_error + committed_log" where
  "readCommitted C vs key pinned =
     readCommittedLoop C readOnlyAttempts vs key pinned ErrMissingTreeHead"

definition OpenPinned ::
  "env \<Rightarrow> (nat \<Rightarrow> view) \<Rightarrow> bytes \<Rightarrow> bytes list \<Rightarrow> store_error + store" where
  "OpenPinned C vs key pinned =
     (case readCommitted C vs key pinned of
        Inl err \<Rightarrow> Inl err
      | Inr v \<Rightarrow>
          (let es = clEntries v; last_e = (if es = [] then zero_entry else last es) in
           Inr \<lparr>stKey = key, stSigner = None, stTrusted = [], stPinned = pinned,
                stUnsignedHead = False, stRecovered = no_recovery, stReadOnly = True,
                stUncovered = clUncovered v, stLast = last_e, stHasLast = (es \<noteq> []),
                stSeq = eSeq last_e, stLeaves = clLeaves v\<rparr>))"

section \<open>Operations of an open store\<close>

definition Last :: "store \<Rightarrow> entry \<times> bool" where
  "Last st = (stLast st, stHasLast st)"

definition RootAt :: "env \<Rightarrow> store \<Rightarrow> u64 \<Rightarrow> store_error + string" where
  "RootAt C st sz =
     (if word_of_nat (length (stLeaves st)) < sz then Inl SizeExceeds
      else Inr (hex_encode (Root (blake3 C) (take (unat sz) (stLeaves st)))))"

definition Head :: "env \<Rightarrow> store \<Rightarrow> string \<Rightarrow> tree_head" where
  "Head C st now =
     \<lparr>thSize = word_of_nat (length (stLeaves st)),
      thRoot = hex_encode (Root (blake3 C) (stLeaves st)), thPrevRoot = [],
      thTimestamp = now, thMAC = [], thSignature = [], thSignerKey = []\<rparr>"

text \<open>
  What the environment decides about one \<open>Append\<close>: the clock, the nonce, how many bytes of
  the frame reach the file before a write error (\<open>None\<close>: all of them, no error), and the
  fate of the head file. The data argument is \<open>None\<close> for Go's \<open>nil\<close>, otherwise the result of
  \<open>json.Marshal(data)\<close>.
\<close>

record append_io =
  aiNow :: time
  aiNowText :: string
  aiNonce :: "bytes option"
  aiWrite :: "nat option"
  aiHead :: head_write

definition frame :: "bytes \<Rightarrow> bytes" where
  "frame b = put_u32 (word_of_nat (length b)) @ b"

definition write_log :: "disk \<Rightarrow> bytes \<Rightarrow> disk" where
  "write_log d b =
     d\<lparr>log_file := Content ((case log_file d of Content old \<Rightarrow> old | _ \<Rightarrow> []) @ b)\<rparr>"

definition newEntry :: "u64 \<Rightarrow> time \<Rightarrow> string \<Rightarrow> string \<Rightarrow> string \<Rightarrow> bytes option \<Rightarrow> entry" where
  "newEntry seq now level event source data =
     \<lparr>eSeq = seq, eTimestamp = now, eLevel = ToValidUTF8 level, eEvent = ToValidUTF8 event,
      eSource = ToValidUTF8 source, eData = data\<rparr>"

definition Append ::
  "env \<Rightarrow> store \<Rightarrow> disk \<Rightarrow> string \<Rightarrow> string \<Rightarrow> string \<Rightarrow> bytes option option \<Rightarrow> append_io \<Rightarrow>
   store_error option \<times> store \<times> disk" where
  "Append C st d level event source data io =
     (if stReadOnly st then (Some OpenedReadOnly, st, d)
      else let st1 = st\<lparr>stSeq := stSeq st + 1\<rparr> in
        if data = Some None then (Some MarshalFailed, st1, d)
        else let e = newEntry (stSeq st1) (aiNow io) level event source (Option.bind data id) in
          case marshal_entry C e of
            None \<Rightarrow> (Some MarshalFailed, st1, d)
          | Some plain \<Rightarrow>
              (case encrypt_Seal C (aiNonce io) plain (stKey st) of
                 None \<Rightarrow> (Some SealFailed, st1, d)
               | Some b \<Rightarrow>
                   (case aiWrite io of
                      Some k \<Rightarrow> (Some WriteFailed, st1, write_log d (take k (frame b)))
                    | None \<Rightarrow>
                        (let st2 = st1\<lparr>stLeaves := stLeaves st @ [leafHash C e],
                                       stLast := e, stHasLast := True\<rparr>;
                             (err, d2) = writeTreeHead C (write_log d (frame b)) (stKey st)
                                (stSigner st) (stLeaves st2) (aiNowText io) (aiHead io)
                         in (err, st2, d2)))))"

text \<open>\<open>Snapshot\<close>: the raw bytes of the log file (\<open>None\<close>: it cannot be read).\<close>

definition Snapshot :: "disk \<Rightarrow> bytes option" where
  "Snapshot d = (case log_file d of Content b \<Rightarrow> Some b | _ \<Rightarrow> None)"

definition VerifyIntegrity ::
  "env \<Rightarrow> store \<Rightarrow> disk \<Rightarrow> (nat \<Rightarrow> view) \<Rightarrow> store_error + u64" where
  "VerifyIntegrity C st d vs =
     (if stReadOnly st then
        (case readCommitted C vs (stKey st) (stPinned st) of
           Inl err \<Rightarrow> Inl err | Inr v \<Rightarrow> Inr (word_of_nat (length (clLeaves v))))
      else case ReadAll C d (stKey st) of
        Inl err \<Rightarrow> Inl err
      | Inr entries \<Rightarrow>
          (let leaves = map (leafHash C) entries in
           if leaves = [] \<and> stPinned st = [] then Inr 0
           else case verifyTreeHead C (head_file d) (stKey st) (stSigner st) (stTrusted st)
                       (stPinned st) leaves of
                  Some err \<Rightarrow> Inl err
                | None \<Rightarrow> Inr (word_of_nat (length leaves))))"

definition InclusionProof ::
  "env \<Rightarrow> store \<Rightarrow> disk \<Rightarrow> u64 \<Rightarrow> store_error + (merkle_proof \<times> entry)" where
  "InclusionProof C st d index =
     (case ReadAll C d (stKey st) of
        Inl err \<Rightarrow> Inl err
      | Inr es \<Rightarrow>
          (let entries = (if length (stLeaves st) < length es then take (length (stLeaves st)) es else es)
           in if word_of_nat (length entries) \<le> index then Inl ProofOutOfRange
              else case Prove (blake3 C) (map (leafHash C) entries) index of
                Inl _ \<Rightarrow> Inl ProofOutOfRange
              | Inr p \<Rightarrow> Inr (p, entries ! unat index)))"

end
