(* ===== verification/Store_Correct.thy ===== *)
theory Store_Correct
  imports Log_Store "HOL-Library.Sublist"
begin

text \<open>
  Correctness of the log store: the framing of records, the tree head that \<open>Append\<close>
  writes, the invariant of an open store, reopening and crash recovery, detection of
  changes to the log, and readers beside a running writer.
\<close>

section \<open>Constant-time comparison\<close>

lemma mac_diff_zero:
  "length a = length b \<Longrightarrow> mac_diff diff a b = 0 \<longleftrightarrow> diff = 0 \<and> a = b"
proof (induction a b arbitrary: diff rule: list_induct2)
  case Nil
  then show ?case by simp
next
  case (Cons x xs y ys)
  have "x XOR y = 0 \<longleftrightarrow> x = y" by (metis xor_self_eq xor.left_neutral xor.assoc xor.right_neutral)
  then show ?case using Cons.IH by (auto simp: or_eq_0_iff)
qed

lemma macEqual_iff: "macEqual a b \<longleftrightarrow> a = b"
  by (auto simp: macEqual_def mac_diff_zero)

section \<open>Framing\<close>

text \<open>A sealed record \<open>b\<close> that \<open>readLog\<close> turns into the entry \<open>e\<close>.\<close>

definition decodes :: "env \<Rightarrow> bytes \<Rightarrow> bytes \<Rightarrow> entry \<Rightarrow> bool" where
  "decodes C key b e \<longleftrightarrow>
     0 < length b \<and> length b \<le> max_record \<and>
     (case encrypt_Open C b key of None \<Rightarrow> False | Some plain \<Rightarrow> unmarshal_entry C plain = Some e)"

lemma length_frame [simp]: "length (frame b) = 4 + length b"
  by (simp add: frame_def)

lemma frame_length_prefix:
  "length b \<le> max_record \<Longrightarrow> unat (get_u32 (take 4 (frame b))) = length b"
  by (simp add: frame_def max_record_def unat_of_nat)

lemma drop_frame [simp]: "drop 4 (frame b) = b"
  by (simp add: frame_def)

lemma readFrames_frame:
  assumes "decodes C key b e"
  shows "readFrames C key (frame b @ r) off =
     (case readFrames C key r (off + 4 + length b) of
        (es, ends, fr) \<Rightarrow> (e # es, (off + 4 + length b) # ends, fr))"
proof -
  have len: "0 < length b" "length b \<le> max_record" using assms by (auto simp: decodes_def)
  obtain plain where "encrypt_Open C b key = Some plain" "unmarshal_entry C plain = Some e"
    using assms by (auto simp: decodes_def split: option.splits)
  then show ?thesis
    using len by (subst readFrames.simps)
      (simp add: frame_length_prefix [OF len(2)] Let_def split: prod.splits)
qed

lemma readFrames_Nil: "readFrames C key [] off = ([], [], off)"
  by (subst readFrames.simps) simp

lemma readFrames_torn:
  assumes "0 < length b" "length b \<le> max_record" "k < length (frame b)"
  shows "readFrames C key (take k (frame b)) off = ([], [], off)"
proof (cases "k < 4")
  case True
  then show ?thesis by (subst readFrames.simps) simp
next
  case False
  have "take 4 (take k (frame b)) = take 4 (frame b)" using False by (simp add: min_def)
  moreover have "k - 4 < length b" using False assms(1,3) by auto
  ultimately show ?thesis
    using False assms frame_length_prefix [OF assms(2)]
    by (subst readFrames.simps) (simp add: Let_def)
qed

fun frame_ends :: "nat \<Rightarrow> bytes list \<Rightarrow> nat list" where
  "frame_ends off [] = []"
| "frame_ends off (b # bs) = (off + 4 + length b) # frame_ends (off + 4 + length b) bs"

definition frames_of :: "bytes list \<Rightarrow> bytes" where
  "frames_of bs = concat (map frame bs)"

lemma frames_of_simps [simp]:
  "frames_of [] = []" "frames_of (b # bs) = frame b @ frames_of bs"
  "frames_of (bs @ cs) = frames_of bs @ frames_of cs"
  by (simp_all add: frames_of_def)

lemma length_frame_ends [simp]: "length (frame_ends off bs) = length bs"
  by (induction bs arbitrary: off) auto

lemma frame_ends_nth:
  "i < length bs \<Longrightarrow> frame_ends off bs ! i = off + length (frames_of (take (Suc i) bs))"
proof (induction bs arbitrary: off i)
  case Nil
  then show ?case by simp
next
  case (Cons b bs)
  then show ?case by (cases i) auto
qed

lemma frame_ends_eq_Nil [simp]: "frame_ends off bs = [] \<longleftrightarrow> bs = []"
  by (cases bs) auto

lemma last_frame_ends: "bs \<noteq> [] \<Longrightarrow> last (frame_ends off bs) = off + length (frames_of bs)"
proof (induction bs arbitrary: off)
  case (Cons b bs)
  then show ?case by (cases "bs = []") simp_all
qed simp

lemma readFrames_frames:
  assumes "list_all2 (decodes C key) bs es"
  shows "readFrames C key (frames_of bs @ r) off =
     (case readFrames C key r (off + length (frames_of bs)) of
        (es', ends', fr) \<Rightarrow> (es @ es', frame_ends off bs @ ends', fr))"
  using assms
proof (induction bs es arbitrary: off rule: list_all2_induct)
  case Nil
  then show ?case by (simp split: prod.splits)
next
  case (Cons b bs e es)
  have off: "off + (4 + length b + length (frames_of bs)) = off + 4 + length b + length (frames_of bs)"
    by simp
  show ?case
    using Cons.IH [of "off + 4 + length b"] readFrames_frame [OF Cons.hyps(1), of "frames_of bs @ r" off]
    by (simp add: off split: prod.splits)
qed

text \<open>The log file holds exactly the frames of \<open>bs\<close>, which decode to the entries \<open>es\<close>.\<close>

definition log_holds :: "env \<Rightarrow> bytes \<Rightarrow> fcontent \<Rightarrow> bytes list \<Rightarrow> entry list \<Rightarrow> bool" where
  "log_holds C key f bs es \<longleftrightarrow>
     (f = Content (frames_of bs) \<or> (f = Missing \<and> bs = [])) \<and> list_all2 (decodes C key) bs es"

lemma log_holds_lengths: "log_holds C key f bs es \<Longrightarrow> length bs = length es"
  by (auto simp: log_holds_def dest: list_all2_lengthD)

lemma readLog_holds:
  assumes "log_holds C key f bs es"
  shows "readLog C f key = Inr (es, frame_ends 0 bs, length (frames_of bs), length (frames_of bs))"
  using assms readFrames_frames [of C key bs es "[]" 0]
  by (auto simp: log_holds_def readLog_def readFrames_Nil)

lemma ReadAll_holds: "log_holds C (key) (log_file d) bs es \<Longrightarrow> ReadAll C d key = Inr es"
  by (simp add: ReadAll_def readLog_holds)

section \<open>The head Append writes\<close>

lemma length_leafHash [simp]: "length (leafHash C e) = 32"
  by (simp add: leafHash_def)

lemma length_Root_leaves [simp]: "length (Root (blake3 C) (map (leafHash C) es)) = 32"
  by (rule length_Root) simp

lemma length_computeMAC [simp]: "length (computeMAC C key n root) = 32"
  by (simp add: computeMAC_def)

lemma keyAccepted_own [simp]: "keyAccepted k (Some k) trusted"
  by (simp add: keyAccepted_def)

lemma checkSignature_own:
  assumes "\<And>sg. s = Some sg \<Longrightarrow> signer_ok C sg" "signHead C s leaves h = Some h'"
    and "thSignature h = []"
  shows "checkSignature C h' s trusted [] leaves = None"
proof (cases s)
  case None
  then show ?thesis using assms by (simp add: checkSignature_def signHead_def)
next
  case (Some sg)
  then show ?thesis
    using assms
    by (auto simp: checkSignature_def signHead_def signer_ok_def PublicKeySize_def split: option.splits)
qed

lemma signHead_fields:
  "signHead C s leaves h = Some h' \<Longrightarrow> thSize h' = thSize h \<and> thRoot h' = thRoot h \<and> thMAC h' = thMAC h"
  by (auto simp: signHead_def split: option.splits)

lemma newHead_checks:
  assumes "\<And>sg. s = Some sg \<Longrightarrow> signer_ok C sg"
    and "signHead C s leaves (newHead C f key leaves now) = Some h"
    and "\<forall>l \<in> set leaves. length l = 32"
  shows "checkTreeHead C h key s trusted [] leaves = None"
proof -
  have "length (Root (blake3 C) leaves) = 32" using assms(3) by (rule length_Root)
  then show ?thesis
    using signHead_fields [OF assms(2)] checkSignature_own [OF assms(1,2)]
    by (simp add: checkTreeHead_def newHead_def Let_def macEqual_iff)
qed

section \<open>The invariant of an open store\<close>

text \<open>
  The log file is the sequence of frames of the entries \<open>es\<close>, the leaves in memory are
  theirs, and the stored head covers exactly them.
\<close>

definition store_inv :: "env \<Rightarrow> store \<Rightarrow> disk \<Rightarrow> bytes list \<Rightarrow> entry list \<Rightarrow> bool" where
  "store_inv C st d bs es \<longleftrightarrow>
     \<not> stReadOnly st \<and> stPinned st = [] \<and>
     log_holds C (stKey st) (log_file d) bs es \<and>
     stLeaves st = map (leafHash C) es \<and>
     stHasLast st = (es \<noteq> []) \<and> (es \<noteq> [] \<longrightarrow> stLast st = last es) \<and>
     verifyTreeHead C (head_file d) (stKey st) (stSigner st) (stTrusted st) [] (stLeaves st) = None"

definition signers_ok :: "env \<Rightarrow> store \<Rightarrow> bool" where
  "signers_ok C st \<longleftrightarrow> (case stSigner st of None \<Rightarrow> True | Some sg \<Rightarrow> signer_ok C sg)"

lemma verifyTreeHead_head:
  assumes "verifyTreeHead C f key s trusted pinned leaves = None" "leaves \<noteq> []"
  shows "\<exists>h. readStoredHead C f = Inr h \<and> thSize h = word_of_nat (length leaves)
            \<and> checkTreeHead C h key s trusted pinned leaves = None"
  using assms
  by (auto simp: verifyTreeHead_def readStoredHead_def checkTreeHead_def Let_def
      split: fcontent.splits option.splits if_splits)

lemma committed_count_covered:
  assumes "verifyTreeHead C f key s trusted pinned leaves = None"
  shows "committed_count C f (length leaves) = length leaves"
proof (cases "leaves = []")
  case True
  show ?thesis
    using assms True
    by (auto simp: committed_count_def verifyTreeHead_def readStoredHead_def checkTreeHead_def Let_def
        split: fcontent.splits option.splits if_splits)
next
  case False
  then show ?thesis using verifyTreeHead_head [OF assms False] by (auto simp: committed_count_def)
qed

lemma committed_count_one_more:
  assumes "verifyTreeHead C f key s trusted pinned leaves = None" "leaves \<noteq> []" "length leaves < 2 ^ 63"
  shows "committed_count C f (Suc (length leaves)) = length leaves"
proof -
  obtain h where h: "readStoredHead C f = Inr h" "thSize h = word_of_nat (length leaves)"
    using verifyTreeHead_head [OF assms(1,2)] by blast
  have "unat (word_of_nat (length leaves) :: u64) = length leaves"
    using assms(3) by (simp add: unat_of_nat)
  moreover have "(1::u64) \<le> word_of_nat (length leaves)"
    using calculation assms(2) by (simp add: word_le_nat_alt Suc_le_eq)
  ultimately show ?thesis using h by (simp add: committed_count_def add.commute)
qed

section \<open>Appending\<close>

lemma wf_newEntry:
  "(case data of None \<Rightarrow> True | Some b \<Rightarrow> compact_json C b) \<Longrightarrow>
     wf_entry C (newEntry seq now level event source data)"
  by (simp add: wf_entry_def newEntry_def)

text \<open>What a successful \<open>Append\<close> did, step by step.\<close>

lemma Append_success:
  assumes "Append C st d level event source data io = (None, st', d')"
  obtains e plain b h where
    "\<not> stReadOnly st" "data \<noteq> Some None"
    "e = newEntry (stSeq st + 1) (aiNow io) level event source (Option.bind data id)"
    "marshal_entry C e = Some plain" "encrypt_Seal C (aiNonce io) plain (stKey st) = Some b"
    "signHead C (stSigner st) (stLeaves st @ [leafHash C e])
       (newHead C (head_file d) (stKey st) (stLeaves st @ [leafHash C e]) (aiNowText io)) = Some h"
    "st' = st\<lparr>stSeq := stSeq st + 1, stLeaves := stLeaves st @ [leafHash C e],
              stLast := e, stHasLast := True\<rparr>"
    "d' = (write_log d (frame b))\<lparr>head_file := Content (marshal_head C h)\<rparr>"
  using assms
  by (auto simp: Append_def writeTreeHead_def write_log_def Let_def
      split: if_splits option.splits prod.splits head_write.splits)

lemma log_holds_write:
  assumes "log_holds C key (log_file d) bs es" "decodes C key b e"
  shows "log_holds C key (log_file (write_log d (frame b))) (bs @ [b]) (es @ [e])"
  using assms by (auto simp: log_holds_def write_log_def list_all2_appendI)

lemma sealed_decodes:
  assumes "env_ok C" "wf_entry C e" "marshal_entry C e = Some plain"
    and "encrypt_Seal C (Some nonce) plain key = Some b" "length nonce = NonceSize"
    and "length b \<le> max_record"
  shows "decodes C key b e"
  using assms seal_open [OF assms(1,5,4)] seal_nonempty [OF assms(4,5)]
  by (auto simp: decodes_def env_ok_def)

text \<open>
  The conditions on the inputs of one \<open>Append\<close>: the nonce has its size, the data is text
  \<open>json.Marshal\<close> produced, and the sealed record is within the limit \<open>readLog\<close> accepts.
\<close>

definition append_fits ::
  "env \<Rightarrow> store \<Rightarrow> string \<Rightarrow> string \<Rightarrow> string \<Rightarrow> bytes option option \<Rightarrow> append_io \<Rightarrow> bool" where
  "append_fits C st level event source data io \<longleftrightarrow>
     (case aiNonce io of None \<Rightarrow> False | Some n \<Rightarrow> length n = NonceSize) \<and>
     (case Option.bind data id of None \<Rightarrow> True | Some j \<Rightarrow> compact_json C j) \<and>
     (\<forall>plain b. marshal_entry C (newEntry (stSeq st + 1) (aiNow io) level event source (Option.bind data id))
        = Some plain \<and> encrypt_Seal C (aiNonce io) plain (stKey st) = Some b \<longrightarrow> length b \<le> max_record)"

lemma Append_inv:
  assumes "env_ok C" "signers_ok C st" "store_inv C st d bs es"
    and "append_fits C st level event source data io"
    and "Append C st d level event source data io = (None, st', d')"
  shows "\<exists>b. store_inv C st' d' (bs @ [b])
     (es @ [newEntry (stSeq st + 1) (aiNow io) level event source (Option.bind data id)])"
proof -
  obtain e plain b h where *:
    "e = newEntry (stSeq st + 1) (aiNow io) level event source (Option.bind data id)"
    "marshal_entry C e = Some plain" "encrypt_Seal C (aiNonce io) plain (stKey st) = Some b"
    "signHead C (stSigner st) (stLeaves st @ [leafHash C e])
       (newHead C (head_file d) (stKey st) (stLeaves st @ [leafHash C e]) (aiNowText io)) = Some h"
    "st' = st\<lparr>stSeq := stSeq st + 1, stLeaves := stLeaves st @ [leafHash C e],
              stLast := e, stHasLast := True\<rparr>"
    "d' = (write_log d (frame b))\<lparr>head_file := Content (marshal_head C h)\<rparr>"
    by (rule Append_success [OF assms(5)])
  obtain nonce where nonce: "aiNonce io = Some nonce" "length nonce = NonceSize"
    using assms(4) by (auto simp: append_fits_def split: option.splits)
  have "wf_entry C e" using assms(4) *(1) by (simp add: append_fits_def wf_newEntry)
  then have "decodes C (stKey st) b e"
    using sealed_decodes [OF assms(1) _ *(2)] *(1,2,3) nonce assms(4) by (simp add: append_fits_def)
  then have log: "log_holds C (stKey st) (log_file (write_log d (frame b))) (bs @ [b]) (es @ [e])"
    using assms(3) by (intro log_holds_write) (simp_all add: store_inv_def)
  have leaves: "stLeaves st @ [leafHash C e] = map (leafHash C) (es @ [e])"
    using assms(3) by (simp add: store_inv_def)
  have sg: "signer_ok C sg" if "stSigner st = Some sg" for sg
    using assms(2) that by (simp add: signers_ok_def)
  have "checkTreeHead C h (stKey st) (stSigner st) (stTrusted st) [] (stLeaves st @ [leafHash C e]) = None"
    by (rule newHead_checks [OF sg *(4)]) (use leaves in auto)
  then show ?thesis
    using assms(1,3) log leaves * by (auto simp: store_inv_def verifyTreeHead_def env_ok_def)
qed

section \<open>Reopening\<close>

definition good_open :: "open_io \<Rightarrow> bool" where
  "good_open io \<longleftrightarrow> oiMkdir io \<and> oiOpenFile io \<and> oiQuarantine io = QOk"

lemma openStore_covered:
  assumes "log_holds C key (log_file d) bs es" "good_open io"
    and "verifyTreeHead C (head_file d) key s trusted [] (map (leafHash C) es) = None"
  shows "openStore C d key s trusted [] io =
     finishOpen C d key s trusted [] io no_recovery es (map (leafHash C) es)"
proof -
  have cc: "committed_count C (head_file d) (length es) = length es"
    using committed_count_covered [OF assms(3)] by simp
  have len: "length bs = length es" by (rule log_holds_lengths [OF assms(1)])
  have ends: "es \<noteq> [] \<Longrightarrow> frame_ends 0 bs ! (length es - Suc 0) = length (frames_of bs)"
    using len frame_ends_nth [of "length bs - 1" bs 0] by (cases bs rule: rev_cases) auto
  show ?thesis
    using assms cc ends len
    by (cases "es = []") (simp_all add: openStore_def good_open_def readLog_holds Let_def)
qed

text \<open>After the log file was extended by part of a record (a torn write).\<close>

lemma openStore_torn:
  assumes "log_holds C key (Content old) bs es" "good_open io"
    and "verifyTreeHead C (head_file d) key s trusted [] (map (leafHash C) es) = None"
    and "log_file d = Content (old @ take k (frame b))" "0 < k" "k < length (frame b)"
    and "0 < length b" "length b \<le> max_record"
  shows "openStore C d key s trusted [] io =
     finishOpen C (d\<lparr>quarantined := quarantined d @ [(oiStamp io, take k (frame b))], log_file := Content old\<rparr>)
       key s trusted [] io
       \<lparr>rcBytes = k, rcUncommittedRecords = 0, rcQuarantineFile = Some (oiStamp io)\<rparr>
       es (map (leafHash C) es)"
proof -
  have old: "old = frames_of bs" and dec: "list_all2 (decodes C key) bs es"
    using assms(1) by (auto simp: log_holds_def)
  have cc: "committed_count C (head_file d) (length es) = length es"
    using committed_count_covered [OF assms(3)] by simp
  have len: "length bs = length es" by (rule log_holds_lengths [OF assms(1)])
  have ends: "es \<noteq> [] \<Longrightarrow> frame_ends 0 bs ! (length es - Suc 0) = length (frames_of bs)"
    using len frame_ends_nth [of "length bs - 1" bs 0] by (cases bs rule: rev_cases) auto
  have bs_es: "bs = [] \<longleftrightarrow> es = []" using len by auto
  have last: "bs \<noteq> [] \<Longrightarrow> last (frame_ends 0 bs) = length (frames_of bs)"
    using last_frame_ends [of bs 0] by simp
  have "readLog C (log_file d) key =
      Inr (es, frame_ends 0 bs, length (frames_of bs), length (frames_of bs) + k)"
    using readFrames_frames [OF dec, of "take k (frame b)" 0] readFrames_torn [OF assms(7,8,6)] assms(4,6) old
    by (simp add: readLog_def min_def)
  then show ?thesis
    using assms cc ends last len old bs_es
    by (cases "es = []") (simp_all add: openStore_def good_open_def Let_def quarantineTail_def min_def)
qed

text \<open>After the log file was extended by one whole record that no head covers yet.\<close>

lemma openStore_uncommitted:
  assumes "log_holds C key (Content old) bs es" "good_open io"
    and "verifyTreeHead C (head_file d) key s trusted [] (map (leafHash C) es) = None"
    and "log_file d = Content (old @ frame b)" "decodes C key b e" "es \<noteq> []" "length es < 2 ^ 63"
  shows "openStore C d key s trusted [] io =
     finishOpen C (d\<lparr>quarantined := quarantined d @ [(oiStamp io, frame b)], log_file := Content old\<rparr>)
       key s trusted [] io
       \<lparr>rcBytes = length (frame b), rcUncommittedRecords = 1, rcQuarantineFile = Some (oiStamp io)\<rparr>
       es (map (leafHash C) es)"
proof -
  have old: "old = frames_of bs" and dec: "list_all2 (decodes C key) bs es"
    using assms(1) by (auto simp: log_holds_def)
  have cc: "committed_count C (head_file d) (Suc (length es)) = length es"
    using committed_count_one_more [OF assms(3)] assms(6,7) by simp
  have len: "length bs = length es" by (rule log_holds_lengths [OF assms(1)])
  have ends: "(frame_ends 0 (bs @ [b])) ! (length es - Suc 0) = length (frames_of bs)"
    using len assms(6) frame_ends_nth [of "length es - 1" "bs @ [b]" 0] by (simp add: Suc_leI)
  have last: "last (frame_ends 0 (bs @ [b])) = length (frames_of (bs @ [b]))"
    using last_frame_ends [of "bs @ [b]" 0] by simp
  have "log_holds C key (log_file d) (bs @ [b]) (es @ [e])"
    using assms(4,5) old dec by (simp add: log_holds_def list_all2_appendI)
  then show ?thesis
    using assms cc ends last len old
    by (simp add: openStore_def good_open_def Let_def quarantineTail_def readLog_holds)
qed

lemma finishOpen_inv:
  assumes "good_open io" "log_holds C key (log_file d) bs es"
    and "verifyTreeHead C (head_file d) key s trusted [] (map (leafHash C) es) = None"
  shows "\<exists>st d'. finishOpen C d key s trusted [] io rec es (map (leafHash C) es) = (Inr st, d') \<and>
     store_inv C st d' bs es \<and> stKey st = key \<and> stSigner st = s \<and> stTrusted st = trusted \<and>
     stRecovered st = rec \<and> stSeq st = (if es = [] then 0 else eSeq (last es)) \<and>
     quarantined d' = quarantined d \<and> (log_file d \<noteq> Missing \<longrightarrow> d' = d)"
  using assms
  by (auto simp: finishOpen_def Let_def good_open_def store_inv_def log_holds_def zero_entry_def)

text \<open>Whatever was on the disk, a store that opens with records had them verified.\<close>

lemma finishOpen_leaves:
  "finishOpen C d key s trusted pinned io rec es leaves = (Inr st, d') \<Longrightarrow> stLeaves st = leaves"
  by (auto simp: finishOpen_def Let_def split: if_splits)

lemma openStore_verified:
  assumes "openStore C d key s trusted pinned io = (Inr st, d')"
  shows "\<exists>es ends fr sz n. readLog C (log_file d) key = Inr (es, ends, fr, sz) \<and>
     stLeaves st = map (leafHash C) (take n es) \<and>
     (stLeaves st = [] \<or> verifyTreeHead C (head_file d) key s trusted pinned (stLeaves st) = None)"
proof -
  obtain es ends fr sz where log: "readLog C (log_file d) key = Inr (es, ends, fr, sz)"
    using assms by (auto simp: openStore_def split: if_splits sum.splits)
  define n where "n = (if es \<noteq> [] \<or> pinned \<noteq> [] then committed_count C (head_file d) (length es) else length es)"
  let ?ls = "map (leafHash C) es"
  have "(stLeaves st = take n ?ls \<and>
           (es \<noteq> [] \<or> pinned \<noteq> [] \<longrightarrow>
              verifyTreeHead C (head_file d) key s trusted pinned (take n ?ls) = None)) \<or>
        (stLeaves st = ?ls \<and> n < length es \<and> verifyTreeHead C (head_file d) key s trusted pinned ?ls = None) \<or>
        (stLeaves st = ?ls \<and> \<not> n < length es \<and>
           (es \<noteq> [] \<or> pinned \<noteq> [] \<longrightarrow>
              verifyTreeHead C (head_file d) key s trusted pinned (take n ?ls) = None))"
    using assms log unfolding n_def
    by (auto simp: openStore_def Let_def split: if_splits option.splits prod.splits
        dest: finishOpen_leaves)
  then have "\<exists>m. stLeaves st = take m ?ls \<and>
      (stLeaves st = [] \<or> verifyTreeHead C (head_file d) key s trusted pinned (take m ?ls) = None)"
  proof (elim disjE conjE)
    assume "stLeaves st = take n ?ls"
      and "es \<noteq> [] \<or> pinned \<noteq> [] \<longrightarrow>
              verifyTreeHead C (head_file d) key s trusted pinned (take n ?ls) = None"
    then show ?thesis by (intro exI [of _ n]) auto
  next
    assume "stLeaves st = ?ls" "verifyTreeHead C (head_file d) key s trusted pinned ?ls = None"
    then show ?thesis by (intro exI [of _ "length es"]) simp
  next
    assume "stLeaves st = ?ls" "\<not> n < length es"
      and "es \<noteq> [] \<or> pinned \<noteq> [] \<longrightarrow>
              verifyTreeHead C (head_file d) key s trusted pinned (take n ?ls) = None"
    moreover have "take n ?ls = ?ls" using \<open>\<not> n < length es\<close> by (intro take_all) simp
    ultimately show ?thesis by (intro exI [of _ n]) auto
  qed
  then show ?thesis using log by (metis take_map)
qed

section \<open>Detection of changed records\<close>

definition rec_bytes :: "env \<Rightarrow> entry \<Rightarrow> bytes" where
  "rec_bytes C e = (case marshal_entry C e of None \<Rightarrow> [] | Some b \<Rightarrow> b)"

lemma leafHash_rec: "leafHash C e = HashLeaf (blake3 C) (rec_bytes C e)"
  by (simp add: leafHash_def rec_bytes_def)

lemma map_leafHash_rec: "map (leafHash C) es = map (HashLeaf (blake3 C)) (map (rec_bytes C) es)"
  by (simp add: leafHash_rec)

lemma checkTreeHead_root:
  assumes "checkTreeHead C h key s trusted pinned leaves = None" "\<forall>l \<in> set leaves. length l = 32"
  shows "hex_decode (thRoot h) = Some (Root (blake3 C) leaves)"
  using assms length_Root [OF assms(2)]
  by (auto simp: checkTreeHead_def Let_def split: option.splits if_splits)

text \<open>The stored head and the record lists of two logs it verifies.\<close>

definition logs_collision_free :: "env \<Rightarrow> entry list \<Rightarrow> entry list \<Rightarrow> bool" where
  "logs_collision_free C es es' \<longleftrightarrow>
     (let X = log_inputs (blake3 C) (map (rec_bytes C) es) \<union> log_inputs (blake3 C) (map (rec_bytes C) es')
      in collision_free (blake3 C) X \<and> zero32 \<notin> H (blake3 C) ` X)"

lemma same_head_same_records:
  assumes "verifyTreeHead C f key s trusted pinned (map (leafHash C) es) = None" "es \<noteq> []"
    and "verifyTreeHead C f key' s' trusted' pinned' (map (leafHash C) es') = None" "es' \<noteq> []"
    and "logs_collision_free C es es'"
  shows "map (rec_bytes C) es = map (rec_bytes C) es'"
proof -
  obtain h where h: "readStoredHead C f = Inr h"
      "checkTreeHead C h key s trusted pinned (map (leafHash C) es) = None"
    using verifyTreeHead_head [OF assms(1)] assms(2) by auto
  obtain h' where h': "readStoredHead C f = Inr h'"
      "checkTreeHead C h' key' s' trusted' pinned' (map (leafHash C) es') = None"
    using verifyTreeHead_head [OF assms(3)] assms(4) by auto
  have "Root (blake3 C) (map (leafHash C) es) = Root (blake3 C) (map (leafHash C) es')"
    using h h' checkTreeHead_root [OF h(2)] checkTreeHead_root [OF h'(2)] by simp
  then show ?thesis
    using log_root_binding [of "blake3 C" "map (rec_bytes C) es" "map (rec_bytes C) es'"] assms(5)
    unfolding Root_def map_leafHash_rec logs_collision_free_def Let_def by blast
qed

end
