(* ===== verification/Log_Machine.thy ===== *)
theory Log_Machine
  imports Store_Correct Sample_Env
begin

text \<open>
  The life of a log store: a process that appends, fails, crashes and reopens. \<open>append_log\<close>
  is the contract of an append-only log as its clients use it; \<open>log_step\<close> is the step
  relation of a process and its disk, and the invariant over it gives crash safety.
\<close>

section \<open>The contract of an append-only log\<close>

locale append_log =
  fixes step :: "'s \<Rightarrow> 'i \<Rightarrow> 's"
    and ok :: "'s \<Rightarrow> 'i \<Rightarrow> bool"
    and inv :: "'s \<Rightarrow> bool"
    and records :: "'s \<Rightarrow> 'r list"
    and record_of :: "'s \<Rightarrow> 'i \<Rightarrow> 'r"
  assumes step_inv: "inv s \<Longrightarrow> ok s i \<Longrightarrow> inv (step s i)"
    and step_records: "inv s \<Longrightarrow> ok s i \<Longrightarrow> records (step s i) = records s @ [record_of s i]"
begin

fun oks :: "'s \<Rightarrow> 'i list \<Rightarrow> bool" where
  "oks s [] = True"
| "oks s (i # is) = (ok s i \<and> oks (step s i) is)"

lemma run_inv: "inv s \<Longrightarrow> oks s is \<Longrightarrow> inv (foldl step s is)"
  by (induction "is" arbitrary: s) (auto intro: step_inv)

lemma run_extends:
  "inv s \<Longrightarrow> oks s is \<Longrightarrow>
     \<exists>new. records (foldl step s is) = records s @ new \<and> length new = length is"
proof (induction "is" arbitrary: s)
  case Nil
  then show ?case by simp
next
  case (Cons i "is")
  then obtain new where "records (foldl step (step s i) is) = records (step s i) @ new" "length new = length is"
    using step_inv by (metis oks.simps(2))
  then show ?case
    using Cons.prems step_records by (intro exI [of _ "record_of s i # new"]) auto
qed

lemma run_snoc: "foldl step s (is @ js) = foldl step (foldl step s is) js"
  by simp

lemma run_record:
  assumes "inv s" "oks s (is @ [i])"
  shows "last (records (foldl step s (is @ [i]))) = record_of (foldl step s is) i"
proof -
  have "oks s is \<and> ok (foldl step s is) i" using assms(2)
    by (induction "is" arbitrary: s) auto
  then show ?thesis using assms(1) run_inv step_records by simp
qed

end

section \<open>Appending as a step\<close>

record append_call =
  acLevel :: string
  acEvent :: string
  acSource :: string
  acData :: "bytes option option"
  acIO :: append_io

definition append_call :: "env \<Rightarrow> store \<times> disk \<Rightarrow> append_call \<Rightarrow> store_error option \<times> store \<times> disk" where
  "append_call C sd c = Append C (fst sd) (snd sd) (acLevel c) (acEvent c) (acSource c) (acData c) (acIO c)"

definition call_entry :: "store \<times> disk \<Rightarrow> append_call \<Rightarrow> entry" where
  "call_entry sd c =
     newEntry (stSeq (fst sd) + 1) (aiNow (acIO c)) (acLevel c) (acEvent c) (acSource c)
       (Option.bind (acData c) id)"

definition call_fits :: "env \<Rightarrow> store \<times> disk \<Rightarrow> append_call \<Rightarrow> bool" where
  "call_fits C sd c \<longleftrightarrow>
     append_fits C (fst sd) (acLevel c) (acEvent c) (acSource c) (acData c) (acIO c)"

definition append_step :: "env \<Rightarrow> store \<times> disk \<Rightarrow> append_call \<Rightarrow> store \<times> disk" where
  "append_step C sd c = snd (append_call C sd c)"

definition append_ok :: "env \<Rightarrow> store \<times> disk \<Rightarrow> append_call \<Rightarrow> bool" where
  "append_ok C sd c \<longleftrightarrow> call_fits C sd c \<and> fst (append_call C sd c) = None"

definition log_inv :: "env \<Rightarrow> store \<times> disk \<Rightarrow> bool" where
  "log_inv C sd \<longleftrightarrow>
     env_ok C \<and> signers_ok C (fst sd) \<and> (\<exists>bs es. store_inv C (fst sd) (snd sd) bs es)"

definition log_records :: "env \<Rightarrow> store \<times> disk \<Rightarrow> entry list" where
  "log_records C sd = (case ReadAll C (snd sd) (stKey (fst sd)) of Inr es \<Rightarrow> es | Inl _ \<Rightarrow> [])"

lemma log_records_inv: "store_inv C st d bs es \<Longrightarrow> log_records C (st, d) = es"
  by (auto simp: log_records_def store_inv_def ReadAll_holds)

lemma Append_keeps:
  assumes "Append C st d level event source data io = (err, st', d')"
  shows "stKey st' = stKey st \<and> stSigner st' = stSigner st \<and> stTrusted st' = stTrusted st \<and>
     stPinned st' = stPinned st \<and> quarantined d' = quarantined d"
  using assms
  by (auto simp: Append_def writeTreeHead_def write_log_def Let_def
      split: if_splits option.splits prod.splits head_write.splits)

lemma signers_ok_Append:
  "Append C st d level event source data io = (err, st', d') \<Longrightarrow> signers_ok C st \<Longrightarrow> signers_ok C st'"
  by (drule Append_keeps) (simp add: signers_ok_def)

lemma append_call_inv:
  assumes "env_ok C" "signers_ok C st" "store_inv C st d bs es" "append_ok C (st, d) c"
  shows "\<exists>b. store_inv C (fst (append_step C (st, d) c)) (snd (append_step C (st, d) c)) (bs @ [b])
     (es @ [call_entry (st, d) c])"
proof -
  obtain st' d' where "append_call C (st, d) c = (None, st', d')"
    using assms(4) by (cases "append_call C (st, d) c") (auto simp: append_ok_def)
  then show ?thesis
    using Append_inv [OF assms(1-3)] assms(4)
    by (simp add: append_ok_def call_fits_def append_call_def append_step_def call_entry_def)
qed

interpretation al: append_log "append_step C" "append_ok C" "log_inv C" "log_records C" call_entry for C
proof
  fix s :: "store \<times> disk" and i
  assume inv: "log_inv C s" and ok: "append_ok C s i"
  obtain st d where s: "s = (st, d)" by (cases s)
  obtain bs es where si: "store_inv C st d bs es" and env: "env_ok C" "signers_ok C st"
    using inv by (auto simp: log_inv_def s)
  obtain b where b: "store_inv C (fst (append_step C s i)) (snd (append_step C s i)) (bs @ [b])
      (es @ [call_entry s i])"
    using append_call_inv [OF env si] ok s by blast
  obtain err where call: "append_call C s i = (err, append_step C s i)"
    by (cases "append_call C s i") (simp add: append_step_def)
  have "signers_ok C (fst (append_step C s i))"
    using signers_ok_Append [OF _ env(2)] call s
    by (simp add: append_call_def) (metis prod.collapse)
  then show "log_inv C (append_step C s i)" using b env by (auto simp: log_inv_def)
  show "log_records C (append_step C s i) = log_records C s @ [call_entry s i]"
    using log_records_inv [OF si] log_records_inv [of C "fst (append_step C s i)" "snd (append_step C s i)"] b s
    by simp
qed

section \<open>Crashes and recovery\<close>

text \<open>
  What a stopped process may leave of a log with the acknowledged entries \<open>es\<close>: the log as
  it was, the log and part of a frame, or the log and one whole record no head covers.
\<close>

definition leftover :: "env \<Rightarrow> bytes \<Rightarrow> fcontent \<Rightarrow> bytes list \<Rightarrow> entry list \<Rightarrow> bool" where
  "leftover C key f bs es \<longleftrightarrow>
     log_holds C key f bs es \<or>
     (\<exists>b k. f = Content (frames_of bs @ take k (frame b)) \<and> 0 < k \<and> k < length (frame b) \<and>
        0 < length b \<and> length b \<le> max_record) \<or>
     (\<exists>b e. f = Content (frames_of bs @ frame b) \<and> decodes C key b e \<and> es \<noteq> [])"

definition recoverable ::
  "env \<Rightarrow> bytes \<Rightarrow> signer option \<Rightarrow> bytes list \<Rightarrow> disk \<Rightarrow> entry list \<Rightarrow> bool" where
  "recoverable C key s trusted d es \<longleftrightarrow>
     length es < 2 ^ 63 \<and>
     verifyTreeHead C (head_file d) key s trusted [] (map (leafHash C) es) = None \<and>
     (\<exists>bs. list_all2 (decodes C key) bs es \<and> leftover C key (log_file d) bs es)"

definition opened_as ::
  "env \<Rightarrow> bytes \<Rightarrow> signer option \<Rightarrow> bytes list \<Rightarrow> store \<Rightarrow> disk \<Rightarrow> entry list \<Rightarrow> bool" where
  "opened_as C key s trusted st d es \<longleftrightarrow>
     (\<exists>bs. store_inv C st d bs es) \<and> stKey st = key \<and> stSigner st = s \<and> stTrusted st = trusted"

lemma openStore_recovers:
  assumes "recoverable C key s trusted d es" "good_open io"
  shows "\<exists>st d'. openStore C d key s trusted [] io = (Inr st, d') \<and> opened_as C key s trusted st d' es"
proof -
  obtain bs where dec: "list_all2 (decodes C key) bs es" and left: "leftover C key (log_file d) bs es"
    and head: "verifyTreeHead C (head_file d) key s trusted [] (map (leafHash C) es) = None"
    and len: "length es < 2 ^ 63"
    using assms(1) by (auto simp: recoverable_def)
  have old: "log_holds C key (Content (frames_of bs)) bs es" using dec by (simp add: log_holds_def)
  note fin = finishOpen_inv [OF assms(2)]
  from left consider "log_holds C key (log_file d) bs es"
    | b k where "log_file d = Content (frames_of bs @ take k (frame b))" "0 < k" "k < length (frame b)"
        "0 < length b" "length b \<le> max_record"
    | b e where "log_file d = Content (frames_of bs @ frame b)" "decodes C key b e" "es \<noteq> []"
    by (auto simp: leftover_def)
  then show ?thesis
  proof cases
    case 1
    then show ?thesis
      using fin [OF 1 head, of no_recovery] openStore_covered [OF 1 assms(2) head]
      by (auto simp: opened_as_def)
  next
    case 2
    show ?thesis
      unfolding openStore_torn [OF old assms(2) head 2] opened_as_def
      using fin [of C key "d\<lparr>quarantined := quarantined d @ [(oiStamp io, take k (frame b))],
          log_file := Content (frames_of bs)\<rparr>" bs es s trusted] old head
      by fastforce
  next
    case 3
    show ?thesis
      unfolding openStore_uncommitted [OF old assms(2) head 3 len] opened_as_def
      using fin [of C key "d\<lparr>quarantined := quarantined d @ [(oiStamp io, frame b)],
          log_file := Content (frames_of bs)\<rparr>" bs es s trusted] old head
      by fastforce
  qed
qed

text \<open>An \<open>Append\<close> that fails leaves the head and at most one frame, whole or cut, on the log.\<close>

lemma Append_failure:
  assumes "Append C st d level event source data io = (Some err, st', d')"
  shows "head_file d' = head_file d \<and>
     (d' = d \<or> (\<exists>plain b k.
        marshal_entry C (newEntry (stSeq st + 1) (aiNow io) level event source (Option.bind data id)) = Some plain \<and>
        encrypt_Seal C (aiNonce io) plain (stKey st) = Some b \<and>
        d' = write_log d (take k (frame b))))"
proof -
  have whole: "\<exists>k. write_log d (frame b) = write_log d (take k (frame b))" for b
    by (rule exI [of _ "length (frame b)"]) simp
  show ?thesis
    using assms whole
    by (auto simp: Append_def writeTreeHead_def Let_def write_log_def
        split: if_splits option.splits prod.splits head_write.splits)
qed

lemma Append_failure_recoverable:
  assumes "env_ok C" "store_inv C st d bs es" "length es < 2 ^ 63"
    and "append_fits C st level event source data io"
    and "Append C st d level event source data io = (Some err, st', d')"
    and "es = [] \<longrightarrow> ReadAll C d' (stKey st) = Inr []"
  shows "recoverable C (stKey st) (stSigner st) (stTrusted st) d' es"
proof -
  have log: "log_holds C (stKey st) (log_file d) bs es"
    and head: "verifyTreeHead C (head_file d) (stKey st) (stSigner st) (stTrusted st) [] (map (leafHash C) es) = None"
    using assms(2) by (auto simp: store_inv_def)
  then have dec: "list_all2 (decodes C (stKey st)) bs es" by (simp add: log_holds_def)
  let ?e = "newEntry (stSeq st + 1) (aiNow io) level event source (Option.bind data id)"
  have fail: "head_file d' = head_file d" using Append_failure [OF assms(5)] by simp
  have "leftover C (stKey st) (log_file d') bs es"
  proof (cases "d' = d")
    case True
    then show ?thesis using log by (simp add: leftover_def)
  next
    case False
    then obtain plain b k where b: "marshal_entry C ?e = Some plain"
        "encrypt_Seal C (aiNonce io) plain (stKey st) = Some b" "d' = write_log d (take k (frame b))"
      using Append_failure [OF assms(5)] by auto
    obtain nonce where nonce: "aiNonce io = Some nonce" "length nonce = NonceSize"
      using assms(4) by (auto simp: append_fits_def split: option.splits)
    have bl: "length b \<le> max_record" using assms(4) b by (simp add: append_fits_def)
    have be: "decodes C (stKey st) b ?e"
      using assms(1,4) b nonce bl by (intro sealed_decodes) (auto simp: append_fits_def wf_newEntry)
    have f: "log_file d' = Content (frames_of bs @ take k (frame b))"
      using b(3) log by (auto simp: write_log_def log_holds_def)
    consider "k = 0" | "0 < k" "k < length (frame b)" | "length (frame b) \<le> k" by linarith
    then show ?thesis
    proof cases
      case 1
      then show ?thesis using f dec by (simp add: leftover_def log_holds_def)
    next
      case 2
      then show ?thesis using f be by (auto simp: leftover_def decodes_def)
    next
      case 3
      then have f': "log_file d' = Content (frames_of bs @ frame b)" using f by simp
      moreover have "es \<noteq> []"
      proof
        assume "es = []"
        then have "log_holds C (stKey st) (log_file d') [b] [?e]"
          using f' be dec by (simp add: log_holds_def)
        then show False using assms(6) ReadAll_holds \<open>es = []\<close> by fastforce
      qed
      ultimately show ?thesis using be by (auto simp: leftover_def)
    qed
  qed
  then show ?thesis using assms(3) head dec fail by (auto simp: recoverable_def)
qed

text \<open>Opening under failing system calls, compared with opening when they all succeed.\<close>

definition all_good :: "open_io \<Rightarrow> open_io" where
  "all_good io = io\<lparr>oiMkdir := True, oiOpenFile := True, oiQuarantine := QOk\<rparr>"

lemma good_open_all_good [simp]: "good_open (all_good io)"
  by (simp add: good_open_def all_good_def)

lemma quarantineTail_all_good:
  "quarantineTail d from stamp (oiQuarantine io) = (None, d') \<Longrightarrow>
     quarantineTail d from stamp (oiQuarantine (all_good io)) = (None, d')"
  by (auto simp: quarantineTail_def all_good_def Let_def split: fcontent.splits quarantine_io.splits)

lemma quarantineTail_failed:
  "quarantineTail d from stamp q = (Some err, d') \<Longrightarrow> head_file d' = head_file d \<and> log_file d' = log_file d"
  by (auto simp: quarantineTail_def Let_def split: fcontent.splits quarantine_io.splits)

lemma finishOpen_all_good:
  "finishOpen C d key s trusted pinned io rec es leaves = (Inr st, d') \<Longrightarrow>
     finishOpen C d key s trusted pinned (all_good io) rec es leaves = (Inr st, d')"
  by (auto simp: finishOpen_def all_good_def Let_def split: if_splits)

lemma finishOpen_disk:
  assumes "finishOpen C d key s trusted pinned io rec es leaves = (r, d')"
  shows "head_file d' = head_file d \<and>
     (case r of Inl _ \<Rightarrow> d' = d | Inr _ \<Rightarrow> log_file d = Missing \<or> log_file d' = log_file d)"
  using assms by (auto simp: finishOpen_def Let_def split: if_splits)

lemma all_good_simps [simp]: "oiMkdir (all_good io)" "oiStamp (all_good io) = oiStamp io"
  by (simp_all add: all_good_def)

text \<open>
  What \<open>openStore\<close> decides from the two files alone: an error, the records it keeps, or a
  tail to cut off first. Only the execution of the decision depends on the system calls.
\<close>

datatype open_plan = Refuse store_error | Keep "entry list" "hash list" | Cut nat nat nat "entry list" "hash list"

fun run_plan ::
  "env \<Rightarrow> disk \<Rightarrow> bytes \<Rightarrow> signer option \<Rightarrow> bytes list \<Rightarrow> bytes list \<Rightarrow> open_io \<Rightarrow> open_plan \<Rightarrow>
   (store_error + store) \<times> disk" where
  "run_plan C d key s trusted pinned io (Refuse err) = (Inl err, d)"
| "run_plan C d key s trusted pinned io (Keep es leaves) =
     finishOpen C d key s trusted pinned io no_recovery es leaves"
| "run_plan C d key s trusted pinned io (Cut k n m es leaves) =
     (case quarantineTail d k (oiStamp io) (oiQuarantine io) of
        (Some err, d') \<Rightarrow> (Inl err, d')
      | (None, d') \<Rightarrow> finishOpen C d' key s trusted pinned io
          \<lparr>rcBytes = n, rcUncommittedRecords = m, rcQuarantineFile = Some (oiStamp io)\<rparr> es leaves)"

lemma openStore_plan:
  "\<exists>p. \<forall>io. openStore C d key s trusted pinned io =
     (if oiMkdir io then run_plan C d key s trusted pinned io p else (Inl MkdirFailed, d))"
proof (cases "readLog C (log_file d) key")
  case (Inl err)
  then show ?thesis by (intro exI [of _ "Refuse err"]) (simp add: openStore_def)
next
  case (Inr r)
  obtain es ends fr sz where r: "r = (es, ends, fr, sz)" by (cases r)
  define ls where "ls = map (leafHash C) es"
  define chk where "chk = (ls \<noteq> [] \<or> pinned \<noteq> [])"
  define n where "n = (if chk then committed_count C (head_file d) (length ls) else length ls)"
  define cut where "cut = (if 0 < n then ends ! (n - 1) else 0)"
  define good where "good = (cut < sz \<and> fr = (if ends = [] then cut else last ends))"
  define v where "v = (if chk then verifyTreeHead C (head_file d) key s trusted pinned (take n ls) else None)"
  define w where "w = verifyTreeHead C (head_file d) key s trusted pinned ls"
  define p where "p = (case v of Some err \<Rightarrow> Refuse err
    | None \<Rightarrow> if good then Cut cut (sz - cut) (length ls - n) (take n es) (take n ls)
        else if n < length ls then (case w of Some err \<Rightarrow> Refuse err | None \<Rightarrow> Keep es ls)
        else Keep es ls)"
  have "openStore C d key s trusted pinned io = run_plan C d key s trusted pinned io p" if "oiMkdir io" for io
    unfolding openStore_def Inr r Let_def sum.case prod.case
    unfolding ls_def [symmetric] chk_def [symmetric] n_def [symmetric] cut_def [symmetric] good_def [symmetric]
      v_def [symmetric] w_def [symmetric]
    using that unfolding p_def by (cases v; cases w; cases good) simp_all
  moreover have "openStore C d key s trusted pinned io = (Inl MkdirFailed, d)" if "\<not> oiMkdir io" for io
    using that by (simp add: openStore_def)
  ultimately show ?thesis by (intro exI [of _ p]) simp
qed

lemma run_plan_all_good:
  "run_plan C d key s trusted pinned io p = (Inr st, d') \<Longrightarrow>
     run_plan C d key s trusted pinned (all_good io) p = (Inr st, d')"
  by (cases p) (auto simp: finishOpen_all_good dest: quarantineTail_all_good split: prod.splits option.splits)

lemma quarantineTail_done:
  "quarantineTail d from stamp q = (None, d') \<Longrightarrow> head_file d' = head_file d \<and> log_file d' \<noteq> Missing \<and>
     (\<exists>b. log_file d = Content b \<and> log_file d' = Content (take from b))"
  by (auto simp: quarantineTail_def Let_def split: fcontent.splits quarantine_io.splits)

lemma run_plan_head:
  "run_plan C d key s trusted pinned io p = (r, d') \<Longrightarrow> head_file d' = head_file d"
  by (cases p)
    (auto dest!: finishOpen_disk quarantineTail_failed quarantineTail_done split: prod.splits option.splits)

lemma run_plan_failed_disk:
  assumes "run_plan C d key s trusted pinned io p = (Inl err, d')"
    and "run_plan C d key s trusted pinned (all_good io) p = (Inr st, d2)"
  shows "head_file d' = head_file d \<and> head_file d2 = head_file d \<and>
     (log_file d' = log_file d \<or> log_file d' = log_file d2)"
  using assms
  by (cases p)
    (auto dest!: finishOpen_disk quarantineTail_failed quarantineTail_done split: prod.splits option.splits)

lemma openStore_all_good:
  assumes "openStore C d key s trusted pinned io = (Inr st, d')"
  shows "openStore C d key s trusted pinned (all_good io) = (Inr st, d')"
  using assms openStore_plan [of C d key s trusted pinned] run_plan_all_good
  by (metis all_good_simps(1) Inl_Inr_False prod.inject)

lemma openStore_failed_disk:
  assumes "openStore C d key s trusted pinned io = (Inl err, d')"
    and "openStore C d key s trusted pinned (all_good io) = (Inr st, d2)"
  shows "head_file d' = head_file d \<and> head_file d2 = head_file d \<and>
     (log_file d' = log_file d \<or> log_file d' = log_file d2)"
proof -
  obtain p where p: "\<And>io. openStore C d key s trusted pinned io =
      (if oiMkdir io then run_plan C d key s trusted pinned io p else (Inl MkdirFailed, d))"
    using openStore_plan by blast
  have good: "run_plan C d key s trusted pinned (all_good io) p = (Inr st, d2)" using assms(2) p by simp
  show ?thesis
  proof (cases "oiMkdir io")
    case True
    then show ?thesis using run_plan_failed_disk [OF _ good] assms(1) p by simp
  next
    case False
    then show ?thesis using assms(1) p good run_plan_head by auto
  qed
qed

lemma opened_recoverable:
  assumes "opened_as C key s trusted st d es" "length es < 2 ^ 63"
    and "head_file d' = head_file d" "log_file d' = log_file d"
  shows "recoverable C key s trusted d' es"
  using assms by (auto simp: opened_as_def store_inv_def recoverable_def leftover_def log_holds_def)

lemma recoverable_cong:
  "recoverable C key s trusted d es \<Longrightarrow> head_file d' = head_file d \<Longrightarrow> log_file d' = log_file d \<Longrightarrow>
     recoverable C key s trusted d' es"
  by (simp add: recoverable_def)

lemma openStore_failed_recoverable:
  assumes "recoverable C key s trusted d es" "openStore C d key s trusted [] io = (Inl err, d')"
  shows "recoverable C key s trusted d' es"
proof -
  obtain st d2 where st: "openStore C d key s trusted [] (all_good io) = (Inr st, d2)"
    "opened_as C key s trusted st d2 es"
    using openStore_recovers [OF assms(1), of "all_good io"] by auto
  have "length es < 2 ^ 63" using assms(1) by (simp add: recoverable_def)
  then show ?thesis
    using openStore_failed_disk [OF assms(2) st(1)] opened_recoverable [OF st(2)]
      recoverable_cong [OF assms(1)] by metis
qed

section \<open>The process and its disk\<close>

datatype proc = Up store disk | Down disk

text \<open>
  The steps of a witness process: an acknowledged append, an orderly or sudden stop, a stop
  during an append (whatever part of the frame was written, whether or not the head
  followed), and opening the log again, which may itself fail half way. The list beside the
  process is the entries acknowledged so far. The first record of a log is excepted: a
  process that stops after writing it whole and before its head leaves a log without head.
\<close>

inductive log_step ::
  "env \<Rightarrow> bytes \<Rightarrow> signer option \<Rightarrow> bytes list \<Rightarrow> entry list \<times> proc \<Rightarrow> entry list \<times> proc \<Rightarrow> bool"
  for C key s trusted where
  acknowledged: "call_fits C (st, d) c \<Longrightarrow> append_call C (st, d) c = (None, st', d') \<Longrightarrow>
     Suc (length es) < 2 ^ 63 \<Longrightarrow>
     log_step C key s trusted (es, Up st d) (es @ [call_entry (st, d) c], Up st' d')"
| stopped: "log_step C key s trusted (es, Up st d) (es, Down d)"
| died_appending: "call_fits C (st, d) c \<Longrightarrow> append_call C (st, d) c = (Some err, st', d') \<Longrightarrow>
     (es = [] \<longrightarrow> ReadAll C d' key = Inr []) \<Longrightarrow>
     log_step C key s trusted (es, Up st d) (es, Down d')"
| reopened: "OpenTrusting C d key s trusted io = (Inr st, d') \<Longrightarrow>
     log_step C key s trusted (es, Down d) (es, Up st d')"
| open_failed: "OpenTrusting C d key s trusted io = (Inl err, d') \<Longrightarrow>
     log_step C key s trusted (es, Down d) (es, Down d')"

inductive_cases log_stepE: "log_step C key s trusted x y"

definition empty_disk :: disk where
  "empty_disk = \<lparr>log_file = Missing, head_file = Missing, quarantined = []\<rparr>"

definition log_reachable ::
  "env \<Rightarrow> bytes \<Rightarrow> signer option \<Rightarrow> bytes list \<Rightarrow> entry list \<times> proc \<Rightarrow> bool" where
  "log_reachable C key s trusted = (log_step C key s trusted)\<^sup>*\<^sup>* ([], Down empty_disk)"

fun proc_inv :: "env \<Rightarrow> bytes \<Rightarrow> signer option \<Rightarrow> bytes list \<Rightarrow> entry list \<times> proc \<Rightarrow> bool" where
  "proc_inv C key s trusted (es, Up st d) = (opened_as C key s trusted st d es \<and> length es < 2 ^ 63)"
| "proc_inv C key s trusted (es, Down d) = recoverable C key s trusted d es"

lemma log_step_inv:
  assumes "env_ok C" "\<And>sg. s = Some sg \<Longrightarrow> signer_ok C sg"
    and "log_step C key s trusted x y" "proc_inv C key s trusted x"
  shows "proc_inv C key s trusted y"
  using assms(3,4)
proof (cases rule: log_step.cases)
  case (acknowledged st d c st' d' es)
  then obtain bs where si: "store_inv C st d bs es" and f: "stKey st = key" "stSigner st = s" "stTrusted st = trusted"
    using assms(4) by (auto simp: opened_as_def)
  have sok: "signers_ok C st" using assms(2) f by (simp add: signers_ok_def split: option.splits)
  have ok: "append_ok C (st, d) c" using acknowledged by (simp add: append_ok_def)
  obtain b where "store_inv C st' d' (bs @ [b]) (es @ [call_entry (st, d) c])"
    using append_call_inv [OF assms(1) sok si ok] acknowledged by (auto simp: append_step_def)
  moreover have "stKey st' = key \<and> stSigner st' = s \<and> stTrusted st' = trusted"
    using Append_keeps acknowledged f by (fastforce simp: append_call_def)
  ultimately show ?thesis using acknowledged by (auto simp: opened_as_def)
next
  case (stopped es st d)
  then show ?thesis using assms(4) opened_recoverable by auto
next
  case (died_appending st d c err st' d' es)
  then obtain bs where si: "store_inv C st d bs es" and f: "stKey st = key" "stSigner st = s" "stTrusted st = trusted"
    and len: "length es < 2 ^ 63"
    using assms(4) by (auto simp: opened_as_def)
  then show ?thesis
    using Append_failure_recoverable [OF assms(1) si len] died_appending
    by (simp add: call_fits_def append_call_def)
next
  case (reopened d io st d' es)
  then have rec: "recoverable C key s trusted d es" using assms(4) by simp
  then show ?thesis
    using openStore_recovers [OF rec, of "all_good io"] openStore_all_good reopened
    by (fastforce simp: OpenTrusting_def recoverable_def)
next
  case (open_failed d io err d' es)
  then show ?thesis
    using openStore_failed_recoverable assms(4) by (simp add: OpenTrusting_def)
qed

lemma proc_inv_init: "proc_inv C key s trusted ([], Down empty_disk)"
  by (simp add: recoverable_def empty_disk_def verifyTreeHead_def leftover_def log_holds_def)

lemma reachable_inv:
  assumes "env_ok C" "\<And>sg. s = Some sg \<Longrightarrow> signer_ok C sg" "log_reachable C key s trusted x"
  shows "proc_inv C key s trusted x"
  using assms(3) unfolding log_reachable_def
proof (induction rule: rtranclp_induct)
  case base
  then show ?case by (rule proc_inv_init)
next
  case (step y z)
  then show ?case using log_step_inv [OF assms(1,2)] by blast
qed

lemma VerifyIntegrity_inv:
  assumes "store_inv C st d bs es"
  shows "VerifyIntegrity C st d vs = Inr (word_of_nat (length es))"
proof -
  have "ReadAll C d (stKey st) = Inr es" using assms by (auto simp: store_inv_def intro: ReadAll_holds)
  then show ?thesis using assms by (auto simp: store_inv_def VerifyIntegrity_def Let_def)
qed

end
