(* ===== verification/Store_Props.thy ===== *)
theory Store_Props
  imports Log_Machine
begin

text \<open>
  The properties of the log store: what an append does, what survives a crash, what a
  changed log file is worth, what a reader beside the writer sees, and the limits of the
  checks the code makes.
\<close>

section \<open>A sample log\<close>

text \<open>A store, a call and the first steps of a process in the sample environment.\<close>

definition sample_io :: append_io where
  "sample_io = \<lparr>aiNow = 1, aiNowText = ''t'', aiNonce = Some (replicate 12 0), aiWrite = None, aiHead = HeadWritten\<rparr>"

definition sample_call :: append_call where
  "sample_call = \<lparr>acLevel = ''INFO'', acEvent = ''boot'', acSource = ''witness'', acData = None, acIO = sample_io\<rparr>"

definition sample_open :: open_io where
  "sample_open = \<lparr>oiMkdir = True, oiOpenFile = True, oiQuarantine = QOk, oiStamp = 9\<rparr>"

lemma good_sample_open [simp]: "good_open sample_open"
  by (simp add: good_open_def sample_open_def)

definition sample_torn :: append_call where
  "sample_torn = sample_call\<lparr>acIO := sample_io\<lparr>aiWrite := Some 7\<rparr>\<rparr>"

lemma length_enc_bytes [simp]: "length (enc_bytes b) = 2 * length b + 1"
  by (induction b) auto

lemma length_enc_string [simp]: "length (enc_string s) = 2 * length s + 1"
  by (simp add: enc_string_def)

lemma length_enc_u64 [simp]: "length (enc_u64 w) = 8"
  by (simp add: enc_u64_def put_u64_def length_be_bytes)

lemma sample_fits:
  assumes "stKey st = sample_key"
    and "c = sample_call \<or> c = sample_call\<lparr>acIO := sample_io\<lparr>aiWrite := w\<rparr>\<rparr> \<or> c = sample_call\<lparr>acIO := sample_io\<lparr>aiHead := h\<rparr>\<rparr>"
  shows "call_fits sample_env (st, d) c"
  using assms
  by (elim disjE)
    (simp_all add: call_fits_def append_fits_def sample_call_def sample_io_def sample_env_def encrypt_Seal_def
      aes_key_ok_def sample_key_def NonceSize_def sample_enc_entry_def newEntry_def ToValidUTF8_def to_valid_ascii
      enc_int_def enc_data_def max_record_def)

lemma sample_append:
  assumes "stKey st = sample_key" "stSigner st = Some sample_signer" "\<not> stReadOnly st"
  shows "append_ok sample_env (st, d) sample_call"
    and "call_fits sample_env (st, d) sample_torn"
    and "fst (append_call sample_env (st, d) sample_torn) = Some WriteFailed"
  using assms sample_fits [OF assms(1)]
  by (simp_all add: append_ok_def append_call_def Append_def sample_call_def sample_torn_def sample_io_def
      sample_env_def encrypt_Seal_def aes_key_ok_def sample_key_def writeTreeHead_def signHead_def
      sample_signer_def Let_def split: prod.split)

lemma sample_signed: "\<And>sg. Some sample_signer = Some sg \<Longrightarrow> signer_ok sample_env sg"
  by (simp add: sample_signer_ok)

lemma sample_opened:
  "\<exists>st d. log_reachable sample_env sample_key (Some sample_signer) [] ([], Up st d) \<and> head_file d = Missing"
proof -
  have "recoverable sample_env sample_key (Some sample_signer) [] empty_disk []"
    using proc_inv_init by simp
  then obtain st d where op: "openStore sample_env empty_disk sample_key (Some sample_signer) [] [] sample_open = (Inr st, d)"
    using openStore_recovers [OF _ good_sample_open] by blast
  then have "head_file d = Missing"
    using openStore_plan run_plan_head by (metis empty_disk_def disk.select_convs(2) prod.inject)
  then show ?thesis
    using op unfolding log_reachable_def by (metis OpenTrusting_def log_step.reopened r_into_rtranclp)
qed

lemma sample_recorded:
  "\<exists>e st d. log_reachable sample_env sample_key (Some sample_signer) [] ([e], Up st d)"
proof -
  obtain st d where up: "log_reachable sample_env sample_key (Some sample_signer) [] ([], Up st d)"
    using sample_opened by blast
  have st: "stKey st = sample_key" "stSigner st = Some sample_signer" "\<not> stReadOnly st"
    using reachable_inv [OF sample_env_ok sample_signed up] by (auto simp: opened_as_def store_inv_def)
  obtain st' d' where call: "append_call sample_env (st, d) sample_call = (None, st', d')"
    using sample_append(1) [OF st, of d] by (cases "append_call sample_env (st, d) sample_call") (auto simp: append_ok_def)
  have "log_step sample_env sample_key (Some sample_signer) [] ([], Up st d)
      ([] @ [call_entry (st, d) sample_call], Up st' d')"
    by (rule log_step.acknowledged [OF _ call]) (use sample_append(1) [OF st] in \<open>simp_all add: append_ok_def\<close>)
  then show ?thesis
    using up by (auto simp: log_reachable_def intro: rtranclp.rtrancl_into_rtrancl)
qed

lemma sample_crashed:
  "\<exists>e d. log_reachable sample_env sample_key (Some sample_signer) [] ([e], Down d)"
proof -
  obtain e st d where up: "log_reachable sample_env sample_key (Some sample_signer) [] ([e], Up st d)"
    using sample_recorded by blast
  have st: "stKey st = sample_key" "stSigner st = Some sample_signer" "\<not> stReadOnly st"
    using reachable_inv [OF sample_env_ok sample_signed up] by (auto simp: opened_as_def store_inv_def)
  obtain st' d' where call: "append_call sample_env (st, d) sample_torn = (Some WriteFailed, st', d')"
    using sample_append(3) [OF st, of d] by (cases "append_call sample_env (st, d) sample_torn") auto
  have "log_step sample_env sample_key (Some sample_signer) [] ([e], Up st d) ([e], Down d')"
    by (rule log_step.died_appending [OF _ call]) (use sample_append(2) [OF st] in simp_all)
  then show ?thesis
    using up by (auto simp: log_reachable_def intro: rtranclp.rtrancl_into_rtrancl)
qed

section \<open>Crash safety\<close>

definition signer_opt_ok :: "env \<Rightarrow> signer option \<Rightarrow> bool" where
  "signer_opt_ok C s \<longleftrightarrow> (case s of None \<Rightarrow> True | Some sg \<Rightarrow> signer_ok C sg)"

lemma signer_opt_okD: "signer_opt_ok C s \<Longrightarrow> s = Some sg \<Longrightarrow> signer_ok C sg"
  by (simp add: signer_opt_ok_def)





section \<open>Appending\<close>

text \<open>
  A run of successful appends extends the log and never changes what was in
  it: the records read back afterwards are the old ones followed by one new record per call,
  and the invariant of the store still holds.
\<close>

lemma appends_only_extend:
  assumes "log_inv C sd" "al.oks C sd calls"
  shows "(\<exists>new. log_records C (foldl (append_step C) sd calls) = log_records C sd @ new \<and>
            length new = length calls) \<and>
     log_inv C (foldl (append_step C) sd calls)"
  using al.run_extends [OF assms] al.run_inv [OF assms] by blast

lemma appends_only_extend_witness:
  "\<exists>sd. log_inv sample_env sd \<and> al.oks sample_env sd [sample_call] \<and>
     (\<exists>new. log_records sample_env (foldl (append_step sample_env) sd [sample_call]) =
         log_records sample_env sd @ new \<and> length new = length [sample_call])"
proof -
  obtain st d where up: "log_reachable sample_env sample_key (Some sample_signer) [] ([], Up st d)"
    using sample_opened by blast
  obtain bs where si: "store_inv sample_env st d bs []" and st: "stKey st = sample_key"
      "stSigner st = Some sample_signer" "\<not> stReadOnly st"
    using reachable_inv [OF sample_env_ok sample_signed up] by (auto simp: opened_as_def store_inv_def)
  have inv: "log_inv sample_env (st, d)"
    using si st by (auto simp: log_inv_def sample_env_ok signers_ok_def sample_signer_ok)
  have ok: "al.oks sample_env (st, d) [sample_call]" using sample_append(1) [OF st] by simp
  show ?thesis using appends_only_extend [OF inv ok] inv ok by blast
qed

text \<open>
  \<open>Append\<close> fails only for the reasons the code names: it returns no error
  exactly when the store is writable, the data and the entry marshal, the key has an AES
  size and the nonce could be read, the frame was written whole, and the head was signed and
  written; then exactly the frame of the entry is added to the log.
\<close>

lemma Append_succeeds_iff:
  "fst (Append C st d level event source data io) = None \<longleftrightarrow>
     (let e = newEntry (stSeq st + 1) (aiNow io) level event source (Option.bind data id);
          leaves = stLeaves st @ [leafHash C e]
      in \<not> stReadOnly st \<and> data \<noteq> Some None \<and> marshal_entry C e \<noteq> None \<and>
         aes_key_ok (stKey st) \<and> aiNonce io \<noteq> None \<and> aiWrite io = None \<and> aiHead io = HeadWritten \<and>
         (case stSigner st of None \<Rightarrow> True
          | Some sg \<Rightarrow> sgSign sg (treeHeadSigInput (word_of_nat (length leaves)) (Root (blake3 C) leaves)) \<noteq> None))"
  by (auto simp: Append_def encrypt_Seal_def writeTreeHead_def signHead_def Let_def
      split: option.splits head_write.splits prod.splits if_splits)

section \<open>Changed log files\<close>

text \<open>
  Property C2. A changed log does not pass for the original: if the log file is replaced by
  any bytes, under any key, and the store still opens with records against the original
  head, then those records are, in number, order and content, the original ones, unless a
  hash collision occurs among the inputs hashed for the two logs.
\<close>

theorem replaced_log_detected:
  assumes "store_inv C st d bs es" "es \<noteq> []"
    and "openStore C (d\<lparr>log_file := f\<rparr>) key s trusted pinned io = (Inr st', d')" "stLeaves st' \<noteq> []"
    and "ReadAll C (d\<lparr>log_file := f\<rparr>) key = Inr found"
    and "\<forall>n. logs_collision_free C es (take n found)"
  shows "\<exists>n. stLeaves st' = map (leafHash C) (take n found) \<and>
     map (rec_bytes C) (take n found) = map (rec_bytes C) es"
proof -
  obtain n where n: "stLeaves st' = map (leafHash C) (take n found)"
      "verifyTreeHead C (head_file d) key s trusted pinned (map (leafHash C) (take n found)) = None"
    using openStore_verified [OF assms(3)] assms(4,5) by (auto simp: ReadAll_def split: sum.splits)
  have head: "verifyTreeHead C (head_file d) (stKey st) (stSigner st) (stTrusted st) [] (map (leafHash C) es) = None"
    using assms(1) by (auto simp: store_inv_def)
  have "map (rec_bytes C) es = map (rec_bytes C) (take n found)"
    using same_head_same_records [OF head assms(2) n(2)] n(1) assms(4,6) by auto
  then show ?thesis using n(1) by auto
qed

lemma sample_rec_nonzero: "H (blake3 sample_env) (leafPrefix # rec_bytes sample_env e) \<noteq> zero32"
proof
  assume "H (blake3 sample_env) (leafPrefix # rec_bytes sample_env e) = zero32"
  then have "H (blake3 sample_env) (leafPrefix # rec_bytes sample_env e) ! 1 = zero32 ! 1" by simp
  then show False
    by (simp add: H_def sample_env_def rec_bytes_def sample_enc_entry_def copy32_def zero32_def nth_append)
qed

lemma sample_collision_free: "logs_collision_free sample_env [e] (take n [e])"
proof -
  let ?X = "log_inputs (blake3 sample_env) (map (rec_bytes sample_env) [e]) \<union>
    log_inputs (blake3 sample_env) (map (rec_bytes sample_env) (take n [e]))"
  have "?X = {leafPrefix # rec_bytes sample_env e}"
    by (cases n) (simp_all add: log_inputs_def)
  then show ?thesis
    using sample_rec_nonzero [of e]
    unfolding logs_collision_free_def Let_def by (simp add: collision_free_def)
qed

theorem replaced_log_detected_witness:
  "\<exists>st d bs e st' d'. store_inv sample_env st d bs [e] \<and>
     openStore sample_env (d\<lparr>log_file := log_file d\<rparr>) sample_key (Some sample_signer) [] [] sample_open = (Inr st', d') \<and>
     (\<exists>n. stLeaves st' = map (leafHash sample_env) (take n [e]) \<and>
        map (rec_bytes sample_env) (take n [e]) = map (rec_bytes sample_env) [e])"
proof -
  obtain e st d where up: "log_reachable sample_env sample_key (Some sample_signer) [] ([e], Up st d)"
    using sample_recorded by blast
  obtain bs where si: "store_inv sample_env st d bs [e]" "stKey st = sample_key"
    using reachable_inv [OF sample_env_ok sample_signed up] by (auto simp: opened_as_def)
  have "recoverable sample_env sample_key (Some sample_signer) [] d [e]"
    using reachable_inv [OF sample_env_ok sample_signed up] opened_recoverable by auto
  then obtain st' d' where op: "openStore sample_env d sample_key (Some sample_signer) [] [] sample_open = (Inr st', d')"
      and "opened_as sample_env sample_key (Some sample_signer) [] st' d' [e]"
    using openStore_recovers [OF _ good_sample_open] by blast
  then have "stLeaves st' \<noteq> []" by (auto simp: opened_as_def store_inv_def)
  moreover have "ReadAll sample_env d sample_key = Inr [e]"
    using si by (auto simp: store_inv_def intro: ReadAll_holds)
  ultimately have "\<exists>n. stLeaves st' = map (leafHash sample_env) (take n [e]) \<and>
      map (rec_bytes sample_env) (take n [e]) = map (rec_bytes sample_env) [e]"
    using replaced_log_detected [OF si(1), of "log_file d" sample_key "Some sample_signer" "[]" "[]" sample_open st' d']
      op sample_collision_free by simp
  then show ?thesis
    using op si(1) by (intro exI [of _ st] exI [of _ d] exI [of _ bs] exI [of _ e] exI [of _ st'] exI [of _ d']) simp
qed



text \<open>
  The one crash the store does not recover from: when the very first record of
  a log was written and its head was not, the log does not open, whatever the system calls
  do (unless its directory cannot be created, which is reported first).
\<close>

lemma first_record_without_head:
  assumes "env_ok C" "store_inv C st d bs []" "head_file d = Missing"
    and "append_fits C st level event source data io"
    and "Append C st d level event source data io = (Some err, st', d')" "err = HeadWriteFailed \<or> err = SignFailed"
  shows "oiMkdir oio \<Longrightarrow> fst (OpenTrusting C d' (stKey st) s trusted oio) = Inl ErrMissingTreeHead"
proof -
  let ?e = "newEntry (stSeq st + 1) (aiNow io) level event source (Option.bind data id)"
  obtain plain b where b: "marshal_entry C ?e = Some plain" "encrypt_Seal C (aiNonce io) plain (stKey st) = Some b"
      "d' = write_log d (frame b)"
    using assms(5,6)
    by (auto simp: Append_def writeTreeHead_def Let_def split: if_splits option.splits prod.splits head_write.splits)
  obtain nonce where nonce: "aiNonce io = Some nonce" "length nonce = NonceSize"
    using assms(4) by (auto simp: append_fits_def split: option.splits)
  have "decodes C (stKey st) b ?e"
    using assms(1,4) b nonce by (intro sealed_decodes) (auto simp: append_fits_def wf_newEntry)
  then have "log_holds C (stKey st) (log_file d') ([] @ [b]) ([] @ [?e])"
    using assms(2) log_holds_write [of C "stKey st" d "[]" "[]"] b(3) log_holds_lengths
    by (fastforce simp: store_inv_def)
  moreover have "head_file d' = Missing" using b(3) assms(3) by (simp add: write_log_def)
  ultimately show "fst (OpenTrusting C d' (stKey st) s trusted oio) = Inl ErrMissingTreeHead" if "oiMkdir oio"
    using that
    by (simp add: OpenTrusting_def openStore_def readLog_holds Let_def committed_count_def readStoredHead_def
        verifyTreeHead_def)
qed

definition sample_headless :: append_call where
  "sample_headless = sample_call\<lparr>acIO := sample_io\<lparr>aiHead := HeadRenameFailed\<rparr>\<rparr>"

lemma first_record_without_head_witness:
  "\<exists>st d st' d'. store_inv sample_env st d [] [] \<and>
     append_call sample_env (st, d) sample_headless = (Some HeadWriteFailed, st', d') \<and>
     fst (OpenTrusting sample_env d' sample_key None [] sample_open) = Inl ErrMissingTreeHead"
proof -
  obtain st d where up: "log_reachable sample_env sample_key (Some sample_signer) [] ([], Up st d)"
    and hd: "head_file d = Missing"
    using sample_opened by blast
  then obtain bs where si: "store_inv sample_env st d bs []" and st: "stKey st = sample_key"
      "stSigner st = Some sample_signer" "\<not> stReadOnly st"
    using reachable_inv [OF sample_env_ok sample_signed up] by (auto simp: opened_as_def store_inv_def)
  have bs: "bs = []" using si log_holds_lengths by (fastforce simp: store_inv_def)
  have fits: "append_fits sample_env st ''INFO'' ''boot'' ''witness'' None (acIO sample_headless)"
    using sample_fits [OF st(1), of sample_headless None HeadRenameFailed]
    by (simp add: call_fits_def sample_call_def sample_headless_def)
  obtain st' d' where call:
    "Append sample_env st d ''INFO'' ''boot'' ''witness'' None (acIO sample_headless) = (Some HeadWriteFailed, st', d')"
    using st by (auto simp: Append_def sample_headless_def sample_call_def sample_io_def sample_env_def
        encrypt_Seal_def aes_key_ok_def sample_key_def writeTreeHead_def signHead_def sample_signer_def Let_def)
  have "oiMkdir sample_open" by (simp add: sample_open_def)
  then have "fst (OpenTrusting sample_env d' sample_key None [] sample_open) = Inl ErrMissingTreeHead"
    using first_record_without_head [OF sample_env_ok si hd fits call] st(1) by simp
  then show ?thesis using si bs call by (auto simp: append_call_def sample_headless_def sample_call_def)
qed

section \<open>Reading beside a writer\<close>

text \<open>What may follow the complete records of a log that is being written.\<close>

definition torn_tail :: "bytes \<Rightarrow> bool" where
  "torn_tail t \<longleftrightarrow> (\<exists>b k. t = take k (frame b) \<and> 0 < length b \<and> length b \<le> max_record \<and> k < length (frame b))"

lemma readFrames_torn_tail: "torn_tail t \<Longrightarrow> readFrames C key t off = ([], [], off)"
  using readFrames_torn by (auto simp: torn_tail_def)

lemma readCommittedOnce_covered:
  assumes "vLog v = Content (frames_of (bs @ extra) @ t)" "list_all2 (decodes C key) bs es"
    and "list_all2 (decodes C key) extra es2" "torn_tail t"
    and "readStoredHead C (vHead v) = Inr h" "checkTreeHead C h key None [] pinned (map (leafHash C) es) = None"
    and "length (es @ es2) < 2 ^ 64"
  shows "readCommittedOnce C v key pinned =
     Done (Inr \<lparr>clEntries = es, clLeaves = map (leafHash C) es,
        clUncovered = \<lparr>ucRecords = length es2, ucBytes = length (frames_of extra @ t)\<rparr>\<rparr>)"
proof -
  have dec: "list_all2 (decodes C key) (bs @ extra) (es @ es2)"
    using assms(2,3) by (rule list_all2_appendI)
  have log: "readLog C (vLog v) key = Inr (es @ es2, frame_ends 0 (bs @ extra),
      length (frames_of (bs @ extra)), length (frames_of (bs @ extra) @ t))"
    using readFrames_frames [OF dec, of t 0] readFrames_torn_tail [OF assms(4)] assms(1)
    by (simp add: readLog_def)
  have sz: "thSize h = word_of_nat (length es)"
    using assms(6) by (auto simp: checkTreeHead_def Let_def split: option.splits if_splits)
  have un: "unat (thSize h) = length es" "unat (word_of_nat (length (es @ es2)) :: u64) = length (es @ es2)"
    using sz unat_word64 [OF assms(7)] unat_word64 [of "length es"] assms(7) by simp_all
  have lens: "length bs = length es" "length extra = length es2"
    using assms(2,3) by (auto dest: list_all2_lengthD)
  have cut: "es \<noteq> [] \<Longrightarrow> frame_ends 0 (bs @ extra) ! (length es - Suc 0) = length (frames_of bs)"
    using frame_ends_nth [of "length es - 1" "bs @ extra" 0] lens by (cases es) simp_all
  have nlt: "\<not> (word_of_nat (length (es @ es2)) :: u64) < thSize h"
    unfolding word_less_nat_alt un by simp
  have bs: "es = [] \<Longrightarrow> bs = []" using lens by simp
  show ?thesis
    unfolding readCommittedOnce_def log assms(5) using nlt un lens assms(6) cut bs
    by (cases "es = []") (simp_all add: Let_def)
qed

text \<open>
  Property C10. A read-only open beside the running daemon sees exactly the records its head
  covers: whatever complete records and cut-off frame follow them in the file at that
  moment, the store holds the covered entries' leaves and counts the rest as uncovered.
\<close>

theorem reader_sees_covered_records:
  assumes "vLog (vs 0) = Content (frames_of (bs @ extra) @ t)" "list_all2 (decodes C key) bs es"
    and "list_all2 (decodes C key) extra es2" "torn_tail t"
    and "readStoredHead C (vHead (vs 0)) = Inr h"
    and "checkTreeHead C h key None [] pinned (map (leafHash C) es) = None" "length (es @ es2) < 2 ^ 64"
  shows "\<exists>st. OpenPinned C vs key pinned = Inr st \<and> stReadOnly st \<and> stLeaves st = map (leafHash C) es \<and>
     stUncovered st = \<lparr>ucRecords = length es2, ucBytes = length (frames_of extra @ t)\<rparr> \<and>
     VerifyIntegrity C st d vs = Inr (word_of_nat (length es))"
proof -
  have "readCommitted C vs key pinned = Inr \<lparr>clEntries = es, clLeaves = map (leafHash C) es,
      clUncovered = \<lparr>ucRecords = length es2, ucBytes = length (frames_of extra @ t)\<rparr>\<rparr>"
    using readCommittedOnce_covered [OF assms]
    by (simp add: readCommitted_def readOnlyAttempts_def eval_nat_numeral)
  then show ?thesis by (simp add: OpenPinned_def VerifyIntegrity_def Let_def)
qed

definition quiet_view :: "disk \<Rightarrow> view" where
  "quiet_view d = \<lparr>vHead = head_file d, vLog = log_file d, vHeadAgain = head_file d\<rparr>"

lemma torn_tail_Nil [simp]: "torn_tail []"
  unfolding torn_tail_def by (rule exI [of _ "[0]"], rule exI [of _ 0]) (simp add: max_record_def)

text \<open>The sample log as a reader sees it that pins the sample signer's key.\<close>

lemma sample_pinned_view:
  "\<exists>e b (d::disk) h. log_file d = Content (frames_of ([b] @ []) @ []) \<and> list_all2 (decodes sample_env sample_key) [b] [e] \<and>
     readStoredHead sample_env (head_file d) = Inr h \<and>
     checkTreeHead sample_env h sample_key None [] [sgPublicKey sample_signer] (map (leafHash sample_env) [e]) = None"
proof -
  obtain st d where up: "log_reachable sample_env sample_key (Some sample_signer) [] ([], Up st d)"
    using sample_opened by blast
  obtain bs where si: "store_inv sample_env st d bs []" and st: "stKey st = sample_key"
      "stSigner st = Some sample_signer" "\<not> stReadOnly st"
    using reachable_inv [OF sample_env_ok sample_signed up] by (auto simp: opened_as_def store_inv_def)
  define e where "e = call_entry (st, d) sample_call"
  obtain st' d' where call: "append_call sample_env (st, d) sample_call = (None, st', d')"
    using sample_append(1) [OF st, of d]
    by (cases "append_call sample_env (st, d) sample_call") (auto simp: append_ok_def)
  have sok: "signers_ok sample_env st" using st by (simp add: signers_ok_def sample_signer_ok)
  obtain b where si': "store_inv sample_env st' d' ([] @ [b]) ([] @ [e])"
    using append_call_inv [OF sample_env_ok sok si sample_append(1) [OF st]] call si
    by (auto simp: append_step_def e_def store_inv_def dest: log_holds_lengths)
  have key: "stKey st' = sample_key" using Append_keeps call st by (fastforce simp: append_call_def)
  obtain h where h: "head_file d' = Content (marshal_head sample_env h)"
      "signHead sample_env (Some sample_signer) [leafHash sample_env e]
        (newHead sample_env (head_file d) sample_key [leafHash sample_env e] ''t'') = Some h"
    using call st si unfolding append_call_def
    by (auto elim!: Append_success simp: store_inv_def e_def call_entry_def sample_call_def sample_io_def)
  have "checkTreeHead sample_env h sample_key (Some sample_signer) [] [] [leafHash sample_env e] = None"
    by (rule newHead_checks [OF sample_signed h(2)]) simp_all
  then have "checkTreeHead sample_env h sample_key None [] [sgPublicKey sample_signer] [leafHash sample_env e] = None"
    using h(2) by (auto simp: checkTreeHead_def checkSignature_def signHead_def sample_signer_def Let_def
        keyAccepted_def split: if_splits option.splits)
  moreover have "log_file d' = Content (frames_of [b])" "list_all2 (decodes sample_env sample_key) [b] [e]"
    using si' key by (auto simp: store_inv_def log_holds_def)
  moreover have "readStoredHead sample_env (head_file d') = Inr h"
    using h(1) sample_env_ok by (simp add: readStoredHead_def env_ok_def)
  ultimately show ?thesis by (intro exI [of _ e] exI [of _ b] exI [of _ d'] exI [of _ h]) simp
qed

theorem reader_sees_covered_records_witness:
  "\<exists>e d st. ReadAll sample_env d sample_key = Inr [e] \<and>
     OpenPinned sample_env (\<lambda>i. quiet_view d) sample_key [sgPublicKey sample_signer] = Inr st \<and>
     stLeaves st = map (leafHash sample_env) [e]"
proof -
  obtain e b and d :: disk and h where s: "log_file d = Content (frames_of ([b] @ []) @ [])"
      "list_all2 (decodes sample_env sample_key) [b] [e]" "readStoredHead sample_env (head_file d) = Inr h"
      "checkTreeHead sample_env h sample_key None [] [sgPublicKey sample_signer] (map (leafHash sample_env) [e]) = None"
    using sample_pinned_view by blast
  have "ReadAll sample_env d sample_key = Inr [e]"
    by (rule ReadAll_holds [of _ _ _ "[b]"]) (use s in \<open>simp add: log_holds_def\<close>)
  moreover have "vLog (quiet_view d) = Content (frames_of ([b] @ []) @ [])" "vHead (quiet_view d) = head_file d"
    using s(1) by (simp_all add: quiet_view_def)
  ultimately show ?thesis
    using reader_sees_covered_records [of "\<lambda>i. quiet_view d" "[b]" "[]" "[]" sample_env sample_key "[e]" "[]" h
        "[sgPublicKey sample_signer]" d] s
    by (intro exI [of _ e] exI [of _ d]) auto
qed

lemma checkSignature_pinned:
  assumes "checkSignature C h s trusted pinned leaves = None" "pinned \<noteq> []"
  shows "\<exists>pub sig. pub \<in> set pinned \<and>
     ed_verify C pub (treeHeadSigInput (word_of_nat (length leaves)) (Root (blake3 C) leaves)) sig"
  using assms
  by (auto simp: checkSignature_def keyAccepted_def list_ex_iff PublicKeySize_def
      split: if_splits option.splits)

lemma checkTreeHead_pinned:
  assumes "checkTreeHead C h key s trusted pinned leaves = None" "pinned \<noteq> []"
  shows "\<exists>pub sig. pub \<in> set pinned \<and>
     ed_verify C pub (treeHeadSigInput (word_of_nat (length leaves)) (Root (blake3 C) leaves)) sig"
  by (rule checkSignature_pinned [OF _ assms(2), of C h s trusted])
    (use assms(1) in \<open>auto simp: checkTreeHead_def Let_def split: if_splits option.splits\<close>)

lemma verifyTreeHead_pinned:
  assumes "verifyTreeHead C f key s trusted pinned leaves = None" "pinned \<noteq> []"
  shows "\<exists>pub sig. pub \<in> set pinned \<and>
     ed_verify C pub (treeHeadSigInput (word_of_nat (length leaves)) (Root (blake3 C) leaves)) sig"
  using assms checkTreeHead_pinned
  by (cases f) (fastforce simp: verifyTreeHead_def split: if_splits option.splits)+

lemma readCommittedOnce_pinned:
  assumes "readCommittedOnce C v key pinned = Done (Inr cl)" "pinned \<noteq> []"
  shows "\<exists>pub sig. pub \<in> set pinned \<and>
     ed_verify C pub (treeHeadSigInput (word_of_nat (length (clLeaves cl))) (Root (blake3 C) (clLeaves cl))) sig"
proof (cases "readStoredHead C (vHead v)")
  case (Inl err)
  then have "verifyTreeHead C (vHeadAgain v) key None [] pinned (clLeaves cl) = None"
    using assms(1)
    by (auto simp: readCommittedOnce_def Let_def split: if_splits sum.splits option.splits)
  then show ?thesis by (rule verifyTreeHead_pinned [OF _ assms(2)])
next
  case (Inr h)
  then have "checkTreeHead C h key None [] pinned (clLeaves cl) = None"
    using assms(1)
    by (auto simp: readCommittedOnce_def Let_def split: if_splits sum.splits option.splits)
  then show ?thesis by (rule checkTreeHead_pinned [OF _ assms(2)])
qed

lemma readCommittedLoop_once:
  "readCommittedLoop C n vs key pinned err = Inr cl \<Longrightarrow> \<exists>v. readCommittedOnce C v key pinned = Done (Inr cl)"
  by (induction n arbitrary: err) (auto split: attempt.splits)

text \<open>
  Property C9. With pinned keys, a log is read only if one of the pinned keys signed it: a
  store that \<open>OpenPinned\<close> returns has a signature by a pinned key over exactly its size
  and root, and a read-only store refuses every append.
\<close>

theorem pinned_open_is_signed:
  assumes "OpenPinned C vs key pinned = Inr st" "pinned \<noteq> []"
  shows "(\<exists>pub sig. pub \<in> set pinned \<and>
       ed_verify C pub (treeHeadSigInput (word_of_nat (length (stLeaves st))) (Root (blake3 C) (stLeaves st))) sig) \<and>
     Append C st d level event source data io = (Some OpenedReadOnly, st, d)"
proof -
  obtain cl where cl: "readCommitted C vs key pinned = Inr cl" "stLeaves st = clLeaves cl" "stReadOnly st"
    using assms(1) by (auto simp: OpenPinned_def Let_def split: sum.splits)
  obtain v where "readCommittedOnce C v key pinned = Done (Inr cl)"
    using readCommittedLoop_once cl(1) by (fastforce simp: readCommitted_def)
  then show ?thesis
    using readCommittedOnce_pinned [OF _ assms(2)] cl by (simp add: Append_def)
qed

theorem pinned_open_is_signed_witness:
  "\<exists>d st. OpenPinned sample_env (\<lambda>i. quiet_view d) sample_key [sgPublicKey sample_signer] = Inr st \<and>
     (\<exists>pub sig. pub \<in> set [sgPublicKey sample_signer] \<and>
        ed_verify sample_env pub (treeHeadSigInput (word_of_nat (length (stLeaves st)))
          (Root (blake3 sample_env) (stLeaves st))) sig)"
proof -
  obtain e b and d :: disk and h where s: "log_file d = Content (frames_of ([b] @ []) @ [])"
      "list_all2 (decodes sample_env sample_key) [b] [e]" "readStoredHead sample_env (head_file d) = Inr h"
      "checkTreeHead sample_env h sample_key None [] [sgPublicKey sample_signer] (map (leafHash sample_env) [e]) = None"
    using sample_pinned_view by blast
  have "readCommittedOnce sample_env (quiet_view d) sample_key [sgPublicKey sample_signer] = Done (Inr
      \<lparr>clEntries = [e], clLeaves = map (leafHash sample_env) [e],
       clUncovered = \<lparr>ucRecords = length ([]::entry list), ucBytes = length (frames_of [] @ [])\<rparr>\<rparr>)"
    by (rule readCommittedOnce_covered [of _ "[b]" "[]" "[]"]) (use s in \<open>simp_all add: quiet_view_def\<close>)
  then obtain st where op: "OpenPinned sample_env (\<lambda>i. quiet_view d) sample_key [sgPublicKey sample_signer] = Inr st"
    by (simp add: OpenPinned_def readCommitted_def readOnlyAttempts_def eval_nat_numeral Let_def)
  then show ?thesis using pinned_open_is_signed [OF op] by blast
qed

section \<open>Proofs and roots of a store\<close>

text \<open>
  The store proves what it holds: for every record of a consistent store
  \<open>InclusionProof\<close> returns that record and a proof which verifies for the record's leaf
  against the root \<open>Head\<close> publishes.
\<close>

lemma InclusionProof_verifies:
  assumes "store_inv C st d bs es" "i < length es" "length es \<le> 2 ^ 62"
  shows "\<exists>p root. InclusionProof C st d (word_of_nat i) = Inr (p, es ! i) \<and>
     hex_decode (thRoot (Head C st now)) = Some root \<and>
     Verify (blake3 C) root (leafHash C (es ! i)) p = Value None"
proof -
  have all: "ReadAll C d (stKey st) = Inr es" and lv: "stLeaves st = map (leafHash C) es"
    using assms(1) by (auto simp: store_inv_def intro: ReadAll_holds)
  have un: "unat (word_of_nat i :: u64) = i" "unat (word_of_nat (length es) :: u64) = length es"
    using assms(2,3) by (simp_all add: unat_of_nat)
  then have lt: "\<not> (word_of_nat (length es) :: u64) \<le> word_of_nat i"
    using assms(2) unfolding word_le_nat_alt by simp
  obtain p where "Prove (blake3 C) (map (leafHash C) es) (word_of_nat i) = Inr p"
      "Verify (blake3 C) (Root (blake3 C) (map (leafHash C) es)) (leafHash C (es ! i)) p = Value None"
    using Prove_complete [of "map (leafHash C) es" i "blake3 C"] assms(2,3) by auto
  then show ?thesis using all lv un lt by (simp add: InclusionProof_def Head_def)
qed

lemma sample_store:
  "\<exists>e st d bs. store_inv sample_env st d bs [e] \<and> append_ok sample_env (st, d) sample_call"
proof -
  obtain e st d where up: "log_reachable sample_env sample_key (Some sample_signer) [] ([e], Up st d)"
    using sample_recorded by blast
  obtain bs where si: "store_inv sample_env st d bs [e]" and st: "stKey st = sample_key"
      "stSigner st = Some sample_signer" "\<not> stReadOnly st"
    using reachable_inv [OF sample_env_ok sample_signed up] by (auto simp: opened_as_def store_inv_def)
  show ?thesis using si sample_append(1) [OF st] by blast
qed

lemma InclusionProof_verifies_witness:
  "\<exists>e st d bs. store_inv sample_env st d bs [e] \<and>
     (\<exists>p root. InclusionProof sample_env st d (word_of_nat 0) = Inr (p, [e] ! 0) \<and>
        hex_decode (thRoot (Head sample_env st ''now'')) = Some root \<and>
        Verify (blake3 sample_env) root (leafHash sample_env ([e] ! 0)) p = Value None)"
proof -
  obtain e st d bs where si: "store_inv sample_env st d bs [e]" using sample_store by blast
  have "0 < length [e]" "length [e] \<le> 2 ^ 62" by simp_all
  then show ?thesis using InclusionProof_verifies [OF si] si by blast
qed

text \<open>
  Published roots stay true: after a successful append, the root at every
  size up to the old one is what it was, and the root at the old size is the one \<open>Head\<close>
  published before the append.
\<close>

lemma earlier_roots_kept:
  assumes "Append C st d level event source data io = (None, st', d')"
    and "n \<le> word_of_nat (length (stLeaves st))" "length (stLeaves st) < 2 ^ 63"
  shows "RootAt C st' n = RootAt C st n \<and>
     RootAt C st' (word_of_nat (length (stLeaves st))) = Inr (thRoot (Head C st now))"
proof -
  obtain e where st': "stLeaves st' = stLeaves st @ [leafHash C e]"
    using assms(1) by (rule Append_success) auto
  have un: "unat (word_of_nat (length (stLeaves st)) :: u64) = length (stLeaves st)"
      "unat (word_of_nat (Suc (length (stLeaves st))) :: u64) = Suc (length (stLeaves st))"
    using assms(3) by (simp_all add: unat_of_nat del: of_nat_Suc)
  have "unat n \<le> length (stLeaves st)" using assms(2) un by (simp add: word_le_nat_alt)
  then show ?thesis
    using un by (simp add: RootAt_def st' Head_def word_less_nat_alt del: of_nat_Suc)
qed

lemma earlier_roots_kept_witness:
  "\<exists>st d st' d'. append_call sample_env (st, d) sample_call = (None, st', d') \<and> stLeaves st \<noteq> [] \<and>
     RootAt sample_env st' 1 = RootAt sample_env st 1 \<and>
     RootAt sample_env st' (word_of_nat (length (stLeaves st))) = Inr (thRoot (Head sample_env st ''now''))"
proof -
  obtain e st d bs where si: "store_inv sample_env st d bs [e]" and ok: "append_ok sample_env (st, d) sample_call"
    using sample_store by blast
  obtain st' d' where call: "append_call sample_env (st, d) sample_call = (None, st', d')"
    using ok by (cases "append_call sample_env (st, d) sample_call") (auto simp: append_ok_def)
  have "length (stLeaves st) = 1" using si by (simp add: store_inv_def)
  then show ?thesis
    using earlier_roots_kept [of sample_env st d "acLevel sample_call" "acEvent sample_call" "acSource sample_call"
        "acData sample_call" "acIO sample_call" st' d' 1 "''now''"] call
    by (intro exI [of _ st] exI [of _ d] exI [of _ st'] exI [of _ d']) (auto simp: append_call_def)
qed

end
