(* ===== verification/Log_Export.thy ===== *)
theory Log_Export
  imports Store_Props
begin

text \<open>
  Exports of the log, \<open>internal/store/export.go\<close>: a copy of the log at a signed head that a
  third party checks with public data alone. The entries shown are selected by a filter;
  the leaf hashes cover the whole log.
\<close>

section \<open>Documents\<close>

text \<open>Go's zero time (year 1), in nanoseconds relative to the Unix epoch.\<close>

definition zero_time :: time where
  "zero_time = - 62135596800 * 10 ^ 9"

record export_filter =
  fSince :: time
  fUntil :: time
  fSources :: "string list"

definition filter_match :: "export_filter \<Rightarrow> entry \<Rightarrow> bool" where
  "filter_match f e =
     (if fSince f \<noteq> zero_time \<and> eTimestamp e < fSince f then False
      else if fUntil f \<noteq> zero_time \<and> \<not> eTimestamp e < fUntil f then False
      else if fSources f = [] then True
      else list_ex (\<lambda>s. eSource e = s) (fSources f))"

record export =
  xFormat :: string
  xHead :: tree_head
  xLeafHashes :: "string list"
  xEntries :: "entry list"
  xFilter :: export_filter

definition ExportFormat :: string where
  "ExportFormat = ''witness-export/1''"

definition zero_head :: tree_head where
  "zero_head = \<lparr>thSize = 0, thRoot = [], thPrevRoot = [], thTimestamp = [], thMAC = [],
                thSignature = [], thSignerKey = []\<rparr>"

datatype export_error =
    XStore store_error | XNeverAgreed
  | XFormat | XNoPins | XLeafCount | XLeafMalformed nat | XRootMismatch | XHead store_error
  | XEntryOutside u64 | XEntryAltered u64 | XPriorLonger nat | XPriorRoot nat | XPriorHead nat store_error

section \<open>Exporting\<close>

definition exportAttempts :: nat where
  "exportAttempts = 20"

text \<open>One attempt, on the head and the log as they are then; \<open>None\<close>: they do not agree.\<close>

definition exportOnce :: "env \<Rightarrow> view \<Rightarrow> bytes \<Rightarrow> export_filter \<Rightarrow> (export_error + export) option" where
  "exportOnce C v key f =
     (case readStoredHead C (vHead v) of
        Inl HeadNotExist \<Rightarrow>
          Some (Inr \<lparr>xFormat = ExportFormat, xHead = zero_head, xLeafHashes = [], xEntries = [], xFilter = f\<rparr>)
      | Inl err \<Rightarrow> Some (Inl (XStore err))
      | Inr head \<Rightarrow>
          (case readLog C (vLog v) key of
             Inl err \<Rightarrow> Some (Inl (XStore err))
           | Inr (all, _, _, _) \<Rightarrow>
               if (word_of_nat (length all) :: u64) < thSize head then None
               else (let entries = take (unat (thSize head)) all;
                         leaves = map (leafHash C) entries
                     in if hex_encode (Root (blake3 C) leaves) \<noteq> thRoot head then None
                        else Some (Inr \<lparr>xFormat = ExportFormat, xHead = head,
                               xLeafHashes = map hex_encode leaves,
                               xEntries = filter (filter_match f) entries, xFilter = f\<rparr>))))"

fun exportLoop :: "env \<Rightarrow> nat \<Rightarrow> (nat \<Rightarrow> view) \<Rightarrow> bytes \<Rightarrow> export_filter \<Rightarrow> export_error + export" where
  "exportLoop C 0 vs key f = Inl XNeverAgreed"
| "exportLoop C (Suc n) vs key f =
     (case exportOnce C (vs (exportAttempts - Suc n)) key f of
        Some r \<Rightarrow> r
      | None \<Rightarrow> exportLoop C n vs key f)"

definition ExportDir :: "env \<Rightarrow> (nat \<Rightarrow> view) \<Rightarrow> bytes \<Rightarrow> export_filter \<Rightarrow> export_error + export" where
  "ExportDir C vs key f = exportLoop C exportAttempts vs key f"

text \<open>
  \<open>Store.Export\<close> holds the store's lock, which keeps this process from appending meanwhile; other
  processes can still change the files, so the views remain arguments.
\<close>

definition store_Export :: "env \<Rightarrow> store \<Rightarrow> (nat \<Rightarrow> view) \<Rightarrow> export_filter \<Rightarrow> export_error + export" where
  "store_Export C st vs f = ExportDir C vs (stKey st) f"

text \<open>
  \<open>ReadExport\<close>: \<open>decode\<close> is one \<open>Decode\<close> of a JSON stream that refuses unknown fields: the first value and
  the bytes after it, which are not looked at.
\<close>

definition ReadExport :: "(bytes \<Rightarrow> (export \<times> bytes) option) \<Rightarrow> bytes \<Rightarrow> export option" where
  "ReadExport decode data = map_option fst (decode data)"

section \<open>Verifying\<close>

definition verifyHeadSignature :: "env \<Rightarrow> tree_head \<Rightarrow> hash \<Rightarrow> bytes list \<Rightarrow> store_error option" where
  "verifyHeadSignature C h root pins =
     (if thSize h = 0 then None
      else if thSignature h = [] then Some ErrHeadNotSigned
      else case hex_decode (thSignature h) of
        None \<Rightarrow> Some MalformedSignature
      | Some sig \<Rightarrow>
          if length sig \<noteq> SignatureSize then Some MalformedSignature
          else case hex_decode (thSignerKey h) of
            None \<Rightarrow> Some MalformedSignerKey
          | Some pub \<Rightarrow>
              if length pub \<noteq> PublicKeySize then Some MalformedSignerKey
              else if \<not> list_ex (\<lambda>p. pub = p) pins then Some ErrUnexpectedSigner
              else if \<not> ed_verify C pub (treeHeadSigInput (thSize h) root) sig then Some SignatureFailed
              else None)"

fun decodeLeaves :: "nat \<Rightarrow> string list \<Rightarrow> export_error + hash list" where
  "decodeLeaves i [] = Inr []"
| "decodeLeaves i (h # hs) =
     (case hex_decode h of
        None \<Rightarrow> Inl (XLeafMalformed i)
      | Some b \<Rightarrow>
          if length b \<noteq> 32 then Inl (XLeafMalformed i)
          else (case decodeLeaves (Suc i) hs of Inl err \<Rightarrow> Inl err | Inr ls \<Rightarrow> Inr (copy32 b # ls)))"

fun checkEntries :: "env \<Rightarrow> u64 \<Rightarrow> hash list \<Rightarrow> entry list \<Rightarrow> export_error option" where
  "checkEntries C sz leaves [] = None"
| "checkEntries C sz leaves (e # es) =
     (if eSeq e = 0 \<or> sz < eSeq e then Some (XEntryOutside (eSeq e))
      else if leafHash C e \<noteq> leaves ! unat (eSeq e - 1) then Some (XEntryAltered (eSeq e))
      else checkEntries C sz leaves es)"

fun checkPriors :: "env \<Rightarrow> u64 \<Rightarrow> hash list \<Rightarrow> bytes list \<Rightarrow> nat \<Rightarrow> tree_head list \<Rightarrow> export_error option" where
  "checkPriors C sz leaves pins i [] = None"
| "checkPriors C sz leaves pins i (p # ps) =
     (if sz < thSize p then Some (XPriorLonger i)
      else let pr = Root (blake3 C) (take (unat (thSize p)) leaves) in
        if hex_encode pr \<noteq> thRoot p then Some (XPriorRoot i)
        else case verifyHeadSignature C p pr pins of
          Some err \<Rightarrow> Some (XPriorHead i err)
        | None \<Rightarrow> checkPriors C sz leaves pins (Suc i) ps)"

record verify_result =
  vrSize :: u64
  vrRoot :: string
  vrEntriesSeen :: nat
  vrPriorsOK :: nat

definition VerifyExport ::
  "env \<Rightarrow> export \<Rightarrow> bytes list \<Rightarrow> tree_head list \<Rightarrow> export_error + verify_result" where
  "VerifyExport C x pins priors =
     (let sz = thSize (xHead x) in
      if xFormat x \<noteq> ExportFormat then Inl XFormat
      else if pins = [] then Inl XNoPins
      else if word_of_nat (length (xLeafHashes x)) \<noteq> sz then Inl XLeafCount
      else case decodeLeaves 0 (xLeafHashes x) of
        Inl err \<Rightarrow> Inl err
      | Inr leaves \<Rightarrow>
          (let root = Root (blake3 C) leaves in
           if sz \<noteq> 0 \<and> hex_encode root \<noteq> thRoot (xHead x) then Inl XRootMismatch
           else case verifyHeadSignature C (xHead x) root pins of
             Some err \<Rightarrow> Inl (XHead err)
           | None \<Rightarrow>
               (case checkEntries C sz leaves (xEntries x) of
                  Some err \<Rightarrow> Inl err
                | None \<Rightarrow>
                    (case checkPriors C sz leaves pins 0 priors of
                       Some err \<Rightarrow> Inl err
                     | None \<Rightarrow> Inr \<lparr>vrSize = sz, vrRoot = thRoot (xHead x),
                                     vrEntriesSeen = length (xEntries x),
                                     vrPriorsOK = length priors\<rparr>))))"

section \<open>What an accepted export has\<close>

lemma decodeLeaves_Inr:
  "decodeLeaves i hs = Inr ls \<Longrightarrow>
     length ls = length hs \<and> (\<forall>l \<in> set ls. length l = 32) \<and> map hex_decode hs = map Some ls"
  by (induction i hs arbitrary: ls rule: decodeLeaves.induct) (auto split: option.splits if_splits sum.splits)

lemma decodeLeaves_encode:
  "\<forall>l \<in> set ls. length l = 32 \<Longrightarrow> decodeLeaves i (map hex_encode ls) = Inr ls"
  by (induction ls arbitrary: i) auto

lemma checkEntries_None:
  "checkEntries C sz leaves es = None \<longleftrightarrow>
     (\<forall>e \<in> set es. eSeq e \<noteq> 0 \<and> eSeq e \<le> sz \<and> leafHash C e = leaves ! unat (eSeq e - 1))"
  by (induction es) (auto simp: not_less)

lemma checkPriors_None:
  "checkPriors C sz leaves pins i ps = None \<longleftrightarrow>
     (\<forall>p \<in> set ps. thSize p \<le> sz \<and>
        hex_encode (Root (blake3 C) (take (unat (thSize p)) leaves)) = thRoot p \<and>
        verifyHeadSignature C p (Root (blake3 C) (take (unat (thSize p)) leaves)) pins = None)"
  by (induction ps arbitrary: i) (auto simp: not_less Let_def split: option.splits)

text \<open>A head that one of the pins signed, for the given root.\<close>

definition signed_by :: "env \<Rightarrow> bytes list \<Rightarrow> u64 \<Rightarrow> hash \<Rightarrow> bool" where
  "signed_by C pins sz root \<longleftrightarrow>
     (\<exists>pub sig. pub \<in> set pins \<and> ed_verify C pub (treeHeadSigInput sz root) sig)"

lemma verifyHeadSignature_signed:
  "verifyHeadSignature C h root pins = None \<Longrightarrow> thSize h = 0 \<or> signed_by C pins (thSize h) root"
  by (auto simp: verifyHeadSignature_def signed_by_def list_ex_iff split: if_splits option.splits)

lemma VerifyExport_Inr:
  assumes "VerifyExport C x pins priors = Inr r"
  obtains leaves where "decodeLeaves 0 (xLeafHashes x) = Inr leaves"
    "thSize (xHead x) = word_of_nat (length leaves)"
    "thSize (xHead x) = 0 \<or> hex_encode (Root (blake3 C) leaves) = thRoot (xHead x)"
    "verifyHeadSignature C (xHead x) (Root (blake3 C) leaves) pins = None"
    "checkEntries C (thSize (xHead x)) leaves (xEntries x) = None"
    "checkPriors C (thSize (xHead x)) leaves pins 0 priors = None"
  using assms
  by (auto simp: VerifyExport_def Let_def dest: decodeLeaves_Inr split: if_splits option.splits sum.splits)

text \<open>Roots of equally long lists of leaves bind the leaves.\<close>

lemma leaves_binding:
  assumes "length ls = length ls'" "subtreeRoot B ls = subtreeRoot B ls'"
    and "\<forall>l \<in> set ls. length l = 32" "\<forall>l \<in> set ls'. length l = 32"
    and "collision_free B (node_inputs B ls \<union> node_inputs B ls')"
  shows "ls = ls'"
  using assms
proof (induction ls arbitrary: ls' rule: tree_induct)
  case Nil
  then show ?case by simp
next
  case (Single h)
  then show ?case by (cases ls') auto
next
  case (Split ls)
  let ?k = "splitPoint (length ls)"
  have len': "2 \<le> length ls'" and k: "splitPoint (length ls') = ?k" using Split.hyps Split.prems(1) by auto
  have in1: "\<forall>l \<in> set (take ?k ls). length l = 32" "\<forall>l \<in> set (drop ?k ls). length l = 32"
    and in2: "\<forall>l \<in> set (take ?k ls'). length l = 32" "\<forall>l \<in> set (drop ?k ls'). length l = 32"
    using Split.prems(3,4) by (auto dest: in_set_takeD in_set_dropD)
  note n1 = node_inputs_split [OF Split.hyps, of B, unfolded Let_def]
    and n2 = node_inputs_split [OF len', of B, unfolded Let_def k]
  have node: "HashNode B (subtreeRoot B (take ?k ls)) (subtreeRoot B (drop ?k ls)) =
      HashNode B (subtreeRoot B (take ?k ls')) (subtreeRoot B (drop ?k ls'))"
    using Split.prems(2) subtreeRoot_split [OF Split.hyps, of B] subtreeRoot_split [OF len', of B] k by simp
  have "subtreeRoot B (take ?k ls) = subtreeRoot B (take ?k ls') \<and>
      subtreeRoot B (drop ?k ls) = subtreeRoot B (drop ?k ls')"
    by (rule collision_free_node [OF Split.prems(5) node])
      (simp_all add: n1 n2 length_subtreeRoot [OF in1(1)] length_subtreeRoot [OF in2(1)])
  then have eq: "subtreeRoot B (take ?k ls) = subtreeRoot B (take ?k ls')"
      "subtreeRoot B (drop ?k ls) = subtreeRoot B (drop ?k ls')" by simp_all
  have cf: "collision_free B (node_inputs B (take ?k ls) \<union> node_inputs B (take ?k ls'))"
      "collision_free B (node_inputs B (drop ?k ls) \<union> node_inputs B (drop ?k ls'))"
    by (rule collision_free_subset [OF Split.prems(5)], use n1 n2 in blast)+
  have "take ?k ls = take ?k ls'" "drop ?k ls = drop ?k ls'"
    using Split.IH(1) [OF _ eq(1) in1(1) in2(1) cf(1)] Split.IH(2) [OF _ eq(2) in1(2) in2(2) cf(2)] Split.prems(1)
    by simp_all
  then show ?case by (metis append_take_drop_id)
qed

section \<open>Soundness\<close>

text \<open>
  No collision among the inputs hashed for the log \<open>es\<close>, for the leaf list of the export and
  for the entries it shows.
\<close>

definition export_collision_free :: "env \<Rightarrow> export \<Rightarrow> entry list \<Rightarrow> bool" where
  "export_collision_free C x es \<longleftrightarrow>
     (case decodeLeaves 0 (xLeafHashes x) of Inl _ \<Rightarrow> True
      | Inr ls \<Rightarrow> collision_free (blake3 C)
          (node_inputs (blake3 C) ls \<union> log_inputs (blake3 C) (map (rec_bytes C) es) \<union>
           (\<lambda>e. leafPrefix # rec_bytes C e) ` set (xEntries x)))"

lemma verified_leaves:
  assumes "VerifyExport C x pins priors = Inr r" "es \<noteq> []" "length es < 2 ^ 63" "length (xLeafHashes x) < 2 ^ 63"
    and "thSize (xHead x) = word_of_nat (length es)"
    and "thRoot (xHead x) = hex_encode (Root (blake3 C) (map (leafHash C) es))"
    and "export_collision_free C x es"
  shows "decodeLeaves 0 (xLeafHashes x) = Inr (map (leafHash C) es)"
proof -
  obtain ls where ls: "decodeLeaves 0 (xLeafHashes x) = Inr ls"
    "thSize (xHead x) = word_of_nat (length ls)"
    "thSize (xHead x) = 0 \<or> hex_encode (Root (blake3 C) ls) = thRoot (xHead x)"
    using assms(1) by (rule VerifyExport_Inr)
  note dl = decodeLeaves_Inr [OF ls(1)]
  have nz: "thSize (xHead x) \<noteq> 0"
    using assms(2,3,5) unat_word64 [of "length es"] by auto
  have len: "length ls = length es"
    using ls(2) assms(3,4,5) dl unat_word64 [of "length es"] unat_word64 [of "length ls"] by simp
  have sub: "node_inputs (blake3 C) (map (leafHash C) es) \<subseteq> log_inputs (blake3 C) (map (rec_bytes C) es)"
    by (auto simp: log_inputs_def map_leafHash_rec)
  have cf: "collision_free (blake3 C) (node_inputs (blake3 C) ls \<union> node_inputs (blake3 C) (map (leafHash C) es))"
    using assms(7) sub ls(1) by (auto simp: export_collision_free_def intro: collision_free_subset)
  have "ls = map (leafHash C) es"
    by (rule leaves_binding [OF _ _ _ _ cf]) (use nz ls(3) assms(6) dl len in \<open>auto simp: Root_def\<close>)
  then show ?thesis using ls(1) by simp
qed

text \<open>
  Property C12. An export that verifies against a log's head shows only what is in that log:
  every entry shown is, byte for byte, the record of the log at its sequence number, every
  prior head is the root of a prefix of the log, and one of the pinned keys signed the head
  and each prior head of a non-empty log, barring a hash collision.
\<close>

theorem verified_export_shows_log:
  assumes "VerifyExport C x pins priors = Inr r" "es \<noteq> []" "length es < 2 ^ 63" "length (xLeafHashes x) < 2 ^ 63"
    and "thSize (xHead x) = word_of_nat (length es)"
    and "thRoot (xHead x) = hex_encode (Root (blake3 C) (map (leafHash C) es))"
    and "export_collision_free C x es"
  shows "(\<forall>e \<in> set (xEntries x). 1 \<le> unat (eSeq e) \<and> unat (eSeq e) \<le> length es \<and>
            rec_bytes C e = rec_bytes C (es ! (unat (eSeq e) - 1))) \<and>
         (\<forall>p \<in> set priors. unat (thSize p) \<le> length es \<and>
            thRoot p = hex_encode (Root (blake3 C) (map (leafHash C) (take (unat (thSize p)) es))) \<and>
            (thSize p = 0 \<or> signed_by C pins (thSize p)
               (Root (blake3 C) (map (leafHash C) (take (unat (thSize p)) es))))) \<and>
         signed_by C pins (thSize (xHead x)) (Root (blake3 C) (map (leafHash C) es))"
proof -
  let ?ls = "map (leafHash C) es"
  have ls: "decodeLeaves 0 (xLeafHashes x) = Inr ?ls" by (rule verified_leaves [OF assms])
  have chk: "verifyHeadSignature C (xHead x) (Root (blake3 C) ?ls) pins = None"
      "checkEntries C (thSize (xHead x)) ?ls (xEntries x) = None"
      "checkPriors C (thSize (xHead x)) ?ls pins 0 priors = None"
    using VerifyExport_Inr [OF assms(1)] ls by (metis sum.inject(2))+
  have sz: "unat (thSize (xHead x)) = length es" using assms(3,5) unat_word64 by simp
  have entries: "1 \<le> unat (eSeq e) \<and> unat (eSeq e) \<le> length es \<and>
      rec_bytes C e = rec_bytes C (es ! (unat (eSeq e) - 1))" if e: "e \<in> set (xEntries x)" for e
  proof -
    have c: "eSeq e \<noteq> 0" "unat (eSeq e) \<le> length es" "leafHash C e = ?ls ! unat (eSeq e - 1)"
      using chk(2) e sz by (auto simp: checkEntries_None word_le_nat_alt)
    have i: "unat (eSeq e - 1) = unat (eSeq e) - 1" "unat (eSeq e) \<noteq> 0"
      using c(1) by (simp_all add: unat_minus_one unat_eq_zero)
    then have "leafHash C e = leafHash C (es ! (unat (eSeq e) - 1))" using c by simp
    then have "H (blake3 C) (leafPrefix # rec_bytes C e) =
        H (blake3 C) (leafPrefix # rec_bytes C (es ! (unat (eSeq e) - 1)))"
      by (simp add: leafHash_rec HashLeaf_H)
    moreover have "es ! (unat (eSeq e) - 1) \<in> set es" using c(2) i(2) by auto
    then have "leafPrefix # rec_bytes C (es ! (unat (eSeq e) - 1)) \<in> log_inputs (blake3 C) (map (rec_bytes C) es)"
      by (simp add: log_inputs_def)
    ultimately have "leafPrefix # rec_bytes C e = leafPrefix # rec_bytes C (es ! (unat (eSeq e) - 1))"
      using assms(7) e unfolding export_collision_free_def ls sum.case by (blast dest: collision_freeD)
    then show ?thesis using c(2) i(2) by simp
  qed
  have priors: "unat (thSize p) \<le> length es \<and>
      thRoot p = hex_encode (Root (blake3 C) (map (leafHash C) (take (unat (thSize p)) es))) \<and>
      (thSize p = 0 \<or> signed_by C pins (thSize p)
         (Root (blake3 C) (map (leafHash C) (take (unat (thSize p)) es))))" if "p \<in> set priors" for p
    using chk(3) that sz by (auto simp: checkPriors_None word_le_nat_alt take_map dest: verifyHeadSignature_signed)
  have "thSize (xHead x) \<noteq> 0" using sz assms(2) by auto
  then show ?thesis using entries priors verifyHeadSignature_signed [OF chk(1)] by blast
qed

section \<open>Sequence numbers\<close>

text \<open>
  Along the life of a log the entries are numbered from 1 on, without gaps, as long as no
  process goes on after a failed append.
\<close>

definition numbered :: "entry list \<Rightarrow> bool" where
  "numbered es \<longleftrightarrow> (\<forall>i < length es. eSeq (es ! i) = word_of_nat (Suc i))"

lemma numbered_snoc: "numbered es \<Longrightarrow> eSeq e = word_of_nat (Suc (length es)) \<Longrightarrow> numbered (es @ [e])"
  by (auto simp: numbered_def nth_append less_Suc_eq)

fun seq_inv :: "entry list \<times> proc \<Rightarrow> bool" where
  "seq_inv (es, Up st d) = (numbered es \<and> stSeq st = word_of_nat (length es))"
| "seq_inv (es, Down d) = numbered es"

lemma finishOpen_seq:
  "finishOpen C d key s trusted pinned io rec es leaves = (Inr st, d') \<Longrightarrow>
     stSeq st = (if stHasLast st then eSeq (stLast st) else 0)"
  by (auto simp: finishOpen_def Let_def zero_entry_def split: if_splits)

lemma openStore_seq:
  assumes "openStore C d key s trusted pinned io = (Inr st, d')"
  shows "stSeq st = (if stHasLast st then eSeq (stLast st) else 0)"
proof -
  obtain p where "run_plan C d key s trusted pinned io p = (Inr st, d')"
    using assms openStore_plan [of C d key s trusted pinned] by (metis Inl_Inr_False prod.inject)
  then show ?thesis by (cases p) (auto dest: finishOpen_seq split: prod.splits option.splits)
qed

lemma opened_seq:
  assumes "numbered es" "opened_as C key s trusted st d es"
    and "stSeq st = (if stHasLast st then eSeq (stLast st) else 0)"
  shows "stSeq st = word_of_nat (length es)"
proof (cases es rule: rev_cases)
  case Nil
  then show ?thesis using assms by (auto simp: opened_as_def store_inv_def)
next
  case (snoc ys e)
  then have "eSeq e = word_of_nat (length es)" using assms(1) by (auto simp: numbered_def)
  then show ?thesis using assms(2,3) snoc by (auto simp: opened_as_def store_inv_def)
qed

lemma log_step_seq:
  assumes "log_step C key s trusted x y" "seq_inv x" "proc_inv C key s trusted y"
  shows "seq_inv y"
  using assms(1,2)
proof (cases rule: log_step.cases)
  case (acknowledged st d c st' d' es)
  have "stSeq st' = stSeq st + 1"
    using acknowledged(4) unfolding append_call_def by (auto elim: Append_success)
  moreover have "eSeq (call_entry (st, d) c) = stSeq st + 1" by (simp add: call_entry_def newEntry_def)
  ultimately show ?thesis using acknowledged assms(2) by (auto intro: numbered_snoc simp: add.commute)
next
  case (reopened d io st d' es)
  then have "stSeq st = (if stHasLast st then eSeq (stLast st) else 0)"
    using openStore_seq by (simp add: OpenTrusting_def)
  then show ?thesis using reopened assms(2,3) opened_seq by auto
qed (use assms(2) in auto)

lemma reachable_seq:
  assumes "env_ok C" "\<And>sg. s = Some sg \<Longrightarrow> signer_ok C sg" "log_reachable C key s trusted x"
  shows "seq_inv x"
  using assms(3) unfolding log_reachable_def
proof (induction rule: rtranclp_induct)
  case base
  then show ?case by (simp add: numbered_def)
next
  case (step y z)
  then have "log_reachable C key s trusted z" by (simp add: log_reachable_def)
  then have "proc_inv C key s trusted z" using reachable_inv [OF assms(1,2)] by blast
  then show ?case using log_step_seq step by blast
qed

section \<open>Honest exports\<close>

text \<open>A head the signer issued for a prefix of the log.\<close>

definition genuine_prior :: "env \<Rightarrow> signer \<Rightarrow> hash list \<Rightarrow> tree_head \<Rightarrow> bool" where
  "genuine_prior C sg leaves p \<longleftrightarrow>
     0 < thSize p \<and> unat (thSize p) \<le> length leaves \<and>
     (let root = Root (blake3 C) (take (unat (thSize p)) leaves) in
      thRoot p = hex_encode root \<and> thSignerKey p = hex_encode (sgPublicKey sg) \<and>
      (\<exists>sig. sgSign sg (treeHeadSigInput (thSize p) root) = Some sig \<and> thSignature p = hex_encode sig))"

lemma genuine_signature:
  assumes "signer_ok C sg" "thSignerKey p = hex_encode (sgPublicKey sg)" "thSignature p = hex_encode sig"
    and "sgSign sg (treeHeadSigInput (thSize p) root) = Some sig" "sgPublicKey sg \<in> set pins"
  shows "verifyHeadSignature C p root pins = None"
proof -
  have "length sig = SignatureSize" "ed_verify C (sgPublicKey sg) (treeHeadSigInput (thSize p) root) sig"
    "length (sgPublicKey sg) = PublicKeySize"
    using assms by (auto simp: signer_ok_def)
  then show ?thesis
    using assms by (auto simp: verifyHeadSignature_def list_ex_iff SignatureSize_def)
qed

lemma genuine_priors_check:
  assumes "signer_ok C sg" "\<forall>p \<in> set priors. genuine_prior C sg leaves p" "unat sz = length leaves"
  shows "checkPriors C sz leaves [sgPublicKey sg] i priors = None"
  using assms(2,3) genuine_signature [OF assms(1), where pins = "[sgPublicKey sg]"]
  unfolding checkPriors_None genuine_prior_def Let_def word_le_nat_alt
  by (metis list.set_intros(1))

lemma exportOnce_holds:
  assumes "readStoredHead C (head_file d) = Inr h" "log_holds C key (log_file d) bs es"
    and "thSize h = word_of_nat (length es)" "thRoot h = hex_encode (Root (blake3 C) (map (leafHash C) es))"
    and "length es < 2 ^ 63"
  shows "exportOnce C (quiet_view d) key f =
     Some (Inr \<lparr>xFormat = ExportFormat, xHead = h, xLeafHashes = map hex_encode (map (leafHash C) es),
                 xEntries = filter (filter_match f) es, xFilter = f\<rparr>)"
  using assms unat_word64 [of "length es"]
  by (simp add: exportOnce_def quiet_view_def readLog_holds Let_def)

lemma numbered_checkEntries:
  assumes "numbered es" "length es < 2 ^ 63"
  shows "checkEntries C (word_of_nat (length es)) (map (leafHash C) es) (filter P es) = None"
  unfolding checkEntries_None
proof
  fix e assume "e \<in> set (filter P es)"
  then obtain i where i: "i < length es" "e = es ! i" by (auto simp: in_set_conv_nth)
  then have "eSeq e = word_of_nat (Suc i)" using assms(1) by (simp add: numbered_def)
  moreover have un: "unat (word_of_nat (Suc i) :: u64) = Suc i" "unat (word_of_nat (length es) :: u64) = length es"
    "unat (word_of_nat i :: u64) = i"
    using i(1) assms(2) by (simp_all add: unat_word64 del: of_nat_Suc)
  ultimately have "eSeq e - 1 = word_of_nat i" "unat (eSeq e) = Suc i" by simp_all
  then show "eSeq e \<noteq> 0 \<and> eSeq e \<le> word_of_nat (length es) \<and> leafHash C e = map (leafHash C) es ! unat (eSeq e - 1)"
    using i un by (auto simp: word_le_nat_alt unat_eq_zero)
qed

text \<open>
  Property C13. The honest log always passes: in a running log with a signer, right after an
  acknowledged append, the export of the directory verifies under the signer's key against
  every head the signer issued earlier, reports all records, and shows exactly the entries
  the filter selects.
\<close>

theorem honest_export_verifies:
  assumes "env_ok C" "signer_ok C sg" "log_reachable C key (Some sg) trusted (es, Up st d)"
    and "call_fits C (st, d) c" "append_call C (st, d) c = (None, st', d')" "Suc (length es) < 2 ^ 63"
    and "\<forall>p \<in> set priors. genuine_prior C sg (stLeaves st') p"
  shows "\<exists>x r. ExportDir C (\<lambda>i. quiet_view d') key f = Inr x \<and>
     VerifyExport C x [sgPublicKey sg] priors = Inr r \<and> vrSize r = word_of_nat (Suc (length es)) \<and>
     xEntries x = filter (filter_match f) (es @ [call_entry (st, d) c])"
proof -
  let ?es = "es @ [call_entry (st, d) c]" and ?ls = "map (leafHash C) (es @ [call_entry (st, d) c])"
  have sgs: "\<And>g. Some sg = Some g \<Longrightarrow> signer_ok C g" using assms(2) by simp
  have step: "log_step C key (Some sg) trusted (es, Up st d) (?es, Up st' d')"
    using assms(4,5,6) by (rule log_step.acknowledged)
  then have reach: "log_reachable C key (Some sg) trusted (?es, Up st' d')"
    using assms(3) by (auto simp: log_reachable_def)
  have num: "numbered ?es" using reachable_seq [OF assms(1) sgs reach] by simp
  obtain bs where si: "store_inv C st' d' bs ?es" and key: "stKey st' = key"
    using reachable_inv [OF assms(1) sgs reach] by (auto simp: opened_as_def)
  have st: "stSigner st = Some sg" "stKey st = key" "stLeaves st = map (leafHash C) es"
    using reachable_inv [OF assms(1) sgs assms(3)] by (auto simp: opened_as_def store_inv_def)
  obtain h where h: "head_file d' = Content (marshal_head C h)"
      "signHead C (Some sg) ?ls (newHead C (head_file d) key ?ls (aiNowText (acIO c))) = Some h"
    using assms(5) st unfolding append_call_def
    by (auto elim!: Append_success simp: call_entry_def)
  have fields: "thSize h = word_of_nat (length ?es)" "thRoot h = hex_encode (Root (blake3 C) ?ls)"
    using signHead_fields [OF h(2)] by (simp_all add: newHead_def Let_def)
  obtain sig where sig: "sgSign sg (treeHeadSigInput (thSize h) (Root (blake3 C) ?ls)) = Some sig"
      "thSignature h = hex_encode sig" "thSignerKey h = hex_encode (sgPublicKey sg)"
    using h(2) by (auto simp: signHead_def newHead_def Let_def split: option.splits)
  have head: "readStoredHead C (head_file d') = Inr h"
    using h(1) assms(1) by (simp add: readStoredHead_def env_ok_def)
  have len: "length ?es < 2 ^ 63" using assms(6) by simp
  have log: "log_holds C key (log_file d') bs ?es" using si key by (simp add: store_inv_def)
  define x where "x = \<lparr>xFormat = ExportFormat, xHead = h, xLeafHashes = map hex_encode ?ls,
      xEntries = filter (filter_match f) ?es, xFilter = f\<rparr>"
  have exp: "ExportDir C (\<lambda>i. quiet_view d') key f = Inr x"
    using exportOnce_holds [OF head log fields len, of f]
    by (simp add: ExportDir_def exportAttempts_def eval_nat_numeral x_def)
  have lv: "stLeaves st' = ?ls" using si by (simp add: store_inv_def)
  have un: "unat (thSize h) = length ?ls" unfolding fields(1) using unat_word64 [of "length ?es"] len by simp
  have "checkPriors C (thSize h) ?ls [sgPublicKey sg] 0 priors = None"
    using genuine_priors_check [OF assms(2) _ un] assms(7) lv by simp
  moreover have "verifyHeadSignature C h (Root (blake3 C) ?ls) [sgPublicKey sg] = None"
    using genuine_signature [OF assms(2) sig(3,2,1)] by simp
  moreover have "checkEntries C (thSize h) ?ls (filter (filter_match f) ?es) = None"
    unfolding fields(1) by (rule numbered_checkEntries [OF num len])
  moreover have "decodeLeaves 0 (map hex_encode ?ls) = Inr ?ls" by (rule decodeLeaves_encode) auto
  ultimately have "VerifyExport C x [sgPublicKey sg] priors = Inr
      \<lparr>vrSize = thSize h, vrRoot = thRoot h, vrEntriesSeen = length (filter (filter_match f) ?es),
       vrPriorsOK = length priors\<rparr>"
    unfolding VerifyExport_def Let_def x_def
    using fields by (simp del: map_append map_map list.map filter_append)
  then show ?thesis using exp fields(1) by (auto simp: x_def)
qed

definition sample_filter :: export_filter where
  "sample_filter = \<lparr>fSince = zero_time, fUntil = zero_time, fSources = [''witness'']\<rparr>"

lemma sample_export:
  "\<exists>st d st' d'. log_reachable sample_env sample_key (Some sample_signer) [] ([], Up st d) \<and>
     call_fits sample_env (st, d) sample_call \<and> append_call sample_env (st, d) sample_call = (None, st', d')"
proof -
  obtain st d where up: "log_reachable sample_env sample_key (Some sample_signer) [] ([], Up st d)"
    using sample_opened by blast
  have st: "stKey st = sample_key" "stSigner st = Some sample_signer" "\<not> stReadOnly st"
    using reachable_inv [OF sample_env_ok sample_signed up] by (auto simp: opened_as_def store_inv_def)
  show ?thesis
    using up sample_append(1) [OF st, of d] unfolding append_ok_def by (metis prod.collapse)
qed

lemma sample_call_matches: "filter_match sample_filter (call_entry sd sample_call)"
  by (simp add: filter_match_def sample_filter_def call_entry_def newEntry_def sample_call_def ToValidUTF8_def
      to_valid_ascii)

theorem honest_export_verifies_witness:
  "\<exists>st d d' x r. ExportDir sample_env (\<lambda>i. quiet_view d') sample_key sample_filter = Inr x \<and>
     VerifyExport sample_env x [sgPublicKey sample_signer] [] = Inr r \<and> vrSize r = word_of_nat (Suc 0) \<and>
     xEntries x = [call_entry (st, d) sample_call]"
proof -
  obtain st d st' d' where s: "log_reachable sample_env sample_key (Some sample_signer) [] ([], Up st d)"
      "call_fits sample_env (st, d) sample_call" "append_call sample_env (st, d) sample_call = (None, st', d')"
    using sample_export by blast
  show ?thesis
    using honest_export_verifies [OF sample_env_ok sample_signer_ok s, of "[]" sample_filter]
    by (fastforce simp: sample_call_matches)
qed

theorem verified_export_shows_log_witness:
  "\<exists>x r e. VerifyExport sample_env x [sgPublicKey sample_signer] [] = Inr r \<and> e \<in> set (xEntries x) \<and>
     rec_bytes sample_env e = rec_bytes sample_env ([e] ! (unat (eSeq e) - 1)) \<and>
     signed_by sample_env [sgPublicKey sample_signer] 1 (Root (blake3 sample_env) (map (leafHash sample_env) [e]))"
proof -
  define e where "e = call_entry (undefined\<lparr>stSeq := 0\<rparr>, undefined) sample_call"
  define ls where "ls = map (leafHash sample_env) [e]"
  define h where "h = \<lparr>thSize = 1, thRoot = hex_encode (Root (blake3 sample_env) ls), thPrevRoot = [],
    thTimestamp = [], thMAC = [], thSignature = hex_encode (replicate 64 5),
    thSignerKey = hex_encode (sgPublicKey sample_signer)\<rparr>"
  define x where "x = \<lparr>xFormat = ExportFormat, xHead = h, xLeafHashes = map hex_encode ls, xEntries = [e],
    xFilter = sample_filter\<rparr>"
  have seq: "eSeq e = 1" by (simp add: e_def call_entry_def newEntry_def)
  have sig: "verifyHeadSignature sample_env h (Root (blake3 sample_env) ls) [sgPublicKey sample_signer] = None"
    by (rule genuine_signature [OF sample_signer_ok, of _ "replicate 64 5"])
      (simp_all add: h_def sample_signer_def)
  have dl: "decodeLeaves 0 (map hex_encode ls) = Inr ls" by (rule decodeLeaves_encode) (simp add: ls_def)
  have v: "VerifyExport sample_env x [sgPublicKey sample_signer] [] = Inr
      \<lparr>vrSize = 1, vrRoot = thRoot h, vrEntriesSeen = 1, vrPriorsOK = 0\<rparr>"
    using sig dl seq by (simp add: VerifyExport_def x_def Let_def h_def ls_def)
  have cf: "export_collision_free sample_env x [e]"
    using dl by (simp add: export_collision_free_def x_def ls_def log_inputs_def collision_free_def)
  have "e \<in> set (xEntries x)" by (simp add: x_def)
  moreover have "thSize (xHead x) = 1" by (simp add: x_def h_def)
  ultimately show ?thesis
    using v verified_export_shows_log [OF v _ _ _ _ _ cf] by (auto simp: x_def h_def ls_def)
qed

section \<open>Limits\<close>

text \<open>
  A prior head taken from the export of an empty log (size 0 and no root, as
  \<open>ExportDir\<close> writes it) makes every later export fail: the check compares its empty root
  text with the text of the all-zero root.
\<close>

lemma empty_prior_rejected:
  assumes "exportOnce C v0 key f = Some (Inr x0)" "vHead v0 = Missing" "xHead x0 \<in> set priors"
  shows "\<exists>err. VerifyExport C x pins priors = Inl err"
proof (cases "VerifyExport C x pins priors")
  case (Inr r)
  then obtain leaves where "checkPriors C (thSize (xHead x)) leaves pins 0 priors = None"
    by (rule VerifyExport_Inr)
  moreover have "thSize (xHead x0) = 0" "thRoot (xHead x0) = []"
    using assms(1,2) by (auto simp: exportOnce_def readStoredHead_def zero_head_def)
  ultimately show ?thesis
    using assms(3) by (auto simp: checkPriors_None Root_def zero32_def)
qed simp

lemma empty_prior_rejected_witness:
  "\<exists>x0 err. exportOnce sample_env (quiet_view empty_disk) sample_key sample_filter = Some (Inr x0) \<and>
     VerifyExport sample_env x0 [sgPublicKey sample_signer] [xHead x0] = Inl err"
proof -
  obtain x0 where x0: "exportOnce sample_env (quiet_view empty_disk) sample_key sample_filter = Some (Inr x0)"
    by (simp add: exportOnce_def quiet_view_def empty_disk_def readStoredHead_def)
  have "vHead (quiet_view empty_disk) = Missing" by (simp add: quiet_view_def empty_disk_def)
  then show ?thesis using empty_prior_rejected [OF x0] x0 by fastforce
qed

text \<open>
  A process that goes on after a failed append leaves a log that no longer
  exports: the failed call has used up a sequence number, so the next acknowledged record is
  numbered past its position, and every export that shows it is rejected.
\<close>

lemma append_after_failure_breaks_export:
  assumes "stSeq st = word_of_nat (length (stLeaves st))" "length (stLeaves st) < 2 ^ 63"
    and "append_call C (st, d) c1 = (Some err, st1, d1)" "\<not> stReadOnly st" "stLeaves st1 = stLeaves st"
    and "append_call C (st1, d1) c2 = (None, st2, d2)"
    and "thSize (xHead x) = word_of_nat (length (stLeaves st2))" "stLast st2 \<in> set (xEntries x)"
  shows "\<exists>err. VerifyExport C x pins priors = Inl err"
proof (cases "VerifyExport C x pins priors")
  case (Inr r)
  let ?n = "length (stLeaves st)"
  obtain leaves where chk: "checkEntries C (thSize (xHead x)) leaves (xEntries x) = None"
    using Inr by (rule VerifyExport_Inr)
  have "stSeq st1 = stSeq st + 1"
    using assms(3,4)
    by (auto simp: append_call_def Append_def Let_def split: option.splits prod.splits if_splits)
  moreover have "eSeq (stLast st2) = stSeq st1 + 1" "length (stLeaves st2) = Suc (length (stLeaves st1))"
    using assms(6) unfolding append_call_def by (auto elim!: Append_success simp: newEntry_def)
  ultimately have "eSeq (stLast st2) = word_of_nat (Suc (Suc ?n))" "thSize (xHead x) = word_of_nat (Suc ?n)"
    using assms(1,5,7) by simp_all
  moreover have "eSeq (stLast st2) \<le> thSize (xHead x)" using chk assms(8) by (simp add: checkEntries_None)
  moreover have "unat (word_of_nat (Suc (Suc ?n)) :: u64) = Suc (Suc ?n)" "unat (word_of_nat (Suc ?n) :: u64) = Suc ?n"
    using assms(2) by (simp_all add: unat_word64 del: of_nat_Suc)
  ultimately show ?thesis by (simp add: word_le_nat_alt del: of_nat_Suc)
qed simp

definition sample_unsealed :: append_call where
  "sample_unsealed = sample_call\<lparr>acIO := sample_io\<lparr>aiNonce := None\<rparr>\<rparr>"

lemma append_after_failure_breaks_export_witness:
  "\<exists>st d st1 d1 st2 d2 err. append_call sample_env (st, d) sample_unsealed = (Some SealFailed, st1, d1) \<and>
     append_call sample_env (st1, d1) sample_call = (None, st2, d2) \<and>
     VerifyExport sample_env \<lparr>xFormat = ExportFormat, xHead = zero_head\<lparr>thSize := 1\<rparr>, xLeafHashes = [],
       xEntries = [stLast st2], xFilter = sample_filter\<rparr> [sgPublicKey sample_signer] [] = Inl err"
proof -
  obtain st d where up: "log_reachable sample_env sample_key (Some sample_signer) [] ([], Up st d)"
    using sample_opened by blast
  have st: "stKey st = sample_key" "stSigner st = Some sample_signer" "\<not> stReadOnly st" "stLeaves st = []"
    using reachable_inv [OF sample_env_ok sample_signed up] by (auto simp: opened_as_def store_inv_def)
  have seq: "stSeq st = word_of_nat (length (stLeaves st))"
    using reachable_seq [OF sample_env_ok sample_signed up] st(4) by simp
  define st1 where "st1 = st\<lparr>stSeq := stSeq st + 1\<rparr>"
  have fail: "append_call sample_env (st, d) sample_unsealed = (Some SealFailed, st1, d)"
    using st by (simp add: append_call_def Append_def sample_unsealed_def sample_call_def sample_io_def sample_env_def
        encrypt_Seal_def aes_key_ok_def sample_key_def st1_def)
  obtain st2 d2 where ok: "append_call sample_env (st1, d) sample_call = (None, st2, d2)"
    using sample_append(1) [of st1 d] st unfolding append_ok_def by (auto simp: st1_def) (metis prod.collapse)
  have "length (stLeaves st2) = 1"
    using ok st(4) unfolding append_call_def by (auto elim!: Append_success simp: st1_def)
  then have "\<exists>err. VerifyExport sample_env \<lparr>xFormat = ExportFormat, xHead = zero_head\<lparr>thSize := 1\<rparr>, xLeafHashes = [],
       xEntries = [stLast st2], xFilter = sample_filter\<rparr> [sgPublicKey sample_signer] [] = Inl err"
    by (intro append_after_failure_breaks_export [OF seq _ fail st(3) _ ok])
      (simp_all add: st(4) st1_def zero_head_def)
  then show ?thesis using fail ok by blast
qed

end
