(* ===== verification/Enforcer.thy ===== *)
theory Enforcer
  imports Gossip Log_Export
begin

text \<open>
  The enforcer (\<open>internal/enforcer\<close>, \<open>cmd/enforcer\<close>): a reader that polls the witness log and
  delivers new entries, and the handler that broadcasts deaths to the peers. Whether the
  event channel has room when an event is sent is an argument.
\<close>

section \<open>The tail reader\<close>

record enf_event =
  evEntry :: entry
  evLeafIndex :: u64
  evLeafHash :: hash

record tail_reader =
  trKey :: bytes
  trInterval :: int
  trLastSeq :: u64

definition NewTailReader :: "bytes \<Rightarrow> int \<Rightarrow> tail_reader" where
  "NewTailReader key interval =
     \<lparr>trKey = key, trInterval = (if interval \<le> 0 then 5 * 1000000000 else interval), trLastSeq = 0\<rparr>"

text \<open>The delivery loop: \<open>k\<close> events were sent so far, \<open>i\<close> is the index of the next entry.\<close>

fun deliver :: "(nat \<Rightarrow> bool) \<Rightarrow> nat \<Rightarrow> nat \<Rightarrow> (entry \<times> hash) list \<Rightarrow> u64 \<Rightarrow> enf_event list \<times> u64" where
  "deliver free k i [] lastSeq = ([], lastSeq)"
| "deliver free k i ((e, h) # es) lastSeq =
     (if eSeq e \<le> lastSeq then deliver free k (Suc i) es lastSeq
      else if free k then
        (case deliver free (Suc k) (Suc i) es (eSeq e) of
           (evs, ls) \<Rightarrow> (\<lparr>evEntry = e, evLeafIndex = word_of_nat i, evLeafHash = h\<rparr> # evs, ls))
      else ([], eSeq e - 1))"

definition poll :: "env \<Rightarrow> tail_reader \<Rightarrow> disk \<Rightarrow> (nat \<Rightarrow> bool) \<Rightarrow> tail_reader \<times> enf_event list" where
  "poll C r d free =
     (case ReadAll C d (trKey r) of
        Inl _ \<Rightarrow> (r, [])
      | Inr entries \<Rightarrow>
          if entries = [] then (r, [])
          else let leaves = map (leafHash C) entries;
                   (evs, ls) = deliver free 0 0 (zip entries leaves) (trLastSeq r)
               in (r\<lparr>trLastSeq := ls\<rparr>, evs))"

text \<open>The events of a run of polls, each on the disk it finds.\<close>

fun polls :: "env \<Rightarrow> tail_reader \<Rightarrow> (disk \<times> (nat \<Rightarrow> bool)) list \<Rightarrow> tail_reader \<times> enf_event list" where
  "polls C r [] = (r, [])"
| "polls C r ((d, free) # ps) =
     (case poll C r d free of (r', evs) \<Rightarrow> (case polls C r' ps of (r'', evs') \<Rightarrow> (r'', evs @ evs')))"

section \<open>Handling an event\<close>

definition handleEvent ::
  "gossip_codec \<Rightarrow> peer list \<Rightarrow> signer option \<Rightarrow> string \<Rightarrow> string \<Rightarrow> (peer \<Rightarrow> bool) \<Rightarrow> enf_event \<Rightarrow> (peer \<times> bytes) list" where
  "handleEvent G peers s mid now reachable evt =
     (if eLevel (evEntry evt) = ''DEATH''
      then BroadcastDeath G peers s mid (''core-death:'' @ eEvent (evEntry evt)) (eSeq (evEntry evt)) now reachable
      else [])"

text \<open>The packets of the shutdown branch of the event loop, and of a peer presumed compromised.\<close>

definition shutdownBroadcast ::
  "gossip_codec \<Rightarrow> peer list \<Rightarrow> signer option \<Rightarrow> string \<Rightarrow> string \<Rightarrow> string \<Rightarrow> (peer \<Rightarrow> bool) \<Rightarrow> (peer \<times> bytes) list" where
  "shutdownBroadcast G peers s mid sig now reachable =
     BroadcastDeath G peers s mid (''enforcer-shutdown:'' @ sig) 0 now reachable"

definition onDeathBroadcast ::
  "gossip_codec \<Rightarrow> peer list \<Rightarrow> signer option \<Rightarrow> string \<Rightarrow> peer \<Rightarrow> string \<Rightarrow> (peer \<Rightarrow> bool) \<Rightarrow> (peer \<times> bytes) list" where
  "onDeathBroadcast G peers s mid p now reachable =
     BroadcastDeath G peers s mid (''peer-presumed-compromised:'' @ prLabel p) 0 now reachable"

text \<open>\<open>enforcer peer add\<close> and \<open>remove\<close>: the arguments behind the subcommand.\<close>

datatype peer_cmd_error = PeerUsage | BadPubKey string | PeerCmd peer_error

definition cmdPeerAdd :: "bool \<Rightarrow> peer_store \<Rightarrow> string list \<Rightarrow> peer_cmd_error option \<times> peer_store" where
  "cmdPeerAdd saves ps args =
     (case args of
        label # addr # pubHex # _ \<Rightarrow>
          (case hex_decode pubHex of
             None \<Rightarrow> (Some (BadPubKey pubHex), ps)
           | Some raw \<Rightarrow>
               if length raw \<noteq> PublicKeySize then (Some (BadPubKey pubHex), ps)
               else (case Add saves ps \<lparr>prLabel = label, prAddr = addr, prPubKey = raw\<rparr> of
                   (e, ps') \<Rightarrow> (map_option PeerCmd e, ps')))
      | _ \<Rightarrow> (Some PeerUsage, ps))"

definition cmdPeerRemove :: "bool \<Rightarrow> peer_store \<Rightarrow> string list \<Rightarrow> peer_cmd_error option \<times> peer_store" where
  "cmdPeerRemove saves ps args =
     (case args of
        label # _ \<Rightarrow> (case Remove saves ps label of (e, ps') \<Rightarrow> (map_option PeerCmd e, ps'))
      | [] \<Rightarrow> (Some PeerUsage, ps))"

section \<open>Every entry once, in order\<close>

text \<open>The reference: the events of a log, one per entry.\<close>

definition event_of :: "nat \<times> entry \<times> hash \<Rightarrow> enf_event" where
  "event_of x = (case x of (i, e, h) \<Rightarrow> \<lparr>evEntry = e, evLeafIndex = word_of_nat i, evLeafHash = h\<rparr>)"

definition log_events :: "env \<Rightarrow> entry list \<Rightarrow> enf_event list" where
  "log_events C es = map event_of (enumerate 0 (zip es (map (leafHash C) es)))"

definition numbered_from :: "nat \<Rightarrow> (entry \<times> hash) list \<Rightarrow> bool" where
  "numbered_from i rs \<longleftrightarrow> (\<forall>j < length rs. eSeq (fst (rs ! j)) = word_of_nat (Suc (i + j))) \<and> i + length rs < 2 ^ 63"

lemma numbered_from_Cons:
  "numbered_from i ((e, h) # rs) \<longleftrightarrow> eSeq e = word_of_nat (Suc i) \<and> Suc i < 2 ^ 63 \<and> numbered_from (Suc i) rs"
  unfolding numbered_from_def by (auto simp: nth_Cons split: nat.splits)

lemma seq_less: "m < 2 ^ 63 \<Longrightarrow> n < 2 ^ 63 \<Longrightarrow> (word_of_nat m :: u64) \<le> word_of_nat n \<longleftrightarrow> m \<le> n"
  by (simp add: word_le_nat_alt unat_word64)

lemma deliver_skips:
  assumes "numbered_from i rs" "i \<le> k" "k \<le> i + length rs"
  shows "deliver free s i rs (word_of_nat k) = deliver free s k (drop (k - i) rs) (word_of_nat k)"
  using assms
proof (induction rs arbitrary: i)
  case (Cons r rs)
  obtain e h where r: "r = (e, h)" by (cases r)
  show ?case
  proof (cases "i = k")
    case False
    have "eSeq e = word_of_nat (Suc i)" "k < 2 ^ 63"
      using Cons.prems r by (auto simp: numbered_from_Cons numbered_from_def)
    then have "eSeq e \<le> word_of_nat k" using False Cons.prems(2) seq_less [of "Suc i" k] by simp
    then show ?thesis using Cons.IH [of "Suc i"] Cons.prems False r
      by (simp add: numbered_from_Cons drop_Cons' Suc_diff_Suc)
  qed (simp add: r)
qed simp

lemma deliver_sends:
  assumes "numbered_from i rs"
  shows "\<exists>m \<le> length rs. deliver free s i rs (word_of_nat i) = (map event_of (enumerate i (take m rs)), word_of_nat (i + m)) \<and>
    ((\<forall>j. free j) \<longrightarrow> m = length rs)"
  using assms
proof (induction rs arbitrary: i s)
  case (Cons r rs)
  obtain e h where r: "r = (e, h)" by (cases r)
  have sq: "eSeq e = word_of_nat (Suc i)" "numbered_from (Suc i) rs" "Suc i < 2 ^ 63" using Cons.prems by (auto simp: r numbered_from_Cons)
  then have nle: "\<not> eSeq e \<le> word_of_nat i" using seq_less [of "Suc i" i] by (simp del: of_nat_Suc)
  show ?case
  proof (cases "free s")
    case False
    then show ?thesis using nle sq(1) by (intro exI [of _ 0]) (auto simp: r)
  next
    case True
    obtain m where m: "m \<le> length rs"
        "deliver free (Suc s) (Suc i) rs (word_of_nat (Suc i)) = (map event_of (enumerate (Suc i) (take m rs)), word_of_nat (Suc i + m))"
        "(\<forall>j. free j) \<longrightarrow> m = length rs"
      using Cons.IH [OF sq(2)] by blast
    then show ?thesis using nle sq(1) True
      by (intro exI [of _ "Suc m"]) (simp add: r event_of_def del: of_nat_Suc)
  qed
qed simp

lemma numbered_zip: "numbered es \<Longrightarrow> length es < 2 ^ 63 \<Longrightarrow> numbered_from 0 (zip es (map f es))"
  by (simp add: numbered_from_def numbered_def)

lemma numbered_from_drop: "numbered_from 0 rs \<Longrightarrow> k \<le> length rs \<Longrightarrow> numbered_from k (drop k rs)"
  by (auto simp: numbered_from_def add.commute)

lemma enumerate_append_take: "k \<le> length xs \<Longrightarrow> take k (enumerate 0 xs) @ enumerate k (take m (drop k xs)) = take (k + m) (enumerate 0 xs)"
proof (rule nth_equalityI)
  assume k: "k \<le> length xs"
  fix i
  assume i: "i < length (take k (enumerate 0 xs) @ enumerate k (take m (drop k xs)))"
  show "(take k (enumerate 0 xs) @ enumerate k (take m (drop k xs))) ! i = take (k + m) (enumerate 0 xs) ! i"
  proof (cases "i < k")
    case True
    then show ?thesis using k by (simp add: nth_append nth_enumerate_eq)
  next
    case False
    then have "i - k < length (take m (drop k xs))" using i k by auto
    from nth_enumerate_eq [OF this, of k] show ?thesis using False i k by (simp add: nth_append nth_enumerate_eq)
  qed
qed simp

lemma poll_spec:
  assumes "ReadAll C d (trKey r) = Inr es" "numbered es" "length es < 2 ^ 63" "trLastSeq r = word_of_nat k" "k \<le> length es"
  shows "\<exists>m. k + m \<le> length es \<and> poll C r d free = (r\<lparr>trLastSeq := word_of_nat (k + m)\<rparr>, drop k (take (k + m) (log_events C es))) \<and>
    ((\<forall>j. free j) \<longrightarrow> k + m = length es)"
proof (cases "es = []")
  case True
  then show ?thesis using assms by (intro exI [of _ 0]) (simp add: poll_def log_events_def)
next
  case False
  define rs where "rs = zip es (map (leafHash C) es)"
  have n: "numbered_from 0 rs" "length rs = length es" using numbered_zip [OF assms(2,3)] by (auto simp: rs_def)
  obtain m where m: "m \<le> length es - k"
      "deliver free 0 k (drop k rs) (word_of_nat k) = (map event_of (enumerate k (take m (drop k rs))), word_of_nat (k + m))"
      "(\<forall>j. free j) \<longrightarrow> m = length es - k"
    using deliver_sends [OF numbered_from_drop [OF n(1)], of k free 0] n(2) assms(5) by auto
  have "deliver free 0 0 rs (word_of_nat k) = (map event_of (enumerate k (take m (drop k rs))), word_of_nat (k + m))"
    using deliver_skips [OF n(1), of k free 0] m(2) n(2) assms(5) by simp
  moreover have "map event_of (enumerate k (take m (drop k rs))) = drop k (take (k + m) (log_events C es))"
  proof -
    have "take (k + m) (enumerate 0 rs) = take k (enumerate 0 rs) @ enumerate k (take m (drop k rs))"
      using enumerate_append_take [of k rs m] n(2) assms(5) by simp
    then show ?thesis using n(2) assms(5) by (simp add: log_events_def take_map flip: rs_def)
  qed
  ultimately show ?thesis
    using assms(1,4,5) False m by (intro exI [of _ m]) (auto simp: poll_def rs_def)
qed

text \<open>A run of polls during which the log only grows; each poll finds all of it readable.\<close>

fun growing :: "env \<Rightarrow> bytes \<Rightarrow> entry list \<Rightarrow> (disk \<times> (nat \<Rightarrow> bool)) list \<Rightarrow> entry list \<Rightarrow> bool" where
  "growing C key es [] last_es = (last_es = es)"
| "growing C key es ((d, free) # ps) last_es =
     (\<exists>es'. ReadAll C d key = Inr es' \<and> prefix es es' \<and> numbered es' \<and> length es' < 2 ^ 63 \<and> growing C key es' ps last_es)"

lemma growing_prefix: "growing C key es ps last_es \<Longrightarrow> prefix es last_es"
  by (induction ps arbitrary: es) (auto, meson prefix_order.trans)

lemma log_events_prefix:
  assumes "prefix es es'" "k \<le> length es"
  shows "take k (log_events C es') = take k (log_events C es)"
proof -
  obtain zs where z: "es' = es @ zs" using assms(1) by (auto simp: prefix_def)
  show ?thesis using assms(2) by (intro nth_equalityI) (auto simp: z log_events_def nth_enumerate_eq nth_append)
qed

lemma polls_spec:
  assumes "growing C key es ps last_es" "trKey r = key" "trLastSeq r = word_of_nat k" "k \<le> length es"
  shows "\<exists>m. k + m \<le> length last_es \<and> trLastSeq (fst (polls C r ps)) = word_of_nat (k + m) \<and>
    snd (polls C r ps) = drop k (take (k + m) (log_events C last_es)) \<and>
    (ps \<noteq> [] \<and> (\<forall>j. snd (last ps) j) \<longrightarrow> k + m = length last_es)"
  using assms
proof (induction ps arbitrary: es r k)
  case Nil
  then show ?case by (intro exI [of _ 0]) simp
next
  case (Cons p ps)
  obtain d free where p: "p = (d, free)" by (cases p)
  obtain es' where g: "ReadAll C d key = Inr es'" "prefix es es'" "numbered es'" "length es' < 2 ^ 63" "growing C key es' ps last_es"
    using Cons.prems(1) by (auto simp: p)
  have "k \<le> length es'" using Cons.prems(4) prefix_length_le [OF g(2)] by simp
  then obtain m where m: "k + m \<le> length es'" "(\<forall>j. free j) \<longrightarrow> k + m = length es'"
      "poll C r d free = (r\<lparr>trLastSeq := word_of_nat (k + m)\<rparr>, drop k (take (k + m) (log_events C es')))"
    using poll_spec [of C d r es' k free] g Cons.prems(2,3) by auto
  obtain m' where m': "k + m + m' \<le> length last_es"
      "trLastSeq (fst (polls C (r\<lparr>trLastSeq := word_of_nat (k + m)\<rparr>) ps)) = word_of_nat (k + m + m')"
      "snd (polls C (r\<lparr>trLastSeq := word_of_nat (k + m)\<rparr>) ps) = drop (k + m) (take (k + m + m') (log_events C last_es))"
      "ps \<noteq> [] \<and> (\<forall>j. snd (last ps) j) \<longrightarrow> k + m + m' = length last_es"
    using Cons.IH [OF g(5), of "r\<lparr>trLastSeq := word_of_nat (k + m)\<rparr>" "k + m"] Cons.prems(2) m(1) by auto
  have "drop k (take (k + m) (log_events C es')) @ drop (k + m) (take (k + m + m') (log_events C last_es)) =
      drop k (take (k + (m + m')) (log_events C last_es))"
    using log_events_prefix [OF growing_prefix [OF g(5)] m(1), of C]
    by (metis add.assoc append_take_drop_id drop_drop drop_take add_diff_cancel_left' take_drop add.commute take_add)
  moreover have "k + (m + m') = length last_es" if "\<forall>j. snd (last (p # ps)) j"
    using that m(2) m'(1,4) g(5) by (cases "ps = []") (auto simp: p)
  ultimately show ?case using m m'
    by (intro exI [of _ "m + m'"]) (auto simp: p add.assoc split: prod.splits)
qed

text \<open>
  Property C20. The reader refines the log: over any run of polls of a growing log, whenever
  and however often the event channel was full, the events delivered are the first entries
  of the log, each once, in order, with their leaf index and leaf hash; and if the last poll
  found room for all of them, every entry has been delivered.
\<close>

theorem enforcer_delivers_once:
  assumes "growing C key [] ps es"
  shows "\<exists>k \<le> length es. snd (polls C (NewTailReader key interval) ps) = take k (log_events C es) \<and>
    (ps \<noteq> [] \<and> (\<forall>j. snd (last ps) j) \<longrightarrow> k = length es)"
  using polls_spec [OF assms, of "NewTailReader key interval" 0] by (auto simp: NewTailReader_def)

theorem enforcer_delivers_once_witness:
  "\<exists>e d k. k \<le> 1 \<and> growing sample_env sample_key [] [(d, \<lambda>_. False), (d, \<lambda>_. True)] [e] \<and>
    snd (polls sample_env (NewTailReader sample_key 0) [(d, \<lambda>_. False), (d, \<lambda>_. True)]) = take k (log_events sample_env [e]) \<and> k = 1"
proof -
  obtain e st d where r: "log_reachable sample_env sample_key (Some sample_signer) [] ([e], Up st d)"
    using sample_recorded by blast
  obtain bs where si: "store_inv sample_env st d bs [e]" "stKey st = sample_key"
    using reachable_inv [OF sample_env_ok sample_signed r] by (auto simp: opened_as_def)
  have "ReadAll sample_env d sample_key = Inr [e]" using si by (auto simp: store_inv_def intro: ReadAll_holds)
  moreover have "numbered [e]" using reachable_seq [OF sample_env_ok sample_signed r] by simp
  ultimately have g: "growing sample_env sample_key [] [(d, \<lambda>_. False), (d, \<lambda>_. True)] [e]" by auto
  from enforcer_delivers_once [OF g, of 0] g show ?thesis by auto
qed

section \<open>Broadcasts nobody hears\<close>

text \<open>
  A packet with sequence number 0 never changes a node, because numbers must exceed the last
  one seen; the broadcasts at shutdown and for a peer presumed compromised carry 0.
\<close>

lemma zero_seq_ignored:
  assumes "decodePacket pkt = Inr (payload, sig)" "gc_header G payload = Some (pid, 0)"
  shows "handlePacket C G n now pkt = n"
  using assms by (auto simp: handlePacket_def split: option.splits if_splits)

lemma broadcast_packets:
  assumes "(p, pkt) \<in> set (BroadcastDeath G peers (Some sg) mid reason sq now reachable)"
  shows "\<exists>payload sig. pkt = encodePacket payload sig \<and>
    gc_death G \<lparr>drType = ''death'', drMachineID = mid, drPeerID = hex_encode (sgPublicKey sg), drReason = reason, drTs = now, drSeq = sq\<rparr> = Some payload \<and>
    sgSign sg payload = Some sig"
proof -
  have "peers \<noteq> []" using assms by (auto simp: BroadcastDeath_def)
  then obtain payload where g: "gc_death G \<lparr>drType = ''death'', drMachineID = mid, drPeerID = hex_encode (sgPublicKey sg), drReason = reason,
      drTs = now, drSeq = sq\<rparr> = Some payload"
    using assms by (cases "gc_death G \<lparr>drType = ''death'', drMachineID = mid, drPeerID = hex_encode (sgPublicKey sg), drReason = reason,
      drTs = now, drSeq = sq\<rparr>") (simp_all add: BroadcastDeath_def)
  then obtain sig where "sgSign sg payload = Some sig"
    using assms \<open>peers \<noteq> []\<close> by (cases "sgSign sg payload") (simp_all add: BroadcastDeath_def)
  then show ?thesis using assms g \<open>peers \<noteq> []\<close> by (auto simp: BroadcastDeath_def)
qed

lemma zero_broadcasts_ignored:
  assumes "(p, pkt) \<in> set (shutdownBroadcast G peers (Some sg) mid why now reachable @ onDeathBroadcast G peers (Some sg) mid q now reachable)"
    and "\<And>r payload. gc_death G r = Some payload \<Longrightarrow> gc_header G payload = Some (drPeerID r, drSeq r) \<and> length payload < 2 ^ 32"
    and "signer_ok C' sg"
  shows "handlePacket C G n t pkt = n"
proof -
  obtain payload sig where d: "pkt = encodePacket payload sig" "gc_header G payload = Some (hex_encode (sgPublicKey sg), 0)"
      "length payload < 2 ^ 32" "sgSign sg payload = Some sig"
    using assms(1,2) unfolding shutdownBroadcast_def onDeathBroadcast_def
    by (fastforce dest!: broadcast_packets)
  have "length sig = SignatureSize" using assms(3) d(4) by (auto simp: signer_ok_def)
  then have "decodePacket pkt = Inr (payload, sig)" using decode_encodePacket d(1,3) by auto
  then show ?thesis using zero_seq_ignored d(2) by blast
qed

end
