(* ===== verification/Lifecycle.thy ===== *)
theory Lifecycle
  imports Store_Props "HOL-Library.Signed_Division"
begin

text \<open>
  The witness's own interruptions as log events (\<open>internal/lifecycle\<close>): the gap before a
  start, the health of the mirror, and the mirror's configuration; with the start and stop
  sequences of \<open>cmd/witness\<close> that depend on the last record of the log.
\<close>

section \<open>Events\<close>

datatype lc_value = VInt int | VBool bool | VStr string

record lc_event =
  lvLevel :: string
  lvName :: string
  lvData :: "(string \<times> lc_value) list"

definition CleanStopEvent :: string where "CleanStopEvent = ''signal_received''"
definition GenesisEvent :: string where "GenesisEvent = ''genesis''"

section \<open>Durations\<close>

text \<open>
  A \<open>time.Duration\<close> is an \<open>int64\<close> of nanoseconds: \<open>Sub\<close> saturates, \<open>Round\<close> rounds halves away
  from zero and saturates.
\<close>

definition minDuration :: int where "minDuration = - (2 ^ 63)"
definition maxDuration :: int where "maxDuration = 2 ^ 63 - 1"
definition Second :: int where "Second = 1000000000"

definition dur_Sub :: "time \<Rightarrow> time \<Rightarrow> int" where
  "dur_Sub t u = max minDuration (min maxDuration (t - u))"

definition dur_Round :: "int \<Rightarrow> int \<Rightarrow> int" where
  "dur_Round d m =
     (if m \<le> 0 then d
      else let r = d smod m in
        if d < 0 then (if - r + - r < m then d - r else max minDuration (d - m - r))
        else (if r + r < m then d - r else min maxDuration (d + m - r)))"

section \<open>Downtime\<close>

text \<open>The text of a time in UTC (\<open>Format(time.RFC3339)\<close>) is the argument \<open>text_of\<close>.\<close>

definition clean_stop :: "entry \<Rightarrow> bool" where
  "clean_stop e \<longleftrightarrow> (eLevel e = ''DEATH'' \<and> eEvent e = CleanStopEvent) \<or> (eEvent e = GenesisEvent \<and> eSeq e = 1)"

definition Downtime :: "(time \<Rightarrow> string) \<Rightarrow> entry \<times> bool \<Rightarrow> time \<Rightarrow> int \<Rightarrow> lc_event option" where
  "Downtime text_of lst now alertAfter =
     (let (e, hasLast) = lst in
      if \<not> hasLast then None
      else
        let gap0 = dur_Sub now (eTimestamp e);
            gap = (if gap0 < 0 then 0 else gap0);
            afterInit = (eEvent e = GenesisEvent \<and> eSeq e = 1);
            clean = ((eLevel e = ''DEATH'' \<and> eEvent e = CleanStopEvent) \<or> afterInit);
            level = (if \<not> clean then ''CRITICAL'' else if gap > alertAfter then ''WARN'' else ''INFO'')
        in Some \<lparr>lvLevel = level, lvName = ''witness_downtime'',
                 lvData = [(''gap_seconds'', VInt (dur_Round gap Second sdiv Second)),
                           (''clean_stop'', VBool clean), (''after_init'', VBool afterInit),
                           (''last_seq'', VInt (uint (eSeq e))), (''last_event'', VStr (eEvent e)),
                           (''last_ts'', VStr (text_of (eTimestamp e))),
                           (''alert_after_s'', VInt (alertAfter sdiv Second))]\<rparr>)"

section \<open>Mirror health\<close>

record mirror_health =
  mhFailures :: int
  mhEscalateAfter :: int

definition NewMirrorHealth :: "int \<Rightarrow> mirror_health" where
  "NewMirrorHealth n = \<lparr>mhFailures = 0, mhEscalateAfter = (if n < 1 then 1 else n)\<rparr>"

text \<open>One push outcome: the text of its error, if any.\<close>

definition Result :: "mirror_health \<Rightarrow> string option \<Rightarrow> mirror_health \<times> lc_event option" where
  "Result m err =
     (case err of
        None \<Rightarrow>
          if mhFailures m = 0 then (m, None)
          else (m\<lparr>mhFailures := 0\<rparr>,
                Some \<lparr>lvLevel = ''INFO'', lvName = ''mirror_push_recovered'', lvData = [(''after_failures'', VInt (mhFailures m))]\<rparr>)
      | Some e \<Rightarrow>
          (let m' = m\<lparr>mhFailures := mhFailures m + 1\<rparr> in
           if mhFailures m' = 1 then
             (m', Some \<lparr>lvLevel = ''WARN'', lvName = ''mirror_push_failed'', lvData = [(''error'', VStr e), (''consecutive'', VInt 1)]\<rparr>)
           else if mhFailures m' = mhEscalateAfter m then
             (m', Some \<lparr>lvLevel = ''CRITICAL'', lvName = ''mirror_unreachable'',
                        lvData = [(''error'', VStr e), (''consecutive'', VInt (mhFailures m'))]\<rparr>)
           else (m', None)))"

definition MirrorConfig :: "string \<Rightarrow> string option \<Rightarrow> bool \<Rightarrow> lc_event option" where
  "MirrorConfig url openErr devMode =
     (let level = (if devMode then ''WARN'' else ''CRITICAL'') in
      if url = [] then
        Some \<lparr>lvLevel = level, lvName = ''mirror_not_configured'',
              lvData = [(''meaning'', VStr ''signed heads are kept only on this machine; a rewrite of the log by someone with full control of it cannot be detected'')]\<rparr>
      else case openErr of
        Some e \<Rightarrow> Some \<lparr>lvLevel = level, lvName = ''mirror_misconfigured'', lvData = [(''error'', VStr e)]\<rparr>
      | None \<Rightarrow> None)"

section \<open>Start and stop of the daemon\<close>

text \<open>
  The start of \<open>cmdStart\<close> as far as the log goes: open, look at the last record, record the
  downtime. \<open>data_of\<close> is the JSON text of the event data, \<open>io\<close> what the append meets.
\<close>

definition lc_call :: "(lc_event \<Rightarrow> bytes) \<Rightarrow> append_io \<Rightarrow> string \<Rightarrow> lc_event \<Rightarrow> append_call" where
  "lc_call data_of io source ev = \<lparr>acLevel = lvLevel ev, acEvent = lvName ev, acSource = source, acData = Some (Some (data_of ev)), acIO = io\<rparr>"

definition startDowntime ::
  "env \<Rightarrow> (time \<Rightarrow> string) \<Rightarrow> (lc_event \<Rightarrow> bytes) \<Rightarrow> append_io \<Rightarrow> time \<Rightarrow> int \<Rightarrow> store \<times> disk
     \<Rightarrow> lc_event option \<times> (store \<times> disk)" where
  "startDowntime C text_of data_of io now alertAfter sd =
     (case Downtime text_of (Last (fst sd)) now alertAfter of
        None \<Rightarrow> (None, sd)
      | Some ev \<Rightarrow> (Some ev, append_step C sd (lc_call data_of io ''witness'' ev)))"

text \<open>
  \<open>fireDeath\<close>: the feeds, the bridge and the detector are stopped first, which may append the
  records \<open>flushed\<close>; the DEATH record is the last one appended.
\<close>

definition death_call :: "bytes \<Rightarrow> append_io \<Rightarrow> string \<Rightarrow> append_call" where
  "death_call detail io reason = \<lparr>acLevel = ''DEATH'', acEvent = reason, acSource = ''witness'', acData = Some (Some detail), acIO = io\<rparr>"

definition fireDeath ::
  "env \<Rightarrow> append_call list \<Rightarrow> bytes \<Rightarrow> append_io \<Rightarrow> string \<Rightarrow> store \<times> disk \<Rightarrow> store \<times> disk" where
  "fireDeath C flushed detail io reason sd = append_step C (foldl (append_step C) sd flushed) (death_call detail io reason)"

section \<open>What the downtime event says\<close>

lemma Downtime_None [simp]: "Downtime text_of (e, False) now alertAfter = None"
  by (simp add: Downtime_def)

lemma Downtime_level:
  "\<exists>ev. Downtime text_of (e, True) now alertAfter = Some ev \<and> lvName ev = ''witness_downtime'' \<and>
     lvLevel ev = (if \<not> clean_stop e then ''CRITICAL'' else if max 0 (dur_Sub now (eTimestamp e)) > alertAfter then ''WARN'' else ''INFO'')"
  by (auto simp: Downtime_def Let_def clean_stop_def max_def)

lemma reachable_Last:
  assumes "env_ok C" "signer_opt_ok C s" "log_reachable C key s trusted (es, Up st d)" "es \<noteq> []"
  shows "Last st = (last es, True)"
  using reachable_inv [OF assms(1) signer_opt_okD [OF assms(2)] assms(3)] assms(4)
  by (auto simp: opened_as_def store_inv_def Last_def)

lemma reachable_stop: "log_reachable C key s trusted (es, Up st d) \<Longrightarrow> log_reachable C key s trusted (es, Down d)"
  unfolding log_reachable_def by (rule rtranclp.rtrancl_into_rtrancl) (auto intro: log_step.stopped)

lemma reachable_reopen:
  "log_reachable C key s trusted (es, Down d) \<Longrightarrow> OpenTrusting C d key s trusted io = (Inr st, d') \<Longrightarrow>
     log_reachable C key s trusted (es, Up st d')"
  unfolding log_reachable_def by (rule rtranclp.rtrancl_into_rtrancl) (auto intro: log_step.reopened)

lemma reachable_append:
  assumes "log_reachable C key s trusted (es, Up st d)" "append_ok C (st, d) c" "Suc (length es) < 2 ^ 63"
    and "append_step C (st, d) c = (st', d')"
  shows "log_reachable C key s trusted (es @ [call_entry (st, d) c], Up st' d')"
  using assms(1) unfolding log_reachable_def
proof (rule rtranclp.rtrancl_into_rtrancl)
  show "log_step C key s trusted (es, Up st d) (es @ [call_entry (st, d) c], Up st' d')"
    using assms(2-4) by (intro log_step.acknowledged) (auto simp: append_ok_def append_step_def prod_eq_iff)
qed

lemma death_entry_clean: "clean_stop (call_entry sd (death_call detail io CleanStopEvent))"
  by (simp add: clean_stop_def call_entry_def death_call_def newEntry_def CleanStopEvent_def ToValidUTF8_def to_valid_ascii)

lemma reachable_run:
  assumes "log_reachable C key s trusted (es, Up st d)" "al.oks C (st, d) calls" "length es + length calls < 2 ^ 63"
    and "foldl (append_step C) (st, d) calls = (st', d')"
  shows "\<exists>new. log_reachable C key s trusted (es @ new, Up st' d') \<and> length new = length calls \<and>
    (calls \<noteq> [] \<longrightarrow> (\<exists>sd. last new = call_entry sd (last calls)))"
  using assms
proof (induction calls arbitrary: es st d)
  case Nil
  then show ?case by (intro exI [of _ "[]"]) simp
next
  case (Cons c calls)
  obtain st1 d1 where s1: "append_step C (st, d) c = (st1, d1)" by (cases "append_step C (st, d) c")
  have r1: "log_reachable C key s trusted (es @ [call_entry (st, d) c], Up st1 d1)"
    using Cons.prems(2,3) by (intro reachable_append [OF Cons.prems(1) _ _ s1]) auto
  obtain new where n: "log_reachable C key s trusted ((es @ [call_entry (st, d) c]) @ new, Up st' d')"
      "length new = length calls" "calls \<noteq> [] \<longrightarrow> (\<exists>sd. last new = call_entry sd (last calls))"
    using Cons.IH [OF r1] Cons.prems(2-4) s1 by auto
  have "new = [] \<longleftrightarrow> calls = []" using n(2) by (metis length_0_conv)
  then show ?case using n by (intro exI [of _ "call_entry (st, d) c # new"]) auto
qed

text \<open>
  Property C29. The log tells a recorded stop from an unrecorded one. Take a running daemon at
  any point of its history. If it goes through \<open>fireDeath\<close> for a signal and the appends
  succeed, whatever the feeds flushed before the DEATH record, the next start reports the gap
  as routine or long, never as CRITICAL. If it just disappears, the next start reports the
  gap, however short, as CRITICAL, unless the last record was a DEATH record for a signal or
  the genesis record.
\<close>

theorem stop_is_classified:
  assumes "env_ok C" "signer_opt_ok C s" "log_reachable C key s trusted (es, Up st d)" "es \<noteq> []"
    and "al.oks C (st, d) (flushed @ [death_call detail dio CleanStopEvent])" "length es + length flushed + 1 < 2 ^ 63"
    and "fireDeath C flushed detail dio CleanStopEvent (st, d) = (st1, d1)"
    and "OpenTrusting C d1 key s trusted io = (Inr st2, d2)" "OpenTrusting C d key s trusted io = (Inr st3, d3)"
  shows "(\<exists>ev. Downtime text_of (Last st2) now alertAfter = Some ev \<and> lvLevel ev \<in> {''INFO'', ''WARN''}) \<and>
    (\<exists>ev. Downtime text_of (Last st3) now alertAfter = Some ev \<and> (lvLevel ev = ''CRITICAL'' \<longleftrightarrow> \<not> clean_stop (last es)))"
proof
  have run: "foldl (append_step C) (st, d) (flushed @ [death_call detail dio CleanStopEvent]) = (st1, d1)"
    using assms(7) by (simp add: fireDeath_def)
  obtain new sd where new: "log_reachable C key s trusted (es @ new, Up st1 d1)" "new \<noteq> []"
      "last new = call_entry sd (death_call detail dio CleanStopEvent)"
    using reachable_run [OF assms(3,5) _ run] assms(6) by fastforce
  have "Last st2 = (last new, True)"
    using reachable_Last [OF assms(1,2) reachable_reopen [OF reachable_stop [OF new(1)] assms(8)]] new(2) by simp
  then show "\<exists>ev. Downtime text_of (Last st2) now alertAfter = Some ev \<and> lvLevel ev \<in> {''INFO'', ''WARN''}"
    using Downtime_level [of text_of "last new" now alertAfter] death_entry_clean new(3) by auto
  have "Last st3 = (last es, True)"
    using reachable_Last [OF assms(1,2) reachable_reopen [OF reachable_stop [OF assms(3)] assms(9)] assms(4)] .
  then show "\<exists>ev. Downtime text_of (Last st3) now alertAfter = Some ev \<and> (lvLevel ev = ''CRITICAL'' \<longleftrightarrow> \<not> clean_stop (last es))"
    using Downtime_level [of text_of "last es" now alertAfter] by auto
qed

section \<open>Mirror health over a run of pushes\<close>

definition health_inv :: "mirror_health \<Rightarrow> bool" where
  "health_inv m \<longleftrightarrow> 0 \<le> mhFailures m \<and> 1 \<le> mhEscalateAfter m"

lemma NewMirrorHealth_inv: "health_inv (NewMirrorHealth n)"
  by (simp add: health_inv_def NewMirrorHealth_def)

lemma Result_inv: "health_inv m \<Longrightarrow> health_inv (fst (Result m err))"
  by (auto simp: health_inv_def Result_def Let_def split: option.splits)

fun outage :: "mirror_health \<Rightarrow> string list \<Rightarrow> lc_event list" where
  "outage m [] = []"
| "outage m (e # es) = (case Result m (Some e) of (m', ev) \<Rightarrow> (case ev of None \<Rightarrow> [] | Some x \<Rightarrow> [x]) @ outage m' es)"

lemma outage_levels:
  assumes "health_inv m"
  shows "map lvLevel (outage m es) =
    (if es \<noteq> [] \<and> mhFailures m = 0 then [''WARN''] else []) @
    (if 1 < mhEscalateAfter m \<and> mhFailures m < mhEscalateAfter m \<and> mhEscalateAfter m \<le> mhFailures m + int (length es)
     then [''CRITICAL''] else [])"
  using assms
proof (induction es arbitrary: m)
  case (Cons e es)
  have "health_inv (m\<lparr>mhFailures := mhFailures m + 1\<rparr>)" using Cons.prems by (simp add: health_inv_def)
  from Cons.IH [OF this] show ?case
    using Cons.prems by (auto simp: Result_def health_inv_def Let_def)
qed auto

text \<open>
  An outage of \<open>n\<close> pushes in a row raises one WARN and, once it is as long as the threshold, one
  CRITICAL event; with a threshold of one failure the CRITICAL event never comes, because the
  first failure is reported as WARN only.
\<close>

lemma threshold_one_never_critical:
  "''CRITICAL'' \<notin> set (map lvLevel (outage (NewMirrorHealth 1) es))"
  by (subst outage_levels [OF NewMirrorHealth_inv]) (simp add: NewMirrorHealth_def)

section \<open>Witness\<close>

definition sample_death_call :: append_call where
  "sample_death_call = death_call [] sample_io CleanStopEvent"

lemma sample_death_ok:
  assumes "stKey st = sample_key" "stSigner st = Some sample_signer" "\<not> stReadOnly st"
  shows "append_ok sample_env (st, d) sample_death_call"
proof -
  have "call_fits sample_env (st, d) sample_death_call"
    using assms
    by (simp add: sample_death_call_def death_call_def CleanStopEvent_def call_fits_def append_fits_def sample_io_def sample_env_def
        encrypt_Seal_def aes_key_ok_def sample_key_def NonceSize_def sample_enc_entry_def newEntry_def ToValidUTF8_def to_valid_ascii
        enc_int_def enc_data_def max_record_def)
  then show ?thesis using assms
    by (simp add: append_ok_def append_call_def Append_def sample_death_call_def death_call_def sample_io_def
        sample_env_def encrypt_Seal_def aes_key_ok_def sample_key_def writeTreeHead_def signHead_def
        sample_signer_def Let_def split: prod.split)
qed

lemma sample_reopens:
  assumes "log_reachable sample_env sample_key (Some sample_signer) [] (es, Up st d)"
  shows "\<exists>st' d'. OpenTrusting sample_env d sample_key (Some sample_signer) [] sample_open = (Inr st', d')"
  using openStore_recovers [of sample_env sample_key "Some sample_signer" "[]" d es sample_open]
    reachable_inv [OF sample_env_ok sample_signed reachable_stop [OF assms]]
  by (auto simp: OpenTrusting_def)

theorem stop_is_classified_witness:
  "\<exists>e st d st2 d2 st3 d3. log_reachable sample_env sample_key (Some sample_signer) [] ([e], Up st d) \<and>
    OpenTrusting sample_env (snd (fireDeath sample_env [] [] sample_io CleanStopEvent (st, d))) sample_key (Some sample_signer) [] sample_open = (Inr st2, d2) \<and>
    OpenTrusting sample_env d sample_key (Some sample_signer) [] sample_open = (Inr st3, d3) \<and>
    (\<exists>ev. Downtime (\<lambda>_. []) (Last st2) 5 9 = Some ev \<and> lvLevel ev \<in> {''INFO'', ''WARN''}) \<and>
    (\<exists>ev. Downtime (\<lambda>_. []) (Last st3) 5 9 = Some ev \<and> (lvLevel ev = ''CRITICAL'' \<longleftrightarrow> \<not> clean_stop e))"
proof -
  obtain e st d where r: "log_reachable sample_env sample_key (Some sample_signer) [] ([e], Up st d)"
    using sample_recorded by blast
  have st: "stKey st = sample_key" "stSigner st = Some sample_signer" "\<not> stReadOnly st"
    using reachable_inv [OF sample_env_ok sample_signed r] by (auto simp: opened_as_def store_inv_def)
  obtain st1 d1 where f: "fireDeath sample_env [] [] sample_io CleanStopEvent (st, d) = (st1, d1)"
    by (cases "fireDeath sample_env [] [] sample_io CleanStopEvent (st, d)")
  have ok: "al.oks sample_env (st, d) ([] @ [death_call [] sample_io CleanStopEvent])"
    using sample_death_ok [OF st] by (simp add: sample_death_call_def)
  have "log_reachable sample_env sample_key (Some sample_signer) [] ([e] @ [call_entry (st, d) sample_death_call], Up st1 d1)"
    using f by (intro reachable_append [OF r sample_death_ok [OF st]]) (simp_all add: fireDeath_def sample_death_call_def)
  then obtain st2 d2 where o2: "OpenTrusting sample_env d1 sample_key (Some sample_signer) [] sample_open = (Inr st2, d2)"
    using sample_reopens by blast
  obtain st3 d3 where o3: "OpenTrusting sample_env d sample_key (Some sample_signer) [] sample_open = (Inr st3, d3)"
    using sample_reopens [OF r] by blast
  have "signer_opt_ok sample_env (Some sample_signer)" by (simp add: signer_opt_ok_def sample_signer_ok)
  from stop_is_classified [OF sample_env_ok this r _ ok _ f o2 o3, of "\<lambda>_. []" 5 9]
  have c: "(\<exists>ev. Downtime (\<lambda>_. []) (Last st2) 5 9 = Some ev \<and> lvLevel ev \<in> {''INFO'', ''WARN''}) \<and>
    (\<exists>ev. Downtime (\<lambda>_. []) (Last st3) 5 9 = Some ev \<and> (lvLevel ev = ''CRITICAL'' \<longleftrightarrow> \<not> clean_stop e))" by simp
  have "snd (fireDeath sample_env [] [] sample_io CleanStopEvent (st, d)) = d1" using f by simp
  with r o2 o3 c show ?thesis by metis
qed

end
