(* ===== verification/Go_Strings.thy ===== *)
theory Go_Strings
  imports Kiss_Prelude "HOL-Library.Sublist"
begin

text \<open>
  The functions of Go's \<open>strings\<close> and \<open>fmt\<close> packages that the witness uses, on strings as
  byte sequences (a \<open>char\<close> is a byte).
\<close>

definition LF :: char where "LF = CHR 0x0A"
definition CR :: char where "CR = CHR 0x0D"

section \<open>Splitting and joining\<close>

fun split_on :: "char \<Rightarrow> string \<Rightarrow> string list" where
  "split_on c [] = [[]]"
| "split_on c (x # xs) =
     (if x = c then [] # split_on c xs
      else case split_on c xs of [] \<Rightarrow> [[x]] | p # ps \<Rightarrow> (x # p) # ps)"

fun join_with :: "string \<Rightarrow> string list \<Rightarrow> string" where
  "join_with sep [] = []"
| "join_with sep [p] = p"
| "join_with sep (p # q # ps) = p @ sep @ join_with sep (q # ps)"

text \<open>\<open>strings.SplitN(s, c, 2)\<close>: at most one cut.\<close>

fun split_once :: "char \<Rightarrow> string \<Rightarrow> string list" where
  "split_once c [] = [[]]"
| "split_once c (x # xs) =
     (if x = c then [[], xs]
      else case split_once c xs of [] \<Rightarrow> [[x]] | p # ps \<Rightarrow> (x # p) # ps)"

lemma split_on_not_Nil [simp]: "split_on c s \<noteq> []"
  by (induction c s rule: split_on.induct) (auto split: list.splits)

lemma join_split_on: "join_with [c] (split_on c s) = s"
proof (induction c s rule: split_on.induct)
  case (2 c x xs)
  then show ?case
    using split_on_not_Nil [of c xs] by (cases "split_on c xs"; cases "tl (split_on c xs)") auto
qed simp

lemma split_on_no_sep: "p \<in> set (split_on c s) \<Longrightarrow> c \<notin> set p"
  by (induction c s arbitrary: p rule: split_on.induct) (auto split: if_splits list.splits)

lemma split_on_single: "c \<notin> set s \<Longrightarrow> split_on c s = [s]"
  by (induction s) auto

lemma split_on_append: "c \<notin> set p \<Longrightarrow> split_on c (p @ c # s) = p # split_on c s"
  by (induction p) auto

lemma split_on_append_sep: "split_on c (a @ c # s) = split_on c a @ split_on c s"
proof (induction a)
  case (Cons x a)
  then show ?case using split_on_not_Nil [of c a] by (cases "split_on c a") auto
qed simp

section \<open>Prefixes and suffixes\<close>

definition HasPrefix :: "string \<Rightarrow> string \<Rightarrow> bool" where
  "HasPrefix s p = (take (length p) s = p)"

definition HasSuffix :: "string \<Rightarrow> string \<Rightarrow> bool" where
  "HasSuffix s p = (length p \<le> length s \<and> drop (length s - length p) s = p)"

definition TrimPrefix :: "string \<Rightarrow> string \<Rightarrow> string" where
  "TrimPrefix s p = (if HasPrefix s p then drop (length p) s else s)"

definition TrimSuffix :: "string \<Rightarrow> string \<Rightarrow> string" where
  "TrimSuffix s p = (if HasSuffix s p then take (length s - length p) s else s)"

lemma HasPrefix_append [simp]: "HasPrefix (p @ s) p"
  by (simp add: HasPrefix_def)

lemma HasPrefix_iff: "HasPrefix s p \<longleftrightarrow> (\<exists>r. s = p @ r)"
  unfolding HasPrefix_def by (metis append_eq_conv_conj append_take_drop_id)

lemma HasSuffix_iff: "HasSuffix s p \<longleftrightarrow> (\<exists>r. s = r @ p)"
  unfolding HasSuffix_def by (auto simp: append_eq_conv_conj) (metis append_take_drop_id)

definition Contains :: "string \<Rightarrow> string \<Rightarrow> bool" where
  "Contains s p = list_ex (\<lambda>i. HasPrefix (drop i s) p) [0..<Suc (length s)]"

text \<open>\<open>strings.Replace(s, "~", new, 1)\<close>.\<close>

fun replace_first :: "char \<Rightarrow> string \<Rightarrow> string \<Rightarrow> string" where
  "replace_first c new [] = []"
| "replace_first c new (x # xs) = (if x = c then new @ xs else x # replace_first c new xs)"

section \<open>White space\<close>

text \<open>
  The width in bytes of the white-space character (\<open>unicode.IsSpace\<close>) at the front, 0 if
  there is none. The lead byte of an encoding never occurs inside another one, so the test
  may be made at any byte.
\<close>

definition space_width :: "string \<Rightarrow> nat" where
  "space_width s =
     (case map of_char (take 3 s) :: nat list of
        [] \<Rightarrow> 0
      | b0 # r \<Rightarrow>
          if b0 = 32 \<or> (9 \<le> b0 \<and> b0 \<le> 13) then 1
          else (case r of
             [] \<Rightarrow> 0
           | b1 # r' \<Rightarrow>
               if b0 = 0xC2 \<and> (b1 = 0x85 \<or> b1 = 0xA0) then 2
               else (case r' of
                  [] \<Rightarrow> 0
                | b2 # _ \<Rightarrow>
                    if (b0 = 0xE1 \<and> b1 = 0x9A \<and> b2 = 0x80) \<or>
                       (b0 = 0xE2 \<and> b1 = 0x80 \<and> ((0x80 \<le> b2 \<and> b2 \<le> 0x8A) \<or> b2 = 0xA8 \<or> b2 = 0xA9 \<or> b2 = 0xAF)) \<or>
                       (b0 = 0xE2 \<and> b1 = 0x81 \<and> b2 = 0x9F) \<or>
                       (b0 = 0xE3 \<and> b1 = 0x80 \<and> b2 = 0x80)
                    then 3 else 0)))"

lemma space_width_pos: "0 < space_width s \<Longrightarrow> s \<noteq> []"
  by (auto simp: space_width_def)

function fields_from :: "string \<Rightarrow> string \<Rightarrow> string list" where
  "fields_from cur s =
     (if s = [] then (if cur = [] then [] else [rev cur])
      else let w = space_width s in
        if 0 < w then (if cur = [] then [] else [rev cur]) @ fields_from [] (drop w s)
        else fields_from (hd s # cur) (tl s))"
  by pat_completeness auto
termination
  by (relation "measure (\<lambda>(cur, s). length s)") (auto simp: diff_less_Suc)

declare fields_from.simps [simp del]

definition Fields :: "string \<Rightarrow> string list" where
  "Fields s = fields_from [] s"

function all_space :: "string \<Rightarrow> bool" where
  "all_space s =
     (if s = [] then True else if space_width s = 0 then False else all_space (drop (space_width s) s))"
  by pat_completeness auto
termination
  by (relation "measure length") auto

declare all_space.simps [simp del]

fun trim_right :: "string \<Rightarrow> string" where
  "trim_right [] = []"
| "trim_right (x # xs) = (if all_space (x # xs) then [] else x # trim_right xs)"

function trim_left :: "string \<Rightarrow> string" where
  "trim_left s = (if s = [] \<or> space_width s = 0 then s else trim_left (drop (space_width s) s))"
  by pat_completeness auto
termination
  by (relation "measure length") auto

declare trim_left.simps [simp del]

definition TrimSpace :: "string \<Rightarrow> string" where
  "TrimSpace s = trim_right (trim_left s)"

lemma fields_from_nonempty: "p \<in> set (fields_from cur s) \<Longrightarrow> p \<noteq> []"
proof (induction cur s rule: fields_from.induct)
  case (1 cur s)
  then show ?case
    by (subst (asm) (3) fields_from.simps) (auto simp: Let_def split: if_splits)
qed

text \<open>Printable ASCII characters are never part of a white-space character.\<close>

definition printable :: "char \<Rightarrow> bool" where
  "printable c \<longleftrightarrow> 33 \<le> (of_char c :: nat) \<and> (of_char c :: nat) < 127"

lemma space_width_printable: "printable c \<Longrightarrow> space_width (c # s) = 0"
  by (auto simp: space_width_def printable_def split: list.splits)

lemma space_width_take:
  assumes "0 < space_width s" "c \<in> set (take (space_width s) s)"
  shows "\<not> printable c"
proof -
  obtain c0 r where s: "s = c0 # r" using assms(1) space_width_pos by (cases s) auto
  show ?thesis
  proof (cases r)
    case Nil
    then show ?thesis using assms by (auto simp: s space_width_def printable_def split: if_splits)
  next
    case (Cons c1 r1)
    then show ?thesis using assms
      by (cases r1) (auto simp: s space_width_def printable_def split: if_splits)
  qed
qed

lemma all_space_not_printable: "all_space s \<Longrightarrow> c \<in> set s \<Longrightarrow> \<not> printable c"
proof (induction s rule: all_space.induct)
  case (1 s)
  have w: "0 < space_width s" "all_space (drop (space_width s) s)" "s \<noteq> []"
    using "1.prems" by (subst (asm) all_space.simps; auto split: if_splits)+
  have "c \<in> set (take (space_width s) s) \<or> c \<in> set (drop (space_width s) s)"
    using "1.prems"(2) append_take_drop_id [of "space_width s" s] by (metis Un_iff set_append)
  then show ?case using "1.IH" [OF w(3) _ w(2)] w(1) space_width_take [OF w(1)] by auto
qed

lemma trim_right_id: "s \<noteq> [] \<Longrightarrow> printable (last s) \<Longrightarrow> trim_right s = s"
proof (induction s)
  case (Cons x xs)
  have "\<not> all_space (x # xs)" using all_space_not_printable [OF _ last_in_set [OF Cons.prems(1)]] Cons.prems(2) by blast
  then show ?case using Cons by (cases xs) auto
qed simp

lemma trim_left_id: "printable c \<Longrightarrow> trim_left (c # s) = c # s"
  by (subst trim_left.simps) (simp add: space_width_printable)

lemma TrimSpace_id: "s \<noteq> [] \<Longrightarrow> printable (hd s) \<Longrightarrow> printable (last s) \<Longrightarrow> TrimSpace s = s"
  by (cases s) (simp_all add: TrimSpace_def trim_left_id trim_right_id del: trim_right.simps)

lemma TrimSpace_Cons: "printable c \<Longrightarrow> \<exists>r. TrimSpace (c # s) = c # r"
  using all_space_not_printable [of "c # s" c] by (auto simp: TrimSpace_def trim_left_id)

lemma fields_from_printable: "list_all printable p \<Longrightarrow> fields_from cur (p @ s) = fields_from (rev p @ cur) s"
proof (induction p arbitrary: cur)
  case (Cons c p)
  then show ?case by (subst fields_from.simps) (simp add: space_width_printable Let_def)
qed simp

lemma fields_from_space: "cur \<noteq> [] \<Longrightarrow> fields_from cur (CHR '' '' # s) = rev cur # fields_from [] s"
  by (subst fields_from.simps) (simp add: space_width_def Let_def)

lemma Fields_two:
  assumes "list_all printable a" "a \<noteq> []" "list_all printable b" "b \<noteq> []"
  shows "Fields (a @ CHR '' '' # b) = [a, b]"
  using fields_from_printable [OF assms(1), of "[]" "CHR '' '' # b"] fields_from_printable [OF assms(3), of "[]" "[]"] assms(2,4)
  by (simp add: Fields_def fields_from_space fields_from.simps [of _ "[]"])

section \<open>Numbers\<close>

fun digits_base :: "nat \<Rightarrow> nat \<Rightarrow> nat \<Rightarrow> string" where
  "digits_base 0 b n = []"
| "digits_base (Suc k) b n = (if n = 0 then [] else digits_base k b (n div b) @ [char_of (48 + n mod b)])"

text \<open>\<open>fmt.Sprintf("%04o", n)\<close>: octal, at least four digits.\<close>

definition fmt_04o :: "u32 \<Rightarrow> string" where
  "fmt_04o w =
     (let d = digits_base 11 8 (unat w) in replicate (4 - length d) (CHR ''0'') @ d)"

section \<open>Paths\<close>

text \<open>\<open>filepath.Clean\<close> and \<open>filepath.Join\<close> on Unix paths.\<close>

fun clean_step :: "bool \<Rightarrow> string list \<Rightarrow> string \<Rightarrow> string list" where
  "clean_step rooted out p =
     (if p = [] \<or> p = ''.'' then out
      else if p = ''..'' then
        (case out of
           [] \<Rightarrow> if rooted then [] else [''..'']
         | q # out' \<Rightarrow> if q = ''..'' then ''..'' # out else out')
      else p # out)"

definition path_clean :: "string \<Rightarrow> string" where
  "path_clean s =
     (if s = [] then ''.''
      else let rooted = (hd s = CHR ''/'');
               out = rev (foldl (clean_step rooted) [] (split_on (CHR ''/'') s));
               r = (if rooted then ''/'' else []) @ join_with ''/'' out
           in if r = [] then ''.'' else r)"

definition path_join :: "string list \<Rightarrow> string" where
  "path_join ps =
     (case filter (\<lambda>p. p \<noteq> []) ps of [] \<Rightarrow> [] | qs \<Rightarrow> path_clean (join_with ''/'' qs))"

end
