(* ===== verification/Genesis.thy ===== *)
theory Genesis
  imports Sample_Env Go_Strings
begin

text \<open>
  The machine snapshot of \<open>internal/genesis\<close> and the drift check of \<open>internal/drift\<close>. What
  the operating system reports (files, directories, the output of \<open>ps\<close>, \<open>ip\<close>, \<open>pip3\<close>) is
  the record \<open>machine\<close>; the JSON text of a snapshot is a parameter.
\<close>

section \<open>Data\<close>

record file_entry =
  fePath :: string
  feSHA256 :: string
  feMode :: string
  feSize :: int

record agent_indicator =
  aiName :: string
  aiType :: string
  aiPath :: string

record agent_presence =
  apName :: string
  apType :: string
  apPath :: string
  apFound :: string

record os_info =
  osGOOS :: string
  osGOARCH :: string
  osKernel :: string
  osHostname :: string

record snapshot =
  snVersion :: int
  snTimestamp :: time
  snMachineID :: string
  snOS :: os_info
  snFiles :: "file_entry list"
  snProcs :: "string list"
  snNets :: "string list"
  snUsers :: "string list"
  snAgents :: "agent_presence list"
  snHash :: string

record machine =
  mcRead :: "string \<Rightarrow> bytes option"
  mcStat :: "string \<Rightarrow> (u32 \<times> int) option"
  mcReadDir :: "string \<Rightarrow> (string \<times> bool) list option"
  mcPs :: "string option"
  mcIp :: "string option"
  mcIfconfig :: "string option"
  mcUname :: "string option"
  mcPip :: "string \<Rightarrow> string option"
  mcLookPath :: "string \<Rightarrow> string option"
  mcHome :: string
  mcPasswd :: "string option"
  mcGOOS :: string
  mcGOARCH :: string
  mcHostname :: string

section \<open>Reading the machine\<close>

definition HashOneFile :: "env \<Rightarrow> machine \<Rightarrow> string \<Rightarrow> file_entry option" where
  "HashOneFile C m path =
     (case mcRead m path of
        None \<Rightarrow> None
      | Some data \<Rightarrow>
          (case mcStat m path of
             None \<Rightarrow> None
           | Some (mode, sz) \<Rightarrow>
               Some \<lparr>fePath = path, feSHA256 = hex_encode (sha256 C data), feMode = fmt_04o mode, feSize = sz\<rparr>))"

definition WatchFiles :: "string list" where
  "WatchFiles =
     [''/etc/passwd'', ''/etc/shadow'', ''/etc/group'', ''/etc/hosts'', ''/etc/resolv.conf'', ''/etc/hostname'',
      ''/etc/sudoers'', ''/etc/crontab'', ''/etc/environment'', ''/etc/ssh/sshd_config'', ''/proc/version'']"

definition WatchDirs :: "string list" where
  "WatchDirs = [''/usr/bin'', ''/usr/sbin'', ''/bin'', ''/sbin'', ''/etc/cron.d'', ''/etc/cron.daily'', ''/etc/init.d'']"

definition hashPaths :: "env \<Rightarrow> machine \<Rightarrow> string list \<Rightarrow> string list \<Rightarrow> file_entry list" where
  "hashPaths C m files dirs =
     List.map_filter (HashOneFile C m) files @
     concat (map (\<lambda>d. case mcReadDir m d of
                 None \<Rightarrow> []
               | Some des \<Rightarrow> List.map_filter (\<lambda>(name, isdir).
                   if isdir then None else HashOneFile C m (d @ ''/'' @ name)) des) dirs)"

text \<open>The loop of \<open>parseProcNames\<close>; \<open>seen\<close> holds the names already taken.\<close>

fun procNames :: "bool \<Rightarrow> string list \<Rightarrow> string list \<Rightarrow> string list" where
  "procNames skip seen [] = []"
| "procNames skip seen (line # ls) =
     (let f = Fields line in
      if length f < 3 then procNames skip seen ls
      else if skip \<and> (f ! 0 = ''2'' \<or> f ! 1 = ''2'') then procNames skip seen ls
      else let name = join_with '' '' (drop 2 f) in
        if name \<in> set seen then procNames skip seen ls
        else name # procNames skip (name # seen) ls)"

definition parseProcNames :: "string \<Rightarrow> bool \<Rightarrow> string list" where
  "parseProcNames out skip = procNames skip [] (split_on (CHR 0x0A) out)"

definition ProcNames :: "machine \<Rightarrow> string list" where
  "ProcNames m =
     (case mcPs m of None \<Rightarrow> [] | Some out \<Rightarrow> parseProcNames out (mcGOOS m = ''linux''))"

definition kernelVersion :: "machine \<Rightarrow> string" where
  "kernelVersion m = (case mcUname m of Some out \<Rightarrow> TrimSpace out | None \<Rightarrow> mcGOOS m)"

definition netInterfaces :: "machine \<Rightarrow> string list" where
  "netInterfaces m =
     (case mcIp m of
        Some out \<Rightarrow> List.map_filter (\<lambda>line. let parts = Fields line in
          if 2 \<le> length parts then Some (TrimSuffix (parts ! 1) '':'') else None) (split_on (CHR 0x0A) out)
      | None \<Rightarrow> (case mcIfconfig m of Some out \<Rightarrow> Fields (TrimSpace out) | None \<Rightarrow> []))"

definition userList :: "machine \<Rightarrow> string list" where
  "userList m =
     (case mcPasswd m of
        None \<Rightarrow> []
      | Some data \<Rightarrow> List.map_filter (\<lambda>line.
          if line = [] \<or> HasPrefix line ''#'' then None
          else let parts = split_once (CHR '':'') line in
            if 1 \<le> length parts then Some (parts ! 0) else None) (split_on (CHR 0x0A) data))"

section \<open>Agents\<close>

definition KnownAgentIndicators :: "agent_indicator list" where
  "KnownAgentIndicators = map (\<lambda>(n, t, p). \<lparr>aiName = n, aiType = t, aiPath = p\<rparr>)
     [(''claude-code'', ''binary'', ''claude''), (''claude-code-config'', ''dir'', ''~/.claude''),
      (''openai-cli'', ''binary'', ''openai''), (''chatgpt-cli'', ''binary'', ''chatgpt''),
      (''cursor'', ''binary'', ''cursor''), (''continue'', ''dir'', ''~/.continue''),
      (''aider'', ''binary'', ''aider''), (''autogpt'', ''dir'', ''~/Auto-GPT''),
      (''autogen'', ''binary'', ''autogen''), (''langchain'', ''pypackage'', ''langchain''),
      (''github-copilot'', ''binary'', ''gh-copilot''), (''mcp-server'', ''dir'', ''~/.mcp''),
      (''anthropic-sdk'', ''pypackage'', ''anthropic''), (''openai-sdk'', ''pypackage'', ''openai'')]"

fun findLocation :: "string \<Rightarrow> string list \<Rightarrow> string option" where
  "findLocation pkg [] = None"
| "findLocation pkg (line # ls) =
     (if HasPrefix line ''Location:''
      then Some (path_join [TrimSpace (TrimPrefix line ''Location:''), pkg])
      else findLocation pkg ls)"

definition findPyPackage :: "machine \<Rightarrow> string \<Rightarrow> string" where
  "findPyPackage m pkg =
     (case mcPip m pkg of
        Some out \<Rightarrow>
          if 0 < length out
          then (case findLocation pkg (split_on (CHR 0x0A) out) of Some p \<Rightarrow> p | None \<Rightarrow> pkg @ '' (pip)'')
          else []
      | None \<Rightarrow> [])"

definition scanIndicator :: "machine \<Rightarrow> agent_indicator \<Rightarrow> agent_presence option" where
  "scanIndicator m ind =
     (let path = replace_first (CHR ''~'') (mcHome m) (aiPath ind);
          hit = (\<lambda>f. Some \<lparr>apName = aiName ind, apType = aiType ind, apPath = aiPath ind, apFound = f\<rparr>)
      in if aiType ind = ''binary''
         then (case mcLookPath m path of Some resolved \<Rightarrow> hit resolved | None \<Rightarrow> None)
         else if aiType ind = ''dir''
         then (if mcStat m path \<noteq> None then hit path else None)
         else if aiType ind = ''pypackage''
         then (let loc = findPyPackage m (aiPath ind) in if loc \<noteq> [] then hit loc else None)
         else None)"

definition ScanForAgents :: "machine \<Rightarrow> agent_presence list" where
  "ScanForAgents m = List.map_filter (scanIndicator m) KnownAgentIndicators"

section \<open>Snapshots\<close>

definition computeHash :: "env \<Rightarrow> (snapshot \<Rightarrow> bytes) \<Rightarrow> snapshot \<Rightarrow> string" where
  "computeHash C marshal s = hex_encode (sha256 C (marshal (s\<lparr>snHash := []\<rparr>)))"

definition Take ::
  "env \<Rightarrow> (snapshot \<Rightarrow> bytes) \<Rightarrow> machine \<Rightarrow> time \<Rightarrow> string \<Rightarrow> agent_presence list \<Rightarrow> snapshot" where
  "Take C marshal m now machineID agents =
     (let s = \<lparr>snVersion = 1, snTimestamp = now, snMachineID = machineID,
               snOS = \<lparr>osGOOS = mcGOOS m, osGOARCH = mcGOARCH m, osKernel = kernelVersion m,
                       osHostname = mcHostname m\<rparr>,
               snFiles = hashPaths C m WatchFiles WatchDirs, snProcs = ProcNames m,
               snNets = netInterfaces m, snUsers = userList m, snAgents = agents, snHash = []\<rparr>
      in s\<lparr>snHash := computeHash C marshal s\<rparr>)"

definition snapshot_Verify :: "env \<Rightarrow> (snapshot \<Rightarrow> bytes) \<Rightarrow> snapshot \<Rightarrow> bool" where
  "snapshot_Verify C marshal s = (computeHash C marshal s = snHash s)"

definition Clean :: "snapshot \<Rightarrow> bool" where
  "Clean s = (length (snAgents s) = 0)"

section \<open>Drift\<close>

record change =
  chType :: string
  chPath :: string
  chProcess :: string
  chOld :: string
  chNew :: string

definition fileDrift :: "env \<Rightarrow> machine \<Rightarrow> file_entry \<Rightarrow> change list" where
  "fileDrift C m entry =
     (case HashOneFile C m (fePath entry) of
        None \<Rightarrow> [\<lparr>chType = ''file_removed'', chPath = fePath entry, chProcess = [], chOld = feSHA256 entry, chNew = []\<rparr>]
      | Some cur \<Rightarrow>
          (if feSHA256 cur \<noteq> feSHA256 entry
           then [\<lparr>chType = ''file_changed'', chPath = fePath entry, chProcess = [], chOld = feSHA256 entry, chNew = feSHA256 cur\<rparr>]
           else []) @
          (if feMode cur \<noteq> feMode entry
           then [\<lparr>chType = ''file_mode_changed'', chPath = fePath entry, chProcess = [], chOld = feMode entry, chNew = feMode cur\<rparr>]
           else []))"

definition Measure :: "env \<Rightarrow> machine \<Rightarrow> snapshot \<Rightarrow> change list" where
  "Measure C m snap =
     concat (map (fileDrift C m) (snFiles snap)) @
     map (\<lambda>p. \<lparr>chType = ''new_process'', chPath = [], chProcess = p, chOld = [], chNew = []\<rparr>)
       (filter (\<lambda>p. p \<notin> set (snProcs snap)) (ProcNames m))"

section \<open>Lemmas\<close>

lemma HashOneFile_path: "HashOneFile C m p = Some e \<Longrightarrow> fePath e = p"
  by (auto simp: HashOneFile_def split: option.splits)

lemma HashOneFile_self: "HashOneFile C m p = Some e \<Longrightarrow> HashOneFile C m (fePath e) = Some e"
  using HashOneFile_path by fastforce

lemma hashPaths_current:
  assumes "e \<in> set (hashPaths C m files dirs)"
  shows "HashOneFile C m (fePath e) = Some e"
  using assms
  by (auto simp: hashPaths_def map_filter_def intro: HashOneFile_self split: option.splits if_splits)

lemma fileDrift_Nil:
  "fileDrift C m e = [] \<longleftrightarrow>
     (\<exists>cur. HashOneFile C m (fePath e) = Some cur \<and> feSHA256 cur = feSHA256 e \<and> feMode cur = feMode e)"
  by (auto simp: fileDrift_def split: option.splits)

lemma procNames_seen: "p \<in> set (procNames skip seen ls) \<Longrightarrow> p \<notin> set seen"
  by (induction skip seen ls rule: procNames.induct) (auto simp: Let_def split: if_splits)

lemma procNames_distinct: "distinct (procNames skip seen ls)"
proof (induction skip seen ls rule: procNames.induct)
  case (2 skip seen line ls)
  then show ?case by (auto simp: Let_def dest: procNames_seen)
qed simp

lemma Take_verifies: "snapshot_Verify C marshal (Take C marshal m now machineID agents)"
  by (simp add: snapshot_Verify_def Take_def computeHash_def Let_def)

text \<open>
  Property C35. The drift check reports exactly the deviations from genesis: a change is
  listed if and only if it is a recorded file that can no longer be read, one whose hash or
  mode differs (with the observed value), or a running process that was not running at
  genesis. In particular an unchanged machine shows no drift against its own snapshot.
\<close>

theorem drift_reported_exactly:
  "set (Measure C m snap) =
     {\<lparr>chType = ''file_removed'', chPath = fePath e, chProcess = [], chOld = feSHA256 e, chNew = []\<rparr> | e.
        e \<in> set (snFiles snap) \<and> HashOneFile C m (fePath e) = None} \<union>
     {\<lparr>chType = ''file_changed'', chPath = fePath e, chProcess = [], chOld = feSHA256 e, chNew = feSHA256 cur\<rparr> | e cur.
        e \<in> set (snFiles snap) \<and> HashOneFile C m (fePath e) = Some cur \<and> feSHA256 cur \<noteq> feSHA256 e} \<union>
     {\<lparr>chType = ''file_mode_changed'', chPath = fePath e, chProcess = [], chOld = feMode e, chNew = feMode cur\<rparr> | e cur.
        e \<in> set (snFiles snap) \<and> HashOneFile C m (fePath e) = Some cur \<and> feMode cur \<noteq> feMode e} \<union>
     {\<lparr>chType = ''new_process'', chPath = [], chProcess = p, chOld = [], chNew = []\<rparr> | p.
        p \<in> set (ProcNames m) \<and> p \<notin> set (snProcs snap)} \<and>
   Measure C m (Take C marshal m now machineID agents) = []"
proof
  show "Measure C m (Take C marshal m now machineID agents) = []"
    using hashPaths_current [of _ C m WatchFiles WatchDirs]
    by (auto simp: Measure_def Take_def Let_def fileDrift_Nil)
qed (auto simp: Measure_def fileDrift_def split: option.splits if_splits)

text \<open>
  The snapshot checks its own integrity: \<open>Take\<close> produces a snapshot that
  verifies, agents included, and any snapshot that verifies with the same hash text has the
  same JSON text outside the hash, unless SHA-256 collides on the two texts.
\<close>

lemma snapshot_integrity:
  assumes "snapshot_Verify C marshal s" "snHash s = snHash (Take C marshal m now machineID agents)"
    and "inj_on (sha256 C) {marshal (s\<lparr>snHash := []\<rparr>),
           marshal ((Take C marshal m now machineID agents)\<lparr>snHash := []\<rparr>)}"
  shows "snapshot_Verify C marshal (Take C marshal m now machineID agents) \<and>
     marshal (s\<lparr>snHash := []\<rparr>) = marshal ((Take C marshal m now machineID agents)\<lparr>snHash := []\<rparr>)"
proof -
  have "computeHash C marshal s = computeHash C marshal (Take C marshal m now machineID agents)"
    using assms(1,2) Take_verifies by (metis snapshot_Verify_def)
  then have "sha256 C (marshal (s\<lparr>snHash := []\<rparr>)) =
      sha256 C (marshal ((Take C marshal m now machineID agents)\<lparr>snHash := []\<rparr>))"
    by (simp add: computeHash_def)
  then show ?thesis using inj_onD [OF assms(3)] Take_verifies by blast
qed

definition sample_machine :: machine where
  "sample_machine =
     \<lparr>mcRead = (\<lambda>p. if p = ''/etc/hosts'' then Some [1, 2] else None),
      mcStat = (\<lambda>p. if p = ''/etc/hosts'' then Some (420, 2) else None), mcReadDir = (\<lambda>d. None),
      mcPs = None, mcIp = None, mcIfconfig = None, mcUname = None, mcPip = (\<lambda>p. None), mcLookPath = (\<lambda>p. None),
      mcHome = ''/root'', mcPasswd = None, mcGOOS = ''linux'', mcGOARCH = ''amd64'', mcHostname = ''h''\<rparr>"

lemma snapshot_integrity_witness:
  "\<exists>s. s = Take sample_env (\<lambda>s. bytes_of (snMachineID s)) sample_machine 5 ''m'' [] \<and>
     length (snFiles s) = 1 \<and> snapshot_Verify sample_env (\<lambda>s. bytes_of (snMachineID s)) s"
proof -
  let ?s = "Take sample_env (\<lambda>s. bytes_of (snMachineID s)) sample_machine 5 ''m'' []"
  have "length (snFiles ?s) = 1"
    by (simp add: Take_def Let_def hashPaths_def WatchFiles_def WatchDirs_def HashOneFile_def sample_machine_def
        map_filter_def)
  then show ?thesis
    using snapshot_integrity [of sample_env "\<lambda>s. bytes_of (snMachineID s)" ?s sample_machine 5 "''m''" "[]"]
      Take_verifies by simp
qed

end
