(* ===== verification/Accept.thy ===== *)
theory Accept
  imports Genesis Store_Props "HOL-Library.AList" "HOL-Library.Char_ord" "HOL-Library.List_Lexorder"
    "HOL-Library.Product_Lexorder"
begin

text \<open>
  Operator approvals of known drift: \<open>internal/accept\<close> and the parts of the daemon
  (\<open>cmd/witness/main.go\<close>) and of the command line (\<open>cmd/witness/accept.go\<close>) that use them.
  The JSON texts are the parameter \<open>accept_codec\<close>.
\<close>

section \<open>Requests\<close>

record request =
  rqVersion :: int
  rqKind :: string
  rqID :: string
  rqMachineID :: string
  rqCreated :: string
  rqReason :: string
  rqChanges :: "change list"
  rqRevokes :: string
  rqSigner :: string
  rqSig :: string

definition KindAccept :: string where "KindAccept = ''accept''"
definition KindRevoke :: string where "KindRevoke = ''revoke''"
definition accept_Source :: string where "accept_Source = ''operator''"
definition EventAccepted :: string where "EventAccepted = ''drift_accepted''"
definition EventRevoked :: string where "EventRevoked = ''drift_accept_revoked''"
definition EventRejected :: string where "EventRejected = ''drift_accept_rejected''"

datatype accept_error =
    RandFailed | NeedsPathAndNew string | NeedsPath | NeedsProcess | UnknownChangeType string
  | UnsupportedVersion int | NeedsIDs | NeedsReason | NoChanges | BadChange nat accept_error
  | MustNotRevoke | NamesNoApproval | MustNotListChanges | UnknownKind string
  | BadSigner | NotSigned | SigNotHex | PayloadFailed | SigInvalid
  | DifferentMachine | OwnKey | NotOperator | AlreadyApplied string | NoActiveApproval string
  | ParseFailed

definition NUL :: char where
  "NUL = CHR 0x00"

definition itemKey :: "change \<Rightarrow> accept_error + string" where
  "itemKey c =
     (if chType c = ''file_changed'' \<or> chType c = ''file_mode_changed'' then
        (if chPath c = [] \<or> chNew c = [] then Inl (NeedsPathAndNew (chType c))
         else Inr (chType c @ NUL # chPath c @ NUL # chNew c))
      else if chType c = ''file_removed'' then
        (if chPath c = [] then Inl NeedsPath else Inr (chType c @ NUL # chPath c))
      else if chType c = ''new_process'' then
        (if chProcess c = [] then Inl NeedsProcess else Inr (chType c @ NUL # chProcess c))
      else Inl (UnknownChangeType (chType c)))"

fun checkChanges :: "nat \<Rightarrow> change list \<Rightarrow> accept_error option" where
  "checkChanges i [] = None"
| "checkChanges i (c # cs) =
     (case itemKey c of Inl err \<Rightarrow> Some (BadChange i err) | Inr _ \<Rightarrow> checkChanges (Suc i) cs)"

definition check :: "request \<Rightarrow> accept_error option" where
  "check r =
     (if rqVersion r \<noteq> 1 then Some (UnsupportedVersion (rqVersion r))
      else if rqID r = [] \<or> rqMachineID r = [] then Some NeedsIDs
      else if rqReason r = [] then Some NeedsReason
      else if rqKind r = KindAccept then
        (if rqChanges r = [] then Some NoChanges
         else case checkChanges 0 (rqChanges r) of
           Some err \<Rightarrow> Some err
         | None \<Rightarrow> if rqRevokes r \<noteq> [] then Some MustNotRevoke else None)
      else if rqKind r = KindRevoke then
        (if rqRevokes r = [] then Some NamesNoApproval
         else if rqChanges r \<noteq> [] then Some MustNotListChanges else None)
      else Some (UnknownKind (rqKind r)))"

definition newRequest ::
  "bytes option \<Rightarrow> string \<Rightarrow> string \<Rightarrow> string \<Rightarrow> string \<Rightarrow> change list \<Rightarrow> string \<Rightarrow>
   accept_error + request" where
  "newRequest rnd now kind machineID reason changes revokes =
     (case rnd of
        None \<Rightarrow> Inl RandFailed
      | Some nonce \<Rightarrow>
          (let r = \<lparr>rqVersion = 1, rqKind = kind, rqID = hex_encode nonce, rqMachineID = machineID,
                    rqCreated = now, rqReason = reason, rqChanges = changes, rqRevokes = revokes,
                    rqSigner = [], rqSig = []\<rparr>
           in case check r of Some err \<Rightarrow> Inl err | None \<Rightarrow> Inr r))"

definition NewAccept ::
  "bytes option \<Rightarrow> string \<Rightarrow> string \<Rightarrow> string \<Rightarrow> change list \<Rightarrow> accept_error + request" where
  "NewAccept rnd now machineID reason changes = newRequest rnd now KindAccept machineID reason changes []"

definition NewRevoke ::
  "bytes option \<Rightarrow> string \<Rightarrow> string \<Rightarrow> string \<Rightarrow> string \<Rightarrow> accept_error + request" where
  "NewRevoke rnd now machineID reason aid = newRequest rnd now KindRevoke machineID reason [] aid"

record entry_data =
  edID :: string
  edLabel :: string
  edReason :: string
  edRevokes :: string
  edItems :: nat
  edRequest :: "request option"

record accept_codec =
  ac_request :: "request \<Rightarrow> bytes option"
  ac_data :: "entry_data \<Rightarrow> bytes"
  ac_undata :: "bytes \<Rightarrow> entry_data option"
  ac_rejected :: "string \<Rightarrow> request option \<Rightarrow> accept_error \<Rightarrow> bytes"

definition payload :: "accept_codec \<Rightarrow> request \<Rightarrow> bytes option" where
  "payload K r = ac_request K (r\<lparr>rqSig := []\<rparr>)"

definition Sign :: "accept_codec \<Rightarrow> bytes \<Rightarrow> (bytes \<Rightarrow> bytes) \<Rightarrow> request \<Rightarrow> accept_error + request" where
  "Sign K pub sign r =
     (let r' = r\<lparr>rqSigner := hex_encode pub\<rparr> in
      case payload K r' of
        None \<Rightarrow> Inl PayloadFailed
      | Some p \<Rightarrow> Inr (r'\<lparr>rqSig := hex_encode (sign p)\<rparr>))"

definition SignerKey :: "request \<Rightarrow> accept_error + bytes" where
  "SignerKey r =
     (case hex_decode (rqSigner r) of
        None \<Rightarrow> Inl BadSigner
      | Some raw \<Rightarrow> if length raw \<noteq> PublicKeySize then Inl BadSigner else Inr raw)"

definition verifySig :: "env \<Rightarrow> accept_codec \<Rightarrow> request \<Rightarrow> accept_error option" where
  "verifySig C K r =
     (if rqSig r = [] then Some NotSigned
      else case SignerKey r of
        Inl err \<Rightarrow> Some err
      | Inr pub \<Rightarrow>
          (case hex_decode (rqSig r) of
             None \<Rightarrow> Some SigNotHex
           | Some sig \<Rightarrow>
               (case payload K r of
                  None \<Rightarrow> Some PayloadFailed
                | Some p \<Rightarrow> if \<not> ed_verify C pub p sig then Some SigInvalid else None)))"

section \<open>Policies and the set of approvals\<close>

record allow_entry =
  alLabel :: string
  alPubKey :: bytes

record policy =
  plMachineID :: string
  plOperators :: "allow_entry list"
  plOwn :: "bytes option"
  plAllowOwn :: bool
  plAnySigner :: bool

definition signerLabel :: "policy \<Rightarrow> request \<Rightarrow> accept_error + string" where
  "signerLabel p r =
     (case SignerKey r of
        Inl err \<Rightarrow> Inl err
      | Inr pub \<Rightarrow>
          if plOwn p = Some pub then
            (if \<not> plAllowOwn p then Inl OwnKey else Inr ''witness-key(dev)'')
          else case find (\<lambda>op. pub = alPubKey op) (plOperators p) of
            Some op \<Rightarrow> Inr (alLabel op)
          | None \<Rightarrow> if plAnySigner p then Inr ''(not in operators.txt)'' else Inl NotOperator)"

record approval =
  aID :: string
  aBy :: string
  aLabel :: string
  aReason :: string
  aCreated :: string
  aChanges :: "change list"

text \<open>Go maps as association lists with distinct keys, sets of keys as sets.\<close>

record accept_set =
  asApprovals :: "(string \<times> approval) list"
  asItems :: "string set"
  asSeen :: "string set"

definition NewSet :: accept_set where
  "NewSet = \<lparr>asApprovals = [], asItems = {}, asSeen = {}\<rparr>"

definition itemKeys :: "change list \<Rightarrow> string list" where
  "itemKeys cs = List.map_filter (\<lambda>c. case itemKey c of Inl _ \<Rightarrow> None | Inr k \<Rightarrow> Some k) cs"

definition rebuild :: "accept_set \<Rightarrow> accept_set" where
  "rebuild s = s\<lparr>asItems := set (concat (map (\<lambda>(i, a). itemKeys (aChanges a)) (asApprovals s)))\<rparr>"

definition approval_of :: "request \<Rightarrow> string \<Rightarrow> approval" where
  "approval_of r label =
     \<lparr>aID = rqID r, aBy = rqSigner r, aLabel = label, aReason = rqReason r, aCreated = rqCreated r,
      aChanges = rqChanges r\<rparr>"

definition Apply :: "env \<Rightarrow> accept_codec \<Rightarrow> policy \<Rightarrow> accept_set \<Rightarrow> request \<Rightarrow> accept_error + (string \<times> accept_set)" where
  "Apply C K p s r =
     (case check r of
        Some err \<Rightarrow> Inl err
      | None \<Rightarrow>
          if rqMachineID r \<noteq> plMachineID p then Inl DifferentMachine
          else case verifySig C K r of
            Some err \<Rightarrow> Inl err
          | None \<Rightarrow>
              (case signerLabel p r of
                 Inl err \<Rightarrow> Inl err
               | Inr label \<Rightarrow>
                   if rqID r \<in> asSeen s then Inl (AlreadyApplied (rqID r))
                   else if rqKind r = KindAccept then
                     Inr (label, rebuild (s\<lparr>asApprovals := AList.update (rqID r) (approval_of r label) (asApprovals s),
                                            asSeen := insert (rqID r) (asSeen s)\<rparr>))
                   else if map_of (asApprovals s) (rqRevokes r) = None then Inl (NoActiveApproval (rqRevokes r))
                   else Inr (label, rebuild (s\<lparr>asApprovals := AList.delete (rqRevokes r) (asApprovals s),
                                               asSeen := insert (rqID r) (asSeen s)\<rparr>))))"

fun set_Filter :: "accept_set \<Rightarrow> change list \<Rightarrow> change list \<times> nat" where
  "set_Filter s [] = ([], 0)"
| "set_Filter s (c # cs) =
     (case set_Filter s cs of (un, ap) \<Rightarrow>
        (if (case itemKey c of Inl _ \<Rightarrow> False | Inr k \<Rightarrow> k \<in> asItems s) then (un, Suc ap) else (c # un, ap)))"

definition Approvals :: "accept_set \<Rightarrow> approval list" where
  "Approvals s = sort_key (\<lambda>a. (aCreated a, aID a)) (map snd (asApprovals s))"

definition EntryFor :: "request \<Rightarrow> string \<Rightarrow> string \<times> entry_data" where
  "EntryFor r label =
     (let d = \<lparr>edID = rqID r, edLabel = label, edReason = rqReason r, edRevokes = [], edItems = 0, edRequest = Some r\<rparr>
      in if rqKind r = KindRevoke then (EventRevoked, d\<lparr>edRevokes := rqRevokes r\<rparr>)
         else (EventAccepted, d\<lparr>edItems := length (rqChanges r)\<rparr>))"

definition replayStep ::
  "env \<Rightarrow> accept_codec \<Rightarrow> policy \<Rightarrow> accept_set \<times> nat \<Rightarrow> entry \<Rightarrow> accept_set \<times> nat" where
  "replayStep C K p sk e =
     (case sk of (s, skipped) \<Rightarrow>
        if eSource e \<noteq> accept_Source \<or> (eEvent e \<noteq> EventAccepted \<and> eEvent e \<noteq> EventRevoked) then (s, skipped)
        else case Option.bind (Option.bind (eData e) (ac_undata K)) edRequest of
          None \<Rightarrow> (s, Suc skipped)
        | Some r \<Rightarrow> (case Apply C K p s r of Inl _ \<Rightarrow> (s, Suc skipped) | Inr (_, s') \<Rightarrow> (s', skipped)))"

definition Replay :: "env \<Rightarrow> accept_codec \<Rightarrow> entry list \<Rightarrow> policy \<Rightarrow> accept_set \<times> nat" where
  "Replay C K entries p = foldl (replayStep C K p) (NewSet, 0) entries"

section \<open>The daemon's spool\<close>

record pending =
  pdFile :: string
  pdRequest :: "request option"
  pdErr :: "accept_error option"

definition operator_call :: "string \<Rightarrow> string \<Rightarrow> bytes \<Rightarrow> append_io \<Rightarrow> append_call" where
  "operator_call level event data io =
     \<lparr>acLevel = level, acEvent = event, acSource = accept_Source, acData = Some (Some data), acIO = io\<rparr>"

definition spoolResult :: "env \<Rightarrow> accept_codec \<Rightarrow> policy \<Rightarrow> accept_set \<Rightarrow> pending \<Rightarrow> accept_error + (string \<times> accept_set)" where
  "spoolResult C K p s pr =
     (case pdErr pr of
        Some err \<Rightarrow> Inl err
      | None \<Rightarrow> (case pdRequest pr of None \<Rightarrow> Inl ParseFailed | Some r \<Rightarrow> Apply C K p s r))"

definition spoolCall :: "env \<Rightarrow> accept_codec \<Rightarrow> policy \<Rightarrow> accept_set \<Rightarrow> pending \<Rightarrow> append_io \<Rightarrow> append_call" where
  "spoolCall C K p s pr io =
     (case (spoolResult C K p s pr, pdRequest pr) of
        (Inr (label, _), Some r) \<Rightarrow> (case EntryFor r label of (event, d) \<Rightarrow> operator_call ''INFO'' event (ac_data K d) io)
      | (Inl err, r) \<Rightarrow> operator_call ''WARN'' EventRejected (ac_rejected K (pdFile pr) r err) io
      | (Inr _, None) \<Rightarrow> operator_call ''WARN'' EventRejected [] io)"

definition spoolStep ::
  "env \<Rightarrow> accept_codec \<Rightarrow> policy \<Rightarrow> accept_set \<times> (store \<times> disk) \<Rightarrow> pending \<times> append_io \<Rightarrow> accept_set \<times> (store \<times> disk)" where
  "spoolStep C K p ssd pio =
     (case ssd of (s, sd) \<Rightarrow> case pio of (pr, io) \<Rightarrow>
        ((case spoolResult C K p s pr of Inl _ \<Rightarrow> s | Inr (_, s') \<Rightarrow> s'),
         append_step C sd (spoolCall C K p s pr io)))"

text \<open>
  \<open>processAcceptSpool\<close> on the pending requests, with the system's part of each append. (The
  request of a file that was read without error is never nil.)
\<close>

definition processAcceptSpool ::
  "env \<Rightarrow> accept_codec \<Rightarrow> policy \<Rightarrow> accept_set \<times> (store \<times> disk) \<Rightarrow> (pending \<times> append_io) list \<Rightarrow>
   accept_set \<times> (store \<times> disk)" where
  "processAcceptSpool C K p ssd ps = foldl (spoolStep C K p) ssd ps"

definition SpoolDir :: "string \<Rightarrow> string" where
  "SpoolDir primaryDir = path_join [primaryDir, ''accept-spool'']"

text \<open>
  \<open>ReadSpool\<close>: the directory listing (names and whether each is a directory) and the outcome
  of \<open>ReadFile\<close> on each path.
\<close>

definition ReadSpool ::
  "string \<Rightarrow> (string \<times> bool) list \<Rightarrow> (string \<Rightarrow> accept_error + request) \<Rightarrow> pending list" where
  "ReadSpool primaryDir ents readFile =
     sort_key pdFile (List.map_filter (\<lambda>(name, isdir).
       if isdir \<or> \<not> HasSuffix name ''.json'' then None
       else let path = path_join [SpoolDir primaryDir, name] in
         Some (case readFile path of
                 Inl err \<Rightarrow> \<lparr>pdFile = path, pdRequest = None, pdErr = Some err\<rparr>
               | Inr r \<Rightarrow> \<lparr>pdFile = path, pdRequest = Some r, pdErr = None\<rparr>)) ents)"

section \<open>The command line\<close>

record accept_flags =
  afVals :: "(string \<times> string) list"
  afAll :: bool
  afPos :: "string list"

datatype flag_error = RequiresValue string | UnknownFlag string

function parseFlags :: "string list \<Rightarrow> accept_flags \<Rightarrow> string list \<Rightarrow> flag_error + accept_flags" where
  "parseFlags valued f args =
     (case args of
        [] \<Rightarrow> Inr f
      | a # rest \<Rightarrow>
          if a = ''--all'' then parseFlags valued (f\<lparr>afAll := True\<rparr>) rest
          else if a \<in> set valued then
            (case rest of
               [] \<Rightarrow> Inl (RequiresValue a)
             | v # rest' \<Rightarrow> parseFlags valued (f\<lparr>afVals := AList.update a v (afVals f)\<rparr>) rest')
          else if HasPrefix a ''--'' then Inl (UnknownFlag a)
          else parseFlags valued (f\<lparr>afPos := afPos f @ [a]\<rparr>) rest)"
  by pat_completeness auto
termination
  by (relation "measure (\<lambda>(v, f, args). length args)") auto

declare parseFlags.simps [simp del]

definition parseAcceptFlags :: "string list \<Rightarrow> string list \<Rightarrow> flag_error + accept_flags" where
  "parseAcceptFlags args valued = parseFlags valued \<lparr>afVals = [], afAll = False, afPos = []\<rparr> args"

text \<open>\<open>latestDrift\<close>: the newest drift entry whose data parses.\<close>

definition latestDrift :: "(bytes \<Rightarrow> change list option) \<Rightarrow> entry list \<Rightarrow> (entry \<times> change list) option" where
  "latestDrift parse entries =
     map_option (\<lambda>e. (e, the (Option.bind (eData e) parse)))
       (find (\<lambda>e. eSource e = ''drift'' \<and> eEvent e = ''drift_detected'' \<and> Option.bind (eData e) parse \<noteq> None)
         (rev entries))"

definition recordedApprovals :: "env \<Rightarrow> accept_codec \<Rightarrow> string \<Rightarrow> allow_entry list \<Rightarrow> entry list \<Rightarrow> accept_set" where
  "recordedApprovals C K machineID ops entries =
     fst (Replay C K entries \<lparr>plMachineID = machineID, plOperators = ops, plOwn = None, plAllowOwn = False,
            plAnySigner = True\<rparr>)"

section \<open>Item keys\<close>

text \<open>The fields an approval pins.\<close>

definition pinned_fields :: "change \<Rightarrow> string \<times> string \<times> string" where
  "pinned_fields c =
     (if chType c = ''new_process'' then (chType c, chProcess c, [])
      else if chType c = ''file_removed'' then (chType c, chPath c, [])
      else (chType c, chPath c, chNew c))"

lemma NUL_not_in_types:
  "NUL \<notin> set ''file_changed''" "NUL \<notin> set ''file_mode_changed''" "NUL \<notin> set ''file_removed''"
  "NUL \<notin> set ''new_process''"
  by (simp_all add: NUL_def)

lemma itemKey_Inr:
  assumes "itemKey c = Inr k"
  shows "NUL \<notin> set (chType c) \<and>
    k = chType c @ NUL # (if chType c = ''new_process'' then chProcess c
         else if chType c = ''file_removed'' then chPath c else chPath c @ NUL # chNew c)"
  using assms NUL_not_in_types by (auto simp: itemKey_def split: if_splits)

lemma itemKey_pins:
  assumes "itemKey c = Inr k" "itemKey c' = Inr k'" "NUL \<notin> set (chPath c)" "NUL \<notin> set (chPath c')"
  shows "k = k' \<longleftrightarrow> pinned_fields c = pinned_fields c'"
proof
  assume eq: "k = k'"
  define t where "t = (\<lambda>c::change. if chType c = ''new_process'' then chProcess c
      else if chType c = ''file_removed'' then chPath c else chPath c @ NUL # chNew c)"
  have e: "chType c @ NUL # t c = chType c' @ NUL # t c'" "NUL \<notin> set (chType c)" "NUL \<notin> set (chType c')"
    using itemKey_Inr [OF assms(1)] itemKey_Inr [OF assms(2)] eq unfolding t_def by argo+
  have tt: "chType c = chType c'" "t c = t c'" using separator_split [OF e] by simp_all
  show "pinned_fields c = pinned_fields c'"
  proof (cases "chType c = ''new_process'' \<or> chType c = ''file_removed''")
    case True
    then show ?thesis using tt by (auto simp: pinned_fields_def t_def)
  next
    case False
    then have "chPath c @ NUL # chNew c = chPath c' @ NUL # chNew c'" using tt by (simp add: t_def)
    then show ?thesis using separator_split [OF _ assms(3,4)] tt(1) False by (simp add: pinned_fields_def)
  qed
next
  assume "pinned_fields c = pinned_fields c'"
  then have "itemKey c = itemKey c'"
    using assms(1,2) by (auto simp: pinned_fields_def itemKey_def split: if_splits)
  then show "k = k'" using assms(1,2) by simp
qed

lemma checkChanges_None: "checkChanges i cs = None \<longleftrightarrow> (\<forall>c \<in> set cs. \<exists>k. itemKey c = Inr k)"
  by (induction cs arbitrary: i) (auto split: sum.splits)

lemma set_itemKeys: "set (itemKeys cs) = {k. \<exists>c \<in> set cs. itemKey c = Inr k}"
  by (induction cs) (auto simp: itemKeys_def map_filter_simps split: sum.splits)

section \<open>The set of approvals\<close>

text \<open>Items are those of the active approvals; approvals are stored under their own IDs.\<close>

definition set_inv :: "accept_set \<Rightarrow> bool" where
  "set_inv s \<longleftrightarrow>
     distinct (map fst (asApprovals s)) \<and> (\<forall>(i, a) \<in> set (asApprovals s). i = aID a) \<and>
     fst ` set (asApprovals s) \<subseteq> asSeen s \<and>
     asItems s = {k. \<exists>(i, a) \<in> set (asApprovals s). \<exists>c \<in> set (aChanges a). itemKey c = Inr k}"

lemma set_inv_ids: "set_inv s \<Longrightarrow> \<forall>(i, a) \<in> set (asApprovals s). i = aID a"
  unfolding set_inv_def by blast

lemma set_inv_seen: "set_inv s \<Longrightarrow> fst ` set (asApprovals s) \<subseteq> asSeen s"
  unfolding set_inv_def by blast

lemma set_inv_items: "set_inv s \<Longrightarrow>
    asItems s = {k. \<exists>(i, a) \<in> set (asApprovals s). \<exists>c \<in> set (aChanges a). itemKey c = Inr k}"
  unfolding set_inv_def by simp

lemma set_inv_NewSet: "set_inv NewSet"
  by (simp add: set_inv_def NewSet_def)

lemma rebuild_items:
  "asItems (rebuild s) = {k. \<exists>(i, a) \<in> set (asApprovals s). \<exists>c \<in> set (aChanges a). itemKey c = Inr k}"
  by (auto simp: rebuild_def set_itemKeys)

lemma rebuild_simps [simp]:
  "asApprovals (rebuild s) = asApprovals s" "asSeen (rebuild s) = asSeen s"
  by (simp_all add: rebuild_def)

lemma set_inv_rebuild:
  assumes "distinct (map fst (asApprovals s))" "\<forall>(i, a) \<in> set (asApprovals s). i = aID a"
    and "fst ` set (asApprovals s) \<subseteq> asSeen s"
  shows "set_inv (rebuild s)"
  using assms rebuild_items [of s] by (simp add: set_inv_def)

text \<open>What a request that was applied had to pass, and what it changed.\<close>

lemma Apply_Inr:
  assumes "Apply C K p s r = Inr (label, s')"
  shows "check r = None \<and> rqMachineID r = plMachineID p \<and> verifySig C K r = None \<and>
     signerLabel p r = Inr label \<and> rqID r \<notin> asSeen s \<and>
     (if rqKind r = KindAccept
      then s' = rebuild (s\<lparr>asApprovals := AList.update (rqID r) (approval_of r label) (asApprovals s),
                          asSeen := insert (rqID r) (asSeen s)\<rparr>)
      else map_of (asApprovals s) (rqRevokes r) \<noteq> None \<and>
           s' = rebuild (s\<lparr>asApprovals := AList.delete (rqRevokes r) (asApprovals s),
                          asSeen := insert (rqID r) (asSeen s)\<rparr>))"
  using assms by (auto simp: Apply_def split: option.splits if_splits sum.splits)

lemma set_inv_update:
  assumes "set_inv s" "aID a = i"
  shows "set_inv (rebuild (s\<lparr>asApprovals := AList.update i a (asApprovals s), asSeen := insert i (asSeen s)\<rparr>))"
proof -
  have sub: "\<And>x. x \<in> set (AList.update i a (asApprovals s)) \<Longrightarrow> x = (i, a) \<or> x \<in> set (asApprovals s)"
    using set_update_subset by fast
  have old: "\<And>j b. (j, b) \<in> set (asApprovals s) \<Longrightarrow> j = aID b \<and> j \<in> asSeen s"
    using set_inv_ids [OF assms(1)] set_inv_seen [OF assms(1)] by force
  have "distinct (map fst (AList.update i a (asApprovals s)))"
    using assms(1) by (simp add: set_inv_def distinct_update)
  moreover have "\<forall>(j, b) \<in> set (AList.update i a (asApprovals s)). j = aID b"
    using sub old assms(2) by fast
  moreover have "fst ` set (AList.update i a (asApprovals s)) \<subseteq> insert i (asSeen s)"
  proof (rule image_subsetI)
    fix x assume "x \<in> set (AList.update i a (asApprovals s))"
    then show "fst x \<in> insert i (asSeen s)" using sub [of x] old [of "fst x" "snd x"] by auto
  qed
  ultimately show ?thesis by (intro set_inv_rebuild) simp_all
qed

lemma set_inv_delete:
  assumes "set_inv s"
  shows "set_inv (rebuild (s\<lparr>asApprovals := AList.delete k (asApprovals s), asSeen := insert i (asSeen s)\<rparr>))"
proof -
  have sub: "set (AList.delete k (asApprovals s)) \<subseteq> set (asApprovals s)"
    by (auto simp: AList.delete_eq)
  have "distinct (map fst (AList.delete k (asApprovals s)))"
    using assms by (simp add: set_inv_def distinct_delete)
  moreover have "\<forall>(j, b) \<in> set (AList.delete k (asApprovals s)). j = aID b"
    using sub set_inv_ids [OF assms] by blast
  moreover have "fst ` set (AList.delete k (asApprovals s)) \<subseteq> insert i (asSeen s)"
    using sub set_inv_seen [OF assms] by blast
  ultimately show ?thesis by (intro set_inv_rebuild) simp_all
qed

lemma Apply_inv:
  assumes "set_inv s" "Apply C K p s r = Inr (label, s')"
  shows "set_inv s'"
  using Apply_Inr [OF assms(2)] set_inv_update [OF assms(1), of "approval_of r label" "rqID r"]
    set_inv_delete [OF assms(1)]
  by (auto simp: approval_of_def split: if_splits)

lemma replayStep_inv: "set_inv (fst sk) \<Longrightarrow> set_inv (fst (replayStep C K p sk e))"
  by (cases sk) (auto simp: replayStep_def intro: Apply_inv split: option.splits sum.splits)

lemma Replay_inv: "set_inv (fst (Replay C K entries p))"
proof -
  have "set_inv (fst sk) \<Longrightarrow> set_inv (fst (foldl (replayStep C K p) sk entries))" for sk
    by (induction entries arbitrary: sk) (simp_all add: replayStep_inv)
  then show ?thesis by (simp add: Replay_def set_inv_NewSet)
qed

section \<open>Properties\<close>

text \<open>Who may have signed an approval, under a policy that does not accept every signer.\<close>

definition trusted_signer :: "policy \<Rightarrow> bytes \<Rightarrow> bool" where
  "trusted_signer p pub \<longleftrightarrow>
     (if plOwn p = Some pub then plAllowOwn p else \<exists>op \<in> set (plOperators p). alPubKey op = pub)"

definition backed :: "env \<Rightarrow> accept_codec \<Rightarrow> policy \<Rightarrow> approval \<Rightarrow> bool" where
  "backed C K p a \<longleftrightarrow>
     (\<exists>r pub sig msg. check r = None \<and> rqKind r = KindAccept \<and> rqMachineID r = plMachineID p \<and>
        a = approval_of r (aLabel a) \<and> hex_decode (rqSigner r) = Some pub \<and> hex_decode (rqSig r) = Some sig \<and>
        payload K r = Some msg \<and> ed_verify C pub msg sig \<and> trusted_signer p pub)"

lemma signerLabel_trusted:
  assumes "signerLabel p r = Inr label" "\<not> plAnySigner p"
  shows "\<exists>pub. SignerKey r = Inr pub \<and> trusted_signer p pub"
proof -
  obtain pub where pub: "SignerKey r = Inr pub"
    using assms(1) by (auto simp: signerLabel_def split: sum.splits)
  then have "trusted_signer p pub"
    using assms by (fastforce simp: signerLabel_def trusted_signer_def find_Some_iff in_set_conv_nth
        split: if_splits option.splits)
  then show ?thesis using pub by blast
qed

lemma approval_backed:
  assumes "Apply C K p s r = Inr (label, s')" "\<not> plAnySigner p" "rqKind r = KindAccept"
  shows "backed C K p (approval_of r label)"
proof -
  have a: "check r = None" "rqMachineID r = plMachineID p" "verifySig C K r = None" "signerLabel p r = Inr label"
    using Apply_Inr [OF assms(1)] by simp_all
  obtain pub where pub: "SignerKey r = Inr pub" "trusted_signer p pub"
    using signerLabel_trusted [OF a(4) assms(2)] by blast
  have "hex_decode (rqSigner r) = Some pub"
    using pub(1) by (auto simp: SignerKey_def split: option.splits if_splits)
  moreover obtain sig msg where "hex_decode (rqSig r) = Some sig" "payload K r = Some msg" "ed_verify C pub msg sig"
    using a(3) pub(1) by (auto simp: verifySig_def split: if_splits option.splits)
  ultimately show ?thesis
    using a(1,2) pub(2) assms(3) unfolding backed_def
    by (intro exI [of _ r] exI [of _ pub] exI [of _ sig] exI [of _ msg]) (auto simp: approval_of_def)
qed

lemma Apply_backed:
  assumes "\<forall>(i, a) \<in> set (asApprovals s). backed C K p a" "Apply C K p s r = Inr (label, s')" "\<not> plAnySigner p"
  shows "\<forall>(i, a) \<in> set (asApprovals s'). backed C K p a"
proof (cases "rqKind r = KindAccept")
  case True
  then have "asApprovals s' = AList.update (rqID r) (approval_of r label) (asApprovals s)"
    using Apply_Inr [OF assms(2)] by simp
  then show ?thesis
    using assms(1) approval_backed [OF assms(2,3) True] set_update_subset [of "rqID r" "approval_of r label" "asApprovals s"]
    by auto
next
  case False
  then have "asApprovals s' = AList.delete (rqRevokes r) (asApprovals s)"
    using Apply_Inr [OF assms(2)] by simp
  then show ?thesis using assms(1) by (auto simp: AList.delete_eq)
qed


lemma set_Filter_fst:
  "fst (set_Filter s cs) = filter (\<lambda>c. \<not> (\<exists>k. itemKey c = Inr k \<and> k \<in> asItems s)) cs"
  by (induction cs) (auto split: prod.splits sum.splits)

lemma set_Filter_count: "length (fst (set_Filter s cs)) + snd (set_Filter s cs) = length cs"
  by (induction cs) (auto split: prod.splits sum.splits)

definition nul_free :: "change \<Rightarrow> bool" where
  "nul_free c \<longleftrightarrow> NUL \<notin> set (chPath c)"

text \<open>
  An approval pins exact values: for paths without a NUL byte, the filter drops
  a change if and only if some active approval lists a change with the same type, the same
  path and, for changed content or mode, the same new value (for a process, its name). The
  rest is passed on in order, and the counts add up.
\<close>

lemma approvals_pin_exact_values:
  assumes "set_inv s" "\<forall>c \<in> set cs. nul_free c" "\<forall>(i, a) \<in> set (asApprovals s). \<forall>c \<in> set (aChanges a). nul_free c"
  shows "fst (set_Filter s cs) = filter (\<lambda>c. \<not> ((\<exists>k. itemKey c = Inr k) \<and>
       (\<exists>(i, a) \<in> set (asApprovals s). \<exists>c' \<in> set (aChanges a). (\<exists>k. itemKey c' = Inr k) \<and>
          pinned_fields c' = pinned_fields c))) cs \<and>
     length (fst (set_Filter s cs)) + snd (set_Filter s cs) = length cs"
proof
  have items: "asItems s = {k. \<exists>(i, a) \<in> set (asApprovals s). \<exists>c \<in> set (aChanges a). itemKey c = Inr k}"
    by (rule set_inv_items [OF assms(1)])
  have "(\<exists>k. itemKey c = Inr k \<and> k \<in> asItems s) \<longleftrightarrow>
      ((\<exists>k. itemKey c = Inr k) \<and> (\<exists>(i, a) \<in> set (asApprovals s). \<exists>c' \<in> set (aChanges a).
         (\<exists>k. itemKey c' = Inr k) \<and> pinned_fields c' = pinned_fields c))" if "c \<in> set cs" for c
  proof -
    have "k = k' \<longleftrightarrow> pinned_fields c' = pinned_fields c"
      if "(i, a) \<in> set (asApprovals s)" "c' \<in> set (aChanges a)" "itemKey c = Inr k" "itemKey c' = Inr k'" for i a c' k k'
      using itemKey_pins [OF that(3,4)] that assms(2,3) \<open>c \<in> set cs\<close> by (force simp: nul_free_def)
    then show ?thesis unfolding items by fastforce
  qed
  then show "fst (set_Filter s cs) = filter (\<lambda>c. \<not> ((\<exists>k. itemKey c = Inr k) \<and>
       (\<exists>(i, a) \<in> set (asApprovals s). \<exists>c' \<in> set (aChanges a). (\<exists>k. itemKey c' = Inr k) \<and>
          pinned_fields c' = pinned_fields c))) cs"
    unfolding set_Filter_fst by (intro filter_cong) simp_all
qed (rule set_Filter_count)

section \<open>The log reproduces the approvals\<close>

text \<open>The JSON round trip of the requests that are recorded.\<close>

definition codec_ok :: "accept_codec \<Rightarrow> request set \<Rightarrow> bool" where
  "codec_ok K rs \<longleftrightarrow>
     (\<forall>r \<in> rs. \<forall>label. Option.bind (ac_undata K (ac_data K (snd (EntryFor r label)))) edRequest = Some r)"

definition spooled :: "(pending \<times> append_io) list \<Rightarrow> request set" where
  "spooled ps = {r. \<exists>pr io. (pr, io) \<in> set ps \<and> pdRequest pr = Some r}"

text \<open>Every append of the run succeeds.\<close>

fun spool_oks ::
  "env \<Rightarrow> accept_codec \<Rightarrow> policy \<Rightarrow> accept_set \<times> (store \<times> disk) \<Rightarrow> (pending \<times> append_io) list \<Rightarrow> bool" where
  "spool_oks C K p (s, sd) [] = True"
| "spool_oks C K p (s, sd) ((pr, io) # ps) =
     (append_ok C sd (spoolCall C K p s pr io) \<and> spool_oks C K p (spoolStep C K p (s, sd) (pr, io)) ps)"

lemma ToValidUTF8_ascii: "list_all (\<lambda>c. (of_char c :: nat) < 128) s \<Longrightarrow> ToValidUTF8 s = s"
  by (simp add: ToValidUTF8_def to_valid_ascii)

lemma operator_entry:
  assumes "event \<in> {EventAccepted, EventRevoked, EventRejected}"
  shows "eSource (call_entry sd (operator_call level event data io)) = accept_Source"
    "eEvent (call_entry sd (operator_call level event data io)) = event"
    "eData (call_entry sd (operator_call level event data io)) = Some data"
  using assms
  by (auto simp: call_entry_def operator_call_def newEntry_def accept_Source_def EventAccepted_def EventRevoked_def
      EventRejected_def ToValidUTF8_ascii)

lemma events_distinct: "EventRejected \<noteq> EventAccepted" "EventRejected \<noteq> EventRevoked"
  by (simp_all add: EventRejected_def EventAccepted_def EventRevoked_def)

lemma EntryFor_event: "fst (EntryFor r label) \<in> {EventAccepted, EventRevoked}"
  by (simp add: EntryFor_def Let_def)

lemma replay_spool_entry:
  assumes "codec_ok K rs" "\<And>r. pdRequest pr = Some r \<Longrightarrow> r \<in> rs"
  shows "replayStep C K p (s, k) (call_entry sd (spoolCall C K p s pr io)) =
     (fst (spoolStep C K p (s, sd) (pr, io)), k)"
proof (cases "spoolResult C K p s pr")
  case (Inl err)
  then have "spoolCall C K p s pr io = operator_call ''WARN'' EventRejected (ac_rejected K (pdFile pr) (pdRequest pr) err) io"
    by (cases "pdRequest pr") (simp_all add: spoolCall_def)
  then show ?thesis
    using Inl operator_entry [of EventRejected] events_distinct
    by (simp add: replayStep_def spoolStep_def)
next
  case (Inr ls)
  obtain label s' where ls: "ls = (label, s')" by (cases ls)
  obtain r where r: "pdRequest pr = Some r" "Apply C K p s r = Inr (label, s')"
    using Inr ls by (auto simp: spoolResult_def split: option.splits)
  obtain event d where ed: "EntryFor r label = (event, d)" by (cases "EntryFor r label")
  have ev: "event \<in> {EventAccepted, EventRevoked}" using EntryFor_event [of r label] ed by simp
  have "Option.bind (ac_undata K (ac_data K d)) edRequest = Some r"
    using assms r(1) ed unfolding codec_ok_def by (metis snd_conv)
  moreover have "spoolCall C K p s pr io = operator_call ''INFO'' event (ac_data K d) io"
    using Inr ls r(1) ed by (simp add: spoolCall_def)
  ultimately show ?thesis
    using Inr ls r(2) ev operator_entry [of event sd "''INFO''" "ac_data K d" io]
    by (auto simp: replayStep_def spoolStep_def)
qed

text \<open>
  Property C36. The log alone reproduces the operators' decisions: if the daemon's set of
  approvals is what replaying its log gives, it still is after a spool run in which the
  appends succeed, with rejected requests leaving no trace in it and none skipped.
\<close>

theorem replay_reproduces_approvals:
  assumes "log_inv C sd" "Replay C K (log_records C sd) p = (s, k)"
    and "codec_ok K (spooled ps)" "spool_oks C K p (s, sd) ps"
  shows "Replay C K (log_records C (snd (processAcceptSpool C K p (s, sd) ps))) p =
     (fst (processAcceptSpool C K p (s, sd) ps), k)"
  using assms
proof (induction ps arbitrary: s sd)
  case Nil
  then show ?case by (simp add: processAcceptSpool_def)
next
  case (Cons x ps)
  obtain pr io where x: "x = (pr, io)" by (cases x)
  let ?c = "spoolCall C K p s pr io"
  have ok: "append_ok C sd ?c" using Cons.prems(4) x by simp
  have sd': "snd (spoolStep C K p (s, sd) x) = append_step C sd ?c" by (simp add: spoolStep_def x)
  have "replayStep C K p (s, k) (call_entry sd ?c) = (fst (spoolStep C K p (s, sd) x), k)"
    unfolding x by (rule replay_spool_entry [OF Cons.prems(3)]) (auto simp: spooled_def x)
  moreover have "log_records C (append_step C sd ?c) = log_records C sd @ [call_entry sd ?c]"
    by (rule al.step_records [OF Cons.prems(1) ok])
  ultimately have "Replay C K (log_records C (snd (spoolStep C K p (s, sd) x))) p = (fst (spoolStep C K p (s, sd) x), k)"
    using Cons.prems(2) sd' by (simp add: Replay_def)
  moreover have "log_inv C (snd (spoolStep C K p (s, sd) x))"
    unfolding sd' by (rule al.step_inv [OF Cons.prems(1) ok])
  moreover have "codec_ok K (spooled ps)" using Cons.prems(3) by (force simp: codec_ok_def spooled_def)
  moreover have "spool_oks C K p (spoolStep C K p (s, sd) x) ps" using Cons.prems(4) x by simp
  ultimately show ?case
    using Cons.IH [of "snd (spoolStep C K p (s, sd) x)" "fst (spoolStep C K p (s, sd) x)"]
    by (simp add: processAcceptSpool_def)
qed

section \<open>A sample approval\<close>

definition sample_request :: request where
  "sample_request =
     \<lparr>rqVersion = 1, rqKind = KindAccept, rqID = ''a1'', rqMachineID = ''m'', rqCreated = ''t'', rqReason = ''ok'',
      rqChanges = [\<lparr>chType = ''new_process'', chPath = [], chProcess = ''cron'', chOld = [], chNew = []\<rparr>],
      rqRevokes = [], rqSigner = hex_encode (replicate 32 5), rqSig = hex_encode (replicate 64 5)\<rparr>"

definition sample_policy :: policy where
  "sample_policy = \<lparr>plMachineID = ''m'', plOperators = [\<lparr>alLabel = ''op'', alPubKey = replicate 32 5\<rparr>],
     plOwn = None, plAllowOwn = False, plAnySigner = False\<rparr>"

definition sample_codec :: accept_codec where
  "sample_codec = \<lparr>ac_request = (\<lambda>r. Some []), ac_data = (\<lambda>d. []),
     ac_undata = (\<lambda>b. Some \<lparr>edID = [], edLabel = [], edReason = [], edRevokes = [], edItems = 0,
                            edRequest = Some sample_request\<rparr>),
     ac_rejected = (\<lambda>f r e. [])\<rparr>"

definition sample_set :: accept_set where
  "sample_set = \<lparr>asApprovals = [(''a1'', approval_of sample_request ''op'')],
     asItems = {''new_process'' @ NUL # ''cron''}, asSeen = {''a1''}\<rparr>"

lemma sample_check: "check sample_request = None"
  by (simp add: check_def sample_request_def itemKey_def)

lemma sample_SignerKey: "SignerKey sample_request = Inr (replicate 32 5)"
  by (simp add: SignerKey_def sample_request_def PublicKeySize_def)

lemma sample_sig: "verifySig sample_env sample_codec sample_request = None"
  unfolding verifySig_def sample_SignerKey
  by (simp add: sample_request_def payload_def sample_codec_def sample_env_def flip: replicate_add)

lemma sample_request_fields:
  "rqMachineID sample_request = ''m''" "rqID sample_request = ''a1''" "rqKind sample_request = KindAccept"
  "rqChanges sample_request = [\<lparr>chType = ''new_process'', chPath = [], chProcess = ''cron'', chOld = [], chNew = []\<rparr>]"
  by (simp_all add: sample_request_def)

lemma sample_apply: "Apply sample_env sample_codec sample_policy NewSet sample_request = Inr (''op'', sample_set)"
proof -
  have "signerLabel sample_policy sample_request = Inr ''op''"
    by (simp add: signerLabel_def sample_SignerKey sample_policy_def)
  moreover have "plMachineID sample_policy = ''m''" by (simp add: sample_policy_def)
  moreover have "itemKeys (aChanges (approval_of sample_request ''op'')) = [''new_process'' @ NUL # ''cron'']"
    by (simp add: approval_of_def sample_request_fields itemKeys_def map_filter_simps itemKey_def)
  ultimately show ?thesis
    by (simp add: Apply_def sample_check sample_sig sample_request_fields NewSet_def rebuild_def sample_set_def)
qed

definition sample_accepted :: entry where
  "sample_accepted = \<lparr>eSeq = 1, eTimestamp = 0, eLevel = ''INFO'', eEvent = EventAccepted, eSource = accept_Source,
     eData = Some []\<rparr>"

lemma sample_replay: "Replay sample_env sample_codec [sample_accepted] sample_policy = (sample_set, 0)"
proof -
  have "Option.bind (ac_undata sample_codec []) edRequest = Some sample_request" by (simp add: sample_codec_def)
  then show ?thesis by (simp add: Replay_def replayStep_def sample_accepted_def sample_apply)
qed


lemma approvals_pin_exact_values_witness:
  "fst (set_Filter sample_set (rqChanges sample_request)) = [] \<and>
   length (fst (set_Filter sample_set (rqChanges sample_request))) + snd (set_Filter sample_set (rqChanges sample_request))
     = length (rqChanges sample_request)"
proof -
  have "set_inv sample_set"
    using Replay_inv [of sample_env sample_codec "[sample_accepted]" sample_policy] sample_replay by simp
  moreover have "\<forall>c \<in> set (rqChanges sample_request). nul_free c"
      "\<forall>(i, a) \<in> set (asApprovals sample_set). \<forall>c \<in> set (aChanges a). nul_free c"
    by (simp_all add: sample_request_def sample_set_def approval_of_def nul_free_def)
  moreover have "fst (set_Filter sample_set (rqChanges sample_request)) = []"
    by (simp add: sample_request_def sample_set_def itemKey_def)
  ultimately show ?thesis using approvals_pin_exact_values by blast
qed

theorem replay_reproduces_approvals_witness:
  "\<exists>sd ps. log_inv sample_env sd \<and> spool_oks sample_env sample_codec sample_policy (NewSet, sd) ps \<and> length ps = 1 \<and>
     Replay sample_env sample_codec (log_records sample_env (snd (processAcceptSpool sample_env sample_codec sample_policy
       (NewSet, sd) ps))) sample_policy =
     (fst (processAcceptSpool sample_env sample_codec sample_policy (NewSet, sd) ps), 0)"
proof -
  obtain st d where up: "log_reachable sample_env sample_key (Some sample_signer) [] ([], Up st d)"
    using sample_opened by blast
  obtain bs where si: "store_inv sample_env st d bs []" and st: "stKey st = sample_key"
      "stSigner st = Some sample_signer" "\<not> stReadOnly st"
    using reachable_inv [OF sample_env_ok sample_signed up] by (auto simp: opened_as_def store_inv_def)
  have inv: "log_inv sample_env (st, d)"
    using si st by (auto simp: log_inv_def sample_env_ok signers_ok_def sample_signer_ok)
  have empty: "Replay sample_env sample_codec (log_records sample_env (st, d)) sample_policy = (NewSet, 0)"
    using log_records_inv [OF si] by (simp add: Replay_def)
  let ?pr = "\<lparr>pdFile = ''f'', pdRequest = Some sample_request, pdErr = None\<rparr>"
  have ev: "fst (EntryFor sample_request ''op'') = EventAccepted" "\<And>d. ac_data sample_codec d = []"
    by (simp_all add: EntryFor_def sample_request_fields KindAccept_def KindRevoke_def Let_def sample_codec_def)
  have call: "spoolCall sample_env sample_codec sample_policy NewSet ?pr sample_io =
      operator_call ''INFO'' EventAccepted [] sample_io"
    using ev by (cases "EntryFor sample_request ''op''") (simp add: spoolCall_def spoolResult_def sample_apply)
  have "append_ok sample_env (st, d) (operator_call ''INFO'' EventAccepted [] sample_io)"
    using st
    by (simp add: append_ok_def call_fits_def append_fits_def append_call_def Append_def operator_call_def
        accept_Source_def EventAccepted_def sample_io_def sample_env_def encrypt_Seal_def aes_key_ok_def
        sample_key_def NonceSize_def sample_enc_entry_def newEntry_def ToValidUTF8_ascii enc_int_def
        enc_data_def max_record_def writeTreeHead_def signHead_def sample_signer_def Let_def)
  then have oks: "spool_oks sample_env sample_codec sample_policy (NewSet, (st, d)) [(?pr, sample_io)]"
    by (simp add: call spoolStep_def)
  have cod: "codec_ok sample_codec (spooled [(?pr, sample_io)])"
    by (simp add: codec_ok_def spooled_def sample_codec_def)
  show ?thesis
    using replay_reproduces_approvals [OF inv empty cod oks] inv oks
    by (intro exI [of _ "(st, d)"] exI [of _ "[(?pr, sample_io)]"]) simp
qed

end
