(* ===== verification/Soul.thy ===== *)
theory Soul
  imports Accept
begin

text \<open>
  The identity file of the agent and the trust allowlists (\<open>internal/soul\<close>): the integrity
  hash that skips its own field, detached signatures, and the text format of the allowlist.
  A file is the string of its bytes, or the reason it cannot be read; the TOML and JSON
  decoders are arguments.
\<close>

section \<open>Data\<close>

record identity =
  idAgentName :: string
  idAgentVersion :: string
  idOrganization :: string
  idProductFamily :: string
  idRole :: string
  idInstanceID :: string
  idSoulLocked :: bool

record prime_law =
  plText :: string
  plOverridePermitted :: bool
  plEscalateOnViolation :: bool

record boundaries =
  bdPermitted :: "(string \<times> bool) list"
  bdProhibited :: "(string \<times> bool) list"

record logging =
  lgMode :: string
  lgLogDir :: string
  lgLogFormat :: string
  lgHashAlgorithm :: string
  lgTamperEvident :: bool

record escalation_thresholds =
  etWarnAt :: int
  etEscalateAt :: int
  etHaltAt :: int

record escalation_actions =
  eaOnWarn :: string
  eaOnEscalate :: string
  eaOnHalt :: string

record escalation =
  esThresholds :: escalation_thresholds
  esTickSources :: "(string \<times> int) list"
  esActions :: escalation_actions

record integrity =
  igSoulHash :: string
  igVerifyOnLoad :: bool
  igHaltOnMismatch :: bool
  igMismatchMessage :: string

record forge =
  fgForgedBy :: string
  fgForgeMethod :: string
  fgForgeDate :: string
  fgForgedFrom :: string
  fgNotes :: string

record soul =
  slIdentity :: identity
  slPrimeLaw :: prime_law
  slBoundaries :: boundaries
  slLogging :: logging
  slEscalation :: escalation
  slIntegrity :: integrity
  slForge :: forge

datatype read_error = NotExist | ReadFailed

type_synonym file_text = "read_error + string"

section \<open>The integrity hash\<close>

text \<open>\<open>bytes.SplitAfter(data, "\n")\<close>: the lines with their line ends; the last part may be empty.\<close>

fun split_after :: "string \<Rightarrow> string list" where
  "split_after [] = [[]]"
| "split_after (c # cs) =
     (if c = CHR 0x0A then [c] # split_after cs
      else case split_after cs of [] \<Rightarrow> [[c]] | p # ps \<Rightarrow> (c # p) # ps)"

text \<open>One line of \<open>zeroSoulHash\<close>: the text between the first two quotes goes away.\<close>

definition clear_line :: "string \<Rightarrow> string" where
  "clear_line line =
     (if \<not> HasPrefix (TrimSpace line) ''soul_hash'' then line
      else let before = takeWhile (\<lambda>c. c \<noteq> CHR 0x22) line;
               rest = dropWhile (\<lambda>c. c \<noteq> CHR 0x22) line
           in if rest = [] then line
              else let rest2 = dropWhile (\<lambda>c. c \<noteq> CHR 0x22) (tl rest)
                   in if rest2 = [] then line
                      else before @ [CHR 0x22, CHR 0x22] @ tl rest2)"

definition zeroSoulHash :: "string \<Rightarrow> string" where
  "zeroSoulHash data = concat (map clear_line (split_after data))"

datatype soul_error = SoulNotFound | SoulUnread | SoulParse | SoulMismatch string

definition soul_verify :: "env \<Rightarrow> string \<Rightarrow> string \<Rightarrow> bool" where
  "soul_verify C data expected =
     (if expected = [] then True
      else hex_encode (sha256 C (bytes_of (zeroSoulHash data))) = expected)"

definition soul_Load :: "env \<Rightarrow> (string \<Rightarrow> soul option) \<Rightarrow> file_text \<Rightarrow> soul_error + soul" where
  "soul_Load C decode content =
     (case content of
        Inl NotExist \<Rightarrow> Inl SoulNotFound
      | Inl ReadFailed \<Rightarrow> Inl SoulUnread
      | Inr data \<Rightarrow>
          (case decode data of
             None \<Rightarrow> Inl SoulParse
           | Some s \<Rightarrow>
               if igVerifyOnLoad (slIntegrity s) \<and> \<not> soul_verify C data (igSoulHash (slIntegrity s))
               then Inl (SoulMismatch
                      (if igMismatchMessage (slIntegrity s) = []
                       then ''Soul file integrity check failed. Agent will not run.''
                       else igMismatchMessage (slIntegrity s)))
               else Inr s))"

definition soul_Hash :: "env \<Rightarrow> file_text \<Rightarrow> read_error + string" where
  "soul_Hash C content =
     (case content of Inl e \<Rightarrow> Inl e | Inr data \<Rightarrow> Inr (hex_encode (sha256 C (bytes_of data))))"

text \<open>\<open>InstallDefault\<close>: never over an existing file; \<open>mkdir\<close> and \<open>write\<close> say whether these succeed.\<close>

datatype install_error = SoulExists | MkdirFailed | SourceUnread | InstallWrite

definition InstallDefault :: "bool \<Rightarrow> bool \<Rightarrow> file_text \<Rightarrow> file_text \<Rightarrow> install_error option \<times> file_text" where
  "InstallDefault mkdir write src dst =
     (case dst of
        Inr _ \<Rightarrow> (Some SoulExists, dst)
      | Inl _ \<Rightarrow>
          if \<not> mkdir then (Some MkdirFailed, dst)
          else case src of
            Inl _ \<Rightarrow> (Some SourceUnread, dst)
          | Inr data \<Rightarrow> if write then (None, Inr data) else (Some InstallWrite, dst))"

definition expandHome :: "string \<Rightarrow> string \<Rightarrow> string" where
  "expandHome home path = (if HasPrefix path ''~/'' then path_join [home, drop 2 path] else path)"

definition lastSegment :: "string \<Rightarrow> string" where
  "lastSegment path = rev (takeWhile (\<lambda>c. c \<noteq> CHR ''/'') (rev path))"

section \<open>The allowlist\<close>

text \<open>
  \<open>bufio.Scanner\<close> over lines: a final line without line end counts if it is not empty, one
  carriage return at the end goes away, and a line that does not fit the buffer ends the
  scan with an error.
\<close>

definition maxLine :: nat where
  "maxLine = 64 * 1024"

definition raw_lines :: "string \<Rightarrow> string list" where
  "raw_lines content = (let ps = split_on LF content in if last ps = [] then butlast ps else ps)"

definition drop_cr :: "string \<Rightarrow> string" where
  "drop_cr l = (if l \<noteq> [] \<and> last l = CR then butlast l else l)"

datatype allow_error = AllowNotFound | AllowUnread | AllowFields nat string | AllowKey nat string | AllowTooLong

fun loadLines :: "nat \<Rightarrow> string list \<Rightarrow> allow_error + allow_entry list" where
  "loadLines n [] = Inr []"
| "loadLines n (l # ls) =
     (if maxLine \<le> length l then Inl AllowTooLong
      else let line = TrimSpace (drop_cr l) in
        if line = [] \<or> HasPrefix line ''#'' then loadLines (Suc n) ls
        else let parts = Fields line in
          if length parts < 2 then Inl (AllowFields n line)
          else (case hex_decode (parts ! 1) of
            None \<Rightarrow> Inl (AllowKey n (parts ! 1))
          | Some raw \<Rightarrow>
              if length raw \<noteq> PublicKeySize then Inl (AllowKey n (parts ! 1))
              else (case loadLines (Suc n) ls of
                  Inl e \<Rightarrow> Inl e
                | Inr es \<Rightarrow> Inr (\<lparr>alLabel = parts ! 0, alPubKey = raw\<rparr> # es))))"

definition LoadAllowlist :: "file_text \<Rightarrow> allow_error + allow_entry list" where
  "LoadAllowlist content =
     (case content of
        Inl NotExist \<Rightarrow> Inl AllowNotFound
      | Inl ReadFailed \<Rightarrow> Inl AllowUnread
      | Inr text_ \<Rightarrow> loadLines 1 (raw_lines text_))"

definition allow_header :: string where
  "allow_header =
     ''# SGAIL Labs Harborlight '' @ [CHR 0xE2, CHR 0x80, CHR 0x94] @ '' trust allowlist'' @ [LF] @
     ''# One entry per line: <label> <hex-ed25519-public-key>'' @ [LF] @
     ''# This file is the bootstrap trust root. Verify it out-of-band.'' @ [LF] @ ''#'' @ [LF]"

text \<open>
  \<open>AppendAllowlist\<close>: \<open>mkdir\<close> and \<open>opens\<close> say whether directory and file can be made and
  opened for appending; \<open>written\<close> is the number of bytes that reach the file before the last
  write fails (\<open>None\<close>: all of them). A file that does not load, for whatever reason, counts
  as having no entries.
\<close>

datatype append_allow_error = AllowMkdir | AllowOpen | AllowWrite

definition AppendAllowlist ::
  "bool \<Rightarrow> bool \<Rightarrow> nat option \<Rightarrow> file_text \<Rightarrow> string \<Rightarrow> bytes \<Rightarrow> append_allow_error option \<times> file_text" where
  "AppendAllowlist mkdir opens written content label pub =
     (if \<not> mkdir then (Some AllowMkdir, content)
      else
        let existing = (case LoadAllowlist content of Inl _ \<Rightarrow> [] | Inr es \<Rightarrow> es) in
        if \<exists>e \<in> set existing. hex_encode (alPubKey e) = hex_encode pub then (None, content)
        else if \<not> opens then (Some AllowOpen, content)
        else
          let old = (case content of Inl _ \<Rightarrow> [] | Inr t \<Rightarrow> t);
              added = (if old = [] then allow_header else []) @ label @ '' '' @ hex_encode pub @ [LF]
          in case written of
               None \<Rightarrow> (None, Inr (old @ added))
             | Some k \<Rightarrow> (Some AllowWrite, Inr (old @ take k added)))"

section \<open>Detached signatures\<close>

record soul_sig =
  ssAlgorithm :: string
  ssSignerKey :: string
  ssSignature :: string
  ssSignedAt :: string

record soul_codec =
  so_marshal :: "soul_sig \<Rightarrow> string option"
  so_unmarshal :: "string \<Rightarrow> soul_sig option"

datatype sig_error =
    SoulFileUnread | SignFailed | MarshalFailed | SigWriteFailed | SigNotFound | SigUnread | SigParse
  | BadAlgorithm string | MalformedKey | MalformedSignature | SignatureInvalid | NotTrusted string

definition SigPath :: "string \<Rightarrow> string" where
  "SigPath soulPath = soulPath @ ''.sig''"

definition SignSoul ::
  "soul_codec \<Rightarrow> signer \<Rightarrow> string \<Rightarrow> bool \<Rightarrow> file_text \<Rightarrow> file_text \<Rightarrow> sig_error option \<times> file_text" where
  "SignSoul K s now write content sigfile =
     (case content of
        Inl _ \<Rightarrow> (Some SoulFileUnread, sigfile)
      | Inr data \<Rightarrow>
          (case sgSign s (bytes_of data) of
             None \<Rightarrow> (Some SignFailed, sigfile)
           | Some sig \<Rightarrow>
               (case so_marshal K \<lparr>ssAlgorithm = ''ed25519'', ssSignerKey = hex_encode (sgPublicKey s),
                                   ssSignature = hex_encode sig, ssSignedAt = now\<rparr> of
                  None \<Rightarrow> (Some MarshalFailed, sigfile)
                | Some out \<Rightarrow> if write then (None, Inr out) else (Some SigWriteFailed, sigfile))))"

definition VerifySoulSignature ::
  "env \<Rightarrow> soul_codec \<Rightarrow> file_text \<Rightarrow> file_text \<Rightarrow> allow_entry list \<Rightarrow> sig_error option" where
  "VerifySoulSignature C K content sigfile allowlist =
     (case content of
        Inl _ \<Rightarrow> Some SoulFileUnread
      | Inr data \<Rightarrow>
          (case sigfile of
             Inl NotExist \<Rightarrow> Some SigNotFound
           | Inl ReadFailed \<Rightarrow> Some SigUnread
           | Inr sigData \<Rightarrow>
               (case so_unmarshal K sigData of
                  None \<Rightarrow> Some SigParse
                | Some ss \<Rightarrow>
                    if ssAlgorithm ss \<noteq> ''ed25519'' then Some (BadAlgorithm (ssAlgorithm ss))
                    else (case hex_decode (ssSignerKey ss) of
                      None \<Rightarrow> Some MalformedKey
                    | Some pub \<Rightarrow>
                        if length pub \<noteq> PublicKeySize then Some MalformedKey
                        else (case hex_decode (ssSignature ss) of
                          None \<Rightarrow> Some MalformedSignature
                        | Some sig \<Rightarrow>
                            if length sig \<noteq> SignatureSize then Some MalformedSignature
                            else if \<not> ed_verify C pub (bytes_of data) sig then Some SignatureInvalid
                            else if \<exists>e \<in> set allowlist. hex_encode (alPubKey e) = ssSignerKey ss then None
                            else Some (NotTrusted (ssSignerKey ss)))))))"

section \<open>Lines of the allowlist\<close>

lemma raw_lines_snoc:
  assumes "LF \<notin> set line" "t = [] \<or> last t = LF"
  shows "raw_lines (t @ line @ [LF]) = raw_lines t @ [line]"
proof (cases "t = []")
  case True
  then show ?thesis using split_on_append [OF assms(1), of "[]"] by (simp add: raw_lines_def)
next
  case False
  then obtain t0 where t: "t = t0 @ [LF]" using assms(2) by (metis append_butlast_last_id)
  have "split_on LF t = split_on LF t0 @ [[]]" using split_on_append_sep [of LF t0 "[]"] by (simp add: t)
  moreover have "split_on LF (t @ line @ [LF]) = split_on LF t0 @ [line, []]"
    using split_on_append_sep [of LF t0 "line @ [LF]"] split_on_append [OF assms(1), of "[]"] by (simp add: t)
  ultimately show ?thesis by (simp add: raw_lines_def butlast_append)
qed

lemma loadLines_append:
  "loadLines n (as @ bs) =
     (case loadLines n as of Inl e \<Rightarrow> Inl e
      | Inr es \<Rightarrow> (case loadLines (n + length as) bs of Inl e \<Rightarrow> Inl e | Inr es' \<Rightarrow> Inr (es @ es')))"
  by (induction n as rule: loadLines.induct) (auto simp: Let_def split: sum.splits option.splits)

definition label_ok :: "string \<Rightarrow> bool" where
  "label_ok l \<longleftrightarrow> l \<noteq> [] \<and> list_all printable l \<and> hd l \<noteq> CHR ''#'' \<and> length l < 1024"

definition entry_line :: "string \<Rightarrow> bytes \<Rightarrow> string" where
  "entry_line label pub = label @ '' '' @ hex_encode pub"

lemma hexdigit_printable: "n < 16 \<Longrightarrow> printable (hexdigit n)"
proof -
  have "list_all (\<lambda>n. printable (hexdigit n)) [0..<16]" unfolding printable_def by code_simp
  then show "n < 16 \<Longrightarrow> printable (hexdigit n)" by (simp add: list_all_iff)
qed

lemma hex_printable: "list_all printable (hex_encode b)"
  by (induction b) (simp_all add: hexdigit_printable byte_nibble_bounds)

lemma printable_not_LF: "printable c \<Longrightarrow> c \<noteq> LF \<and> c \<noteq> CR"
  by (auto simp: printable_def LF_def CR_def)

lemma entry_line_shape:
  assumes "label_ok label" "pub \<noteq> []"
  shows "LF \<notin> set (entry_line label pub)" "drop_cr (entry_line label pub) = entry_line label pub"
    "TrimSpace (entry_line label pub) = entry_line label pub" "Fields (entry_line label pub) = [label, hex_encode pub]"
    "\<not> HasPrefix (entry_line label pub) ''#''" "entry_line label pub \<noteq> []"
proof -
  have l: "label \<noteq> []" "list_all printable label" "hd label \<noteq> CHR ''#''" using assms(1) by (auto simp: label_ok_def)
  have h: "hex_encode pub \<noteq> []" "list_all printable (hex_encode pub)" using assms(2) hex_printable by auto
  have la: "printable (last (entry_line label pub))" "printable (hd (entry_line label pub))"
    using l h by (auto simp: entry_line_def list_all_iff)
  show "LF \<notin> set (entry_line label pub)"
    using l(2) h(2) printable_not_LF by (auto simp: entry_line_def list_all_iff LF_def)
  show n: "entry_line label pub \<noteq> []" by (simp add: entry_line_def)
  show "drop_cr (entry_line label pub) = entry_line label pub"
    using la(1) printable_not_LF by (auto simp: drop_cr_def)
  show "TrimSpace (entry_line label pub) = entry_line label pub" by (rule TrimSpace_id [OF n la(2,1)])
  show "Fields (entry_line label pub) = [label, hex_encode pub]"
    using Fields_two [OF l(2,1) h(2,1)] by (simp add: entry_line_def)
  show "\<not> HasPrefix (entry_line label pub) ''#''"
    using l(1,3) by (cases label) (auto simp: HasPrefix_def entry_line_def)
qed

lemma loadLines_entry:
  assumes "label_ok label" "length pub = PublicKeySize"
  shows "loadLines n [entry_line label pub] = Inr [\<lparr>alLabel = label, alPubKey = pub\<rparr>]"
proof -
  have p: "pub \<noteq> []" using assms(2) by (auto simp: PublicKeySize_def)
  have "length (entry_line label pub) < maxLine"
    using assms by (simp add: entry_line_def label_ok_def maxLine_def PublicKeySize_def)
  then show ?thesis using entry_line_shape [OF assms(1) p] assms(2) by simp
qed

definition comment_line :: "string \<Rightarrow> bool" where
  "comment_line l \<longleftrightarrow> l \<noteq> [] \<and> hd l = CHR ''#'' \<and> length l < maxLine"

lemma loadLines_comments: "list_all comment_line ls \<Longrightarrow> loadLines n ls = Inr []"
proof (induction ls arbitrary: n)
  case (Cons l ls)
  obtain r where l: "l = CHR ''#'' # r" using Cons.prems by (cases l) (auto simp: comment_line_def)
  have "CHR ''#'' \<noteq> CR" "printable (CHR ''#'')" by (simp_all add: CR_def printable_def)
  then obtain r1 where "drop_cr l = CHR ''#'' # r1"
    using that [of r] that [of "butlast r"] by (cases "r = []"; cases "last r = CR") (auto simp: l drop_cr_def)
  moreover obtain r2 where "TrimSpace (CHR ''#'' # r1) = CHR ''#'' # r2"
    using TrimSpace_Cons [of "CHR ''#''" r1] \<open>printable (CHR ''#'')\<close> by blast
  ultimately have "HasPrefix (TrimSpace (drop_cr l)) ''#''" by (simp add: HasPrefix_def)
  then show ?case using Cons by (auto simp: comment_line_def Let_def)
qed simp

lemma header_lines: "list_all comment_line (raw_lines allow_header)" "last allow_header = LF"
  by (simp_all add: allow_header_def LF_def raw_lines_def comment_line_def maxLine_def)

lemma appended_line_loads:
  assumes "label_ok label" "length pub = PublicKeySize" "t = [] \<or> last t = LF" "loadLines 1 (raw_lines t) = Inr es"
  shows "loadLines 1 (raw_lines (t @ label @ '' '' @ hex_encode pub @ [LF])) = Inr (es @ [\<lparr>alLabel = label, alPubKey = pub\<rparr>])"
proof -
  have "pub \<noteq> []" using assms(2) by (auto simp: PublicKeySize_def)
  then have "raw_lines (t @ entry_line label pub @ [LF]) = raw_lines t @ [entry_line label pub]"
    using raw_lines_snoc [OF _ assms(3)] entry_line_shape(1) [OF assms(1)] by blast
  moreover have e: "t @ label @ '' '' @ hex_encode pub @ [LF] = t @ entry_line label pub @ [LF]" by (simp add: entry_line_def)
  ultimately show ?thesis unfolding e using loadLines_entry [OF assms(1,2)] assms(4) by (simp add: loadLines_append del: loadLines.simps)
qed

text \<open>
  Adding a key to an allowlist: for a file that does not exist yet, or one that
  loads and ends with a line end, \<open>AppendAllowlist\<close> leaves a file that loads with exactly the
  old entries in their order and the new one behind them, or the old ones alone if the key
  was listed already.
\<close>

lemma appended_key_is_trusted:
  assumes "label_ok label" "length pub = PublicKeySize"
    and "content = Inl NotExist \<and> es = [] \<or> (\<exists>t. content = Inr t \<and> (t = [] \<or> last t = LF) \<and> LoadAllowlist content = Inr es)"
  shows "\<exists>content'. AppendAllowlist True True None content label pub = (None, content') \<and>
    LoadAllowlist (if content' = Inl NotExist then Inr [] else content') =
      Inr (if \<exists>e \<in> set es. alPubKey e = pub then es else es @ [\<lparr>alLabel = label, alPubKey = pub\<rparr>])"
proof (cases "\<exists>e \<in> set es. alPubKey e = pub")
  case True
  then show ?thesis using assms(3) by (auto simp: AppendAllowlist_def)
next
  case False
  define old where "old = (case content of Inl _ \<Rightarrow> [] | Inr t \<Rightarrow> t)"
  define t where "t = (if old = [] then allow_header else old)"
  have "loadLines 1 (raw_lines t) = Inr es" "t = [] \<or> last t = LF"
    using assms(3) header_lines loadLines_comments [OF header_lines(1)]
    by (auto simp: t_def old_def LoadAllowlist_def raw_lines_def)
  then have "loadLines 1 (raw_lines (t @ label @ '' '' @ hex_encode pub @ [LF])) = Inr (es @ [\<lparr>alLabel = label, alPubKey = pub\<rparr>])"
    using appended_line_loads [OF assms(1,2)] by blast
  moreover have "AppendAllowlist True True None content label pub = (None, Inr (t @ label @ '' '' @ hex_encode pub @ [LF]))"
    using assms(3) False by (auto simp: AppendAllowlist_def LoadAllowlist_def t_def old_def Let_def split: sum.splits)
  ultimately show ?thesis using False by (simp add: LoadAllowlist_def)
qed

text \<open>
  On a file whose last line lacks its line end, the new entry is glued to that line: the key
  field of the line gets too long and the whole list no longer loads.
\<close>

lemma Fields_glued:
  assumes "list_all printable a" "a \<noteq> []" "list_all printable b" "b \<noteq> []" "list_all printable c" "c \<noteq> []"
  shows "Fields (a @ CHR '' '' # b @ CHR '' '' # c) = [a, b, c]"
proof -
  have "fields_from [] (b @ CHR '' '' # c) = [b, c]" using Fields_two [OF assms(3-6)] by (simp add: Fields_def)
  then show ?thesis
    using fields_from_printable [OF assms(1), of "[]" "CHR '' '' # b @ CHR '' '' # c"] assms(2) by (simp add: Fields_def fields_from_space)
qed

lemma unterminated_allowlist_breaks:
  assumes "label_ok l1" "length k1 = PublicKeySize" "label_ok l2" "length k2 = PublicKeySize" "k1 \<noteq> k2"
  shows "LoadAllowlist (Inr (entry_line l1 k1)) = Inr [\<lparr>alLabel = l1, alPubKey = k1\<rparr>]"
    and "\<exists>t. AppendAllowlist True True None (Inr (entry_line l1 k1)) l2 k2 = (None, Inr t) \<and>
      LoadAllowlist (Inr t) = Inl (AllowKey 1 (hex_encode k1 @ l2))"
proof -
  have k: "k1 \<noteq> []" "k2 \<noteq> []" using assms(2,4) by (auto simp: PublicKeySize_def)
  note sh1 = entry_line_shape [OF assms(1) k(1)]
  have "raw_lines (entry_line l1 k1) = [entry_line l1 k1]"
    using split_on_single [OF sh1(1)] sh1(6) by (simp add: raw_lines_def)
  then show l: "LoadAllowlist (Inr (entry_line l1 k1)) = Inr [\<lparr>alLabel = l1, alPubKey = k1\<rparr>]"
    using loadLines_entry [OF assms(1,2)] by (simp add: LoadAllowlist_def del: loadLines.simps)
  define g where "g = entry_line l1 k1 @ entry_line l2 k2"
  have pr: "list_all printable l1" "l1 \<noteq> []" "list_all printable (hex_encode k1 @ l2)" "hex_encode k1 @ l2 \<noteq> []"
      "list_all printable (hex_encode k2)" "hex_encode k2 \<noteq> []"
    using assms(1,3) k hex_printable by (auto simp: label_ok_def)
  have fg: "Fields g = [l1, hex_encode k1 @ l2, hex_encode k2]"
    using Fields_glued [OF pr] by (simp add: g_def entry_line_def)
  have hl: "printable (hd g)" "printable (last g)" "g \<noteq> []" "hd g \<noteq> CHR ''#''"
    using pr assms(1) by (auto simp: g_def entry_line_def list_all_iff label_ok_def)
  have g: "LF \<notin> set g" "drop_cr g = g" "TrimSpace g = g" "\<not> HasPrefix g ''#''" "length g < maxLine"
    using sh1(1) entry_line_shape(1) [OF assms(3) k(2)] hl TrimSpace_id [OF hl(3,1,2)] printable_not_LF assms
    by (auto simp: g_def drop_cr_def HasPrefix_def entry_line_def label_ok_def maxLine_def PublicKeySize_def neq_Nil_conv)
  have long: "hex_decode (hex_encode k1 @ l2) = Some raw \<Longrightarrow> length raw \<noteq> PublicKeySize" for raw
  proof -
    assume d: "hex_decode (hex_encode k1 @ l2) = Some raw"
    have "hex_decode x = Some r \<Longrightarrow> length x = 2 * length r" for x r
      by (induction x arbitrary: r rule: hex_decode.induct) (auto split: option.splits)
    from this [OF d] show ?thesis using assms(2,3) by (auto simp: PublicKeySize_def label_ok_def)
  qed
  have "loadLines 1 [g] = Inl (AllowKey 1 (hex_encode k1 @ l2))"
    using g fg hl(3) long by (auto simp: Let_def split: option.splits)
  moreover have "raw_lines (g @ [LF]) = [g]" using raw_lines_snoc [OF g(1), of "[]"] by (simp add: raw_lines_def)
  moreover have "AppendAllowlist True True None (Inr (entry_line l1 k1)) l2 k2 = (None, Inr (g @ [LF]))"
    using l assms(5) sh1(6) by (simp add: AppendAllowlist_def g_def entry_line_def)
  ultimately show "\<exists>t. AppendAllowlist True True None (Inr (entry_line l1 k1)) l2 k2 = (None, Inr t) \<and>
      LoadAllowlist (Inr t) = Inl (AllowKey 1 (hex_encode k1 @ l2))" by (simp add: LoadAllowlist_def del: loadLines.simps)
qed

section \<open>Signatures\<close>

lemma VerifySoulSignature_sound:
  assumes "VerifySoulSignature C K content sigfile allowlist = None"
  shows "\<exists>data e sig. content = Inr data \<and> e \<in> set allowlist \<and> ed_verify C (alPubKey e) (bytes_of data) sig"
proof -
  obtain data sigData ss pub sig e where d: "content = Inr data" "sigfile = Inr sigData" "so_unmarshal K sigData = Some ss"
      "hex_decode (ssSignerKey ss) = Some pub" "hex_decode (ssSignature ss) = Some sig"
      "ed_verify C pub (bytes_of data) sig" "e \<in> set allowlist" "hex_encode (alPubKey e) = ssSignerKey ss"
    using assms
    by (auto simp: VerifySoulSignature_def split: sum.splits read_error.splits option.splits if_splits)
  then have "alPubKey e = pub" by (metis hex_decode_encode option.inject)
  then show ?thesis using d by blast
qed

lemma SignSoul_verify_iff:
  assumes "signer_ok C s" "\<forall>x y. so_marshal K x = Some y \<longrightarrow> so_unmarshal K y = Some x"
    and "SignSoul K s now True (Inr data) old = (None, sigfile)"
  shows "VerifySoulSignature C K (Inr found) sigfile allowlist = None \<longleftrightarrow>
    (\<exists>e \<in> set allowlist. alPubKey e = sgPublicKey s) \<and>
    (\<exists>sig. sgSign s (bytes_of data) = Some sig \<and> ed_verify C (sgPublicKey s) (bytes_of found) sig)"
proof -
  obtain sig out where sg: "sgSign s (bytes_of data) = Some sig" "sigfile = Inr out"
      "so_marshal K \<lparr>ssAlgorithm = ''ed25519'', ssSignerKey = hex_encode (sgPublicKey s), ssSignature = hex_encode sig, ssSignedAt = now\<rparr> = Some out"
    using assms(3) by (auto simp: SignSoul_def split: option.splits)
  have "so_unmarshal K out = Some \<lparr>ssAlgorithm = ''ed25519'', ssSignerKey = hex_encode (sgPublicKey s), ssSignature = hex_encode sig, ssSignedAt = now\<rparr>"
    using assms(2) sg(3) by blast
  moreover have "length (sgPublicKey s) = PublicKeySize" "length sig = SignatureSize"
    using assms(1) sg(1) by (auto simp: signer_ok_def)
  ultimately show ?thesis using sg(1,2) by (auto simp: VerifySoulSignature_def)
qed

text \<open>
  The detached signature: after \<open>SignSoul\<close>, the file at the soul's path passes
  \<open>VerifySoulSignature\<close> exactly if the signer's key is on the allowlist and the signature
  that was made over the signed content verifies over the content found now. So the signed
  file itself passes under its signer's key, under no other list, and a changed file only
  passes if the old signature is valid for it as well.
\<close>

lemma soul_signature_exact:
  assumes "signer_ok C s" "\<forall>x y. so_marshal K x = Some y \<longrightarrow> so_unmarshal K y = Some x"
    and "SignSoul K s now True (Inr data) old = (None, sigfile)"
  shows "VerifySoulSignature C K (Inr found) sigfile allowlist = None \<longleftrightarrow>
    (\<exists>e \<in> set allowlist. alPubKey e = sgPublicKey s) \<and>
    (\<exists>sig. sgSign s (bytes_of data) = Some sig \<and> ed_verify C (sgPublicKey s) (bytes_of found) sig)"
  using assms by (rule SignSoul_verify_iff)

section \<open>Stamping the integrity hash\<close>

lemma split_after_not_Nil [simp]: "split_after s \<noteq> []"
  by (induction s) (auto split: list.splits)

lemma split_after_lines: "\<exists>qs. qs \<noteq> [] \<and> (\<forall>s. split_after (a @ LF # s) = qs @ split_after s)"
proof (induction a)
  case Nil
  show ?case by (intro exI [of _ "[[LF]]"]) (simp add: LF_def)
next
  case (Cons x a)
  then obtain q qs where q: "\<forall>s. split_after (a @ LF # s) = q # qs @ split_after s" by (metis append_Cons neq_Nil_conv)
  show ?case
  proof (cases "x = LF")
    case True
    then show ?thesis using q by (intro exI [of _ "[LF] # q # qs"]) (simp add: LF_def)
  next
    case False
    then show ?thesis using q by (intro exI [of _ "(x # q) # qs"]) (simp add: LF_def)
  qed
qed

lemma split_after_line: "LF \<notin> set l \<Longrightarrow> split_after (l @ LF # s) = (l @ [LF]) # split_after s"
  by (induction l) (auto simp: LF_def)

definition stamp_line :: "string \<Rightarrow> string" where
  "stamp_line h = ''soul_hash = '' @ [CHR 0x22] @ h @ [CHR 0x22, LF]"

lemma clear_stamp_line: "CHR 0x22 \<notin> set h \<Longrightarrow> clear_line (stamp_line h) = stamp_line []"
proof -
  assume h: "CHR 0x22 \<notin> set h"
  have "printable (CHR ''s'')" by (simp add: printable_def)
  have tl: "trim_left (stamp_line h) = stamp_line h"
    unfolding stamp_line_def using trim_left_id [OF \<open>printable (CHR ''s'')\<close>] by simp
  have "HasPrefix (trim_right (p @ r)) p" if "list_all printable p" for p r
    using that
  proof (induction p)
    case (Cons c p)
    then have "\<not> all_space (c # p @ r)" using all_space_not_printable [of "c # p @ r" c] by auto
    then show ?case using Cons by (simp add: HasPrefix_def)
  qed (simp add: HasPrefix_def)
  from this [of "''soul_hash''" "'' = '' @ [CHR 0x22] @ h @ [CHR 0x22, LF]"]
  have "HasPrefix (TrimSpace (stamp_line h)) ''soul_hash''"
    unfolding TrimSpace_def tl by (simp add: stamp_line_def printable_def)
  moreover have "dropWhile (\<lambda>c. c \<noteq> CHR 0x22) (h @ [CHR 0x22, LF]) = [CHR 0x22, LF]"
    using h by (induction h) auto
  ultimately show ?thesis by (simp add: clear_line_def stamp_line_def Let_def)
qed

text \<open>
  The hash of a soul file does not depend on the value stored in its \<open>soul_hash\<close> line, so a
  file can be stamped: with the hash of the unstamped file in that line, it verifies.
\<close>

lemma soul_hash_stable:
  assumes "CHR 0x22 \<notin> set h" "LF \<notin> set h" "pre = [] \<or> last pre = LF"
  shows "zeroSoulHash (pre @ stamp_line h @ post) = zeroSoulHash (pre @ stamp_line [] @ post)"
proof -
  define m where "m h = ''soul_hash = '' @ [CHR 0x22] @ h @ [CHR 0x22]" for h
  have st: "stamp_line h = m h @ [LF]" for h by (simp add: stamp_line_def m_def)
  obtain qs where qs: "split_after (pre @ s) = qs @ split_after s" for s
  proof (cases "pre = []")
    case True
    then show ?thesis using that [of "[]"] by simp
  next
    case False
    then obtain a where "pre = a @ [LF]" using assms(3) by (metis append_butlast_last_id)
    then show ?thesis using split_after_lines [of a] that by (metis append.assoc append_Cons append_Nil)
  qed
  have lines: "split_after (pre @ stamp_line x @ post) = qs @ stamp_line x # split_after post" if "LF \<notin> set x" for x
  proof -
    have "LF \<notin> set (m x)" using that by (simp add: m_def LF_def)
    from split_after_line [OF this, of post] have l: "split_after (stamp_line x @ post) = stamp_line x # split_after post"
      by (simp add: st)
    show ?thesis using qs [of "stamp_line x @ post"] l by simp
  qed
  show ?thesis
    using lines [OF assms(2)] lines [of "[]"] clear_stamp_line [OF assms(1)] clear_stamp_line [of "[]"]
    by (simp add: zeroSoulHash_def)
qed

lemma stamped_soul_verifies:
  assumes "pre = [] \<or> last pre = LF"
  shows "soul_verify C (pre @ stamp_line (hex_encode (sha256 C (bytes_of (zeroSoulHash (pre @ stamp_line [] @ post))))) @ post)
    (hex_encode (sha256 C (bytes_of (zeroSoulHash (pre @ stamp_line [] @ post)))))"
proof -
  have "CHR 0x22 \<notin> set (hex_encode b)" "LF \<notin> set (hex_encode b)" for b
  proof -
    have "fromHexChar (CHR 0x22) = None" by (simp add: fromHexChar_def)
    then have q: "CHR 0x22 \<noteq> hexdigit n" if "n < 16" for n
      using fromHexChar_hexdigit [OF that] by (metis option.distinct(1))
    show "CHR 0x22 \<notin> set (hex_encode b)"
      by (induction b) (simp_all add: q byte_nibble_bounds)
    show "LF \<notin> set (hex_encode b)" using hex_printable [of b] printable_not_LF by (auto simp: list_all_iff)
  qed
  from soul_hash_stable [OF this assms] show ?thesis by (simp add: soul_verify_def)
qed

section \<open>Witnesses\<close>

definition sample_soul_codec :: soul_codec where
  "sample_soul_codec =
     \<lparr>so_marshal = (\<lambda>x. Some (string_of (enc_string (ssAlgorithm x) @ enc_string (ssSignerKey x) @ enc_string (ssSignature x) @ enc_string (ssSignedAt x)))),
      so_unmarshal = (\<lambda>t. Option.bind (dec_string (bytes_of t)) (\<lambda>(a, r). Option.bind (dec_string r) (\<lambda>(k, r).
        Option.bind (dec_string r) (\<lambda>(g, r). Option.bind (dec_string r) (\<lambda>(n, r).
        Some \<lparr>ssAlgorithm = a, ssSignerKey = k, ssSignature = g, ssSignedAt = n\<rparr>)))))\<rparr>"

lemma bytes_of_string_of: "bytes_of (string_of b) = b"
proof -
  have "(of_char (char_of (unat x) :: char) :: byte) = x" for x
    using unsigned_less [of x, where 'a = nat] by (simp add: word_unat_eq_iff unat_of_char)
  then show ?thesis by (simp add: bytes_of_def string_of_def map_idI)
qed

lemma sample_soul_codec_ok: "\<forall>x y. so_marshal sample_soul_codec x = Some y \<longrightarrow> so_unmarshal sample_soul_codec y = Some x"
proof (intro allI impI)
  fix x :: soul_sig and y
  assume "so_marshal sample_soul_codec x = Some y"
  then have "bytes_of y = enc_string (ssAlgorithm x) @ enc_string (ssSignerKey x) @ enc_string (ssSignature x) @ enc_string (ssSignedAt x)"
    by (auto simp: sample_soul_codec_def bytes_of_string_of)
  then show "so_unmarshal sample_soul_codec y = Some x"
    using dec_enc_string [of "ssSignedAt x" "[]"] by (simp add: sample_soul_codec_def)
qed

lemma soul_signature_exact_witness:
  "\<exists>sigfile. SignSoul sample_soul_codec sample_signer ''t'' True (Inr ''soul'') (Inl NotExist) = (None, sigfile) \<and>
    VerifySoulSignature sample_env sample_soul_codec (Inr ''soul'') sigfile [\<lparr>alLabel = ''op'', alPubKey = replicate 32 5\<rparr>] = None \<and>
    VerifySoulSignature sample_env sample_soul_codec (Inr ''soul'') sigfile [] \<noteq> None"
proof -
  have sg: "sgSign sample_signer m = Some (replicate 64 5)" for m by (simp add: sample_signer_def)
  have "\<exists>out. so_marshal sample_soul_codec x = Some out" for x by (simp add: sample_soul_codec_def)
  then obtain out where "so_marshal sample_soul_codec \<lparr>ssAlgorithm = ''ed25519'', ssSignerKey = hex_encode (sgPublicKey sample_signer),
      ssSignature = hex_encode (replicate 64 5), ssSignedAt = ''t''\<rparr> = Some out" by blast
  then obtain sigfile where s: "SignSoul sample_soul_codec sample_signer ''t'' True (Inr ''soul'') (Inl NotExist) = (None, sigfile)"
    by (simp add: SignSoul_def sg del: hex_encode.simps)
  note ex = soul_signature_exact [OF sample_signer_ok sample_soul_codec_ok s, of "''soul''"]
  have "ed_verify sample_env (sgPublicKey sample_signer) (bytes_of ''soul'') (replicate 64 5)"
    by (simp add: sample_env_def sample_signer_def flip: replicate_add)
  moreover have "sgPublicKey sample_signer = replicate 32 5" by (simp add: sample_signer_def)
  ultimately show ?thesis using s sg ex [of "[]"] ex [of "[\<lparr>alLabel = ''op'', alPubKey = replicate 32 5\<rparr>]"]
    by auto
qed

lemma appended_key_is_trusted_witness:
  "\<exists>content'. AppendAllowlist True True None (Inl NotExist) ''op'' (replicate 32 5) = (None, content') \<and>
    LoadAllowlist (if content' = Inl NotExist then Inr [] else content') = Inr [\<lparr>alLabel = ''op'', alPubKey = replicate 32 5\<rparr>]"
  using appended_key_is_trusted [of "''op''" "replicate 32 5" "Inl NotExist" "[]"]
  by (simp add: label_ok_def printable_def PublicKeySize_def)

end
