(* ===== verification/Mirror.thy ===== *)
theory Mirror
  imports Soul
begin

text \<open>
  The transparency mirror (\<open>internal/mirror\<close>): the contract of a backend, the file backend,
  the HTTP backend with its retries and the S3 backend, and the audit of the log against a
  mirrored head (\<open>cmd/witness/audit.go\<close>, \<open>verifier_flags.go\<close>). An HTTP server is the
  function of its state and a request that it is; it decides every reply.
\<close>

section \<open>The contract of a backend\<close>

text \<open>
  \<open>push\<close> gets what the environment does in the call, the remote state and the head. The
  interface promises that a push is atomic and, when it reports success, visible.
\<close>

locale mirror_backend =
  fixes push :: "'i \<Rightarrow> 's \<Rightarrow> bytes \<Rightarrow> 'e option \<times> 's"
    and fetch :: "'s \<Rightarrow> bytes option"
  assumes visible: "push io s b = (None, s') \<Longrightarrow> fetch s' = Some b"
    and atomic: "push io s b = (Some e, s') \<Longrightarrow> fetch s' = fetch s"
begin

fun pushes :: "('i \<times> bytes) list \<Rightarrow> 's \<Rightarrow> 's" where
  "pushes [] s = s"
| "pushes ((io, b) # ps) s = pushes ps (snd (push io s b))"

lemma fetch_pushed: "fetch (snd (push io s b)) = (if fst (push io s b) = None then Some b else fetch s)"
  using visible atomic by (cases "push io s b"; cases "fst (push io s b)") auto

text \<open>A fetch returns what was there before or one of the heads pushed, whole.\<close>

lemma fetch_cases: "fetch (pushes ps s) = fetch s \<or> (\<exists>io b. (io, b) \<in> set ps \<and> fetch (pushes ps s) = Some b)"
proof (induction ps arbitrary: s)
  case (Cons p ps)
  obtain io b where p: "p = (io, b)" by (cases p)
  have "fetch (snd (push io s b)) = fetch s \<or> fetch (snd (push io s b)) = Some b" by (simp add: fetch_pushed)
  then show ?case using Cons.IH [of "snd (push io s b)"] by (auto simp: p)
qed simp

end

section \<open>File backend\<close>

record mirror_dir =
  mdTmp :: "bytes option"
  mdHead :: "bytes option"

text \<open>A failed write leaves the temporary file as it was, or with some of the bytes.\<close>

datatype file_push = FileOk | FileWriteFails "nat option" | FileRenameFails

datatype file_error = MirrorWrite | MirrorRename

definition file_Push :: "file_push \<Rightarrow> mirror_dir \<Rightarrow> bytes \<Rightarrow> file_error option \<times> mirror_dir" where
  "file_Push io d data =
     (case io of
        FileWriteFails k \<Rightarrow> (Some MirrorWrite, case k of None \<Rightarrow> d | Some n \<Rightarrow> d\<lparr>mdTmp := Some (take n data)\<rparr>)
      | FileRenameFails \<Rightarrow> (Some MirrorRename, d\<lparr>mdTmp := None\<rparr>)
      | FileOk \<Rightarrow> (None, d\<lparr>mdTmp := None, mdHead := Some data\<rparr>))"

definition file_Fetch :: "mirror_dir \<Rightarrow> bytes option" where
  "file_Fetch d = mdHead d"

interpretation fb: mirror_backend file_Push file_Fetch
  by unfold_locales (auto simp: file_Push_def file_Fetch_def split: file_push.splits option.splits)

section \<open>HTTP backend\<close>

datatype http_method = HEAD | GET | PUT

record http_request =
  hqMethod :: http_method
  hqURL :: string
  hqIfMatch :: string
  hqAuth :: string
  hqBody :: bytes

datatype http_reply = NetError | Reply nat string bytes

type_synonym 's server = "'s \<Rightarrow> http_request \<Rightarrow> 's \<times> http_reply"

record http_backend =
  hbBase :: string
  hbToken :: string

definition newHTTPBackend :: "string \<Rightarrow> string \<Rightarrow> http_backend" where
  "newHTTPBackend token base = \<lparr>hbBase = rev (dropWhile (\<lambda>c. c = CHR ''/'') (rev base)), hbToken = token\<rparr>"

definition setAuth :: "http_backend \<Rightarrow> string" where
  "setAuth b = (if hbToken b = [] then [] else ''Bearer '' @ hbToken b)"

definition http_req :: "http_backend \<Rightarrow> http_method \<Rightarrow> string \<Rightarrow> bytes \<Rightarrow> http_request" where
  "http_req b m etag body =
     \<lparr>hqMethod = m, hqURL = hbBase b @ ''/tree-head.json'', hqIfMatch = etag, hqAuth = setAuth b, hqBody = body\<rparr>"

datatype put_error = PutNet | PreconditionFailed | ClientErr nat

definition isPreconditionFailed :: "put_error \<Rightarrow> bool" where
  "isPreconditionFailed e \<longleftrightarrow> e = PreconditionFailed"

definition isClientError :: "put_error \<Rightarrow> bool" where
  "isClientError e = (case e of ClientErr code \<Rightarrow> 400 \<le> code \<and> code < 500 \<and> code \<noteq> 412 | _ \<Rightarrow> False)"

definition doPut :: "'s server \<Rightarrow> http_backend \<Rightarrow> 's \<Rightarrow> bytes \<Rightarrow> string \<Rightarrow> 's \<times> put_error option" where
  "doPut srv b s data etag =
     (case srv s (http_req b PUT etag data) of
        (s', NetError) \<Rightarrow> (s', Some PutNet)
      | (s', Reply code tag body) \<Rightarrow>
          if code = 412 then (s', Some PreconditionFailed)
          else if 300 \<le> code then (s', Some (ClientErr code))
          else (s', None))"

definition fetchETag :: "'s server \<Rightarrow> http_backend \<Rightarrow> 's \<Rightarrow> 's \<times> string" where
  "fetchETag srv b s =
     (case srv s (http_req b HEAD [] []) of
        (s', NetError) \<Rightarrow> (s', [])
      | (s', Reply code tag body) \<Rightarrow> if code \<noteq> 200 then (s', []) else (s', tag))"

definition maxPushRetries :: nat where
  "maxPushRetries = 3"

datatype push_error = Rejected put_error | RetriesUsed put_error

fun pushLoop ::
  "'s server \<Rightarrow> http_backend \<Rightarrow> bytes \<Rightarrow> nat \<Rightarrow> string \<Rightarrow> put_error option \<Rightarrow> 's \<Rightarrow> 's \<times> push_error option" where
  "pushLoop srv b data 0 etag lastErr s = (s, map_option RetriesUsed lastErr)"
| "pushLoop srv b data (Suc n) etag lastErr s =
     (case doPut srv b s data etag of
        (s1, None) \<Rightarrow> (s1, None)
      | (s1, Some err) \<Rightarrow>
          if isPreconditionFailed err then
            (case fetchETag srv b s1 of (s2, etag') \<Rightarrow> pushLoop srv b data n etag' lastErr s2)
          else if isClientError err then (s1, Some (Rejected err))
          else pushLoop srv b data n etag (Some err) s1)"

definition http_Push :: "'s server \<Rightarrow> http_backend \<Rightarrow> 's \<Rightarrow> bytes \<Rightarrow> 's \<times> push_error option" where
  "http_Push srv b s data =
     (case fetchETag srv b s of (s1, etag) \<Rightarrow> pushLoop srv b data maxPushRetries etag None s1)"

datatype fetch_error = FetchNet | FetchStatus nat

definition http_Fetch :: "'s server \<Rightarrow> http_backend \<Rightarrow> 's \<Rightarrow> 's \<times> (fetch_error + bytes)" where
  "http_Fetch srv b s =
     (case srv s (http_req b GET [] []) of
        (s', NetError) \<Rightarrow> (s', Inl FetchNet)
      | (s', Reply code tag body) \<Rightarrow>
          if code \<noteq> 200 then (s', Inl (FetchStatus code)) else (s', Inr (take (2 ^ 16) body)))"

section \<open>S3 backend\<close>

text \<open>The keyed hash HMAC-SHA-256 of the standard library and \<open>url.QueryEscape\<close>.\<close>

record s3_backend =
  s3Bucket :: string
  s3Key :: string
  s3Endpoint :: string
  s3Host :: string
  s3Region :: string
  s3AccessID :: string
  s3Secret :: string

datatype s3_error = S3URL | S3Credentials | S3EndpointURL

definition getenv :: "(string \<times> string) list \<Rightarrow> string \<Rightarrow> string" where
  "getenv vars name = (case map_of vars name of None \<Rightarrow> [] | Some v \<Rightarrow> v)"

text \<open>\<open>parse\<close> is \<open>url.Parse\<close>: host and path of a URL, or an error.\<close>

definition newS3Backend ::
  "(string \<Rightarrow> (string \<times> string) option) \<Rightarrow> (string \<times> string) list \<Rightarrow> string \<Rightarrow> s3_error + s3_backend" where
  "newS3Backend parse vars rawURL =
     (case parse rawURL of
        None \<Rightarrow> Inl S3URL
      | Some (bucket, path) \<Rightarrow>
          (let pre = TrimPrefix (TrimSuffix path ''/'') ''/'';
               key = (if pre \<noteq> [] then pre @ ''/'' @ ''tree-head.json'' else ''tree-head.json'');
               region1 = getenv vars ''AWS_DEFAULT_REGION'';
               region2 = (if region1 = [] then getenv vars ''AWS_REGION'' else region1);
               region = (if region2 = [] then ''us-east-1'' else region2);
               accessID = getenv vars ''AWS_ACCESS_KEY_ID'';
               secret = getenv vars ''AWS_SECRET_ACCESS_KEY''
           in if accessID = [] \<or> secret = [] then Inl S3Credentials
              else
                let endpoint1 = rev (dropWhile (\<lambda>c. c = CHR ''/'') (rev (getenv vars ''AWS_ENDPOINT_URL'')));
                    endpoint = (if endpoint1 = [] then ''https://s3.'' @ region @ ''.amazonaws.com'' else endpoint1)
                in case parse endpoint of
                     None \<Rightarrow> Inl S3EndpointURL
                   | Some (host, _) \<Rightarrow>
                       Inr \<lparr>s3Bucket = bucket, s3Key = key, s3Endpoint = endpoint, s3Host = host, s3Region = region,
                            s3AccessID = accessID, s3Secret = secret\<rparr>))"

definition objectURL :: "s3_backend \<Rightarrow> string" where
  "objectURL b = s3Endpoint b @ ''/'' @ s3Bucket b @ ''/'' @ s3Key b"

definition hexSHA256 :: "env \<Rightarrow> bytes \<Rightarrow> string" where
  "hexSHA256 C data = hex_encode (sha256 C data)"

definition s3Service :: string where "s3Service = ''s3''"

definition s3DeriveKey :: "(bytes \<Rightarrow> bytes \<Rightarrow> bytes) \<Rightarrow> string \<Rightarrow> string \<Rightarrow> string \<Rightarrow> bytes" where
  "s3DeriveKey hmac secret date region =
     (let k1 = hmac (bytes_of (''AWS4'' @ secret)) (bytes_of date);
          k2 = hmac k1 (bytes_of region);
          k3 = hmac k2 (bytes_of s3Service)
      in hmac k3 (bytes_of ''aws4_request''))"

definition unreserved :: "char \<Rightarrow> bool" where
  "unreserved c \<longleftrightarrow>
     (let n = of_char c :: nat in
      (48 \<le> n \<and> n \<le> 57) \<or> (65 \<le> n \<and> n \<le> 90) \<or> (97 \<le> n \<and> n \<le> 122) \<or> c \<in> set ''-_.~'')"

definition upperhex :: string where
  "upperhex = ''0123456789ABCDEF''"

definition escape_char :: "char \<Rightarrow> string" where
  "escape_char c =
     (if unreserved c then [c]
      else if c = CHR '' '' then ''+''
      else let n = of_char c :: nat in [CHR ''%'', upperhex ! (n div 16), upperhex ! (n mod 16)])"

definition QueryEscape :: "string \<Rightarrow> string" where
  "QueryEscape s = concat (map escape_char s)"

definition s3CanonPath :: "string \<Rightarrow> string" where
  "s3CanonPath key =
     join_with ''/'' (map (\<lambda>p. concat (map (\<lambda>c. if c = CHR ''+'' then ''%20'' else [c]) (QueryEscape p)))
       (split_on (CHR ''/'') key))"

text \<open>
  \<open>sigV4\<close>: the Authorization header; the two texts of the current time are arguments. The
  map of headers is sorted by name, so the header with the content type comes first.
\<close>

definition canonHeaders :: "s3_backend \<Rightarrow> string \<Rightarrow> string \<Rightarrow> string \<Rightarrow> (string \<times> string) list" where
  "canonHeaders b ct payHash datetime =
     (if ct = [] then [] else [(''content-type'', ct)]) @
     [(''host'', s3Host b), (''x-amz-content-sha256'', payHash), (''x-amz-date'', datetime)]"

definition sigV4 ::
  "env \<Rightarrow> (bytes \<Rightarrow> bytes \<Rightarrow> bytes) \<Rightarrow> string \<Rightarrow> string \<Rightarrow> s3_backend \<Rightarrow> string \<Rightarrow> string \<Rightarrow> string \<Rightarrow> string" where
  "sigV4 C hmac date datetime b verb ct payHash =
     (let hdrs = canonHeaders b ct payHash datetime;
          canHdr = concat (map (\<lambda>(k, v). k @ '':'' @ v @ [LF]) hdrs);
          signedHdrs = join_with '';'' (map fst hdrs);
          canURI = ''/'' @ s3Bucket b @ ''/'' @ s3CanonPath (s3Key b);
          canReq = join_with [LF] [verb, canURI, [], canHdr, signedHdrs, payHash];
          credScope = join_with ''/'' [date, s3Region b, s3Service, ''aws4_request''];
          toSign = join_with [LF] [''AWS4-HMAC-SHA256'', datetime, credScope, hexSHA256 C (bytes_of canReq)];
          sig = hex_encode (hmac (s3DeriveKey hmac (s3Secret b) date (s3Region b)) (bytes_of toSign))
      in ''AWS4-HMAC-SHA256 Credential='' @ s3AccessID b @ ''/'' @ credScope @ '', SignedHeaders='' @ signedHdrs @
         '', Signature='' @ sig)"

text \<open>One attempt to store the object, and the retries; a reply other than 200, 201, 204 is an error.\<close>

definition s3_doPut ::
  "env \<Rightarrow> (bytes \<Rightarrow> bytes \<Rightarrow> bytes) \<Rightarrow> string \<Rightarrow> string \<Rightarrow> 's server \<Rightarrow> s3_backend \<Rightarrow> 's \<Rightarrow> bytes \<Rightarrow> 's \<times> put_error option" where
  "s3_doPut C hmac date datetime srv b s body =
     (let auth = sigV4 C hmac date datetime b ''PUT'' ''application/json'' (hexSHA256 C body) in
      case srv s \<lparr>hqMethod = PUT, hqURL = objectURL b, hqIfMatch = [], hqAuth = auth, hqBody = body\<rparr> of
        (s', NetError) \<Rightarrow> (s', Some PutNet)
      | (s', Reply code tag rb) \<Rightarrow>
          if code \<noteq> 200 \<and> code \<noteq> 201 \<and> code \<noteq> 204 then (s', Some (ClientErr code)) else (s', None))"

fun s3_pushLoop ::
  "('s \<Rightarrow> 's \<times> put_error option) \<Rightarrow> nat \<Rightarrow> put_error option \<Rightarrow> 's \<Rightarrow> 's \<times> push_error option" where
  "s3_pushLoop put 0 lastErr s = (s, map_option RetriesUsed lastErr)"
| "s3_pushLoop put (Suc n) lastErr s =
     (case put s of (s1, Some err) \<Rightarrow> s3_pushLoop put n (Some err) s1 | (s1, None) \<Rightarrow> (s1, None))"

definition s3_Push ::
  "env \<Rightarrow> (bytes \<Rightarrow> bytes \<Rightarrow> bytes) \<Rightarrow> string \<Rightarrow> string \<Rightarrow> 's server \<Rightarrow> s3_backend \<Rightarrow> 's \<Rightarrow> bytes \<Rightarrow> 's \<times> push_error option" where
  "s3_Push C hmac date datetime srv b s data =
     s3_pushLoop (\<lambda>s. s3_doPut C hmac date datetime srv b s data) maxPushRetries None s"

definition emptyPayloadHash :: string where
  "emptyPayloadHash = ''e3b0c44298fc1c149afbf4c8996fb92427ae41e4649b934ca495991b7852b855''"

definition s3_Fetch ::
  "env \<Rightarrow> (bytes \<Rightarrow> bytes \<Rightarrow> bytes) \<Rightarrow> string \<Rightarrow> string \<Rightarrow> 's server \<Rightarrow> s3_backend \<Rightarrow> 's \<Rightarrow> 's \<times> (fetch_error + bytes)" where
  "s3_Fetch C hmac date datetime srv b s =
     (let auth = sigV4 C hmac date datetime b ''GET'' [] emptyPayloadHash in
      case srv s \<lparr>hqMethod = GET, hqURL = objectURL b, hqIfMatch = [], hqAuth = auth, hqBody = []\<rparr> of
        (s', NetError) \<Rightarrow> (s', Inl FetchNet)
      | (s', Reply code tag body) \<Rightarrow>
          if code \<noteq> 200 then (s', Inl (FetchStatus code)) else (s', Inr (take (2 ^ 16) body)))"

section \<open>Opening a mirror\<close>

text \<open>
  \<open>mirror.Open\<close>: \<open>parse\<close> is \<open>url.Parse\<close> with scheme, host and path; \<open>mkdir\<close> says for which
  directories \<open>MkdirAll\<close> succeeds. A scheme is ASCII, and the code lowers it.
\<close>

datatype mirror = FileMirror string | HTTPMirror http_backend | S3Mirror s3_backend

datatype mirror_error = MirrorURL | MirrorDir string | MirrorS3 s3_error | MirrorScheme string

definition lower_scheme :: "string \<Rightarrow> string" where
  "lower_scheme s = map (\<lambda>c. let n = of_char c :: nat in if 65 \<le> n \<and> n \<le> 90 then char_of (n + 32) else c) s"

definition newFileBackend :: "(string \<Rightarrow> bool) \<Rightarrow> string \<Rightarrow> mirror_error + mirror" where
  "newFileBackend mkdir dir = (if mkdir dir then Inr (FileMirror dir) else Inl (MirrorDir dir))"

definition mirror_Open ::
  "(string \<Rightarrow> (string \<times> string \<times> string) option) \<Rightarrow> (string \<Rightarrow> bool) \<Rightarrow> (string \<times> string) list \<Rightarrow> string \<Rightarrow> mirror_error + mirror" where
  "mirror_Open parse mkdir vars rawURL =
     (case parse rawURL of
        None \<Rightarrow> Inl MirrorURL
      | Some (scheme, host, path) \<Rightarrow>
          (let sc = lower_scheme scheme in
           if sc = ''file'' then newFileBackend mkdir path
           else if sc = ''http'' \<or> sc = ''https'' then Inr (HTTPMirror (newHTTPBackend (getenv vars ''WITNESS_MIRROR_TOKEN'') rawURL))
           else if sc = ''s3'' then
             (case newS3Backend (\<lambda>u. map_option snd (parse u)) vars rawURL of
                Inl e \<Rightarrow> Inl (MirrorS3 e) | Inr b \<Rightarrow> Inr (S3Mirror b))
           else Inl (MirrorScheme scheme)))"

section \<open>Audit\<close>

text \<open>\<open>strconv.ParseUint(s, 10, 64)\<close>.\<close>

fun parse_digits :: "nat \<Rightarrow> string \<Rightarrow> nat option" where
  "parse_digits acc [] = Some acc"
| "parse_digits acc (c # cs) =
     (let n = of_char c :: nat in
      if 48 \<le> n \<and> n \<le> 57 \<and> acc * 10 + (n - 48) < 2 ^ 64 then parse_digits (acc * 10 + (n - 48)) cs else None)"

definition ParseUint :: "string \<Rightarrow> u64 option" where
  "ParseUint s = (if s = [] then None else map_option word_of_nat (parse_digits 0 s))"

text \<open>\<open>strings.Cut(s, "=")\<close>.\<close>

definition strings_Cut :: "char \<Rightarrow> string \<Rightarrow> string \<times> string \<times> bool" where
  "strings_Cut c s =
     (let a = takeWhile (\<lambda>x. x \<noteq> c) s; r = dropWhile (\<lambda>x. x \<noteq> c) s in
      if r = [] then (s, [], False) else (a, tl r, True))"

datatype flag_fault = FlagValue string | FlagPubkey | FlagPubkeyFile allow_error | FlagNoKeys | FlagUnknown string | FlagLag

text \<open>\<open>parseVerifierPins\<close>: \<open>files\<close> gives the content of the files named on the command line.\<close>

function pinLoop ::
  "(string \<Rightarrow> file_text) \<Rightarrow> string list \<Rightarrow> bytes list \<Rightarrow> string list \<Rightarrow> bool \<Rightarrow> flag_fault + (bytes list \<times> string list \<times> bool)" where
  "pinLoop files [] pins rest requested = Inr (pins, rest, requested)"
| "pinLoop files (a # as) pins rest requested =
     (let (name, value, equal) = strings_Cut (CHR ''='') a in
      if name \<noteq> ''--pubkey'' \<and> name \<noteq> ''--pubkey-file'' then pinLoop files as pins (rest @ [a]) requested
      else if \<not> equal \<and> as = [] then Inl (FlagValue name)
      else
        let v = (if equal then value else hd as); as' = (if equal then as else tl as) in
        if name = ''--pubkey'' then
          (case hex_decode v of
             None \<Rightarrow> Inl FlagPubkey
           | Some raw \<Rightarrow>
               if length raw \<noteq> PublicKeySize then Inl FlagPubkey
               else pinLoop files as' (pins @ [raw]) rest True)
        else
          (case LoadAllowlist (files v) of
             Inl e \<Rightarrow> Inl (FlagPubkeyFile e)
           | Inr es \<Rightarrow> pinLoop files as' (pins @ map alPubKey es) rest True))"
  by pat_completeness auto
termination
  by (relation "measure (\<lambda>(f, as, p, r, q). length as)") (auto split: if_splits)

definition parseVerifierPins :: "(string \<Rightarrow> file_text) \<Rightarrow> string list \<Rightarrow> flag_fault + (bytes list \<times> string list)" where
  "parseVerifierPins files args =
     (case pinLoop files args [] [] False of
        Inl e \<Rightarrow> Inl e
      | Inr (pins, rest, requested) \<Rightarrow> if requested \<and> pins = [] then Inl FlagNoKeys else Inr (pins, rest))"

definition defaultMaxLag :: u64 where
  "defaultMaxLag = 10"

function parseMaxLag :: "string list \<Rightarrow> u64 \<Rightarrow> flag_fault + u64" where
  "parseMaxLag [] lag = Inr lag"
| "parseMaxLag (a # as) lag =
     (let (name, value, equal) = strings_Cut (CHR ''='') a in
      if name \<noteq> ''--max-lag'' then Inl (FlagUnknown a)
      else if \<not> equal \<and> as = [] then Inl (FlagValue ''--max-lag'')
      else
        (case ParseUint (if equal then value else hd as) of
           None \<Rightarrow> Inl FlagLag
         | Some v \<Rightarrow> parseMaxLag (if equal then as else tl as) v))"
  by pat_completeness auto
termination
  by (relation "measure (\<lambda>(as, l). length as)") (auto split: if_splits)

text \<open>The comparison of \<open>cmdAudit\<close>: the exit code, and whether it warns of a chain discontinuity.\<close>

definition auditHeads :: "env \<Rightarrow> store \<Rightarrow> string \<Rightarrow> tree_head \<Rightarrow> u64 \<Rightarrow> nat \<times> bool" where
  "auditHeads C st now remote maxLag =
     (let local = Head C st now in
      if thSize local < thSize remote then (1, False)
      else if thSize remote = thSize local then
        (if thRoot local \<noteq> thRoot remote then (1, False)
         else (0, thPrevRoot remote \<noteq> [] \<and> thPrevRoot local \<noteq> [] \<and> thPrevRoot remote \<noteq> thPrevRoot local))
      else
        (case RootAt C st (thSize remote) of
           Inl _ \<Rightarrow> (1, False)
         | Inr root \<Rightarrow>
             if root \<noteq> thRoot remote then (1, False)
             else let lag = thSize local - thSize remote in
               if 0 < maxLag \<and> maxLag < lag then (2, False) else (0, False)))"

datatype audit_outcome = AuditFatal | AuditExit nat

text \<open>\<open>cmdAudit\<close>: \<open>url\<close> is the configured mirror, \<open>opened\<close> whether it opens, \<open>vs\<close> the views of the
  log the read-only open gets, \<open>raw1\<close> and \<open>raw2\<close> the two attempts to fetch.\<close>

definition cmdAudit ::
  "env \<Rightarrow> (string \<Rightarrow> file_text) \<Rightarrow> string list \<Rightarrow> string \<Rightarrow> bool \<Rightarrow> bytes \<Rightarrow> (nat \<Rightarrow> view) \<Rightarrow> bytes option \<Rightarrow> bytes option \<Rightarrow> string
     \<Rightarrow> audit_outcome" where
  "cmdAudit C files args url opened key vs raw1 raw2 now =
     (case parseVerifierPins files args of
        Inl _ \<Rightarrow> AuditFatal
      | Inr (pins, rest) \<Rightarrow>
          (case parseMaxLag rest defaultMaxLag of
             Inl _ \<Rightarrow> AuditFatal
           | Inr maxLag \<Rightarrow>
               if url = [] then AuditFatal
               else if \<not> opened then AuditExit 2
               else (case OpenPinned C vs key pins of
                   Inl _ \<Rightarrow> AuditFatal
                 | Inr st \<Rightarrow>
                     (case (case raw1 of Some r \<Rightarrow> Some r | None \<Rightarrow> raw2) of
                        None \<Rightarrow> AuditExit 2
                      | Some raw \<Rightarrow>
                          (case unmarshal_head C raw of
                             None \<Rightarrow> AuditExit 2
                           | Some remote \<Rightarrow> AuditExit (fst (auditHeads C st now remote maxLag)))))))"

section \<open>What the audit detects\<close>

definition head_of :: "env \<Rightarrow> entry list \<Rightarrow> tree_head \<Rightarrow> bool" where
  "head_of C es h \<longleftrightarrow>
     thSize h = word_of_nat (length es) \<and> thRoot h = hex_encode (Root (blake3 C) (map (leafHash C) es))"

lemma same_root_same_records:
  assumes "Root (blake3 C) (map (leafHash C) es) = Root (blake3 C) (map (leafHash C) es')" "logs_collision_free C es es'"
  shows "map (rec_bytes C) es = map (rec_bytes C) es'"
  using assms log_root_binding [of "blake3 C" "map (rec_bytes C) es" "map (rec_bytes C) es'"]
  unfolding Root_def map_leafHash_rec logs_collision_free_def Let_def by blast

lemma auditHeads_prefix:
  assumes "stLeaves st = map (leafHash C) es" "head_of C es0 remote" "length es < 2 ^ 63" "length es0 < 2 ^ 63"
  shows "fst (auditHeads C st now remote maxLag) =
    (if length es < length es0 \<or> Root (blake3 C) (map (leafHash C) (take (length es0) es)) \<noteq> Root (blake3 C) (map (leafHash C) es0) then 1
     else if 0 < maxLag \<and> unat maxLag < length es - length es0 then 2 else 0)"
proof -
  have un: "unat (word_of_nat (length es) :: u64) = length es" "unat (word_of_nat (length es0) :: u64) = length es0"
    using assms(3,4) by (simp_all add: unat_word64)
  have lt: "(word_of_nat (length es) :: u64) < word_of_nat (length es0) \<longleftrightarrow> length es < length es0"
    "(word_of_nat (length es0) :: u64) = word_of_nat (length es) \<longleftrightarrow> length es0 = length es"
    by (simp_all add: word_less_nat_alt word_unat_eq_iff un)
  have sub: "unat ((word_of_nat (length es) :: u64) - word_of_nat (length es0)) = length es - length es0" if "length es0 \<le> length es"
    using that un by (simp add: unat_sub word_le_nat_alt)
  consider "length es < length es0" | "length es0 = length es" | "length es0 < length es" by linarith
  then show ?thesis
  proof cases
    case 1
    then show ?thesis using assms(1,2) lt by (simp add: auditHeads_def Head_def head_of_def Let_def)
  next
    case 2
    then show ?thesis using assms(1,2) lt by (simp add: auditHeads_def Head_def head_of_def Let_def)
  next
    case 3
    then have "\<not> (word_of_nat (length es) :: u64) < word_of_nat (length es0)" using lt by simp
    moreover have "maxLag < (word_of_nat (length es) :: u64) - word_of_nat (length es0) \<longleftrightarrow> unat maxLag < length es - length es0"
      using sub 3 by (simp add: word_less_nat_alt)
    ultimately show ?thesis using 3 assms(1,2) lt un
      by (simp add: auditHeads_def Head_def head_of_def Let_def RootAt_def take_map)
  qed
qed

text \<open>Equal roots at the mirrored size are the same records, so the exit code tells prefixes apart.\<close>

lemma audit_exit_code:
  assumes "stLeaves st = map (leafHash C) es" "head_of C es0 remote" "length es < 2 ^ 63" "length es0 < 2 ^ 63"
    and "logs_collision_free C (take (length es0) es) es0"
  shows "fst (auditHeads C st now remote maxLag) =
    (if \<not> prefix (map (rec_bytes C) es0) (map (rec_bytes C) es) then 1
     else if 0 < maxLag \<and> unat maxLag < length es - length es0 then 2 else 0)"
proof -
  have "length es < length es0 \<or> Root (blake3 C) (map (leafHash C) (take (length es0) es)) \<noteq> Root (blake3 C) (map (leafHash C) es0)
      \<longleftrightarrow> \<not> prefix (map (rec_bytes C) es0) (map (rec_bytes C) es)"
  proof
    assume l: "length es < length es0 \<or> Root (blake3 C) (map (leafHash C) (take (length es0) es)) \<noteq> Root (blake3 C) (map (leafHash C) es0)"
    show "\<not> prefix (map (rec_bytes C) es0) (map (rec_bytes C) es)"
    proof
      assume p: "prefix (map (rec_bytes C) es0) (map (rec_bytes C) es)"
      then have "length es0 \<le> length es" using prefix_length_le by fastforce
      moreover have "map (rec_bytes C) (take (length es0) es) = map (rec_bytes C) es0"
        using p by (metis append_eq_conv_conj length_map prefix_def take_map)
      ultimately show False using l by (simp add: map_leafHash_rec)
    qed
  next
    assume n: "\<not> prefix (map (rec_bytes C) es0) (map (rec_bytes C) es)"
    show "length es < length es0 \<or> Root (blake3 C) (map (leafHash C) (take (length es0) es)) \<noteq> Root (blake3 C) (map (leafHash C) es0)"
    proof (rule ccontr)
      assume "\<not> ?thesis"
      then have "map (rec_bytes C) (take (length es0) es) = map (rec_bytes C) es0"
        using same_root_same_records [OF _ assms(5)] by blast
      then show False using n by (metis take_is_prefix take_map)
    qed
  qed
  then show ?thesis by (simp only: auditHeads_prefix [OF assms(1-4)])
qed

text \<open>
  Property C8. The audit against a head that once left the machine: if the mirror holds the
  head of an earlier log, the comparison of \<open>cmdAudit\<close> exits with 1 exactly if the records of
  that log are no longer the first records of the local log, barring a hash collision: a
  truncated log, a rewritten record and a record rewritten under new ones on top are all
  caught, whoever signed the new head; and an honest log never fails. Otherwise the exit
  code is 2 or 0 as the mirror lags beyond the tolerance or not.
\<close>

theorem audit_detects_rewrite:
  assumes "stLeaves st = map (leafHash C) es" "head_of C es0 remote" "length es < 2 ^ 63" "length es0 < 2 ^ 63"
    and "logs_collision_free C (take (length es0) es) es0"
  shows "fst (auditHeads C st now remote maxLag) =
    (if \<not> prefix (map (rec_bytes C) es0) (map (rec_bytes C) es) then 1
     else if 0 < maxLag \<and> unat maxLag < length es - length es0 then 2 else 0)"
  by (rule audit_exit_code [OF assms])

text \<open>The check of \<open>prev_root\<close> never warns: the local head always has an empty \<open>prev_root\<close>.\<close>

lemma chain_check_dead: "\<not> snd (auditHeads C st now remote maxLag)"
  by (simp add: auditHeads_def Head_def Let_def split: sum.splits)

section \<open>The HTTP backend against the contract\<close>

text \<open>
  A server that answers every conditional write with 412 keeps its old head, and yet three
  rounds of 412 end in success: the backend does not keep the contract.
\<close>

lemma push_reports_false_success:
  assumes "\<And>s r. srv s r = (s, if hqMethod r = PUT then Reply 412 [] [] else Reply 200 tag body)"
  shows "http_Push srv b s data = (s, None)"
    and "http_Fetch srv b s = (s, Inr (take (2 ^ 16) body))"
  by (simp_all add: http_Push_def fetchETag_def assms http_req_def maxPushRetries_def numeral_3_eq_3 doPut_def
      isPreconditionFailed_def http_Fetch_def)

text \<open>A push gives up after at most three writes.\<close>

fun puts :: "(nat \<times> 's) server \<Rightarrow> bool" where
  "puts srv = (\<forall>n s r. fst (fst (srv (n, s) r)) = (if hqMethod r = PUT then Suc n else n))"

lemma pushLoop_bounded:
  assumes "puts srv"
  shows "fst (fst (pushLoop srv b data k etag lastErr (n, s))) \<le> n + k"
proof (induction k arbitrary: etag lastErr n s)
  case (Suc k)
  obtain n1 s1 e where d: "doPut srv b (n, s) data etag = ((n1, s1), e)" by (metis prod.exhaust)
  have n1: "n1 = Suc n"
    using assms d by (auto simp: doPut_def http_req_def split: prod.splits http_reply.splits if_splits) (metis fst_conv http_request.select_convs(1))+
  obtain n2 s2 tag where f: "fetchETag srv b (n1, s1) = ((n2, s2), tag)" by (metis prod.exhaust)
  have n2: "n2 = n1"
    using assms f by (auto simp: fetchETag_def http_req_def split: prod.splits http_reply.splits if_splits) (metis fst_conv http_request.select_convs(1) http_method.distinct(3))+
  show ?case using Suc.IH [where n = n1] Suc.IH [where n = n2] d f n1 n2
    by (auto split: option.splits)
qed simp

section \<open>Witness\<close>

definition sample_head :: "entry \<Rightarrow> tree_head" where
  "sample_head e = \<lparr>thSize = 1, thRoot = hex_encode (Root (blake3 sample_env) [leafHash sample_env e]), thPrevRoot = [],
     thTimestamp = [], thMAC = [], thSignature = [], thSignerKey = []\<rparr>"

lemma logs_collision_free_sym: "logs_collision_free C a b \<Longrightarrow> logs_collision_free C b a"
  by (simp add: logs_collision_free_def Let_def Un_commute)

theorem audit_detects_rewrite_witness:
  "\<exists>e st d bs. store_inv sample_env st d bs [e] \<and> fst (auditHeads sample_env st ''now'' (sample_head e) 10) = 0 \<and>
     fst (auditHeads sample_env (st\<lparr>stLeaves := []\<rparr>) ''now'' (sample_head e) 10) = 1"
proof -
  obtain e st d bs where si: "store_inv sample_env st d bs [e]" using sample_store by blast
  have h: "head_of sample_env [e] (sample_head e)" by (simp add: head_of_def sample_head_def)
  have "stLeaves st = map (leafHash sample_env) [e]" using si by (simp add: store_inv_def)
  from audit_detects_rewrite [OF this h, of "''now''" 10]
  have "fst (auditHeads sample_env st ''now'' (sample_head e) 10) = 0"
    using sample_collision_free [of e 1] by simp
  moreover have "logs_collision_free sample_env (take (length [e]) []) [e]"
    using logs_collision_free_sym [OF sample_collision_free [of e 0]] by simp
  then have "fst (auditHeads sample_env (st\<lparr>stLeaves := []\<rparr>) ''now'' (sample_head e) 10) = 1"
    using audit_detects_rewrite [of "st\<lparr>stLeaves := []\<rparr>" sample_env "[]" "[e]" "sample_head e" "''now''" 10] h by simp
  ultimately show ?thesis using si by blast
qed

end
