(* ===== verification/Go_Files.thy ===== *)
theory Go_Files
  imports Go_Strings
begin

text \<open>
  Decimal numbers (\<open>fmt\<close>'s \<open>%d\<close>, \<open>strconv.Atoi\<close>) and the files the code writes: texts by path,
  and what a write or \<open>os.MkdirAll\<close> does to them.
\<close>

section \<open>Decimal numbers\<close>

text \<open>\<open>fmt\<close>'s \<open>%d\<close> on a count.\<close>

fun decimal :: "nat \<Rightarrow> string" where
  "decimal n = (if n < 10 then [char_of (48 + n)] else decimal (n div 10) @ [char_of (48 + n mod 10)])"

declare decimal.simps [simp del]

definition fmt_int :: "int \<Rightarrow> string" where
  "fmt_int n = (if n < 0 then ''-'' @ decimal (nat (- n)) else decimal (nat n))"

definition is_digit :: "char \<Rightarrow> bool" where
  "is_digit c \<longleftrightarrow> 48 \<le> (of_char c :: nat) \<and> (of_char c :: nat) \<le> 57"

definition digits_value :: "string \<Rightarrow> nat" where
  "digits_value ds = foldl (\<lambda>a c. a * 10 + (of_char c - 48)) 0 ds"

text \<open>\<open>strconv.Atoi\<close>: an optional sign, at least one digit, a value that fits 64 bits.\<close>

definition Atoi :: "string \<Rightarrow> int option" where
  "Atoi s =
     (let neg = HasPrefix s ''-''; ds = (if neg \<or> HasPrefix s ''+'' then tl s else s);
          n = (if neg then - int (digits_value ds) else int (digits_value ds))
      in if ds = [] \<or> \<not> list_all is_digit ds then None
         else if - (2 ^ 63) \<le> n \<and> n < 2 ^ 63 then Some n else None)"

lemma digits_value_snoc: "digits_value (ds @ [c]) = digits_value ds * 10 + (of_char c - 48)"
  by (simp add: digits_value_def)

lemma digit_char: "d < 10 \<Longrightarrow> (of_char (char_of (48 + d)) :: nat) = 48 + d"
  by (simp add: of_char_of)

lemma decimal_digits: "decimal n \<noteq> [] \<and> list_all is_digit (decimal n) \<and> digits_value (decimal n) = n"
proof (induction n rule: decimal.induct)
  case (1 n)
  show ?case
  proof (cases "n < 10")
    case True
    then show ?thesis by (subst (1 2 3) decimal.simps) (simp add: is_digit_def digits_value_def digit_char)
  next
    case False
    have "(of_char (char_of (48 + n mod 10) :: char) :: nat) = 48 + n mod 10" by (rule digit_char) simp
    moreover from this have "is_digit (char_of (48 + n mod 10))"
      using mod_less_divisor [of 10 n] unfolding is_digit_def by linarith
    ultimately show ?thesis
      using 1 [OF False] False
      by (subst (1 2 3) decimal.simps) (simp add: digits_value_snoc)
  qed
qed

lemma Atoi_decimal: "n < 2 ^ 63 \<Longrightarrow> Atoi (decimal n) = Some (int n)"
proof -
  assume n: "n < 2 ^ 63"
  obtain c ds where d: "decimal n = c # ds" using decimal_digits [of n] by (cases "decimal n") auto
  then have "is_digit c" using decimal_digits [of n] by simp
  then have "\<not> HasPrefix (decimal n) ''-''" "\<not> HasPrefix (decimal n) ''+''"
    by (auto simp: d HasPrefix_def is_digit_def)
  moreover have "int n < 2 ^ 63" using n by (metis of_nat_less_iff of_nat_numeral of_nat_power)
  ultimately show ?thesis using decimal_digits [of n] by (simp add: Atoi_def Let_def)
qed

section \<open>Paths and files\<close>

text \<open>\<open>filepath.Dir\<close> on Unix paths.\<close>

definition path_dir :: "string \<Rightarrow> string" where
  "path_dir p = path_clean (rev (dropWhile (\<lambda>c. c \<noteq> CHR ''/'') (rev p)))"

text \<open>The files the code reads and writes, by path, and the directories it asked for.\<close>

record file_sys =
  fsFiles :: "string \<Rightarrow> string option"
  fsDirs :: "string set"

definition no_files :: file_sys where
  "no_files = \<lparr>fsFiles = (\<lambda>p. None), fsDirs = {}\<rparr>"

text \<open>
  How a write ends: completely, or with an error that leaves the path as it was or holding
  the given text (\<open>os.WriteFile\<close> creates and truncates before it writes).
\<close>

datatype write_result = WriteOk | WriteFailed "string option"

definition writeFile :: "write_result \<Rightarrow> string \<Rightarrow> string \<Rightarrow> file_sys \<Rightarrow> bool \<times> file_sys" where
  "writeFile r path text fs =
     (case r of
        WriteOk \<Rightarrow> (True, fs\<lparr>fsFiles := (fsFiles fs)(path \<mapsto> text)\<rparr>)
      | WriteFailed None \<Rightarrow> (False, fs)
      | WriteFailed (Some part) \<Rightarrow> (False, fs\<lparr>fsFiles := (fsFiles fs)(path \<mapsto> part)\<rparr>))"

definition mkdirAll :: "bool \<Rightarrow> string \<Rightarrow> file_sys \<Rightarrow> bool \<times> file_sys" where
  "mkdirAll ok dir fs = (ok, if ok then fs\<lparr>fsDirs := insert dir (fsDirs fs)\<rparr> else fs)"

lemma writeFile_ok: "writeFile r p t fs = (True, fs') \<Longrightarrow> fs' = fs\<lparr>fsFiles := (fsFiles fs)(p \<mapsto> t)\<rparr>"
  by (auto simp: writeFile_def split: write_result.splits option.splits)

lemma mkdirAll_files: "fsFiles (snd (mkdirAll ok d fs)) = fsFiles fs" "fsDirs fs \<subseteq> fsDirs (snd (mkdirAll ok d fs))"
  by (auto simp: mkdirAll_def)

end
