(* ===== verification/Anomaly.thy ===== *)
theory Anomaly
  imports Go_Files
begin

text \<open>
  The anomaly detectors (\<open>internal/anomaly\<close>): a storage probe and a check of the network
  interfaces, each with its count of failures in a row. What a probe or a look at the
  interfaces meets and whether the event channel has room are arguments of a tick.
\<close>

section \<open>Events\<close>

datatype anomaly_kind = KindStorage | KindNetwork

definition kind_name :: "anomaly_kind \<Rightarrow> string" where
  "kind_name k = (case k of KindStorage \<Rightarrow> ''storage_anomaly'' | KindNetwork \<Rightarrow> ''network_cut'')"

record anomaly_event =
  anKind :: anomaly_kind
  anDetail :: string

section \<open>Probes\<close>

text \<open>The error texts of opening, writing and closing the probe file; the removal is not looked at.\<close>

record probe_io =
  poOpen :: "string option"
  poWrite :: "string option"
  poClose :: "string option"

definition writeProbe :: "probe_io \<Rightarrow> string option" where
  "writeProbe io =
     (case poOpen io of
        Some err \<Rightarrow> Some err
      | None \<Rightarrow> (case poWrite io of Some err \<Rightarrow> Some err | None \<Rightarrow> poClose io))"

record iface =
  ifLoopback :: bool
  ifUp :: bool
  ifAddrs :: "nat option"

fun ifacesUp :: "iface list \<Rightarrow> bool" where
  "ifacesUp [] = False"
| "ifacesUp (i # is) =
     (if ifLoopback i then ifacesUp is
      else if \<not> ifUp i then ifacesUp is
      else if ifAddrs i = None \<or> ifAddrs i = Some 0 then ifacesUp is
      else True)"

definition networkUp :: "iface list option \<Rightarrow> bool" where
  "networkUp ifaces = (case ifaces of None \<Rightarrow> False | Some is \<Rightarrow> ifacesUp is)"

section \<open>Ticks\<close>

text \<open>
  One tick of a detector: the new count of failures, and the event if one is sent. An event
  the channel has no room for is dropped, and the count starts again all the same.
\<close>

definition runStorage :: "bool \<Rightarrow> nat \<Rightarrow> probe_io \<Rightarrow> nat \<times> anomaly_event option" where
  "runStorage room failures io =
     (case writeProbe io of
        Some err \<Rightarrow>
          (let failures = failures + 1 in
           if 3 \<le> failures then
             (0, if room then Some \<lparr>anKind = KindStorage,
                   anDetail = ''probe write failed '' @ decimal failures @ '' times: '' @ err\<rparr> else None)
           else (failures, None))
      | None \<Rightarrow> (0, None))"

definition runNetwork :: "bool \<Rightarrow> nat \<Rightarrow> iface list option \<Rightarrow> nat \<times> anomaly_event option" where
  "runNetwork room failures ifaces =
     (if \<not> networkUp ifaces then
        (let failures = failures + 1 in
         if 3 \<le> failures then
           (0, if room then Some \<lparr>anKind = KindNetwork,
                 anDetail = ''no active non-loopback interface detected for '' @ decimal failures @ '' checks''\<rparr> else None)
         else (failures, None))
      else (0, None))"

section \<open>Three in a row\<close>

text \<open>
  What both detectors promise, stated once: a tick function over results that fail or not,
  whose count stays below three, which reports only as the third failure in a row and never
  forgets to.
\<close>

locale three_strikes =
  fixes tick :: "bool \<Rightarrow> nat \<Rightarrow> 'r \<Rightarrow> nat \<times> anomaly_event option"
    and failed :: "'r \<Rightarrow> bool"
  assumes good_resets: "\<not> failed r \<Longrightarrow> tick room n r = (0, None)"
    and counts: "failed r \<Longrightarrow> n < 2 \<Longrightarrow> tick room n r = (Suc n, None)"
    and third: "failed r \<Longrightarrow> fst (tick room 2 r) = 0 \<and> (snd (tick room 2 r) \<noteq> None \<longleftrightarrow> room)"
begin

definition count :: "(bool \<times> 'r) list \<Rightarrow> nat" where
  "count rs = foldl (\<lambda>n (room, r). fst (tick room n r)) 0 rs"

lemma count_snoc: "count (rs @ [(room, r)]) = fst (tick room (count rs) r)"
  by (simp add: count_def)

lemma count_failures:
  "count rs < 3 \<and> count rs \<le> length rs \<and> (\<forall>x \<in> set (drop (length rs - count rs) rs). failed (snd x))"
proof (induction rs rule: rev_induct)
  case Nil
  then show ?case by (simp add: count_def)
next
  case (snoc x rs)
  obtain room r where x: "x = (room, r)" by (cases x)
  consider "\<not> failed r" | "failed r" "count rs < 2" | "failed r" "count rs = 2" using snoc.IH by linarith
  then show ?case
  proof cases
    case 2
    then have "count (rs @ [x]) = Suc (count rs)" using counts x by (simp add: count_snoc)
    then show ?thesis using snoc.IH 2 x by auto
  qed (use good_resets third x in \<open>simp_all add: count_snoc\<close>)
qed

text \<open>A report comes as the third failure in a row.\<close>

lemma report_needs_three:
  assumes "snd (tick room (count rs) r) \<noteq> None"
  shows "failed r \<and> (\<exists>pre a b. rs = pre @ [a, b] \<and> failed (snd a) \<and> failed (snd b))"
proof -
  have f: "failed r" using assms good_resets [of r room "count rs"] by fastforce
  have "\<not> count rs < 2" using assms counts [OF f, of "count rs" room] by auto
  then have two: "count rs = 2" using count_failures [of rs] by linarith
  define tl2 where "tl2 = drop (length rs - 2) rs"
  have "length tl2 = 2" using count_failures [of rs] two by (simp add: tl2_def)
  then obtain a b where "tl2 = [a, b]" by (auto simp: numeral_2_eq_2 length_Suc_conv)
  moreover have "rs = take (length rs - 2) rs @ tl2" by (simp add: tl2_def)
  moreover have "\<forall>x \<in> set tl2. failed (snd x)" using count_failures [of rs] two by (simp add: tl2_def)
  ultimately show ?thesis using f by (metis list.set_intros)
qed

text \<open>Of three failures in a row, one is reported if the channel has room.\<close>

lemma three_are_reported:
  assumes "failed a" "failed b" "failed c"
  shows "snd (tick True (count rs) a) \<noteq> None \<or> snd (tick True (count (rs @ [(True, a)])) b) \<noteq> None \<or>
    snd (tick True (count (rs @ [(True, a), (True, b)])) c) \<noteq> None"
proof -
  have ab: "count (rs @ [(True, a), (True, b)]) = fst (tick True (count (rs @ [(True, a)])) b)"
    using count_snoc [of "rs @ [(True, a)]" True b] by simp
  consider "count rs = 0" | "count rs = 1" | "count rs = 2" using count_failures [of rs] by linarith
  then show ?thesis
    by cases (use assms counts third ab in \<open>simp_all add: count_snoc numeral_2_eq_2\<close>)
qed

end

interpretation storage: three_strikes runStorage "\<lambda>io. writeProbe io \<noteq> None"
  by unfold_locales (auto simp: runStorage_def split: if_splits)

interpretation network: three_strikes runNetwork "\<lambda>ifs. \<not> networkUp ifs"
  by unfold_locales (auto simp: runNetwork_def split: if_splits)

text \<open>The network counts as cut exactly if no interface beside loopback is up with an address.\<close>

lemma networkUp_iff:
  "networkUp ifaces \<longleftrightarrow>
     (\<exists>is i. ifaces = Some is \<and> i \<in> set is \<and> \<not> ifLoopback i \<and> ifUp i \<and> (\<exists>n. ifAddrs i = Some n \<and> 0 < n))"
proof -
  have "ifacesUp is \<longleftrightarrow> (\<exists>i \<in> set is. \<not> ifLoopback i \<and> ifUp i \<and> (\<exists>n. ifAddrs i = Some n \<and> 0 < n))" for "is"
    by (induction "is") (auto simp: gr0_conv_Suc split: option.splits)
  then show ?thesis by (auto simp: networkUp_def split: option.splits)
qed

end
