(* ===== verification/Daemon.thy ===== *)
theory Daemon
  imports Lifecycle Mirror Anomaly
begin

text \<open>
  The witness daemon (\<open>cmd/witness/main.go\<close>): start-up, the event loop with its drift tick,
  anomalies, mirror results and signals, and the status command, composed from the models of
  the components they call. Programs that write to the log beside the loop (the bridges) are
  events of their own; what files, probes and pushes give is part of an event.
\<close>

section \<open>Configuration and state\<close>

text \<open>The JSON texts of the data the daemon attaches to its records.\<close>

record daemon_codec =
  dk_accept :: accept_codec
  dk_changes :: "change list \<Rightarrow> bytes"
  dk_count :: "string \<Rightarrow> nat \<Rightarrow> bytes"
  dk_text :: "string \<Rightarrow> string \<Rightarrow> bytes"
  dk_anomaly :: "anomaly_event \<Rightarrow> bytes"
  dk_event :: "lc_event \<Rightarrow> bytes"
  dk_recovery :: "recovery \<Rightarrow> bytes"
  dk_started :: "snapshot \<Rightarrow> bytes"

record daemon_conf =
  cfSnap :: snapshot
  cfMachineID :: string
  cfDev :: bool
  cfOwn :: "bytes option"
  cfAlert :: int
  cfMirrorURL :: string
  cfMirrorErr :: "string option"
  cfEscalate :: int

record daemon =
  dmLog :: "store \<times> disk"
  dmApprovals :: accept_set
  dmHealth :: mirror_health
  dmRunning :: bool

definition witness_call :: "string \<Rightarrow> string \<Rightarrow> string \<Rightarrow> bytes option \<Rightarrow> append_io \<Rightarrow> append_call" where
  "witness_call level event source data io =
     \<lparr>acLevel = level, acEvent = event, acSource = source, acData = map_option Some data, acIO = io\<rparr>"

section \<open>Approvals and the drift tick\<close>

definition loadAcceptPolicy :: "daemon_conf \<Rightarrow> file_text \<Rightarrow> policy" where
  "loadAcceptPolicy conf operators =
     \<lparr>plMachineID = cfMachineID conf,
      plOperators = (case LoadAllowlist operators of Inl _ \<Rightarrow> [] | Inr ops \<Rightarrow> ops),
      plOwn = cfOwn conf, plAllowOwn = cfDev conf, plAnySigner = False\<rparr>"

record tick_io =
  tiSpool :: "(pending \<times> append_io) list option"
  tiOperators :: file_text
  tiMachine :: machine
  tiAppend :: append_io

text \<open>The spool part of a tick: an unreadable spool (\<open>None\<close>) or an empty one changes nothing.\<close>

definition tickSpool :: "env \<Rightarrow> daemon_codec \<Rightarrow> daemon_conf \<Rightarrow> daemon \<Rightarrow> tick_io \<Rightarrow> accept_set \<times> (store \<times> disk)" where
  "tickSpool C K conf D t =
     (case tiSpool t of
        None \<Rightarrow> (dmApprovals D, dmLog D)
      | Some ps \<Rightarrow>
          if ps = [] then (dmApprovals D, dmLog D)
          else processAcceptSpool C (dk_accept K) (loadAcceptPolicy conf (tiOperators t)) (dmApprovals D, dmLog D) ps)"

definition driftCall :: "daemon_codec \<Rightarrow> change list \<times> nat \<Rightarrow> append_io \<Rightarrow> append_call" where
  "driftCall K ua io =
     (case ua of (unapproved, approved) \<Rightarrow>
        if 0 < length unapproved then witness_call ''DRIFT'' ''drift_detected'' ''drift'' (Some (dk_changes K unapproved)) io
        else if 0 < approved then witness_call ''INFO'' ''drift_clean'' ''drift'' (Some (dk_count K ''approved'' approved)) io
        else witness_call ''INFO'' ''drift_clean'' ''drift'' None io)"

definition driftTick :: "env \<Rightarrow> daemon_codec \<Rightarrow> daemon_conf \<Rightarrow> daemon \<Rightarrow> tick_io \<Rightarrow> daemon" where
  "driftTick C K conf D t =
     (case tickSpool C K conf D t of (s, sd) \<Rightarrow>
        (let changes = Measure C (tiMachine t) (cfSnap conf) in
         D\<lparr>dmApprovals := s, dmLog := append_step C sd (driftCall K (set_Filter s changes) (tiAppend t))\<rparr>))"

section \<open>The event loop\<close>

text \<open>An anomaly is recorded; a storage anomaly ends the daemon through \<open>fireDeath\<close>.\<close>

definition onAnomaly ::
  "env \<Rightarrow> daemon_codec \<Rightarrow> daemon \<Rightarrow> anomaly_event \<Rightarrow> append_io \<Rightarrow> append_call list \<Rightarrow> append_io \<Rightarrow> daemon" where
  "onAnomaly C K D a io flushed dio =
     (let sd = append_step C (dmLog D) (witness_call ''WARN'' (kind_name (anKind a)) ''anomaly'' (Some (dk_anomaly K a)) io) in
      if anKind a = KindStorage
      then D\<lparr>dmLog := fireDeath C flushed (dk_text K ''detail'' (anDetail a)) dio (kind_name (anKind a)) sd, dmRunning := False\<rparr>
      else D\<lparr>dmLog := sd\<rparr>)"

definition pushDone :: "env \<Rightarrow> daemon_codec \<Rightarrow> daemon \<Rightarrow> string option \<Rightarrow> append_io \<Rightarrow> daemon" where
  "pushDone C K D err io =
     (case Result (dmHealth D) err of
        (h, None) \<Rightarrow> D\<lparr>dmHealth := h\<rparr>
      | (h, Some ev) \<Rightarrow> D\<lparr>dmHealth := h, dmLog := append_step C (dmLog D) (lc_call (dk_event K) io ''mirror'' ev)\<rparr>)"

definition onSignal :: "env \<Rightarrow> daemon_codec \<Rightarrow> daemon \<Rightarrow> string \<Rightarrow> append_call list \<Rightarrow> append_io \<Rightarrow> daemon" where
  "onSignal C K D sig flushed dio =
     D\<lparr>dmLog := fireDeath C flushed (dk_text K ''detail'' sig) dio ''signal_received'' (dmLog D), dmRunning := False\<rparr>"

datatype daemon_event =
    AnomalySeen anomaly_event append_io "append_call list" append_io
  | Tick tick_io
  | PushEnded "string option" append_io
  | Recorded append_call
  | Signalled string "append_call list" append_io

definition daemon_step :: "env \<Rightarrow> daemon_codec \<Rightarrow> daemon_conf \<Rightarrow> daemon \<Rightarrow> daemon_event \<Rightarrow> daemon" where
  "daemon_step C K conf D e =
     (if \<not> dmRunning D then D
      else case e of
        AnomalySeen a io flushed dio \<Rightarrow> onAnomaly C K D a io flushed dio
      | Tick t \<Rightarrow> driftTick C K conf D t
      | PushEnded err io \<Rightarrow> pushDone C K D err io
      | Recorded c \<Rightarrow> D\<lparr>dmLog := append_step C (dmLog D) c\<rparr>
      | Signalled sig flushed dio \<Rightarrow> onSignal C K D sig flushed dio)"

definition daemon_run :: "env \<Rightarrow> daemon_codec \<Rightarrow> daemon_conf \<Rightarrow> daemon \<Rightarrow> daemon_event list \<Rightarrow> daemon" where
  "daemon_run C K conf D es = foldl (daemon_step C K conf) D es"

section \<open>Start-up\<close>

definition append_opt :: "env \<Rightarrow> store \<times> disk \<Rightarrow> append_call option \<Rightarrow> store \<times> disk" where
  "append_opt C sd c = (case c of None \<Rightarrow> sd | Some c \<Rightarrow> append_step C sd c)"

text \<open>The records \<open>cmdStart\<close> writes before any bridge runs, in their order.\<close>

record start_io =
  siCaps :: "string option"
  siNow :: time
  siText :: "time \<Rightarrow> string"
  siAppend :: "nat \<Rightarrow> append_io"

definition startRecords :: "env \<Rightarrow> daemon_codec \<Rightarrow> daemon_conf \<Rightarrow> start_io \<Rightarrow> store \<times> disk \<Rightarrow> store \<times> disk" where
  "startRecords C K conf io sd =
     (let last_e = Last (fst sd);
          sd1 = append_opt C sd (map_option (\<lambda>err.
             witness_call ''WARN'' ''ambient_caps_not_cleared'' ''witness'' (Some (dk_text K ''error'' err)) (siAppend io 0)) (siCaps io));
          sd2 = append_opt C sd1 (if 0 < rcBytes (stRecovered (fst sd1))
             then Some (witness_call ''WARN'' ''log_crash_tail_recovered'' ''witness'' (Some (dk_recovery K (stRecovered (fst sd1)))) (siAppend io 1))
             else None);
          sd3 = append_opt C sd2 (if stUnsignedHead (fst sd2)
             then Some (witness_call ''WARN'' ''tree_head_unsigned'' ''witness''
                (Some (dk_text K ''signer_key'' (case cfOwn conf of None \<Rightarrow> [] | Some k \<Rightarrow> hex_encode k))) (siAppend io 2))
             else None);
          sd4 = append_opt C sd3 (map_option (lc_call (dk_event K) (siAppend io 3) ''witness'')
             (Downtime (siText io) last_e (siNow io) (cfAlert conf)))
      in append_opt C sd4 (map_option (lc_call (dk_event K) (siAppend io 4) ''witness'')
             (MirrorConfig (cfMirrorURL conf) (cfMirrorErr conf) (cfDev conf))))"

text \<open>
  The rest of the start: \<open>fed\<close> are the records the bridges append before the daemon's own
  start record, \<open>fed'\<close> those before the log is replayed for approvals.
\<close>

definition startDaemon ::
  "env \<Rightarrow> daemon_codec \<Rightarrow> daemon_conf \<Rightarrow> start_io \<Rightarrow> append_call list \<Rightarrow> append_call list \<Rightarrow> file_text \<Rightarrow> store \<times> disk \<Rightarrow> daemon" where
  "startDaemon C K conf io fed fed' operators sd =
     (let sd1 = foldl (append_step C) (startRecords C K conf io sd) fed;
          sd2 = append_step C sd1 (witness_call ''INFO'' ''daemon_start'' ''witness'' (Some (dk_started K (cfSnap conf))) (siAppend io 5));
          sd3 = foldl (append_step C) sd2 fed';
          (s, skipped) = (case ReadAll C (snd sd3) (stKey (fst sd3)) of
             Inl _ \<Rightarrow> (NewSet, 0)
           | Inr entries \<Rightarrow> Replay C (dk_accept K) entries (loadAcceptPolicy conf operators));
          sd4 = append_opt C sd3 (if 0 < skipped
             then Some (witness_call ''WARN'' ''drift_accept_replay_skipped'' ''witness'' (Some (dk_count K ''skipped'' skipped)) (siAppend io 6))
             else None)
      in \<lparr>dmLog = sd4, dmApprovals = s, dmHealth = NewMirrorHealth (cfEscalate conf), dmRunning = True\<rparr>)"

text \<open>
  \<open>cmdStart\<close> up to the open log: the soul's signature, the genesis file, the trusted keys.
  \<open>None\<close> is a fatal exit. \<open>load\<close> parses a snapshot, \<open>marshal\<close> is its JSON.
\<close>

definition checkSoulSignature :: "env \<Rightarrow> soul_codec \<Rightarrow> file_text \<Rightarrow> file_text \<Rightarrow> file_text \<Rightarrow> bool \<Rightarrow> bool" where
  "checkSoulSignature C SK soulfile sigfile allowfile devMode =
     (case LoadAllowlist allowfile of
        Inl _ \<Rightarrow> devMode
      | Inr allowlist \<Rightarrow>
          (case VerifySoulSignature C SK soulfile sigfile allowlist of Some _ \<Rightarrow> devMode | None \<Rightarrow> True))"

text \<open>\<open>resolveSigner\<close>: the arguments are what the constructors give; the outer \<open>None\<close> is fatal.\<close>

definition resolveSigner ::
  "bool \<Rightarrow> string \<Rightarrow> signer option \<Rightarrow> signer option \<Rightarrow> signer option \<Rightarrow> signer option option" where
  "resolveSigner devMode mode newDev newSoftware newPIV =
     (if devMode then (case newDev of None \<Rightarrow> None | Some s \<Rightarrow> Some (Some s))
      else if mode = ''software'' then (case newSoftware of None \<Rightarrow> None | Some s \<Rightarrow> Some (Some s))
      else if mode = [] \<or> mode = ''piv'' then Some newPIV
      else None)"

definition loadGenesis :: "env \<Rightarrow> (bytes \<Rightarrow> snapshot option) \<Rightarrow> (snapshot \<Rightarrow> bytes) \<Rightarrow> bytes \<Rightarrow> bytes option \<Rightarrow> snapshot option" where
  "loadGenesis C load marshal key enc =
     Option.bind enc (\<lambda>b. Option.bind (encrypt_Open C b key) (\<lambda>plain. Option.bind (load plain) (\<lambda>snap.
       if snapshot_Verify C marshal snap then Some snap else None)))"

definition trustedKeys :: "file_text \<Rightarrow> bytes list" where
  "trustedKeys allowfile = (case LoadAllowlist allowfile of Inl _ \<Rightarrow> [] | Inr es \<Rightarrow> map alPubKey es)"

definition startOpen ::
  "env \<Rightarrow> soul_codec \<Rightarrow> (bytes \<Rightarrow> snapshot option) \<Rightarrow> (snapshot \<Rightarrow> bytes) \<Rightarrow> file_text \<Rightarrow> file_text \<Rightarrow> file_text \<Rightarrow> bool \<Rightarrow>
   signer option option \<Rightarrow> bytes \<Rightarrow> bytes option \<Rightarrow> open_io \<Rightarrow> disk \<Rightarrow> (snapshot \<times> store) option \<times> disk" where
  "startOpen C SK load marshal soulfile sigfile allowfile devMode signer key enc io d =
     (case signer of
        None \<Rightarrow> (None, d)
      | Some s \<Rightarrow>
          if \<not> checkSoulSignature C SK soulfile sigfile allowfile devMode then (None, d)
          else case loadGenesis C load marshal key enc of
            None \<Rightarrow> (None, d)
          | Some snap \<Rightarrow>
              (case OpenTrusting C d key s (trustedKeys allowfile) io of
                 (Inl _, d') \<Rightarrow> (None, d')
               | (Inr st, d') \<Rightarrow> (Some (snap, st), d')))"

section \<open>Drift is recorded or approved\<close>

text \<open>
  Every approval the daemon holds is backed by an operator that was on an operators file the
  daemon read (\<open>F\<close>).
\<close>

definition approvals_ok :: "env \<Rightarrow> daemon_codec \<Rightarrow> daemon_conf \<Rightarrow> file_text set \<Rightarrow> accept_set \<Rightarrow> bool" where
  "approvals_ok C K conf F s \<longleftrightarrow>
     set_inv s \<and> (\<forall>x \<in> set (asApprovals s). \<exists>f \<in> F. backed C (dk_accept K) (loadAcceptPolicy conf f) (snd x))"

definition files_read :: "daemon_event list \<Rightarrow> file_text set" where
  "files_read es = {tiOperators t | t. Tick t \<in> set es}"

lemma approvals_ok_mono: "approvals_ok C K conf F s \<Longrightarrow> F \<subseteq> F' \<Longrightarrow> approvals_ok C K conf F' s"
  unfolding approvals_ok_def by blast

lemma Apply_adds:
  assumes "Apply C K p s r = Inr (label, s')" "\<not> plAnySigner p"
  shows "\<forall>x \<in> set (asApprovals s'). x \<in> set (asApprovals s) \<or> backed C K p (snd x)"
proof (cases "rqKind r = KindAccept")
  case True
  then have "asApprovals s' = AList.update (rqID r) (approval_of r label) (asApprovals s)"
    using Apply_Inr [OF assms(1)] by simp
  then show ?thesis
    using approval_backed [OF assms True] set_update_subset [of "rqID r" "approval_of r label" "asApprovals s"] by auto
next
  case False
  then show ?thesis using Apply_Inr [OF assms(1)] by (auto simp: AList.delete_eq)
qed

lemma spoolStep_ok:
  assumes "approvals_ok C K conf F (fst ssd)" "f \<in> F"
  shows "approvals_ok C K conf F (fst (spoolStep C (dk_accept K) (loadAcceptPolicy conf f) ssd pio))"
proof -
  obtain s sd where ssd: "ssd = (s, sd)" by (cases ssd)
  obtain pr io where pio: "pio = (pr, io)" by (cases pio)
  define p where "p = loadAcceptPolicy conf f"
  have p: "\<not> plAnySigner p" by (simp add: p_def loadAcceptPolicy_def)
  show ?thesis
  proof (cases "spoolResult C (dk_accept K) p s pr")
    case (Inl err)
    then show ?thesis using assms(1) by (simp add: spoolStep_def ssd pio flip: p_def)
  next
    case (Inr ls)
    obtain label s' where ls: "ls = (label, s')" by (cases ls)
    obtain r where r: "Apply C (dk_accept K) p s r = Inr (label, s')"
      using Inr ls by (auto simp: spoolResult_def split: option.splits)
    have "approvals_ok C K conf F s'"
      using assms Apply_adds [OF r p] Apply_inv [OF _ r] unfolding approvals_ok_def ssd p_def fst_conv by blast
    then show ?thesis using Inr ls by (simp add: spoolStep_def ssd pio flip: p_def)
  qed
qed

lemma tickSpool_ok:
  assumes "approvals_ok C K conf F (dmApprovals D)" "tiOperators t \<in> F"
  shows "approvals_ok C K conf F (fst (tickSpool C K conf D t))"
proof -
  have "approvals_ok C K conf F (fst ssd) \<Longrightarrow>
      approvals_ok C K conf F (fst (foldl (spoolStep C (dk_accept K) (loadAcceptPolicy conf (tiOperators t))) ssd ps))" for ssd ps
    using spoolStep_ok [OF _ assms(2)] by (induction ps arbitrary: ssd) simp_all
  then show ?thesis
    using assms(1) by (simp add: tickSpool_def processAcceptSpool_def split: option.splits)
qed

lemma daemon_step_ok:
  assumes "approvals_ok C K conf F (dmApprovals D)" "files_read [e] \<subseteq> F"
  shows "approvals_ok C K conf F (dmApprovals (daemon_step C K conf D e))"
proof (cases e)
  case (Tick t)
  then have "tiOperators t \<in> F" using assms(2) by (auto simp: files_read_def)
  then show ?thesis
    using assms(1) tickSpool_ok [OF assms(1), of t] Tick
    by (cases "tickSpool C K conf D t") (simp add: daemon_step_def driftTick_def Let_def)
qed (use assms(1) in \<open>simp_all add: daemon_step_def onAnomaly_def pushDone_def onSignal_def Let_def split: prod.splits option.splits\<close>)

lemma daemon_run_ok:
  "approvals_ok C K conf F (dmApprovals D) \<Longrightarrow> files_read es \<subseteq> F \<Longrightarrow>
     approvals_ok C K conf F (dmApprovals (daemon_run C K conf D es))"
proof (induction es arbitrary: D)
  case (Cons e es)
  have "files_read [e] \<subseteq> F" "files_read es \<subseteq> F" using Cons.prems(2) by (auto simp: files_read_def)
  then show ?case using Cons daemon_step_ok by (simp add: daemon_run_def)
qed (simp add: daemon_run_def)

lemma Replay_backed: "\<not> plAnySigner p \<Longrightarrow> \<forall>x \<in> set (asApprovals (fst (Replay C K entries p))). backed C K p (snd x)"
proof -
  assume p: "\<not> plAnySigner p"
  define Q where "Q s = (\<forall>x \<in> set (asApprovals s). backed C K p (snd x))" for s :: accept_set
  have step: "Q (fst (replayStep C K p sk e))" if "Q (fst sk)" for sk e
    using that Apply_adds [OF _ p]
    by (cases sk) (fastforce simp: replayStep_def Q_def split: option.splits sum.splits)
  have "Q (fst sk) \<Longrightarrow> Q (fst (foldl (replayStep C K p) sk entries))" for sk
    by (induction entries arbitrary: sk) (simp_all add: step)
  from this [of "(NewSet, 0)"] show ?thesis by (simp add: Replay_def NewSet_def Q_def)
qed

lemma startDaemon_ok:
  "approvals_ok C K conf {operators} (dmApprovals (startDaemon C K conf io fed fed' operators sd))"
proof -
  have p: "\<not> plAnySigner (loadAcceptPolicy conf operators)" by (simp add: loadAcceptPolicy_def)
  have "approvals_ok C K conf {operators} (fst (Replay C (dk_accept K) entries (loadAcceptPolicy conf operators)))" for entries
    using Replay_backed [OF p] Replay_inv by (simp add: approvals_ok_def)
  moreover have "approvals_ok C K conf {operators} NewSet"
    using set_inv_NewSet by (simp add: approvals_ok_def NewSet_def)
  ultimately show ?thesis by (simp add: startDaemon_def Let_def split: sum.splits prod.splits) (metis fst_conv)
qed

text \<open>What the tick leaves unreported is covered by an approval.\<close>

lemma unreported_is_approved:
  assumes "approvals_ok C K conf F s" "c \<in> set changes" "c \<notin> set (fst (set_Filter s changes))"
  shows "\<exists>f \<in> F. \<exists>a c'. backed C (dk_accept K) (loadAcceptPolicy conf f) a \<and> c' \<in> set (aChanges a) \<and>
     itemKey c' = itemKey c \<and> (\<exists>k. itemKey c = Inr k)"
proof -
  obtain k where k: "itemKey c = Inr k" "k \<in> asItems s" using assms(2,3) unfolding set_Filter_fst by auto
  have "set_inv s" using assms(1) by (simp add: approvals_ok_def)
  then obtain i a c' where a: "(i, a) \<in> set (asApprovals s)" "c' \<in> set (aChanges a)" "itemKey c' = Inr k"
    using k(2) set_inv_items by blast
  then obtain f where "f \<in> F" "backed C (dk_accept K) (loadAcceptPolicy conf f) a"
    using assms(1) unfolding approvals_ok_def by fastforce
  then show ?thesis using a k(1) by metis
qed

definition tick_oks :: "env \<Rightarrow> daemon_codec \<Rightarrow> daemon_conf \<Rightarrow> daemon \<Rightarrow> tick_io \<Rightarrow> bool" where
  "tick_oks C K conf D t \<longleftrightarrow>
     (case tiSpool t of None \<Rightarrow> True
      | Some ps \<Rightarrow> spool_oks C (dk_accept K) (loadAcceptPolicy conf (tiOperators t)) (dmApprovals D, dmLog D) ps) \<and>
     (case tickSpool C K conf D t of (s, sd) \<Rightarrow>
        append_ok C sd (driftCall K (set_Filter s (Measure C (tiMachine t) (cfSnap conf))) (tiAppend t)))"

lemma spool_log_inv:
  "log_inv C sd \<Longrightarrow> spool_oks C K p (s, sd) ps \<Longrightarrow> log_inv C (snd (processAcceptSpool C K p (s, sd) ps))"
proof (induction ps arbitrary: s sd)
  case (Cons x ps)
  obtain pr io where x: "x = (pr, io)" by (cases x)
  have "log_inv C (snd (spoolStep C K p (s, sd) x))"
    using al.step_inv [OF Cons.prems(1), of "spoolCall C K p s pr io"] Cons.prems(2) by (simp add: spoolStep_def x)
  then show ?case
    using Cons.IH [of "snd (spoolStep C K p (s, sd) x)" "fst (spoolStep C K p (s, sd) x)"] Cons.prems(2) x
    by (simp add: processAcceptSpool_def)
qed (simp add: processAcceptSpool_def)

lemma tickSpool_log_inv:
  assumes "log_inv C (dmLog D)" "tick_oks C K conf D t"
  shows "log_inv C (snd (tickSpool C K conf D t))"
  using assms spool_log_inv by (auto simp: tickSpool_def tick_oks_def split: option.splits)

lemma drift_entry:
  "eSource (call_entry sd (driftCall K ua io)) = ''drift''"
  "fst ua \<noteq> [] \<Longrightarrow> eLevel (call_entry sd (driftCall K ua io)) = ''DRIFT'' \<and>
     eEvent (call_entry sd (driftCall K ua io)) = ''drift_detected'' \<and>
     eData (call_entry sd (driftCall K ua io)) = Some (dk_changes K (fst ua))"
  "fst ua = [] \<Longrightarrow> eEvent (call_entry sd (driftCall K ua io)) = ''drift_clean''"
  by (auto simp: driftCall_def witness_call_def call_entry_def newEntry_def ToValidUTF8_ascii split: prod.splits)

text \<open>
  Property C3. Drift is recorded or approved by an operator. Start the daemon on any log,
  even one with forged entries, and let it run through any events. At a tick whose appends
  succeed, the log then ends with the verdict on the machine as it is now: drift_detected
  with the changes, or drift_clean only if there are none to report. Every difference from
  the genesis snapshot that is left out has the key of a change in a request for this machine
  whose signature verifies under an operator key of an operators file the daemon had read (the
  witness's own key only in development mode).
\<close>

theorem drift_recorded_or_approved:
  assumes "D = daemon_run C K conf (startDaemon C K conf io fed fed' operators sd) es" "dmRunning D"
    and "log_inv C (dmLog D)" "tick_oks C K conf D t"
  shows "\<exists>unapproved pre e. log_records C (dmLog (daemon_step C K conf D (Tick t))) = pre @ [e] \<and> eSource e = ''drift'' \<and>
     (if unapproved = [] then eEvent e = ''drift_clean''
      else eLevel e = ''DRIFT'' \<and> eEvent e = ''drift_detected'' \<and> eData e = Some (dk_changes K unapproved)) \<and>
     set unapproved \<subseteq> set (Measure C (tiMachine t) (cfSnap conf)) \<and>
     (\<forall>c \<in> set (Measure C (tiMachine t) (cfSnap conf)) - set unapproved.
        \<exists>f \<in> insert operators (files_read (es @ [Tick t])). \<exists>a c'. backed C (dk_accept K) (loadAcceptPolicy conf f) a \<and>
          c' \<in> set (aChanges a) \<and> itemKey c' = itemKey c \<and> (\<exists>k. itemKey c = Inr k))"
proof -
  define F where "F = insert operators (files_read (es @ [Tick t]))"
  define changes where "changes = Measure C (tiMachine t) (cfSnap conf)"
  obtain s sd' where ts: "tickSpool C K conf D t = (s, sd')" by (cases "tickSpool C K conf D t")
  have "approvals_ok C K conf F (dmApprovals D)"
    unfolding assms(1) F_def
    by (intro daemon_run_ok approvals_ok_mono [OF startDaemon_ok]) (auto simp: files_read_def)
  moreover have "tiOperators t \<in> F" by (auto simp: F_def files_read_def)
  ultimately have ok: "approvals_ok C K conf F s" using tickSpool_ok [of C K conf F D t] ts by simp
  let ?c = "driftCall K (set_Filter s changes) (tiAppend t)"
  have inv: "log_inv C sd'" using tickSpool_log_inv [OF assms(3,4)] ts by simp
  have "append_ok C sd' ?c" using assms(4) ts by (simp add: tick_oks_def changes_def)
  then have "log_records C (dmLog (daemon_step C K conf D (Tick t))) = log_records C sd' @ [call_entry sd' ?c]"
    using al.step_records [OF inv] ts assms(2) by (simp add: daemon_step_def driftTick_def Let_def changes_def)
  moreover have "set (fst (set_Filter s changes)) \<subseteq> set changes" unfolding set_Filter_fst by auto
  moreover have "\<forall>c \<in> set changes - set (fst (set_Filter s changes)).
        \<exists>f \<in> F. \<exists>a c'. backed C (dk_accept K) (loadAcceptPolicy conf f) a \<and>
          c' \<in> set (aChanges a) \<and> itemKey c' = itemKey c \<and> (\<exists>k. itemKey c = Inr k)"
    using unreported_is_approved [OF ok] by blast
  ultimately show ?thesis
    using drift_entry [where sd = sd' and K = K and ua = "set_Filter s changes" and io = "tiAppend t"]
    unfolding F_def changes_def by (intro exI [of _ "fst (set_Filter s changes)"] exI [of _ "log_records C sd'"]
      exI [of _ "call_entry sd' ?c"]) (auto simp: changes_def)
qed

section \<open>A sample daemon\<close>

definition sample_snap :: snapshot where
  "sample_snap = (Take sample_env (\<lambda>s. []) sample_machine 5 ''m'' [])\<lparr>snFiles := [\<lparr>fePath = ''/etc/passwd'', feSHA256 = ''00'',
     feMode = ''0644'', feSize = 1\<rparr>]\<rparr>"

definition sample_daemon_codec :: daemon_codec where
  "sample_daemon_codec = \<lparr>dk_accept = Accept.sample_codec, dk_changes = (\<lambda>cs. map (\<lambda>c. 1) cs), dk_count = (\<lambda>k n. []),
     dk_text = (\<lambda>k v. bytes_of v), dk_anomaly = (\<lambda>a. []), dk_event = (\<lambda>e. []), dk_recovery = (\<lambda>r. []), dk_started = (\<lambda>s. [])\<rparr>"

definition sample_conf :: daemon_conf where
  "sample_conf = \<lparr>cfSnap = sample_snap, cfMachineID = ''m'', cfDev = False, cfOwn = None, cfAlert = 0, cfMirrorURL = ''u'',
     cfMirrorErr = None, cfEscalate = 3\<rparr>"

definition sample_start :: start_io where
  "sample_start = \<lparr>siCaps = None, siNow = 1, siText = (\<lambda>t. []), siAppend = (\<lambda>i. sample_io)\<rparr>"

definition sample_tick :: tick_io where
  "sample_tick = \<lparr>tiSpool = None, tiOperators = Inl NotExist, tiMachine = sample_machine, tiAppend = sample_io\<rparr>"

definition sample_change :: change where
  "sample_change = \<lparr>chType = ''file_removed'', chPath = ''/etc/passwd'', chProcess = [], chOld = ''00'', chNew = []\<rparr>"

lemma sample_measure: "Measure sample_env sample_machine sample_snap = [sample_change]"
  by (simp add: Measure_def sample_snap_def fileDrift_def HashOneFile_def sample_machine_def sample_change_def ProcNames_def)

lemma sample_fresh:
  "\<exists>st d. OpenTrusting sample_env empty_disk sample_key (Some sample_signer) [] sample_open = (Inr st, d) \<and>
     rcBytes (stRecovered st) = 0 \<and> \<not> stUnsignedHead st \<and> \<not> stHasLast st \<and> log_inv sample_env (st, d) \<and>
     stKey st = sample_key \<and> stSigner st = Some sample_signer"
proof -
  have "recoverable sample_env sample_key (Some sample_signer) [] empty_disk []" using proc_inv_init by simp
  then obtain st d where op: "openStore sample_env empty_disk sample_key (Some sample_signer) [] [] sample_open = (Inr st, d)"
      "opened_as sample_env sample_key (Some sample_signer) [] st d []"
    using openStore_recovers [OF _ good_sample_open] by blast
  have "rcBytes (stRecovered st) = 0 \<and> \<not> stUnsignedHead st \<and> \<not> stHasLast st"
    using op(1) by (auto simp: openStore_def empty_disk_def readLog_def finishOpen_def sample_open_def no_recovery_def
        readStoredHead_def Let_def split: if_splits)
  moreover have "log_inv sample_env (st, d)"
    using op(2) sample_env_ok sample_signer_ok by (auto simp: log_inv_def opened_as_def signers_ok_def)
  ultimately show ?thesis using op by (auto simp: OpenTrusting_def opened_as_def)
qed

lemma sample_ok:
  assumes "stKey st = sample_key" "stSigner st = Some sample_signer" "log_inv sample_env (st, d)"
    and "c \<in> {witness_call ''INFO'' ''daemon_start'' ''witness'' (Some []) sample_io,
              witness_call ''DRIFT'' ''drift_detected'' ''drift'' (Some [1]) sample_io}"
  shows "append_ok sample_env (st, d) c"
proof -
  have ro: "\<not> stReadOnly st" using assms(3) by (auto simp: log_inv_def store_inv_def)
  show ?thesis
    using assms(1,2,4) ro
    by (auto simp: append_ok_def append_call_def Append_def witness_call_def sample_io_def call_fits_def append_fits_def
        sample_env_def encrypt_Seal_def aes_key_ok_def sample_key_def writeTreeHead_def signHead_def sample_signer_def
        NonceSize_def sample_enc_entry_def newEntry_def ToValidUTF8_def to_valid_ascii enc_int_def enc_data_def max_record_def
        Let_def split: prod.split)
qed

lemma sample_started:
  "\<exists>st d st' d'. OpenTrusting sample_env empty_disk sample_key (Some sample_signer) [] sample_open = (Inr st, d) \<and>
     startDaemon sample_env sample_daemon_codec sample_conf sample_start [] [] (Inl NotExist) (st, d) =
       \<lparr>dmLog = (st', d'), dmApprovals = NewSet, dmHealth = NewMirrorHealth 3, dmRunning = True\<rparr> \<and>
     log_inv sample_env (st', d') \<and> stKey st' = sample_key \<and> stSigner st' = Some sample_signer"
proof -
  obtain st d where op: "OpenTrusting sample_env empty_disk sample_key (Some sample_signer) [] sample_open = (Inr st, d)"
      "rcBytes (stRecovered st) = 0" "\<not> stUnsignedHead st" "\<not> stHasLast st" "log_inv sample_env (st, d)"
      "stKey st = sample_key" "stSigner st = Some sample_signer"
    using sample_fresh by blast
  let ?c = "witness_call ''INFO'' ''daemon_start'' ''witness'' (Some []) sample_io"
  have rec: "startRecords sample_env sample_daemon_codec sample_conf sample_start (st, d) = (st, d)"
    using op(2-4) by (simp add: startRecords_def sample_start_def sample_conf_def append_opt_def MirrorConfig_def Last_def Let_def)
  obtain st' d' where s': "append_step sample_env (st, d) ?c = (st', d')" by (cases "append_step sample_env (st, d) ?c")
  have ok: "append_ok sample_env (st, d) ?c" by (rule sample_ok [OF op(6,7,5)]) simp
  have inv: "log_inv sample_env (st', d')" using al.step_inv [OF op(5) ok] s' by simp
  obtain err where "append_call sample_env (st, d) ?c = (err, st', d')"
    using s' by (cases "append_call sample_env (st, d) ?c") (auto simp: append_step_def)
  then have key: "stKey st' = sample_key" "stSigner st' = Some sample_signer"
    using Append_keeps op(6,7) unfolding append_call_def by (metis fst_conv snd_conv)+
  have "log_records sample_env (st, d) = []"
    using op(4,5) log_records_inv by (fastforce simp: log_inv_def store_inv_def)
  then have "log_records sample_env (st', d') = [call_entry (st, d) ?c]" using al.step_records [OF op(5) ok] s' by simp
  then have rd: "ReadAll sample_env d' sample_key = Inr [call_entry (st, d) ?c]"
    using inv key by (auto simp: log_inv_def log_records_def store_inv_def ReadAll_holds)
  have "eSource (call_entry (st, d) ?c) \<noteq> accept_Source"
    by (simp add: call_entry_def witness_call_def newEntry_def ToValidUTF8_ascii accept_Source_def)
  then have "Replay sample_env Accept.sample_codec [call_entry (st, d) ?c] p = (NewSet, 0)" for p
    by (simp add: Replay_def replayStep_def)
  then have "startDaemon sample_env sample_daemon_codec sample_conf sample_start [] [] (Inl NotExist) (st, d) =
       \<lparr>dmLog = (st', d'), dmApprovals = NewSet, dmHealth = NewMirrorHealth 3, dmRunning = True\<rparr>"
    using rec s' rd key by (simp add: startDaemon_def Let_def sample_start_def sample_daemon_codec_def append_opt_def sample_conf_def)
  then show ?thesis using op(1) inv key by blast
qed

theorem drift_recorded_or_approved_witness:
  "\<exists>st d D. D = startDaemon sample_env sample_daemon_codec sample_conf sample_start [] [] (Inl NotExist) (st, d) \<and>
     (\<exists>pre e. log_records sample_env (dmLog (daemon_step sample_env sample_daemon_codec sample_conf D (Tick sample_tick))) = pre @ [e] \<and>
        eSource e = ''drift'')"
proof -
  obtain st d st' d' where D: "startDaemon sample_env sample_daemon_codec sample_conf sample_start [] [] (Inl NotExist) (st, d) =
       \<lparr>dmLog = (st', d'), dmApprovals = NewSet, dmHealth = NewMirrorHealth 3, dmRunning = True\<rparr>"
      "log_inv sample_env (st', d')" "stKey st' = sample_key" "stSigner st' = Some sample_signer"
    using sample_started by blast
  define D where "D = startDaemon sample_env sample_daemon_codec sample_conf sample_start [] [] (Inl NotExist) (st, d)"
  have f: "set_Filter NewSet [sample_change] = ([sample_change], 0)" by (simp add: NewSet_def split: sum.splits)
  have "append_ok sample_env (st', d') (driftCall sample_daemon_codec ([sample_change], 0) sample_io)"
    by (rule sample_ok [OF D(3,4,2)]) (simp add: driftCall_def sample_daemon_codec_def)
  then have oks: "tick_oks sample_env sample_daemon_codec sample_conf D sample_tick"
    using D(1) f by (simp add: tick_oks_def sample_tick_def tickSpool_def D_def sample_measure sample_conf_def)
  have run: "D = daemon_run sample_env sample_daemon_codec sample_conf
      (startDaemon sample_env sample_daemon_codec sample_conf sample_start [] [] (Inl NotExist) (st, d)) []"
    by (simp add: D_def daemon_run_def)
  have "dmRunning D" "log_inv sample_env (dmLog D)" using D(1,2) by (simp_all add: D_def)
  from drift_recorded_or_approved [OF run this oks] show ?thesis unfolding D_def by blast
qed

end
