(* ===== verification/Signers.thy ===== *)
theory Signers
  imports Daemon
begin

text \<open>
  The signing backends of \<open>internal/signer\<close>: the key file (\<open>loadOrGenerateSeed\<close>), the
  development and the software signer (\<open>dev.go\<close>), the stub of the hardware token
  (\<open>piv_stub.go\<close>). Ed25519 itself is the parameter \<open>ed_impl\<close>. The locale \<open>signer_source\<close> is
  what the commands rely on: a constructor that gives the same key at every start.
\<close>

section \<open>Keys\<close>

record ed_impl =
  edPublic :: "bytes \<Rightarrow> bytes"
  edSign :: "bytes \<Rightarrow> bytes \<Rightarrow> bytes"

definition SeedSize :: nat where
  "SeedSize = 32"

text \<open>What \<open>crypto/ed25519\<close> documents of keys made from a 32-byte seed.\<close>

definition ed_ok :: "env \<Rightarrow> ed_impl \<Rightarrow> bool" where
  "ed_ok C E \<longleftrightarrow> (\<forall>seed m. length seed = SeedSize \<longrightarrow>
     length (edPublic E seed) = PublicKeySize \<and> length (edSign E seed m) = SignatureSize \<and>
     ed_verify C (edPublic E seed) m (edSign E seed m))"

text \<open>
  The system's part of one start: whether the directory could be made, whether the key file
  (if it exists) could be read, the random bytes, and whether writing succeeded; a failed
  write leaves the file as it was or holding a part.
\<close>

record seed_io =
  siMkdir :: bool
  siReadErr :: bool
  siRandom :: "bytes option"
  siWrite :: bool
  siPart :: "bytes option"

datatype signer_error = SignerDir | SignerRead | SignerRandom | SignerWrite | NotCompiled

type_synonym key_file = "bytes option"

definition loadOrGenerateSeed :: "seed_io \<Rightarrow> key_file \<Rightarrow> (signer_error + bytes) \<times> key_file" where
  "loadOrGenerateSeed io f =
     (if \<not> siReadErr io \<and> (case f of Some data \<Rightarrow> length data = SeedSize | None \<Rightarrow> False) then (Inr (the f), f)
      else if siReadErr io then (Inl SignerRead, f)
      else case siRandom io of
        None \<Rightarrow> (Inl SignerRandom, f)
      | Some seed \<Rightarrow>
          if siWrite io then (Inr seed, Some seed)
          else (Inl SignerWrite, case siPart io of None \<Rightarrow> f | Some part \<Rightarrow> Some part))"

definition dev_Sign :: "ed_impl \<Rightarrow> bytes \<Rightarrow> bytes \<Rightarrow> bytes option" where
  "dev_Sign E seed message = Some (edSign E seed message)"

definition dev_PublicKey :: "ed_impl \<Rightarrow> bytes \<Rightarrow> bytes" where
  "dev_PublicKey E seed = edPublic E seed"

definition dev_signer :: "ed_impl \<Rightarrow> bytes \<Rightarrow> signer" where
  "dev_signer E seed = \<lparr>sgSign = dev_Sign E seed, sgPublicKey = dev_PublicKey E seed\<rparr>"

text \<open>The directory of keys: the two files the constructors use.\<close>

record key_dir =
  kdDev :: key_file
  kdSoftware :: key_file

definition NewDev :: "ed_impl \<Rightarrow> seed_io \<Rightarrow> key_dir \<Rightarrow> (signer_error + signer) \<times> key_dir" where
  "NewDev E io d =
     (if \<not> siMkdir io then (Inl SignerDir, d)
      else case loadOrGenerateSeed io (kdDev d) of
        (Inl e, f) \<Rightarrow> (Inl e, d\<lparr>kdDev := f\<rparr>)
      | (Inr seed, f) \<Rightarrow> (Inr (dev_signer E seed), d\<lparr>kdDev := f\<rparr>))"

definition NewSoftware :: "ed_impl \<Rightarrow> seed_io \<Rightarrow> key_dir \<Rightarrow> (signer_error + signer) \<times> key_dir" where
  "NewSoftware E io d =
     (if \<not> siMkdir io then (Inl SignerDir, d)
      else case loadOrGenerateSeed io (kdSoftware d) of
        (Inl e, f) \<Rightarrow> (Inl e, d\<lparr>kdSoftware := f\<rparr>)
      | (Inr seed, f) \<Rightarrow> (Inr (dev_signer E seed), d\<lparr>kdSoftware := f\<rparr>))"

definition NewPIV_stub :: "signer_error + signer" where
  "NewPIV_stub = Inl NotCompiled"

text \<open>
  The hardware signer (\<open>piv.go\<close>, built with \<open>-tags piv\<close>): the answers of the token library to
  \<open>Cards\<close>, \<open>Open\<close>, \<open>Certificate\<close> and \<open>PrivateKey\<close>. The last is \<open>None\<close> on an error, \<open>Some None\<close>
  for a key that cannot sign, else the token's signing function.
\<close>

datatype cert_key = EdKey bytes | OtherKey

record piv_io =
  pvCards :: "string list option"
  pvOpen :: bool
  pvCertificate :: "cert_key option"
  pvPrivateKey :: "(bytes \<Rightarrow> bytes option) option option"

datatype piv_error = ListCards | NoCards | OpenCard | ReadSlot | WrongKeyType | LoadKey | NotASigner

definition piv_Sign :: "(bytes \<Rightarrow> bytes option) \<Rightarrow> bytes \<Rightarrow> bytes option" where
  "piv_Sign token message = token message"

definition NewPIV :: "piv_io \<Rightarrow> piv_error + signer" where
  "NewPIV io =
     (case pvCards io of
        None \<Rightarrow> Inl ListCards
      | Some cards \<Rightarrow>
          if cards = [] then Inl NoCards
          else if \<not> pvOpen io then Inl OpenCard
          else (case pvCertificate io of
             None \<Rightarrow> Inl ReadSlot
           | Some OtherKey \<Rightarrow> Inl WrongKeyType
           | Some (EdKey pub) \<Rightarrow>
               (case pvPrivateKey io of
                  None \<Rightarrow> Inl LoadKey
                | Some None \<Rightarrow> Inl NotASigner
                | Some (Some token) \<Rightarrow> Inr \<lparr>sgSign = piv_Sign token, sgPublicKey = pub\<rparr>)))"

text \<open>A slot that holds any other key than Ed25519 is refused: there is no fallback.\<close>

lemma NewPIV_other_key: "pvCertificate io = Some OtherKey \<Longrightarrow> \<exists>e. NewPIV io = Inl e"
  by (simp add: NewPIV_def split: option.splits)

section \<open>The contract of a signer's constructor\<close>

locale signer_source =
  fixes new :: "'io \<Rightarrow> 'd \<Rightarrow> (signer_error + signer) \<times> 'd"
    and calm :: "'io \<Rightarrow> bool"
    and good :: "signer \<Rightarrow> bool"
    and fair :: "'io \<Rightarrow> bool"
  assumes new_good: "fair io \<Longrightarrow> new io d = (Inr s, d') \<Longrightarrow> good s"
    and new_stable: "fair io \<Longrightarrow> new io d = (Inr s, d') \<Longrightarrow> calm io' \<Longrightarrow> new io' d' = (Inr s, d')"
begin

text \<open>One start after another.\<close>

fun starts :: "'io list \<Rightarrow> 'd \<Rightarrow> (signer_error + signer) list" where
  "starts [] d = []"
| "starts (io # ios) d = (case new io d of (r, d') \<Rightarrow> r # starts ios d')"

lemma same_key_ever_after:
  assumes "fair io" "new io d = (Inr s, d')" "list_all calm ios"
  shows "starts (io # ios) d = replicate (Suc (length ios)) (Inr s) \<and> good s"
proof -
  have "starts ios d' = replicate (length ios) (Inr s)"
    using assms(3) by (induction ios) (simp_all add: new_stable [OF assms(1,2)])
  then show ?thesis using assms(2) new_good [OF assms(1,2)] by simp
qed

end

text \<open>\<open>rand.Read\<close> fills the whole seed; a calm start can read the directory.\<close>

definition fair_io :: "seed_io \<Rightarrow> bool" where
  "fair_io io \<longleftrightarrow> (case siRandom io of None \<Rightarrow> True | Some seed \<Rightarrow> length seed = SeedSize)"

definition calm_io :: "seed_io \<Rightarrow> bool" where
  "calm_io io \<longleftrightarrow> siMkdir io \<and> \<not> siReadErr io"

lemma seed_length: "fair_io io \<Longrightarrow> loadOrGenerateSeed io f = (Inr seed, f') \<Longrightarrow> length seed = SeedSize \<and> f' = Some seed"
  by (auto simp: loadOrGenerateSeed_def fair_io_def split: if_splits option.splits)

lemma seed_stable:
  "length seed = SeedSize \<Longrightarrow> calm_io io \<Longrightarrow> loadOrGenerateSeed io (Some seed) = (Inr seed, Some seed)"
  by (simp add: loadOrGenerateSeed_def calm_io_def)

lemma dev_signer_ok: "ed_ok C E \<Longrightarrow> length seed = SeedSize \<Longrightarrow> signer_ok C (dev_signer E seed)"
  by (auto simp: ed_ok_def signer_ok_def dev_signer_def dev_Sign_def dev_PublicKey_def)

lemma NewDev_ok:
  assumes "fair_io io" "NewDev E io d = (Inr s, d')"
  shows "\<exists>seed. length seed = SeedSize \<and> s = dev_signer E seed \<and> kdDev d' = Some seed"
  using assms seed_length [OF assms(1), of "kdDev d"]
  by (auto simp: NewDev_def split: if_splits prod.splits sum.splits)

lemma NewSoftware_ok:
  assumes "fair_io io" "NewSoftware E io d = (Inr s, d')"
  shows "\<exists>seed. length seed = SeedSize \<and> s = dev_signer E seed \<and> kdSoftware d' = Some seed"
  using assms seed_length [OF assms(1), of "kdSoftware d"]
  by (auto simp: NewSoftware_def split: if_splits prod.splits sum.splits)

text \<open>The instances fix an implementation and the laws it satisfies as a guard on \<open>good\<close>.\<close>

definition good_if :: "ed_impl \<Rightarrow> signer \<Rightarrow> bool" where
  "good_if E s \<longleftrightarrow> (\<forall>C. ed_ok C E \<longrightarrow> signer_ok C s)"

interpretation dev: signer_source "NewDev E" calm_io "good_if E" fair_io for E
proof
  fix io d s d'
  assume a: "fair_io io" "NewDev E io d = (Inr s, d')"
  obtain seed where seed: "length seed = SeedSize" "s = dev_signer E seed" "kdDev d' = Some seed"
    using NewDev_ok [OF a] by blast
  show "good_if E s" using seed dev_signer_ok by (simp add: good_if_def)
  fix io'
  assume "calm_io io'"
  then show "NewDev E io' d' = (Inr s, d')"
    using seed seed_stable [OF seed(1), of io'] by (simp add: NewDev_def calm_io_def)
qed

interpretation software: signer_source "NewSoftware E" calm_io "good_if E" fair_io for E
proof
  fix io d s d'
  assume a: "fair_io io" "NewSoftware E io d = (Inr s, d')"
  obtain seed where seed: "length seed = SeedSize" "s = dev_signer E seed" "kdSoftware d' = Some seed"
    using NewSoftware_ok [OF a] by blast
  show "good_if E s" using seed dev_signer_ok by (simp add: good_if_def)
  fix io'
  assume "calm_io io'"
  then show "NewSoftware E io' d' = (Inr s, d')"
    using seed seed_stable [OF seed(1), of io'] by (simp add: NewSoftware_def calm_io_def)
qed

section \<open>The log's signer\<close>

text \<open>What a constructor's result means to \<open>resolveSigner\<close>.\<close>

definition made :: "(signer_error + signer) \<times> key_dir \<Rightarrow> signer option" where
  "made r = (case fst r of Inl _ \<Rightarrow> None | Inr s \<Rightarrow> Some s)"

text \<open>
  Property C31. The signer of the log is well typed and stable: whatever mode selects it, the
  development or the software signer that \<open>resolveSigner\<close> hands to the store has a 32-byte
  public key and 64-byte signatures that verify under it, and every later start that can read
  the key directory gets the same signer back.
\<close>

theorem log_signer_stable:
  assumes "ed_ok C E" "fair_io io"
    and "resolveSigner devMode mode (made (NewDev E io d)) (made (NewSoftware E io d)) None = Some (Some s)"
  shows "signer_ok C s \<and>
     (let d' = (if devMode then snd (NewDev E io d) else snd (NewSoftware E io d)) in
      (calm_io io' \<longrightarrow>
        resolveSigner devMode mode (made (NewDev E io' d')) (made (NewSoftware E io' d')) None = Some (Some s)))"
proof (cases devMode)
  case True
  then obtain d' where n: "NewDev E io d = (Inr s, d')"
    using assms(3) by (cases "NewDev E io d") (auto simp: resolveSigner_def made_def split: sum.splits)
  have "calm_io io' \<Longrightarrow> NewDev E io' d' = (Inr s, d')" by (rule dev.new_stable [OF assms(2) n])
  then show ?thesis
    using True dev.new_good [OF assms(2) n] assms(1) n by (auto simp: good_if_def resolveSigner_def made_def)
next
  case False
  then have soft: "mode = ''software''" using assms(3) by (auto simp: resolveSigner_def split: if_splits)
  then obtain d' where n: "NewSoftware E io d = (Inr s, d')"
    using assms(3) False by (cases "NewSoftware E io d") (auto simp: resolveSigner_def made_def split: sum.splits)
  have "calm_io io' \<Longrightarrow> NewSoftware E io' d' = (Inr s, d')" by (rule software.new_stable [OF assms(2) n])
  then show ?thesis
    using False soft software.new_good [OF assms(2) n] assms(1) n by (auto simp: good_if_def resolveSigner_def made_def)
qed

definition sample_ed :: ed_impl where
  "sample_ed = \<lparr>edPublic = (\<lambda>seed. seed), edSign = (\<lambda>seed m. seed @ seed)\<rparr>"

definition sample_seed_io :: seed_io where
  "sample_seed_io = \<lparr>siMkdir = True, siReadErr = False, siRandom = Some (replicate 32 7), siWrite = True, siPart = None\<rparr>"

theorem log_signer_stable_witness:
  "ed_ok sample_env sample_ed \<and> signer_ok sample_env (dev_signer sample_ed (replicate 32 7)) \<and>
   resolveSigner False ''software'' None
     (made (NewSoftware sample_ed sample_seed_io \<lparr>kdDev = None, kdSoftware = Some (replicate 32 7)\<rparr>)) None =
     Some (Some (dev_signer sample_ed (replicate 32 7)))"
proof -
  have ed: "ed_ok sample_env sample_ed"
    by (simp add: ed_ok_def sample_env_def sample_ed_def SeedSize_def PublicKeySize_def SignatureSize_def)
  have fair: "fair_io sample_seed_io" by (simp add: fair_io_def sample_seed_io_def SeedSize_def)
  have new: "NewSoftware sample_ed sample_seed_io \<lparr>kdDev = None, kdSoftware = None\<rparr> =
      (Inr (dev_signer sample_ed (replicate 32 7)), \<lparr>kdDev = None, kdSoftware = Some (replicate 32 7)\<rparr>)"
    by (simp add: NewSoftware_def loadOrGenerateSeed_def sample_seed_io_def)
  then have r: "resolveSigner False ''software'' (made (NewDev sample_ed sample_seed_io \<lparr>kdDev = None, kdSoftware = None\<rparr>))
      (made (NewSoftware sample_ed sample_seed_io \<lparr>kdDev = None, kdSoftware = None\<rparr>)) None =
      Some (Some (dev_signer sample_ed (replicate 32 7)))"
    by (simp add: resolveSigner_def made_def)
  have "calm_io sample_seed_io" by (simp add: calm_io_def sample_seed_io_def)
  then show ?thesis
    using log_signer_stable [OF ed fair r, of sample_seed_io] ed new by (simp add: Let_def resolveSigner_def)
qed

text \<open>
  A key file of the wrong length is replaced by a fresh key without an error, and the old
  content is gone.
\<close>

lemma wrong_length_key_replaced:
  assumes "length data \<noteq> SeedSize" "calm_io io" "siRandom io = Some seed" "siWrite io"
  shows "NewSoftware E io (d\<lparr>kdSoftware := Some data\<rparr>) = (Inr (dev_signer E seed), d\<lparr>kdSoftware := Some seed\<rparr>)"
  using assms by (simp add: NewSoftware_def loadOrGenerateSeed_def calm_io_def)

end
