(* ===== verification/Enforcer_Daemon.thy ===== *)
theory Enforcer_Daemon
  imports Enforcer Signers
begin

text \<open>
  The enforcer's program, \<open>cmd/enforcer/main.go\<close>: loading the peers, the set-up, the event loop
  with the gossip goroutines it runs beside, and the \<open>peer\<close> and \<open>status\<close> commands. A step of
  the daemon is one turn of a loop; a run is a list of steps.
\<close>

section \<open>Dispatch and paths\<close>

datatype enforcer_command = EnfStart | EnfPeer | EnfStatus | EnfVersion

text \<open>\<open>None\<close> prints the usage and exits with 1.\<close>

definition enforcer_dispatch :: "string list \<Rightarrow> enforcer_command option" where
  "enforcer_dispatch args =
     (if length args < 2 then None
      else map_of [(''start'', EnfStart), (''peer'', EnfPeer), (''status'', EnfStatus), (''version'', EnfVersion),
        (''--version'', EnfVersion), (''-v'', EnfVersion)] (args ! 1))"

definition enforcerDir :: "string \<Rightarrow> string" where
  "enforcerDir home = path_join [home, ''.enforcer'']"

definition peerFile :: "string \<Rightarrow> string" where
  "peerFile home = path_join [enforcerDir home, ''peers.json'']"

section \<open>Peers\<close>

text \<open>
  \<open>LoadPeers\<close>: a nil store is \<open>None\<close>; the flag is the error. \<open>parse\<close> gives the peers the JSON
  decoder has filled in and whether it failed.
\<close>

definition LoadPeers :: "(string \<Rightarrow> peer list \<times> bool) \<Rightarrow> file_text \<Rightarrow> peer_store option \<times> bool" where
  "LoadPeers parse f =
     (case f of
        Inl NotExist \<Rightarrow> (Some \<lparr>psPeers = [], psDisk = None\<rparr>, False)
      | Inl ReadFailed \<Rightarrow> (None, True)
      | Inr text \<Rightarrow> (case parse text of (ps, failed) \<Rightarrow> (Some \<lparr>psPeers = ps, psDisk = Some (map Peer_Marshal ps)\<rparr>, failed)))"

text \<open>\<open>All\<close> on a nil store dereferences it.\<close>

definition peers_All :: "peer_store option \<Rightarrow> peer list outcome" where
  "peers_All ps = (case ps of None \<Rightarrow> Panic | Some p \<Rightarrow> Value (psPeers p))"

definition hexPrefix :: "peer \<Rightarrow> string" where
  "hexPrefix p = take 16 (hex_encode (prPubKey p)) @ [CHR 0xE2, CHR 0x80, CHR 0xA6]"

datatype peer_out = Added string string | Removed string | PeerTable "(string \<times> string \<times> string) list"

datatype peer_fatal = PeerCmdUsage | PeersUnread | PeerCmdError peer_cmd_error | UnknownPeerCmd string

definition cmdPeer ::
  "(string \<Rightarrow> peer list \<times> bool) \<Rightarrow> bool \<Rightarrow> file_text \<Rightarrow> string list \<Rightarrow> (peer_fatal + peer_out) \<times> peer_store option" where
  "cmdPeer parse saves f args =
     (case args of
        [] \<Rightarrow> (Inl PeerCmdUsage, None)
      | sub # rest \<Rightarrow>
          (case LoadPeers parse f of
             (None, _) \<Rightarrow> (Inl PeersUnread, None)
           | (Some ps, True) \<Rightarrow> (Inl PeersUnread, Some ps)
           | (Some ps, False) \<Rightarrow>
               if sub = ''add'' then
                 (case cmdPeerAdd saves ps rest of
                    (Some e, ps') \<Rightarrow> (Inl (PeerCmdError e), Some ps')
                  | (None, ps') \<Rightarrow> (Inr (Added (rest ! 0) (rest ! 1)), Some ps'))
               else if sub = ''remove'' then
                 (case cmdPeerRemove saves ps rest of
                    (Some e, ps') \<Rightarrow> (Inl (PeerCmdError e), Some ps')
                  | (None, ps') \<Rightarrow> (Inr (Removed (rest ! 0)), Some ps'))
               else if sub = ''list'' then
                 (Inr (PeerTable (map (\<lambda>p. (prLabel p, prAddr p, hexPrefix p)) (psPeers ps))), Some ps)
               else (Inl (UnknownPeerCmd sub), Some ps)))"

text \<open>\<open>enforcer status\<close>: \<open>None\<close> without a configuration.\<close>

definition enforcer_cmdStatus ::
  "(string \<Rightarrow> peer list \<times> bool) \<Rightarrow> string option \<Rightarrow> file_text \<Rightarrow> (string \<times> (string \<times> string) list) option outcome" where
  "enforcer_cmdStatus parse primaryDir f =
     (case primaryDir of
        None \<Rightarrow> Value None
      | Some dir \<Rightarrow> map_outcome2 (\<lambda>peers. Some (dir, map (\<lambda>p. (prLabel p, prAddr p)) peers)) (peers_All (fst (LoadPeers parse f))))"

section \<open>Start\<close>

record enforcer =
  efPeers :: "peer list"
  efSigner :: "signer option"
  efMachine :: string
  efNode :: "node option"
  efReader :: tail_reader
  efQueue :: "enf_event list"
  efRunning :: bool

record enforcer_io =
  eiSoul :: bool
  eiKey :: "bytes option"
  eiConfig :: bool
  eiDev :: "signer option"
  eiPIV :: "signer option"
  eiPeers :: file_text
  eiListen :: bool
  eiNow :: time
  eiMachine :: string

datatype start_result = EnforcerFatal | EnforcerUp enforcer

text \<open>
  \<open>cmdStart\<close> up to the loop. \<open>eiListen\<close>: the UDP socket could be bound. The interval and the
  thresholds are the defaults of \<open>NewNode\<close>.
\<close>

definition enforcer_cmdStart :: "(string \<Rightarrow> peer list \<times> bool) \<Rightarrow> bool \<Rightarrow> enforcer_io \<Rightarrow> start_result outcome" where
  "enforcer_cmdStart parse devMode io =
     (if \<not> eiSoul io then Value EnforcerFatal
      else case eiKey io of
        None \<Rightarrow> Value EnforcerFatal
      | Some key \<Rightarrow>
          if \<not> eiConfig io \<or> (devMode \<and> eiDev io = None) then Value EnforcerFatal
          else let s = (if devMode then eiDev io else eiPIV io) in
            (case peers_All (fst (LoadPeers parse (eiPeers io))) of
               Panic \<Rightarrow> Panic
             | Diverge \<Rightarrow> Diverge
             | Value peers \<Rightarrow>
                 let node = (if peers \<noteq> [] \<and> s \<noteq> None \<and> eiListen io
                             then Some (NewNode \<lparr>ncSigner = s, ncPeers = peers, ncListenAddr = '':9273'', ncInterval = 0, ncMissedThreshold = 0, ncDeathThreshold = 0\<rparr> (eiNow io))
                             else None)
                 in Value (EnforcerUp \<lparr>efPeers = peers, efSigner = s, efMachine = eiMachine io, efNode = node,
                             efReader = NewTailReader key (5 * 10 ^ 9), efQueue = [], efRunning = True\<rparr>)))"

section \<open>The loops\<close>

datatype enf_step =
    PollLog disk "nat \<Rightarrow> bool"
  | TakeEvent string "peer \<Rightarrow> bool"
  | Datagram time bytes
  | WatchTick time string "peer \<Rightarrow> bool"
  | SendTick string bytes "peer \<Rightarrow> bool"
  | SignalStop string string "peer \<Rightarrow> bool"

text \<open>One step: the state, the core event it handled, the packets it sent.\<close>

fun enforcer_step ::
  "env \<Rightarrow> gossip_codec \<Rightarrow> enforcer \<Rightarrow> enf_step \<Rightarrow> enforcer \<times> enf_event list \<times> (peer \<times> bytes) list" where
  "enforcer_step C G e (PollLog d free) =
     (case poll C (efReader e) d free of (r, evs) \<Rightarrow> (e\<lparr>efReader := r, efQueue := efQueue e @ evs\<rparr>, [], []))"
| "enforcer_step C G e (TakeEvent now reachable) =
     (case efQueue e of
        [] \<Rightarrow> (e, [], [])
      | evt # q \<Rightarrow> (e\<lparr>efQueue := q\<rparr>, [evt], handleEvent G (efPeers e) (efSigner e) (efMachine e) now reachable evt))"
| "enforcer_step C G e (Datagram now data) =
     (case efNode e of None \<Rightarrow> (e, [], []) | Some n \<Rightarrow> (e\<lparr>efNode := Some (recvPacket C G n now data)\<rparr>, [], []))"
| "enforcer_step C G e (WatchTick now text reachable) =
     (case efNode e of
        None \<Rightarrow> (e, [], [])
      | Some n \<Rightarrow>
          (case checkPeers n now of
             (n', silent, dead) \<Rightarrow>
               (e\<lparr>efNode := Some n'\<rparr>, [],
                concat (map (\<lambda>p. onDeathBroadcast G (efPeers e) (efSigner e) (efMachine e) p text reachable) dead))))"
| "enforcer_step C G e (SendTick now nonce reachable) =
     (case efNode e of
        None \<Rightarrow> (e, [], [])
      | Some n \<Rightarrow> (case sendHeartbeat G n now nonce reachable of (n', pkts) \<Rightarrow> (e\<lparr>efNode := Some n'\<rparr>, [], pkts)))"
| "enforcer_step C G e (SignalStop sig now reachable) =
     (e\<lparr>efRunning := False\<rparr>, [],
      if efNode e \<noteq> None then shutdownBroadcast G (efPeers e) (efSigner e) (efMachine e) sig now reachable else [])"

fun enforcer_run ::
  "env \<Rightarrow> gossip_codec \<Rightarrow> enforcer \<Rightarrow> enf_step list \<Rightarrow> enforcer \<times> enf_event list \<times> (peer \<times> bytes) list" where
  "enforcer_run C G e [] = (e, [], [])"
| "enforcer_run C G e (st # sts) =
     (if \<not> efRunning e then (e, [], [])
      else case enforcer_step C G e st of
        (e1, evs, pkts) \<Rightarrow>
          (case enforcer_run C G e1 sts of (e2, evs2, pkts2) \<Rightarrow> (e2, evs @ evs2, pkts @ pkts2)))"

section \<open>Every core event is handled once\<close>

fun polled :: "enf_step list \<Rightarrow> (disk \<times> (nat \<Rightarrow> bool)) list" where
  "polled [] = []"
| "polled (PollLog d free # sts) = (d, free) # polled sts"
| "polled (_ # sts) = polled sts"

definition no_signal :: "enf_step list \<Rightarrow> bool" where
  "no_signal sts \<longleftrightarrow> list_all (\<lambda>st. case st of SignalStop _ _ _ \<Rightarrow> False | _ \<Rightarrow> True) sts"

lemma step_handles:
  assumes "enforcer_step C G e st = (e1, evs, pkts)" "case st of SignalStop _ _ _ \<Rightarrow> False | _ \<Rightarrow> True"
  shows "efRunning e1 = efRunning e \<and> polls C (efReader e) (polled [st]) = (efReader e1, drop (length (efQueue e)) (evs @ efQueue e1)) \<and>
     efQueue e @ drop (length (efQueue e)) (evs @ efQueue e1) = evs @ efQueue e1"
  using assms by (cases st) (auto split: prod.splits list.splits option.splits)

lemma polls_append: "polls C r (ps @ qs) = (case polls C r ps of (r1, evs) \<Rightarrow> case polls C r1 qs of (r2, evs2) \<Rightarrow> (r2, evs @ evs2))"
  by (induction ps arbitrary: r) (auto split: prod.splits)

lemma polled_Cons: "polled (st # sts) = polled [st] @ polled sts"
  by (cases st) simp_all

lemma run_handles:
  assumes "efRunning e" "no_signal sts" "enforcer_run C G e sts = (e', evs, pkts)"
  shows "evs @ efQueue e' = efQueue e @ snd (polls C (efReader e) (polled sts))"
  using assms
proof (induction sts arbitrary: e evs pkts e')
  case (Cons st sts)
  obtain e1 ev1 pk1 where s1: "enforcer_step C G e st = (e1, ev1, pk1)" by (metis prod.exhaust)
  obtain e2 ev2 pk2 where s2: "enforcer_run C G e1 sts = (e2, ev2, pk2)" by (metis prod.exhaust)
  have ns: "case st of SignalStop _ _ _ \<Rightarrow> False | _ \<Rightarrow> True" "no_signal sts"
    using Cons.prems(2) by (simp_all add: no_signal_def)
  note h = step_handles [OF s1 ns(1)]
  have r: "efRunning e1" using h Cons.prems(1) by simp
  have eq: "evs = ev1 @ ev2" "e' = e2" using Cons.prems(1,3) s1 s2 by auto
  define d where "d = drop (length (efQueue e)) (ev1 @ efQueue e1)"
  have "snd (polls C (efReader e) (polled (st # sts))) = d @ snd (polls C (efReader e1) (polled sts))"
    using h unfolding polled_Cons [of st sts] polls_append d_def by (simp split: prod.splits)
  moreover have "ev2 @ efQueue e2 = efQueue e1 @ snd (polls C (efReader e1) (polled sts))"
    by (rule Cons.IH [OF r ns(2) s2])
  ultimately show ?case using h eq unfolding d_def by (metis append.assoc)
qed simp

text \<open>
  The daemon handles each entry of the growing log once and in order, whatever else its
  goroutines do in between; what it has not handled yet is in its queue.
\<close>

lemma enforcer_handles_once:
  assumes "enforcer_cmdStart parse devMode io = Value (EnforcerUp e)" "eiKey io = Some key"
    and "growing C key [] (polled sts) es" "no_signal sts" "enforcer_run C G e sts = (e', evs, pkts)"
  shows "\<exists>k \<le> length es. evs @ efQueue e' = take k (log_events C es)"
proof -
  have e: "efReader e = NewTailReader key (5 * 10 ^ 9)" "efQueue e = []" "efRunning e"
    using assms(1,2) by (auto simp: enforcer_cmdStart_def Let_def split: if_splits outcome.splits)
  obtain m where "m \<le> length es" "snd (polls C (NewTailReader key (5 * 10 ^ 9)) (polled sts)) = take m (log_events C es)"
    using polls_spec [OF assms(3), of "NewTailReader key (5 * 10 ^ 9)" 0] by (auto simp: NewTailReader_def)
  then show ?thesis using run_handles [OF e(3) assms(4,5)] e(1,2) by auto
qed

section \<open>Two gaps\<close>

text \<open>A peers file that exists and cannot be read makes the daemon panic, although it announces to go on without gossip.\<close>

lemma unreadable_peers_panic:
  assumes "eiSoul io" "eiKey io = Some key" "eiConfig io" "devMode \<longrightarrow> eiDev io \<noteq> None" "eiPeers io = Inl ReadFailed"
  shows "enforcer_cmdStart parse devMode io = Panic"
  using assms by (auto simp: enforcer_cmdStart_def LoadPeers_def peers_All_def Let_def)

text \<open>
  A report of a core death is taken for a heartbeat: the receiver marks the sender alive, and as
  the report carries the number of the log entry, every heartbeat with a smaller number that
  follows is ignored.
\<close>

lemma death_report_counts_as_heartbeat:
  assumes "decodePacket pkt = Inr (body, sig)" "gc_header G body = Some (pid, sq)" "pid \<noteq> []"
    and "hex_decode pid = Some pub" "length pub = PublicKeySize" "map_of (ndStates n) pid = Some st"
    and "ed_verify C pub body sig" "stLastSeq st < sq"
    and "decodePacket pkt2 = Inr (body2, sig2)" "gc_header G body2 = Some (pid, sq2)" "sq2 \<le> sq"
  shows "map_of (ndStates (handlePacket C G n now pkt)) pid = Some (st\<lparr>stLastSeen := now, stLastSeq := sq, stStatus := PeerAlive\<rparr>)"
    "handlePacket C G (handlePacket C G n now pkt) now2 pkt2 = handlePacket C G n now pkt"
proof -
  have n': "handlePacket C G n now pkt = n\<lparr>ndStates := AList.update pid (st\<lparr>stLastSeen := now, stLastSeq := sq, stStatus := PeerAlive\<rparr>) (ndStates n)\<rparr>"
    using assms(1-8) by (simp add: handlePacket_def not_le)
  then show m: "map_of (ndStates (handlePacket C G n now pkt)) pid = Some (st\<lparr>stLastSeen := now, stLastSeq := sq, stStatus := PeerAlive\<rparr>)"
    by (simp add: update_conv')
  show "handlePacket C G (handlePacket C G n now pkt) now2 pkt2 = handlePacket C G n now pkt"
    using m assms(9-11) by (simp add: handlePacket_def [of C G "handlePacket C G n now pkt"] split: option.splits)
qed

end
