(* ===== verification/Gossip_Mesh.thy ===== *)
theory Gossip_Mesh
  imports Gossip
begin

text \<open>
  The life of a gossip node (\<open>Start\<close>, the three loops and \<open>Stop\<close> of \<open>internal/gossip/heartbeat.go\<close>),
  and two nodes together: one sends heartbeats, the network loses, repeats and reorders them and
  adds packets of its own, the other one watches.
\<close>

section \<open>Start and stop\<close>

datatype loop = RecvLoop | SendLoop | WatchLoop

record live_node =
  lnNode :: node
  lnConn :: bool
  lnCancel :: bool
  lnCtxDone :: bool
  lnLoops :: "loop set"
  lnDone :: bool

datatype node_error = ResolveFailed | ListenFailed

definition idle_node :: "node \<Rightarrow> live_node" where
  "idle_node n = \<lparr>lnNode = n, lnConn = False, lnCancel = False, lnCtxDone = False, lnLoops = {}, lnDone = False\<rparr>"

text \<open>\<open>Start\<close>: whether the address resolves and the socket can be bound.\<close>

definition node_Start :: "bool \<Rightarrow> bool \<Rightarrow> node \<Rightarrow> node_error option \<times> live_node" where
  "node_Start resolves listens n =
     (if \<not> resolves then (Some ResolveFailed, idle_node n)
      else if \<not> listens then (Some ListenFailed, idle_node n)
      else (None, (idle_node n)\<lparr>lnConn := True, lnCancel := True, lnLoops := {RecvLoop, SendLoop, WatchLoop}\<rparr>))"

text \<open>The part of \<open>Stop\<close> before it waits for \<open>done\<close>.\<close>

definition node_Stop :: "live_node \<Rightarrow> live_node" where
  "node_Stop l = l\<lparr>lnCtxDone := lnCtxDone l \<or> lnCancel l, lnConn := False\<rparr>"

definition LocalAddr :: "string \<Rightarrow> live_node \<Rightarrow> string option" where
  "LocalAddr bound l = (if lnConn l then Some bound else None)"

text \<open>
  The goroutines: a loop that is alive may take its turn (a \<open>select\<close> with a ready ticker may
  pick it even after the cancellation), and may leave once the context is cancelled; \<open>done\<close> is
  closed when all three have left.
\<close>

inductive live_step :: "env \<Rightarrow> gossip_codec \<Rightarrow> live_node \<Rightarrow> live_node \<Rightarrow> bool" for C G where
  packet: "RecvLoop \<in> lnLoops l \<Longrightarrow> lnConn l \<Longrightarrow> live_step C G l (l\<lparr>lnNode := recvPacket C G (lnNode l) now data\<rparr>)"
| beat: "SendLoop \<in> lnLoops l \<Longrightarrow> live_step C G l (l\<lparr>lnNode := fst (sendHeartbeat G (lnNode l) ts nonce reachable)\<rparr>)"
| watch: "WatchLoop \<in> lnLoops l \<Longrightarrow> live_step C G l (l\<lparr>lnNode := fst (checkPeers (lnNode l) now)\<rparr>)"
| leave: "x \<in> lnLoops l \<Longrightarrow> lnCtxDone l \<Longrightarrow> live_step C G l (l\<lparr>lnLoops := lnLoops l - {x}\<rparr>)"
| closed: "lnCancel l \<Longrightarrow> lnLoops l = {} \<Longrightarrow> live_step C G l (l\<lparr>lnDone := True\<rparr>)"
| stop: "live_step C G l (node_Stop l)"

inductive_cases live_stepE: "live_step C G l l'"

abbreviation live_run :: "env \<Rightarrow> gossip_codec \<Rightarrow> live_node \<Rightarrow> live_node \<Rightarrow> bool" where
  "live_run C G \<equiv> (live_step C G)\<^sup>*\<^sup>*"

definition live_inv :: "live_node \<Rightarrow> bool" where
  "live_inv l \<longleftrightarrow> (lnDone l \<longrightarrow> lnLoops l = {} \<and> lnCancel l) \<and> (\<not> lnCancel l \<longrightarrow> lnLoops l = {} \<and> \<not> lnConn l)"

lemma live_inv_start: "live_inv (snd (node_Start r b n))"
  by (simp add: live_inv_def node_Start_def idle_node_def)

lemma live_inv_step: "live_step C G l l' \<Longrightarrow> live_inv l \<Longrightarrow> live_inv l'"
  by (erule live_stepE) (auto simp: live_inv_def node_Stop_def)

lemma live_inv_run: "live_run C G l l' \<Longrightarrow> live_inv l \<Longrightarrow> live_inv l'"
  by (induction rule: rtranclp_induct) (auto intro: live_inv_step)

text \<open>
  \<open>Stop\<close> of a started node returns: the loops can leave and \<open>done\<close> is closed. Once it is, the
  peers' states and the sequence number do not change any more.
\<close>

lemma leave_all:
  assumes "finite L" "lnLoops l = L" "lnCtxDone l"
  shows "live_run C G l (l\<lparr>lnLoops := {}\<rparr>)"
  using assms
proof (induction L arbitrary: l rule: finite_induct)
  case empty
  then show ?case by (metis live_node.surjective live_node.update_convs(5) rtranclp.rtrancl_refl)
next
  case (insert x L)
  have "live_step C G l (l\<lparr>lnLoops := lnLoops l - {x}\<rparr>)" using insert.prems by (intro live_step.leave) auto
  moreover have "live_run C G (l\<lparr>lnLoops := lnLoops l - {x}\<rparr>) (l\<lparr>lnLoops := lnLoops l - {x}, lnLoops := {}\<rparr>)"
    using insert.hyps insert.prems by (intro insert.IH) auto
  ultimately show ?case by (simp add: converse_rtranclp_into_rtranclp)
qed

lemma stop_returns:
  assumes "node_Start True True n = (None, l)" "live_run C G l l1"
  shows "\<exists>l2. live_run C G (node_Stop l1) l2 \<and> lnDone l2 \<and> lnNode l2 = lnNode l1"
proof -
  have "lnCancel l \<and> finite (lnLoops l)" using assms(1) by (auto simp: node_Start_def)
  with assms(2) have c: "lnCancel l1 \<and> finite (lnLoops l1)"
    by (induction rule: rtranclp_induct) (auto elim!: live_stepE simp: node_Stop_def)
  let ?l = "(node_Stop l1)\<lparr>lnLoops := {}\<rparr>"
  have "live_run C G (node_Stop l1) ?l" using c by (intro leave_all) (auto simp: node_Stop_def)
  moreover have "live_step C G ?l (?l\<lparr>lnDone := True\<rparr>)" using c by (intro live_step.closed) (auto simp: node_Stop_def)
  ultimately have "live_run C G (node_Stop l1) (?l\<lparr>lnDone := True\<rparr>)" by (rule rtranclp.rtrancl_into_rtrancl)
  then show ?thesis by (intro exI [of _ "?l\<lparr>lnDone := True\<rparr>"]) (simp add: node_Stop_def)
qed

lemma stopped_is_quiet:
  assumes "live_run C G (snd (node_Start r b n)) l" "lnDone l" "live_run C G l l'"
  shows "lnNode l' = lnNode l \<and> lnDone l'"
  using assms(3)
proof (induction rule: rtranclp_induct)
  case (step l1 l2)
  have "live_inv l1" using live_inv_run [OF _ live_inv_start] assms(1) step.hyps(1) by (metis rtranclp_trans)
  then show ?case using step by (auto elim!: live_stepE simp: live_inv_def node_Stop_def)
qed (use assms(2) in simp)

text \<open>After a failed \<open>Start\<close> the channel is never closed, so \<open>Stop\<close> would wait forever.\<close>

lemma failed_start_never_done:
  assumes "node_Start r b n = (Some e, l)" "live_run C G l l'"
  shows "\<not> lnDone l'"
proof -
  have "\<not> lnCancel l \<and> \<not> lnDone l" using assms(1) by (auto simp: node_Start_def idle_node_def split: if_splits)
  with assms(2) have "\<not> lnCancel l' \<and> \<not> lnDone l'"
    by (induction rule: rtranclp_induct) (auto elim!: live_stepE simp: node_Stop_def)
  then show ?thesis ..
qed

section \<open>Two nodes and a network\<close>

text \<open>
  Everything the sender has put on the wire stays in \<open>meNet\<close>, with the sequence number it was
  sent under, and may arrive at any time, any number of times or never. \<open>Noise\<close> is any other
  datagram.
\<close>

record mesh =
  meSender :: node
  meWatcher :: node
  meNet :: "(u64 \<times> bytes) list"

datatype mesh_event = Beat string bytes "peer \<Rightarrow> bool" | Arrive nat time | Noise time bytes | Watch time

definition put_beat :: "gossip_codec \<Rightarrow> string \<Rightarrow> bytes \<Rightarrow> (peer \<Rightarrow> bool) \<Rightarrow> node \<times> (u64 \<times> bytes) list \<Rightarrow> node \<times> (u64 \<times> bytes) list" where
  "put_beat G ts nonce reachable a =
     (case sendHeartbeat G (fst a) ts nonce reachable of (n, pkts) \<Rightarrow> (n, snd a @ map (\<lambda>(p, b). (ndSeq n, b)) pkts))"

text \<open>One event, and the peers the watcher raises an alarm for.\<close>

fun mesh_step :: "env \<Rightarrow> gossip_codec \<Rightarrow> mesh \<Rightarrow> mesh_event \<Rightarrow> mesh \<times> peer list" where
  "mesh_step C G m (Beat ts nonce reachable) =
     (case put_beat G ts nonce reachable (meSender m, meNet m) of (a, net) \<Rightarrow> (m\<lparr>meSender := a, meNet := net\<rparr>, []))"
| "mesh_step C G m (Arrive k now) =
     (if k < length (meNet m) then m\<lparr>meWatcher := recvPacket C G (meWatcher m) now (snd (meNet m ! k))\<rparr> else m, [])"
| "mesh_step C G m (Noise now data) = (m\<lparr>meWatcher := recvPacket C G (meWatcher m) now data\<rparr>, [])"
| "mesh_step C G m (Watch now) =
     (case checkPeers (meWatcher m) now of (b, silent, dead) \<Rightarrow> (m\<lparr>meWatcher := b\<rparr>, silent @ dead))"

fun mesh_run :: "env \<Rightarrow> gossip_codec \<Rightarrow> mesh \<Rightarrow> mesh_event list \<Rightarrow> mesh \<times> peer list" where
  "mesh_run C G m [] = (m, [])"
| "mesh_run C G m (e # es) =
     (case mesh_step C G m e of (m1, al1) \<Rightarrow> (case mesh_run C G m1 es of (m2, al2) \<Rightarrow> (m2, al1 @ al2)))"

text \<open>
  The traffic is timely: whenever the watcher looks, a heartbeat with a number above all that
  arrived before has arrived less than \<open>w\<close> ago. Only the sender's numbers and the times count.
\<close>

fun timely :: "gossip_codec \<Rightarrow> int \<Rightarrow> u64 \<times> time \<Rightarrow> node \<times> (u64 \<times> bytes) list \<Rightarrow> mesh_event list \<Rightarrow> bool" where
  "timely G w h a [] = True"
| "timely G w h a (Beat ts nonce reachable # es) = timely G w h (put_beat G ts nonce reachable a) es"
| "timely G w h a (Arrive k now # es) =
     timely G w (if k < length (snd a) \<and> fst h < fst (snd a ! k) then (fst (snd a ! k), now) else h) a es"
| "timely G w h a (Noise now data # es) = timely G w h a es"
| "timely G w h a (Watch now # es) = (0 \<le> now - snd h \<and> now - snd h < w \<and> timely G w h a es)"

section \<open>No false alarm\<close>

text \<open>The states of a node are indexed by the hexadecimal keys of its peers.\<close>

definition node_wf :: "node \<Rightarrow> bool" where
  "node_wf n \<longleftrightarrow> distinct (map fst (ndStates n)) \<and> (\<forall>(i, st) \<in> set (ndStates n). i = hex_encode (prPubKey (stPeer st)))"

lemma node_wf_update:
  assumes "node_wf n" "i = hex_encode (prPubKey (stPeer st))"
  shows "node_wf (n\<lparr>ndStates := AList.update i st (ndStates n)\<rparr>)"
  using assms set_update_subset [of i st "ndStates n"] by (auto simp: node_wf_def distinct_update)

lemma initStates_wf:
  "distinct (map fst al) \<and> (\<forall>(i, st) \<in> set al. i = hex_encode (prPubKey (stPeer st))) \<Longrightarrow>
   distinct (map fst (foldl (\<lambda>m p. AList.update (hex_encode (prPubKey p)) \<lparr>stPeer = p, stLastSeen = now, stLastSeq = 0, stStatus = PeerAlive\<rparr> m) al ps)) \<and>
   (\<forall>(i, st) \<in> set (foldl (\<lambda>m p. AList.update (hex_encode (prPubKey p)) \<lparr>stPeer = p, stLastSeen = now, stLastSeq = 0, stStatus = PeerAlive\<rparr> m) al ps).
      i = hex_encode (prPubKey (stPeer st)))"
proof (induction ps arbitrary: al)
  case (Cons p ps)
  let ?st = "\<lparr>stPeer = p, stLastSeen = now, stLastSeq = 0, stStatus = PeerAlive\<rparr>"
  have "set (AList.update (hex_encode (prPubKey p)) ?st al) \<subseteq> insert (hex_encode (prPubKey p), ?st) (set al)"
    by (rule set_update_subset)
  then show ?case using Cons by (auto simp: distinct_update simp del: foldl_append intro!: Cons.IH)
qed simp

lemma NewNode_wf: "node_wf (NewNode cfg now)"
  using initStates_wf [of "[]" now "ncPeers cfg"] by (simp add: node_wf_def NewNode_def initStates_def)

lemma recvPacket_wf: "node_wf n \<Longrightarrow> node_wf (recvPacket C G n now data)"
proof -
  assume wf: "node_wf n"
  show ?thesis
  proof (cases "authentic C G n (take maxPacketBytes data)")
    case (Some x)
    obtain i sq where x: "x = (i, sq)" by (cases x)
    obtain st where st: "map_of (ndStates n) i = Some st" using authentic_known Some x by blast
    then have "i = hex_encode (prPubKey (stPeer st))" using wf map_of_SomeD [OF st] by (auto simp: node_wf_def)
    then show ?thesis
      using wf Some x st node_wf_update [OF wf, of i "st\<lparr>stLastSeen := now, stLastSeq := sq, stStatus := PeerAlive\<rparr>"]
      by (simp add: recvPacket_def handlePacket_authentic Let_def)
  qed (simp add: recvPacket_def handlePacket_authentic wf)
qed

lemma checkPeers_wf: "node_wf n \<Longrightarrow> node_wf (fst (checkPeers n now))"
  by (auto simp: node_wf_def checkPeers_states o_def split_beta checkPeer_le)

lemma initStates_known:
  assumes "p \<in> set peers"
  shows "\<exists>q. map_of (initStates now peers) (hex_encode (prPubKey p)) =
     Some \<lparr>stPeer = q, stLastSeen = now, stLastSeq = 0, stStatus = PeerAlive\<rparr>"
  using assms
proof (induction peers rule: rev_induct)
  case (snoc x xs)
  then show ?case
    by (cases "hex_encode (prPubKey x) = hex_encode (prPubKey p)") (auto simp: initStates_def update_conv')
qed simp

text \<open>What a heartbeat's receiver reads out of it.\<close>

definition beats_fit :: "gossip_codec \<Rightarrow> string \<Rightarrow> bool" where
  "beats_fit G i \<longleftrightarrow>
     (\<forall>msg p. gc_heartbeat G msg = Some p \<and> hbPeerID msg = i \<longrightarrow>
        gc_header G p = Some (i, hbSeq msg) \<and> 8 + length p + SignatureSize \<le> maxPacketBytes)"

definition net_authentic :: "env \<Rightarrow> gossip_codec \<Rightarrow> node \<Rightarrow> string \<Rightarrow> (u64 \<times> bytes) list \<Rightarrow> bool" where
  "net_authentic C G b i net \<longleftrightarrow> (\<forall>(q, data) \<in> set net. authentic C G b (take maxPacketBytes data) = Some (i, q))"

lemma beat_authentic:
  assumes "signer_ok C s" "ndSigner a = Some s" "i = hex_encode (sgPublicKey s)" "beats_fit G i"
    and "map_of (ndStates b) i \<noteq> None" "net_authentic C G b i net"
    and "put_beat G ts nonce reachable (a, net) = (a', net')"
  shows "net_authentic C G b i net' \<and> ndSigner a' = Some s"
proof -
  define msg where "msg = \<lparr>hbType = ''heartbeat'', hbPeerID = i, hbSeq = ndSeq a + 1, hbTs = ts, hbNonce = hex_encode nonce\<rparr>"
  have msg: "hbPeerID msg = i" "hbSeq msg = ndSeq a + 1" by (simp_all add: msg_def)
  have send: "sendHeartbeat G a ts nonce reachable =
      (case gc_heartbeat G msg of
         None \<Rightarrow> (a\<lparr>ndSeq := ndSeq a + 1\<rparr>, [])
       | Some payload \<Rightarrow>
           (case sgSign s payload of
              None \<Rightarrow> (a\<lparr>ndSeq := ndSeq a + 1\<rparr>, [])
            | Some sig \<Rightarrow> (a\<lparr>ndSeq := ndSeq a + 1\<rparr>, map (\<lambda>p. (p, encodePacket payload sig)) (filter reachable (ndPeers a)))))"
    by (simp add: sendHeartbeat_def assms(2,3) msg_def Let_def)
  have auth: "authentic C G b (take maxPacketBytes (encodePacket payload sig)) = Some (i, ndSeq a + 1)"
    if p: "gc_heartbeat G msg = Some payload" and sg: "sgSign s payload = Some sig" for payload sig
  proof -
    have h: "gc_header G payload = Some (i, ndSeq a + 1)" "8 + length payload + SignatureSize \<le> maxPacketBytes"
      using assms(4) p msg unfolding beats_fit_def by (metis, metis)
    have v: "length sig = SignatureSize" "ed_verify C (sgPublicKey s) payload sig" "length (sgPublicKey s) = PublicKeySize"
      using assms(1) sg by (auto simp: signer_ok_def)
    have "length (encodePacket payload sig) = 8 + length payload + SignatureSize"
      using v(1) by (simp add: encodePacket_def put_u32_def)
    then have "take maxPacketBytes (encodePacket payload sig) = encodePacket payload sig" using h(2) by simp
    moreover have "decodePacket (encodePacket payload sig) = Inr (payload, sig)"
      using h(2) v(1) by (intro decode_encodePacket) (simp_all add: maxPacketBytes_def SignatureSize_def)
    moreover have "i \<noteq> []" using v(3) assms(3) by (cases "sgPublicKey s") (auto simp: PublicKeySize_def)
    ultimately show ?thesis using h(1) v(2,3) assms(3,5) by (simp add: authentic_def)
  qed
  show ?thesis
    using assms(2,6,7) auth
    by (auto simp: put_beat_def send net_authentic_def split: option.splits)
qed

text \<open>The watcher's view of the sender: alive, last heard as the traffic says.\<close>

definition tracks :: "env \<Rightarrow> gossip_codec \<Rightarrow> node \<Rightarrow> string \<Rightarrow> u64 \<times> time \<Rightarrow> node \<Rightarrow> bool" where
  "tracks C G b0 i h b \<longleftrightarrow>
     node_wf b \<and> node_le b0 b \<and> ndInterval b = ndInterval b0 \<and> ndMissed b = ndMissed b0 \<and> ndDeath b = ndDeath b0 \<and>
     (\<exists>st. map_of (ndStates b) i = Some st \<and> stStatus st = PeerAlive \<and> stLastSeq st = fst h \<and> stLastSeen st = snd h)"

lemma recvPacket_fields [simp]:
  "ndInterval (recvPacket C G n now data) = ndInterval n" "ndMissed (recvPacket C G n now data) = ndMissed n"
  "ndDeath (recvPacket C G n now data) = ndDeath n"
  by (simp_all add: recvPacket_def handlePacket_authentic Let_def split: option.splits prod.splits)

lemma checkPeers_fields [simp]:
  "ndInterval (fst (checkPeers n now)) = ndInterval n" "ndMissed (fst (checkPeers n now)) = ndMissed n"
  "ndDeath (fst (checkPeers n now)) = ndDeath n"
  by (simp_all add: checkPeers_def Let_def)

lemma recvPacket_state:
  "map_of (ndStates (recvPacket C G n now data)) i =
     (case authentic C G n (take maxPacketBytes data) of
        Some (j, q) \<Rightarrow>
          if j = i \<and> stLastSeq (the (map_of (ndStates n) i)) < q
          then Some ((the (map_of (ndStates n) i))\<lparr>stLastSeen := now, stLastSeq := q, stStatus := PeerAlive\<rparr>)
          else map_of (ndStates n) i
      | None \<Rightarrow> map_of (ndStates n) i)"
  by (auto simp: recvPacket_def handlePacket_authentic Let_def update_conv' split: option.splits)

lemma tracks_packet:
  assumes "tracks C G b0 i h b" "authentic C G b0 (take maxPacketBytes data) = Some (i, q)"
  shows "tracks C G b0 i (if fst h < q then (q, now) else h) (recvPacket C G b now data)"
proof -
  have a: "authentic C G b (take maxPacketBytes data) = Some (i, q)"
    using assms node_le_authentic [of b0 b] by (simp add: tracks_def)
  have le: "node_le b (recvPacket C G b now data)" by (simp add: recvPacket_def handlePacket_le)
  show ?thesis
    using assms(1) recvPacket_wf [of b C G now data] node_le_trans [OF _ le]
    by (auto simp: tracks_def recvPacket_state a)
qed

lemma tracks_noise:
  assumes "tracks C G b0 i h b" "\<And>q. authentic C G b0 (take maxPacketBytes data) \<noteq> Some (i, q)"
  shows "tracks C G b0 i h (recvPacket C G b now data)"
proof -
  have a: "authentic C G b (take maxPacketBytes data) \<noteq> Some (i, q)" for q
    using assms node_le_authentic [of b0 b] by (simp add: tracks_def)
  have le: "node_le b (recvPacket C G b now data)" by (simp add: recvPacket_def handlePacket_le)
  have "map_of (ndStates (recvPacket C G b now data)) i = map_of (ndStates b) i"
    using a by (auto simp: recvPacket_state split: option.splits)
  then show ?thesis using assms(1) recvPacket_wf [of b C G now data] node_le_trans [OF _ le] by (auto simp: tracks_def)
qed

lemma tracks_watch:
  assumes "tracks C G b0 i h b" "0 < ndInterval b0" "ndMissed b0 \<le> ndDeath b0"
    and "0 \<le> now - snd h" "now - snd h < ndMissed b0 * ndInterval b0" "i = hex_encode pub"
    and "checkPeers b now = (b', silent, dead)"
  shows "tracks C G b0 i h b' \<and> (\<forall>p \<in> set (silent @ dead). prPubKey p \<noteq> pub)"
proof -
  obtain st where st: "map_of (ndStates b) i = Some st" "stStatus st = PeerAlive" "stLastSeq st = fst h" "stLastSeen st = snd h"
    using assms(1) by (auto simp: tracks_def)
  have f: "ndInterval b = ndInterval b0" "ndMissed b = ndMissed b0" "ndDeath b = ndDeath b0" using assms(1) by (auto simp: tracks_def)
  have "missedIntervals b now st < ndMissed b" using assms(2,4,5) st(4) f by (intro missed_below) auto
  then have quiet: "checkPeer b now st = (st, NoAlarm)" using assms(3) f by (simp add: checkPeer_def Let_def)
  have b': "b' = fst (checkPeers b now)" using assms(7) by simp
  have "tracks C G b0 i h b'"
    using assms(1) st quiet checkPeers_wf [of b now] node_le_trans [OF _ checkPeers_le [of b now]]
    by (auto simp: tracks_def b' map_of_checkPeers)
  moreover have "prPubKey p \<noteq> pub" if p: "p \<in> set (silent @ dead)" for p
  proof
    assume pub: "prPubKey p = pub"
    obtain j st2 where j: "(j, st2) \<in> set (ndStates b)" "snd (checkPeer b now st2) \<noteq> NoAlarm" "p = stPeer (fst (checkPeer b now st2))"
      using p assms(7) by (force simp: checkPeers_def Let_def split_beta)
    have wf: "node_wf b" using assms(1) by (simp add: tracks_def)
    have "j = i" using wf j(1,3) pub assms(6) by (auto simp: node_wf_def checkPeer_le)
    then have "st2 = st" using wf j(1) st(1) by (simp add: node_wf_def)
    then show False using j(2) quiet by simp
  qed
  ultimately show ?thesis by blast
qed

lemma mesh_tracks:
  assumes "signer_ok C s" "i = hex_encode (sgPublicKey s)" "beats_fit G i"
    and "0 < ndInterval b0" "ndMissed b0 \<le> ndDeath b0" "map_of (ndStates b0) i \<noteq> None"
    and "\<forall>now data q. Noise now data \<in> set es \<longrightarrow> authentic C G b0 (take maxPacketBytes data) \<noteq> Some (i, q)"
    and "ndSigner (meSender m) = Some s" "net_authentic C G b0 i (meNet m)" "tracks C G b0 i h (meWatcher m)"
    and "timely G (ndMissed b0 * ndInterval b0) h (meSender m, meNet m) es"
    and "mesh_run C G m es = (m', alarms)"
  shows "map_option stStatus (map_of (ndStates (meWatcher m')) i) = Some PeerAlive \<and> (\<forall>p \<in> set alarms. prPubKey p \<noteq> sgPublicKey s)"
  using assms(7-)
proof (induction es arbitrary: m h alarms)
  case Nil
  then show ?case by (auto simp: tracks_def)
next
  case (Cons e es)
  obtain m1 al1 where m1: "mesh_step C G m e = (m1, al1)" by (cases "mesh_step C G m e")
  obtain al2 where m2: "mesh_run C G m1 es = (m', al2)" "alarms = al1 @ al2" using Cons.prems(6) m1 by (auto split: prod.splits)
  have noise: "\<forall>now data q. Noise now data \<in> set es \<longrightarrow> authentic C G b0 (take maxPacketBytes data) \<noteq> Some (i, q)"
    using Cons.prems(1) by simp
  note ih = Cons.IH [OF noise _ _ _ _ m2(1)]
  show ?case
  proof (cases e)
    case (Beat ts nonce reachable)
    obtain a net where pb: "put_beat G ts nonce reachable (meSender m, meNet m) = (a, net)"
      by (cases "put_beat G ts nonce reachable (meSender m, meNet m)")
    have "net_authentic C G b0 i net \<and> ndSigner a = Some s"
      by (rule beat_authentic [OF assms(1) Cons.prems(2) assms(2,3,6) Cons.prems(3) pb])
    then show ?thesis using ih [of h] Cons.prems(4,5) m1 m2(2) Beat pb by auto
  next
    case (Arrive k now)
    show ?thesis
    proof (cases "k < length (meNet m)")
      case True
      obtain q data where nk: "meNet m ! k = (q, data)" by (cases "meNet m ! k")
      have "authentic C G b0 (take maxPacketBytes data) = Some (i, q)"
        using Cons.prems(3) True nk nth_mem [OF True] by (auto simp: net_authentic_def)
      note tr = tracks_packet [OF Cons.prems(4) this, of now]
      have "timely G (ndMissed b0 * ndInterval b0) (if fst h < q then (q, now) else h) (meSender m, meNet m) es"
        using Cons.prems(5) Arrive True nk by (cases "fst h < q") simp_all
      then show ?thesis
        using ih [of "if fst h < q then (q, now) else h"] tr Cons.prems(2,3) m1 m2(2) Arrive True nk by auto
    next
      case False
      then show ?thesis using ih [of h] Cons.prems(2-5) m1 m2(2) Arrive by auto
    qed
  next
    case (Noise now data)
    have "tracks C G b0 i h (recvPacket C G (meWatcher m) now data)"
      using Cons.prems(1) Noise by (intro tracks_noise [OF Cons.prems(4)]) auto
    then show ?thesis using ih [of h] Cons.prems(2,3,5) m1 m2(2) Noise by auto
  next
    case (Watch now)
    obtain b silent dead where cp: "checkPeers (meWatcher m) now = (b, silent, dead)" by (cases "checkPeers (meWatcher m) now")
    have t: "0 \<le> now - snd h" "now - snd h < ndMissed b0 * ndInterval b0" "timely G (ndMissed b0 * ndInterval b0) h (meSender m, meNet m) es"
      using Cons.prems(5) Watch by auto
    from tracks_watch [OF Cons.prems(4) assms(4,5) t(1,2) assms(2) cp]
    show ?thesis using ih [of h] Cons.prems(2,3) t(3) m1 m2(2) Watch cp by auto
  qed
qed

text \<open>
  Property C21. A peer that is up raises no alarm. Let one node send heartbeats and another, with
  the first one's key among its peers, receive and check. The network may lose, repeat, delay
  and reorder the heartbeats and add any packets that do not carry the sender's signature. If
  at every check a heartbeat newer than all before has arrived within the silence threshold,
  the watcher never reports the sender as silent or compromised and has it as alive at the end.
\<close>

theorem live_peer_never_alarmed:
  assumes "signer_ok C s" "ncSigner acfg = Some s" "beats_fit G (hex_encode (sgPublicKey s))"
    and "p \<in> set (ncPeers bcfg)" "prPubKey p = sgPublicKey s"
    and "0 < ndInterval (NewNode bcfg start)" "ndMissed (NewNode bcfg start) \<le> ndDeath (NewNode bcfg start)"
    and "\<forall>now data q. Noise now data \<in> set es \<longrightarrow>
           authentic C G (NewNode bcfg start) (take maxPacketBytes data) \<noteq> Some (hex_encode (sgPublicKey s), q)"
    and "timely G (ndMissed (NewNode bcfg start) * ndInterval (NewNode bcfg start)) (0, start) (NewNode acfg start', []) es"
    and "mesh_run C G \<lparr>meSender = NewNode acfg start', meWatcher = NewNode bcfg start, meNet = []\<rparr> es = (m', alarms)"
  shows "map_option stStatus (map_of (ndStates (meWatcher m')) (hex_encode (sgPublicKey s))) = Some PeerAlive \<and>
    (\<forall>p' \<in> set alarms. prPubKey p' \<noteq> sgPublicKey s)"
proof (rule mesh_tracks [OF assms(1) refl assms(3,6,7) _ assms(8) _ _ _ _ assms(10)])
  have known: "\<exists>q. map_of (ndStates (NewNode bcfg start)) (hex_encode (sgPublicKey s)) =
      Some \<lparr>stPeer = q, stLastSeen = start, stLastSeq = 0, stStatus = PeerAlive\<rparr>"
    using initStates_known [OF assms(4), of start] assms(5) by (simp add: NewNode_def)
  then show "map_of (ndStates (NewNode bcfg start)) (hex_encode (sgPublicKey s)) \<noteq> None" by auto
  show "tracks C G (NewNode bcfg start) (hex_encode (sgPublicKey s)) (0, start)
      (meWatcher \<lparr>meSender = NewNode acfg start', meWatcher = NewNode bcfg start, meNet = []\<rparr>)"
    using known NewNode_wf node_le_refl by (auto simp: tracks_def)
qed (use assms(2,9) in \<open>simp_all add: NewNode_def net_authentic_def\<close>)

definition sample_beats :: gossip_codec where
  "sample_beats = \<lparr>gc_heartbeat = (\<lambda>m. Some (put_u64 (hbSeq m))), gc_death = (\<lambda>m. None),
     gc_header = (\<lambda>b. Some (hex_encode (replicate 32 5), word_of_nat (be_nat b)))\<rparr>"

definition sample_sender :: node_config where
  "sample_sender = \<lparr>ncSigner = Some sample_signer, ncPeers = [sample_peer], ncListenAddr = [], ncInterval = 10,
     ncMissedThreshold = 0, ncDeathThreshold = 0\<rparr>"

lemma sample_beats_fit: "beats_fit sample_beats (hex_encode (sgPublicKey sample_signer))"
proof -
  have "word_of_nat (be_nat (put_u64 w)) = w" for w :: u64
    using unsigned_less [of w, where 'a = nat] by (simp add: put_u64_def be_nat_be_bytes_id)
  then show ?thesis
    by (auto simp: beats_fit_def sample_beats_def put_u64_def SignatureSize_def maxPacketBytes_def sample_signer_def)
qed

theorem live_peer_never_alarmed_witness:
  "\<exists>m' alarms.
     mesh_run sample_env sample_beats
       \<lparr>meSender = NewNode sample_sender 0, meWatcher = NewNode sample_sender 0, meNet = []\<rparr>
       [Beat ''t'' [] (\<lambda>p. True), Watch 29, Arrive 0 29, Arrive 0 40, Watch 55] = (m', alarms) \<and>
     map_option stStatus (map_of (ndStates (meWatcher m')) (hex_encode (sgPublicKey sample_signer))) = Some PeerAlive"
proof -
  let ?m = "\<lparr>meSender = NewNode sample_sender 0, meWatcher = NewNode sample_sender 0, meNet = []\<rparr>"
  let ?es = "[Beat ''t'' [] (\<lambda>p. True), Watch 29, Arrive 0 29, Arrive 0 40, Watch 55]"
  obtain m' alarms where run: "mesh_run sample_env sample_beats ?m ?es = (m', alarms)" by (metis prod.exhaust)
  have "timely sample_beats 30 (0, 0) (NewNode sample_sender 0, []) ?es"
    by (simp add: put_beat_def sendHeartbeat_def NewNode_def sample_sender_def sample_signer_def sample_beats_def Let_def)
  moreover have "ndMissed (NewNode sample_sender 0) * ndInterval (NewNode sample_sender 0) = 30" "0 < ndInterval (NewNode sample_sender 0)"
      "ndMissed (NewNode sample_sender 0) \<le> ndDeath (NewNode sample_sender 0)"
    by (simp_all add: NewNode_def sample_sender_def)
  moreover have "ncSigner sample_sender = Some sample_signer" "sample_peer \<in> set (ncPeers sample_sender)"
      "prPubKey sample_peer = sgPublicKey sample_signer"
    by (simp_all add: sample_sender_def sample_peer_def sample_signer_def)
  ultimately show ?thesis
    using live_peer_never_alarmed [OF sample_signer_ok _ sample_beats_fit, of sample_sender sample_peer sample_sender 0 ?es 0 m' alarms] run
    by auto
qed

text \<open>
  A peer that restarts counts from 1 again: its heartbeats have no effect on a watcher that
  has heard a number at least as high, until it has caught up.
\<close>

lemma restarted_beat_ignored:
  assumes "signer_ok C s" "ndSigner a = Some s" "i = hex_encode (sgPublicKey s)" "beats_fit G i"
    and "map_of (ndStates b) i = Some st" "ndSeq a + 1 \<le> stLastSeq st"
    and "put_beat G ts nonce reachable (a, []) = (a', net)" "(q, data) \<in> set net"
  shows "recvPacket C G b now data = b"
proof -
  have "net_authentic C G b i net"
    using beat_authentic [OF assms(1-4) _ _ assms(7), of b] assms(5) by (simp add: net_authentic_def)
  then have "authentic C G b (take maxPacketBytes data) = Some (i, q)" using assms(8) by (auto simp: net_authentic_def)
  moreover have "q = ndSeq a + 1"
    using assms(2,7,8) by (auto simp: put_beat_def sendHeartbeat_def Let_def split: option.splits)
  ultimately show ?thesis using assms(5,6) by (simp add: recvPacket_def handlePacket_authentic)
qed

end
