(* ===== verification/Pd_Evidence.thy ===== *)
theory Pd_Evidence
  imports Store_Props "HOL-Library.AList"
begin

text \<open>
  The evidence catalogue of the police edition (\<open>internal/pd/evidence\<close>, \<open>internal/pd/roles\<close>):
  items in a catalogue file, custody events in the witness log. The catalogue in memory, the
  catalogue file and the log are the state; what the random source, the file system and the
  append do in a call are arguments.
\<close>

section \<open>Data\<close>

record item =
  itID :: string
  itCaseNumber :: string
  itDescription :: string
  itCategory :: string
  itCreatedAt :: time
  itCreatedBy :: string
  itLegalHold :: bool
  itHoldReason :: string
  itStatus :: string
  itCurrentNode :: string

record custody_event =
  ceItemID :: string
  ceCaseNumber :: string
  ceEventType :: string
  ceTimestamp :: time
  ceActor :: string
  ceFromNode :: string
  ceToNode :: string
  ceNotes :: string
  ceExportRef :: string

type_synonym catalog = "(string \<times> item) list"

text \<open>The catalogue file: missing, readable as a catalogue, or broken.\<close>

datatype catalog_file = NoCatalog | Catalog catalog | BrokenCatalog

record pd_store =
  pdLog :: "store \<times> disk"
  pdItems :: catalog
  pdFile :: catalog_file

record pd_codec =
  pd_json :: "custody_event \<Rightarrow> bytes option"
  pd_unjson :: "bytes \<Rightarrow> custody_event option"

datatype save_io = Saves | SaveLeaves | SaveBreaks

record pd_io =
  piNow :: time
  piDate :: string
  piRandom :: "bytes option"
  piSave :: save_io
  piAppend :: append_io

datatype pd_error = IDFailed | ItemNotFound string | UnderHold string | SaveFailed | CatalogUnreadable
  | LogFailed store_error

section \<open>Operations\<close>

definition saveCatalog :: "save_io \<Rightarrow> pd_store \<Rightarrow> pd_error option \<times> pd_store" where
  "saveCatalog io pd =
     (case io of
        Saves \<Rightarrow> (None, pd\<lparr>pdFile := Catalog (pdItems pd)\<rparr>)
      | SaveLeaves \<Rightarrow> (Some SaveFailed, pd)
      | SaveBreaks \<Rightarrow> (Some SaveFailed, pd\<lparr>pdFile := BrokenCatalog\<rparr>))"

definition loadCatalog :: "catalog_file \<Rightarrow> catalog option" where
  "loadCatalog f = (case f of NoCatalog \<Rightarrow> Some [] | Catalog items \<Rightarrow> Some items | BrokenCatalog \<Rightarrow> None)"

text \<open>
  \<open>Open\<close> of the evidence store: the log without a signer, then the catalogue file. The
  \<open>MkdirAll\<close> in front of it is the one the log's own \<open>Open\<close> repeats.
\<close>

definition pdOpen :: "env \<Rightarrow> disk \<times> catalog_file \<Rightarrow> bytes \<Rightarrow> open_io \<Rightarrow> (pd_error + pd_store) \<times> disk" where
  "pdOpen C df key io =
     (case Open C (fst df) key None io of
        (Inl e, d) \<Rightarrow> (Inl (LogFailed e), d)
      | (Inr st, d) \<Rightarrow>
          (case loadCatalog (snd df) of
             None \<Rightarrow> (Inl CatalogUnreadable, d)
           | Some items \<Rightarrow> (Inr \<lparr>pdLog = (st, d), pdItems = items, pdFile = snd df\<rparr>, d)))"

definition pd_call :: "pd_codec \<Rightarrow> pd_io \<Rightarrow> string \<Rightarrow> string \<Rightarrow> custody_event \<Rightarrow> append_call" where
  "pd_call K io level event ev =
     \<lparr>acLevel = level, acEvent = event, acSource = ''pd'', acData = Some (pd_json K ev), acIO = piAppend io\<rparr>"

definition logEvent :: "env \<Rightarrow> pd_codec \<Rightarrow> pd_io \<Rightarrow> string \<Rightarrow> string \<Rightarrow> custody_event \<Rightarrow> pd_store \<Rightarrow> pd_error option \<times> pd_store" where
  "logEvent C K io level event ev pd =
     (case append_call C (pdLog pd) (pd_call K io level event ev) of
        (err, sd) \<Rightarrow> (map_option LogFailed err, pd\<lparr>pdLog := sd\<rparr>))"

text \<open>The common end of the operations that change an item: save the catalogue, then log.\<close>

definition saveAndLog :: "env \<Rightarrow> pd_codec \<Rightarrow> pd_io \<Rightarrow> string \<Rightarrow> string \<Rightarrow> custody_event \<Rightarrow> pd_store \<Rightarrow> pd_error option \<times> pd_store" where
  "saveAndLog C K io level event ev pd =
     (case saveCatalog (piSave io) pd of
        (Some e, pd') \<Rightarrow> (Some e, pd')
      | (None, pd') \<Rightarrow> logEvent C K io level event ev pd')"

definition custody :: "string \<Rightarrow> string \<Rightarrow> string \<Rightarrow> time \<Rightarrow> string \<Rightarrow> custody_event" where
  "custody itemID caseNum kind now actor =
     \<lparr>ceItemID = itemID, ceCaseNumber = caseNum, ceEventType = kind, ceTimestamp = now, ceActor = actor,
      ceFromNode = [], ceToNode = [], ceNotes = [], ceExportRef = []\<rparr>"

definition newItemID :: "pd_io \<Rightarrow> string option" where
  "newItemID io = map_option (\<lambda>b. ''EV-'' @ piDate io @ ''-'' @ hex_encode b) (piRandom io)"

definition RecordIntake :: "env \<Rightarrow> pd_codec \<Rightarrow> pd_io \<Rightarrow> pd_store \<Rightarrow> item \<Rightarrow> string \<Rightarrow> pd_error option \<times> pd_store" where
  "RecordIntake C K io pd it actor =
     (case newItemID io of
        None \<Rightarrow> (Some IDFailed, pd)
      | Some nid \<Rightarrow>
          (let it' = it\<lparr>itID := nid, itCreatedAt := piNow io, itCreatedBy := actor, itStatus := ''active''\<rparr> in
           saveAndLog C K io ''INFO'' ''pd/intake''
             ((custody nid (itCaseNumber it') ''intake'' (itCreatedAt it') actor)\<lparr>ceToNode := itCurrentNode it', ceNotes := itDescription it'\<rparr>)
             (pd\<lparr>pdItems := AList.update nid it' (pdItems pd)\<rparr>)))"

definition RecordTransfer ::
  "env \<Rightarrow> pd_codec \<Rightarrow> pd_io \<Rightarrow> pd_store \<Rightarrow> string \<Rightarrow> string \<Rightarrow> string \<Rightarrow> string \<Rightarrow> string \<Rightarrow> pd_error option \<times> pd_store" where
  "RecordTransfer C K io pd itemID actor fromNode toNode notes =
     (case map_of (pdItems pd) itemID of
        None \<Rightarrow> (Some (ItemNotFound itemID), pd)
      | Some it \<Rightarrow>
          if itLegalHold it then (Some (UnderHold itemID), pd)
          else saveAndLog C K io ''INFO'' ''pd/transfer''
                 ((custody itemID (itCaseNumber it) ''transfer'' (piNow io) actor)\<lparr>ceFromNode := fromNode, ceToNode := toNode, ceNotes := notes\<rparr>)
                 (pd\<lparr>pdItems := AList.update itemID (it\<lparr>itCurrentNode := toNode\<rparr>) (pdItems pd)\<rparr>))"

definition caseNumberFor :: "catalog \<Rightarrow> string \<Rightarrow> string" where
  "caseNumberFor items itemID = (case map_of items itemID of None \<Rightarrow> [] | Some it \<Rightarrow> itCaseNumber it)"

definition RecordAccess :: "env \<Rightarrow> pd_codec \<Rightarrow> pd_io \<Rightarrow> pd_store \<Rightarrow> string \<Rightarrow> string \<Rightarrow> string \<Rightarrow> pd_error option \<times> pd_store" where
  "RecordAccess C K io pd itemID actor notes =
     logEvent C K io ''INFO'' ''pd/access''
       ((custody itemID (caseNumberFor (pdItems pd) itemID) ''access'' (piNow io) actor)\<lparr>ceNotes := notes\<rparr>) pd"

definition SetLegalHold :: "env \<Rightarrow> pd_codec \<Rightarrow> pd_io \<Rightarrow> pd_store \<Rightarrow> string \<Rightarrow> string \<Rightarrow> string \<Rightarrow> pd_error option \<times> pd_store" where
  "SetLegalHold C K io pd itemID actor reason =
     (case map_of (pdItems pd) itemID of
        None \<Rightarrow> (Some (ItemNotFound itemID), pd)
      | Some it \<Rightarrow>
          saveAndLog C K io ''WARN'' ''pd/hold_set''
            ((custody itemID (itCaseNumber it) ''hold_set'' (piNow io) actor)\<lparr>ceNotes := reason\<rparr>)
            (pd\<lparr>pdItems := AList.update itemID (it\<lparr>itLegalHold := True, itHoldReason := reason\<rparr>) (pdItems pd)\<rparr>))"

definition ReleaseLegalHold :: "env \<Rightarrow> pd_codec \<Rightarrow> pd_io \<Rightarrow> pd_store \<Rightarrow> string \<Rightarrow> string \<Rightarrow> string \<Rightarrow> pd_error option \<times> pd_store" where
  "ReleaseLegalHold C K io pd itemID actor notes =
     (case map_of (pdItems pd) itemID of
        None \<Rightarrow> (Some (ItemNotFound itemID), pd)
      | Some it \<Rightarrow>
          saveAndLog C K io ''INFO'' ''pd/hold_release''
            ((custody itemID (itCaseNumber it) ''hold_release'' (piNow io) actor)\<lparr>ceNotes := notes\<rparr>)
            (pd\<lparr>pdItems := AList.update itemID (it\<lparr>itLegalHold := False, itHoldReason := []\<rparr>) (pdItems pd)\<rparr>))"

definition RecordExport :: "env \<Rightarrow> pd_codec \<Rightarrow> pd_io \<Rightarrow> pd_store \<Rightarrow> string \<Rightarrow> string \<Rightarrow> string \<Rightarrow> pd_error option \<times> pd_store" where
  "RecordExport C K io pd itemID actor exportRef =
     logEvent C K io ''INFO'' ''pd/export''
       ((custody itemID (caseNumberFor (pdItems pd) itemID) ''export'' (piNow io) actor)\<lparr>ceExportRef := exportRef\<rparr>) pd"

definition RecordDestroyed :: "env \<Rightarrow> pd_codec \<Rightarrow> pd_io \<Rightarrow> pd_store \<Rightarrow> string \<Rightarrow> string \<Rightarrow> string \<Rightarrow> pd_error option \<times> pd_store" where
  "RecordDestroyed C K io pd itemID actor notes =
     (case map_of (pdItems pd) itemID of
        None \<Rightarrow> (Some (ItemNotFound itemID), pd)
      | Some it \<Rightarrow>
          if itLegalHold it then (Some (UnderHold itemID), pd)
          else saveAndLog C K io ''WARN'' ''pd/destroyed''
                 ((custody itemID (itCaseNumber it) ''destroyed'' (piNow io) actor)\<lparr>ceNotes := notes\<rparr>)
                 (pd\<lparr>pdItems := AList.update itemID (it\<lparr>itStatus := ''destroyed''\<rparr>) (pdItems pd)\<rparr>))"

definition AppendSystem :: "env \<Rightarrow> pd_io \<Rightarrow> bytes \<Rightarrow> pd_store \<Rightarrow> string \<Rightarrow> string \<Rightarrow> pd_error option \<times> pd_store" where
  "AppendSystem C io notes pd level event =
     (case append_call C (pdLog pd)
         \<lparr>acLevel = level, acEvent = event, acSource = ''pd-system'', acData = Some (Some notes), acIO = piAppend io\<rparr> of
        (err, sd) \<Rightarrow> (map_option LogFailed err, pd\<lparr>pdLog := sd\<rparr>))"

definition GetItem :: "pd_store \<Rightarrow> string \<Rightarrow> item option" where
  "GetItem pd itemID = map_of (pdItems pd) itemID"

text \<open>\<open>GetItems\<close> in the order of the association list; the order of a Go map is unspecified.\<close>

definition GetItems :: "pd_store \<Rightarrow> string \<Rightarrow> item list" where
  "GetItems pd caseNumber =
     filter (\<lambda>it. caseNumber = [] \<or> itCaseNumber it = caseNumber) (map snd (pdItems pd))"

definition GetAllEvents :: "env \<Rightarrow> pd_store \<Rightarrow> store_error + entry list" where
  "GetAllEvents C pd = ReadAll C (snd (pdLog pd)) (stKey (fst (pdLog pd)))"

section \<open>Roles\<close>

datatype role = Chief | EvidenceClerk | TechAdmin | Officer | Auditor

definition role_name :: "role \<Rightarrow> string" where
  "role_name r = (case r of Chief \<Rightarrow> ''chief'' | EvidenceClerk \<Rightarrow> ''evidence_clerk'' | TechAdmin \<Rightarrow> ''tech_admin''
     | Officer \<Rightarrow> ''officer'' | Auditor \<Rightarrow> ''auditor'')"

definition all_roles :: "role list" where
  "all_roles = [Chief, EvidenceClerk, TechAdmin, Officer, Auditor]"

definition grants :: "role \<Rightarrow> string list" where
  "grants r = (case r of
     Chief \<Rightarrow> [''intake'', ''transfer'', ''hold:set'', ''hold:release'', ''export'', ''destroy'', ''audit:read'', ''node:admin'', ''status'']
   | EvidenceClerk \<Rightarrow> [''intake'', ''transfer'', ''hold:set'', ''hold:release'', ''status'']
   | TechAdmin \<Rightarrow> [''node:admin'', ''status'', ''audit:read'']
   | Officer \<Rightarrow> [''intake'', ''status'']
   | Auditor \<Rightarrow> [''audit:read'', ''status''])"

text \<open>\<open>Can\<close> and \<open>Valid\<close> on the role strings the commands get.\<close>

definition role_of :: "string \<Rightarrow> role option" where
  "role_of s = find (\<lambda>r. role_name r = s) all_roles"

definition Can :: "string \<Rightarrow> string \<Rightarrow> bool" where
  "Can r perm = (case role_of r of None \<Rightarrow> False | Some ro \<Rightarrow> perm \<in> set (grants ro))"

definition Valid :: "string \<Rightarrow> bool" where
  "Valid r = (role_of r \<noteq> None)"

section \<open>Runs of operations\<close>

datatype pd_op =
    Intake item string
  | Transfer string string string string string
  | Access string string string
  | HoldSet string string string
  | HoldRelease string string string
  | Exported string string string
  | Destroyed string string string

fun pd_step :: "env \<Rightarrow> pd_codec \<Rightarrow> pd_store \<Rightarrow> pd_io \<times> pd_op \<Rightarrow> pd_error option \<times> pd_store" where
  "pd_step C K pd (io, Intake it actor) = RecordIntake C K io pd it actor"
| "pd_step C K pd (io, Transfer x actor from to notes) = RecordTransfer C K io pd x actor from to notes"
| "pd_step C K pd (io, Access x actor notes) = RecordAccess C K io pd x actor notes"
| "pd_step C K pd (io, HoldSet x actor reason) = SetLegalHold C K io pd x actor reason"
| "pd_step C K pd (io, HoldRelease x actor notes) = ReleaseLegalHold C K io pd x actor notes"
| "pd_step C K pd (io, Exported x actor ref) = RecordExport C K io pd x actor ref"
| "pd_step C K pd (io, Destroyed x actor notes) = RecordDestroyed C K io pd x actor notes"

definition pd_run :: "env \<Rightarrow> pd_codec \<Rightarrow> pd_store \<Rightarrow> (pd_io \<times> pd_op) list \<Rightarrow> pd_store" where
  "pd_run C K pd ops = foldl (\<lambda>pd o'. snd (pd_step C K pd o')) pd ops"

text \<open>The operations as edits of one item: which item they name and what they do to it.\<close>

fun touches :: "string \<Rightarrow> pd_io \<times> pd_op \<Rightarrow> bool" where
  "touches x (io, Intake it actor) = (newItemID io = Some x)"
| "touches x (io, HoldRelease y actor notes) = (y = x)"
| "touches x _ = False"

lemma logEvent_items [simp]: "pdItems (snd (logEvent C K io level event ev pd)) = pdItems pd"
  by (simp add: logEvent_def split: prod.splits)

lemma saveCatalog_items [simp]: "pdItems (snd (saveCatalog io pd)) = pdItems pd"
  by (simp add: saveCatalog_def split: save_io.splits)

lemma saveAndLog_items [simp]: "pdItems (snd (saveAndLog C K io level event ev pd)) = pdItems pd"
proof -
  obtain e pd' where "saveCatalog (piSave io) pd = (e, pd')" by (cases "saveCatalog (piSave io) pd")
  then show ?thesis using saveCatalog_items [of "piSave io" pd] by (cases e) (simp_all add: saveAndLog_def)
qed

lemmas pd_ops = RecordIntake_def RecordTransfer_def RecordAccess_def SetLegalHold_def ReleaseLegalHold_def RecordExport_def
  RecordDestroyed_def

text \<open>Same case, place and status, and still under hold.\<close>

definition held_as :: "item \<Rightarrow> item \<Rightarrow> bool" where
  "held_as it it' \<longleftrightarrow> itLegalHold it' \<and> itCaseNumber it' = itCaseNumber it \<and> itStatus it' = itStatus it \<and>
     itCurrentNode it' = itCurrentNode it"

lemma held_step:
  assumes "map_of (pdItems pd) x = Some it'" "held_as it it'" "\<not> touches x iop"
  shows "\<exists>it''. map_of (pdItems (snd (pd_step C K pd iop))) x = Some it'' \<and> held_as it it''"
proof -
  obtain io op where iop: "iop = (io, op)" by (cases iop)
  show ?thesis
    using assms unfolding iop
    by (cases op) (auto simp: pd_ops held_as_def update_conv' Let_def split: option.splits if_splits)
qed

text \<open>
  Property C19. A legal hold holds: from the moment an item is under legal hold, no sequence
  of operations, whatever faults it meets, changes its place, its status or the hold itself,
  up to a release of the hold for this item (or an intake that draws the item's random
  identifier again).
\<close>

theorem legal_hold_holds:
  assumes "map_of (pdItems pd) x = Some it" "itLegalHold it" "\<forall>iop \<in> set ops. \<not> touches x iop"
  shows "\<exists>it'. GetItem (pd_run C K pd ops) x = Some it' \<and> held_as it it'"
proof -
  have "map_of (pdItems pd') x = Some it' \<Longrightarrow> held_as it it' \<Longrightarrow>
      \<exists>it''. map_of (pdItems (pd_run C K pd' ops)) x = Some it'' \<and> held_as it it''" for pd' it'
    using assms(3)
  proof (induction ops arbitrary: pd' it')
    case (Cons o' ops)
    then obtain it2 where "map_of (pdItems (snd (pd_step C K pd' o'))) x = Some it2" "held_as it it2"
      using held_step by (metis list.set_intros(1))
    from Cons.IH [OF this] show ?case using Cons.prems(3) by (simp add: pd_run_def)
  qed (auto simp: pd_run_def)
  from this [OF assms(1)] show ?thesis using assms(2) by (simp add: held_as_def GetItem_def)
qed

section \<open>The custody log as the specification of the catalogue\<close>

record custody_view =
  cvCase :: string
  cvNode :: string
  cvStatus :: string
  cvHold :: bool

definition view_of :: "item \<Rightarrow> custody_view" where
  "view_of it = \<lparr>cvCase = itCaseNumber it, cvNode = itCurrentNode it, cvStatus = itStatus it, cvHold = itLegalHold it\<rparr>"

definition catalog_view :: "pd_store \<Rightarrow> string \<Rightarrow> custody_view option" where
  "catalog_view pd x = map_option view_of (map_of (pdItems pd) x)"

definition replayCustody :: "(string \<Rightarrow> custody_view option) \<Rightarrow> custody_event \<Rightarrow> (string \<Rightarrow> custody_view option)" where
  "replayCustody m ev =
     (let x = ceItemID ev; k = ceEventType ev in
      if k = ''intake'' then m(x \<mapsto> \<lparr>cvCase = ceCaseNumber ev, cvNode = ceToNode ev, cvStatus = ''active'', cvHold = False\<rparr>)
      else if k = ''transfer'' then m(x := map_option (\<lambda>v. v\<lparr>cvNode := ceToNode ev\<rparr>) (m x))
      else if k = ''hold_set'' then m(x := map_option (\<lambda>v. v\<lparr>cvHold := True\<rparr>) (m x))
      else if k = ''hold_release'' then m(x := map_option (\<lambda>v. v\<lparr>cvHold := False\<rparr>) (m x))
      else if k = ''destroyed'' then m(x := map_option (\<lambda>v. v\<lparr>cvStatus := ''destroyed''\<rparr>) (m x))
      else m)"

definition entry_custody :: "pd_codec \<Rightarrow> entry \<Rightarrow> custody_event option" where
  "entry_custody K e = (if eSource e = ''pd'' then Option.bind (eData e) (pd_unjson K) else None)"

definition custody_log :: "pd_codec \<Rightarrow> entry list \<Rightarrow> string \<Rightarrow> custody_view option" where
  "custody_log K es = foldl replayCustody Map.empty (List.map_filter (entry_custody K) es)"

text \<open>What the operation writes to the log: level, event name and custody event.\<close>

fun pd_record :: "pd_store \<Rightarrow> pd_io \<times> pd_op \<Rightarrow> string \<times> string \<times> custody_event" where
  "pd_record pd (io, Intake it actor) =
     (''INFO'', ''pd/intake'', (custody (case newItemID io of None \<Rightarrow> [] | Some n \<Rightarrow> n) (itCaseNumber it) ''intake'' (piNow io) actor)
        \<lparr>ceToNode := itCurrentNode it, ceNotes := itDescription it\<rparr>)"
| "pd_record pd (io, Transfer x actor from to notes) =
     (''INFO'', ''pd/transfer'', (custody x (caseNumberFor (pdItems pd) x) ''transfer'' (piNow io) actor)
        \<lparr>ceFromNode := from, ceToNode := to, ceNotes := notes\<rparr>)"
| "pd_record pd (io, Access x actor notes) =
     (''INFO'', ''pd/access'', (custody x (caseNumberFor (pdItems pd) x) ''access'' (piNow io) actor)\<lparr>ceNotes := notes\<rparr>)"
| "pd_record pd (io, HoldSet x actor reason) =
     (''WARN'', ''pd/hold_set'', (custody x (caseNumberFor (pdItems pd) x) ''hold_set'' (piNow io) actor)\<lparr>ceNotes := reason\<rparr>)"
| "pd_record pd (io, HoldRelease x actor notes) =
     (''INFO'', ''pd/hold_release'', (custody x (caseNumberFor (pdItems pd) x) ''hold_release'' (piNow io) actor)\<lparr>ceNotes := notes\<rparr>)"
| "pd_record pd (io, Exported x actor ref) =
     (''INFO'', ''pd/export'', (custody x (caseNumberFor (pdItems pd) x) ''export'' (piNow io) actor)\<lparr>ceExportRef := ref\<rparr>)"
| "pd_record pd (io, Destroyed x actor notes) =
     (''WARN'', ''pd/destroyed'', (custody x (caseNumberFor (pdItems pd) x) ''destroyed'' (piNow io) actor)\<lparr>ceNotes := notes\<rparr>)"

text \<open>
  An operation that returns no error, whose record fits the log and whose event survives its
  own JSON; an intake hands in an item that is not under hold, as the command does.
\<close>

definition op_through :: "env \<Rightarrow> pd_codec \<Rightarrow> pd_store \<Rightarrow> pd_io \<times> pd_op \<Rightarrow> bool" where
  "op_through C K pd iop \<longleftrightarrow>
     fst (pd_step C K pd iop) = None \<and>
     (case pd_record pd iop of (level, event, ev) \<Rightarrow>
        call_fits C (pdLog pd) (pd_call K (fst iop) level event ev) \<and>
        Option.bind (pd_json K ev) (pd_unjson K) = Some ev) \<and>
     (case snd iop of Intake it actor \<Rightarrow> \<not> itLegalHold it | _ \<Rightarrow> True)"

fun all_through :: "env \<Rightarrow> pd_codec \<Rightarrow> pd_store \<Rightarrow> (pd_io \<times> pd_op) list \<Rightarrow> bool" where
  "all_through C K pd [] = True"
| "all_through C K pd (o' # ops) = (op_through C K pd o' \<and> all_through C K (snd (pd_step C K pd o')) ops)"

text \<open>The log is sound, the catalogue is what its custody events say, and the file holds the catalogue.\<close>

definition pd_inv :: "env \<Rightarrow> pd_codec \<Rightarrow> pd_store \<Rightarrow> bool" where
  "pd_inv C K pd \<longleftrightarrow> log_inv C (pdLog pd) \<and> catalog_view pd = custody_log K (log_records C (pdLog pd)) \<and>
     loadCatalog (pdFile pd) = Some (pdItems pd)"

lemma logEvent_refines:
  assumes "log_inv C (pdLog pd)" "fst (logEvent C K io level event ev pd) = None"
    and "call_fits C (pdLog pd) (pd_call K io level event ev)" "Option.bind (pd_json K ev) (pd_unjson K) = Some ev"
  shows "log_inv C (pdLog (snd (logEvent C K io level event ev pd)))"
    and "custody_log K (log_records C (pdLog (snd (logEvent C K io level event ev pd)))) =
      replayCustody (custody_log K (log_records C (pdLog pd))) ev"
    and "pdFile (snd (logEvent C K io level event ev pd)) = pdFile pd"
proof -
  define c where "c = pd_call K io level event ev"
  have ok: "append_ok C (pdLog pd) c"
    using assms(2,3) by (auto simp: append_ok_def c_def logEvent_def split: prod.splits)
  obtain b where b: "pd_json K ev = Some b" "pd_unjson K b = Some ev"
    using assms(4) by (auto simp: bind_eq_Some_conv)
  have st: "pdLog (snd (logEvent C K io level event ev pd)) = append_step C (pdLog pd) c"
    by (simp add: logEvent_def append_step_def c_def split: prod.splits)
  show "log_inv C (pdLog (snd (logEvent C K io level event ev pd)))"
    unfolding st by (rule al.step_inv [OF assms(1) ok])
  have "entry_custody K (call_entry (pdLog pd) c) = Some ev"
    using b by (simp add: entry_custody_def call_entry_def c_def pd_call_def newEntry_def ToValidUTF8_def to_valid_ascii)
  then show "custody_log K (log_records C (pdLog (snd (logEvent C K io level event ev pd)))) =
      replayCustody (custody_log K (log_records C (pdLog pd))) ev"
    unfolding st al.step_records [OF assms(1) ok] by (simp add: custody_log_def map_filter_def)
  show "pdFile (snd (logEvent C K io level event ev pd)) = pdFile pd"
    by (simp add: logEvent_def split: prod.splits)
qed

lemma view_kept [simp]:
  "catalog_view (snd (logEvent C K io level event ev pd)) = catalog_view pd"
  "catalog_view (pd\<lparr>pdFile := f\<rparr>) = catalog_view pd"
  by (rule ext, simp add: catalog_view_def)+

lemma saveAndLog_refines:
  assumes "log_inv C (pdLog pd)" "fst (saveAndLog C K io level event ev pd) = None"
    and "call_fits C (pdLog pd) (pd_call K io level event ev)" "Option.bind (pd_json K ev) (pd_unjson K) = Some ev"
    and "catalog_view pd = replayCustody (custody_log K (log_records C (pdLog pd))) ev"
  shows "pd_inv C K (snd (saveAndLog C K io level event ev pd))"
proof -
  have sv: "piSave io = Saves" using assms(2) by (auto simp: saveAndLog_def saveCatalog_def split: save_io.splits)
  define pd' where "pd' = pd\<lparr>pdFile := Catalog (pdItems pd)\<rparr>"
  have s: "saveAndLog C K io level event ev pd = logEvent C K io level event ev pd'"
    by (simp add: saveAndLog_def saveCatalog_def sv pd'_def)
  have "log_inv C (pdLog pd')" "fst (logEvent C K io level event ev pd') = None"
      "call_fits C (pdLog pd') (pd_call K io level event ev)"
    using assms(1-3) unfolding s by (simp_all add: pd'_def)
  note r = logEvent_refines [OF this assms(4)]
  show ?thesis
    unfolding pd_inv_def s using r assms(5) by (simp add: pd'_def loadCatalog_def)
qed

lemma view_update: "catalog_view (pd\<lparr>pdItems := AList.update x it (pdItems pd)\<rparr>) = (catalog_view pd)(x \<mapsto> view_of it)"
  by (auto simp: catalog_view_def update_conv')

lemma op_refines:
  assumes "pd_inv C K pd" "op_through C K pd iop"
  shows "pd_inv C K (snd (pd_step C K pd iop))"
proof -
  obtain io op where iop: "iop = (io, op)" by (cases iop)
  obtain level event ev where rec: "pd_record pd (io, op) = (level, event, ev)" by (cases "pd_record pd (io, op)") auto
  have L: "log_inv C (pdLog pd)" and V: "catalog_view pd = custody_log K (log_records C (pdLog pd))"
    and F: "loadCatalog (pdFile pd) = Some (pdItems pd)"
    using assms(1) by (auto simp: pd_inv_def)
  have E: "fst (pd_step C K pd (io, op)) = None" and fits: "call_fits C (pdLog pd) (pd_call K io level event ev)"
    and js: "Option.bind (pd_json K ev) (pd_unjson K) = Some ev"
    and hold: "\<And>it actor. op = Intake it actor \<Longrightarrow> \<not> itLegalHold it"
    using assms(2) by (auto simp: op_through_def iop rec)
  have only_log: ?thesis
    if "pd_step C K pd (io, op) = logEvent C K io level event ev pd"
      "replayCustody (catalog_view pd) ev = catalog_view pd"
    using logEvent_refines [OF L E [unfolded that(1)] fits js] that(2) V F
    by (simp add: pd_inv_def iop that(1))
  have edits: ?thesis
    if "pd_step C K pd (io, op) = saveAndLog C K io level event ev (pd\<lparr>pdItems := AList.update x it (pdItems pd)\<rparr>)"
      "replayCustody (catalog_view pd) ev = (catalog_view pd)(x \<mapsto> view_of it)" for x it
    unfolding iop that(1)
    by (rule saveAndLog_refines) (use L E fits js that V in \<open>simp_all add: view_update\<close>)
  show ?thesis
  proof (cases op)
    case (Intake it actor)
    with E obtain nid where n: "newItemID io = Some nid" by (auto simp: RecordIntake_def split: option.splits)
    show ?thesis
      by (rule edits [of nid]) (use Intake rec n hold [OF Intake] in
        \<open>auto simp: RecordIntake_def replayCustody_def custody_def Let_def view_of_def\<close>)
  next
    case (Access x actor nt)
    show ?thesis by (rule only_log) (use Access rec in \<open>auto simp: RecordAccess_def replayCustody_def custody_def Let_def\<close>)
  next
    case (Exported x actor ref)
    show ?thesis by (rule only_log) (use Exported rec in \<open>auto simp: RecordExport_def replayCustody_def custody_def Let_def\<close>)
  next
    case (Transfer x actor src dst nt)
    with E obtain it where n: "map_of (pdItems pd) x = Some it" "\<not> itLegalHold it"
      by (auto simp: RecordTransfer_def split: option.splits if_splits)
    show ?thesis
      by (rule edits [of x]) (use Transfer rec n in
        \<open>auto simp: RecordTransfer_def replayCustody_def custody_def Let_def view_of_def caseNumberFor_def catalog_view_def\<close>)
  next
    case (HoldSet x actor reason)
    with E obtain it where n: "map_of (pdItems pd) x = Some it"
      by (auto simp: SetLegalHold_def split: option.splits if_splits)
    show ?thesis
      by (rule edits [of x]) (use HoldSet rec n in
        \<open>auto simp: SetLegalHold_def replayCustody_def custody_def Let_def view_of_def caseNumberFor_def catalog_view_def\<close>)
  next
    case (HoldRelease x actor nt)
    with E obtain it where n: "map_of (pdItems pd) x = Some it"
      by (auto simp: ReleaseLegalHold_def split: option.splits if_splits)
    show ?thesis
      by (rule edits [of x]) (use HoldRelease rec n in
        \<open>auto simp: ReleaseLegalHold_def replayCustody_def custody_def Let_def view_of_def caseNumberFor_def catalog_view_def\<close>)
  next
    case (Destroyed x actor nt)
    with E obtain it where n: "map_of (pdItems pd) x = Some it" "\<not> itLegalHold it"
      by (auto simp: RecordDestroyed_def split: option.splits if_splits)
    show ?thesis
      by (rule edits [of x]) (use Destroyed rec n in
        \<open>auto simp: RecordDestroyed_def replayCustody_def custody_def Let_def view_of_def caseNumberFor_def catalog_view_def\<close>)
  qed
qed

lemma run_refines: "pd_inv C K pd \<Longrightarrow> all_through C K pd ops \<Longrightarrow> pd_inv C K (pd_run C K pd ops)"
  by (induction ops arbitrary: pd) (auto simp: pd_run_def dest: op_refines)

lemma pdOpen_fresh:
  assumes "env_ok C" "good_open io"
  shows "\<exists>st d. pdOpen C (empty_disk, NoCatalog) key io = (Inr \<lparr>pdLog = (st, d), pdItems = [], pdFile = NoCatalog\<rparr>, d) \<and>
     pd_inv C K \<lparr>pdLog = (st, d), pdItems = [], pdFile = NoCatalog\<rparr> \<and> opened_as C key None [] st d []"
proof -
  have "recoverable C key None [] empty_disk []" using proc_inv_init by simp
  then obtain st d where op: "openStore C empty_disk key None [] [] io = (Inr st, d)" "opened_as C key None [] st d []"
    using openStore_recovers assms(2) by blast
  then obtain bs where inv: "store_inv C st d bs []" by (auto simp: opened_as_def)
  have "pd_inv C K \<lparr>pdLog = (st, d), pdItems = [], pdFile = NoCatalog\<rparr>"
    using inv op(2) assms(1) log_records_inv [OF inv]
    by (auto simp: pd_inv_def log_inv_def signers_ok_def opened_as_def loadCatalog_def custody_log_def map_filter_def
        catalog_view_def fun_eq_iff)
  then show ?thesis using op by (simp add: pdOpen_def Open_def OpenTrusting_def loadCatalog_def)
qed

lemma log_inv_reads: "log_inv C (st, d) \<Longrightarrow> ReadAll C d (stKey st) = Inr (log_records C (st, d))"
  by (auto simp: log_inv_def log_records_def store_inv_def ReadAll_holds)

text \<open>
  Property C18. The catalogue refines the custody log: from a fresh evidence store, after any
  run of operations that all go through, the encrypted log reads back, the item table is what
  its custody events say of every item (case, place, status and hold), and the catalogue file
  holds the item table, so that a restart loads what was in memory.
\<close>

theorem catalog_refines_custody_log:
  assumes "env_ok C" "good_open io" "pdOpen C (empty_disk, NoCatalog) key io = (Inr pd, d)"
    and "all_through C K pd ops"
  shows "(\<exists>es. GetAllEvents C (pd_run C K pd ops) = Inr es \<and> catalog_view (pd_run C K pd ops) = custody_log K es) \<and>
     loadCatalog (pdFile (pd_run C K pd ops)) = Some (pdItems (pd_run C K pd ops))"
proof -
  have "pd_inv C K pd" using pdOpen_fresh [OF assms(1,2), of key K] assms(3) by auto
  then have inv: "pd_inv C K (pd_run C K pd ops)" by (rule run_refines [OF _ assms(4)])
  then show ?thesis
    using log_inv_reads by (cases "pdLog (pd_run C K pd ops)") (auto simp: pd_inv_def GetAllEvents_def)
qed

section \<open>A sample evidence store\<close>

definition sample_enc_custody :: "custody_event \<Rightarrow> bytes" where
  "sample_enc_custody e =
     enc_string (ceItemID e) @ enc_string (ceCaseNumber e) @ enc_string (ceEventType e) @ enc_int (ceTimestamp e) @
     enc_string (ceActor e) @ enc_string (ceFromNode e) @ enc_string (ceToNode e) @ enc_string (ceNotes e) @
     enc_string (ceExportRef e)"

definition sample_dec_custody :: "bytes \<Rightarrow> custody_event option" where
  "sample_dec_custody b =
     Option.bind (dec_string b) (\<lambda>(x, r). Option.bind (dec_string r) (\<lambda>(cn, r). Option.bind (dec_string r) (\<lambda>(ty, r).
     Option.bind (dec_int r) (\<lambda>(ts, r). Option.bind (dec_string r) (\<lambda>(ac, r). Option.bind (dec_string r) (\<lambda>(fn, r).
     Option.bind (dec_string r) (\<lambda>(tn, r). Option.bind (dec_string r) (\<lambda>(nt, r). Option.bind (dec_string r) (\<lambda>(ex, r).
       Some \<lparr>ceItemID = x, ceCaseNumber = cn, ceEventType = ty, ceTimestamp = ts, ceActor = ac, ceFromNode = fn,
             ceToNode = tn, ceNotes = nt, ceExportRef = ex\<rparr>)))))))))"

lemma sample_custody_roundtrip: "sample_dec_custody (sample_enc_custody e) = Some e"
  using dec_enc_string [of "ceExportRef e" "[]"] by (simp add: sample_dec_custody_def sample_enc_custody_def)

lemma length_enc_custody [simp]:
  "length (sample_enc_custody e) =
     2 * (length (ceItemID e) + length (ceCaseNumber e) + length (ceEventType e) + nat \<bar>ceTimestamp e\<bar> + length (ceActor e) +
       length (ceFromNode e) + length (ceToNode e) + length (ceNotes e) + length (ceExportRef e)) + 9"
  by (simp add: sample_enc_custody_def enc_int_def)

definition sample_codec :: pd_codec where
  "sample_codec = \<lparr>pd_json = (\<lambda>e. Some (sample_enc_custody e)), pd_unjson = sample_dec_custody\<rparr>"

definition sample_pd_io :: pd_io where
  "sample_pd_io = \<lparr>piNow = 2, piDate = ''20260512'', piRandom = Some [1, 2, 3, 4], piSave = Saves, piAppend = sample_io\<rparr>"

definition sample_item :: item where
  "sample_item = \<lparr>itID = [], itCaseNumber = ''C7'', itDescription = ''phone'', itCategory = ''digital'', itCreatedAt = 0,
     itCreatedBy = [], itLegalHold = False, itHoldReason = [], itStatus = [], itCurrentNode = ''desk''\<rparr>"

lemma sample_intake_through:
  assumes "opened_as sample_env sample_key None [] st d []"
  shows "op_through sample_env sample_codec \<lparr>pdLog = (st, d), pdItems = [], pdFile = NoCatalog\<rparr>
     (sample_pd_io, Intake sample_item ''clerk'')"
proof -
  have st: "stKey st = sample_key" "stSigner st = None" "\<not> stReadOnly st"
    using assms by (auto simp: opened_as_def store_inv_def)
  show ?thesis
    using st
    by (simp add: op_through_def RecordIntake_def newItemID_def sample_pd_io_def sample_item_def Let_def saveAndLog_def
        saveCatalog_def logEvent_def sample_codec_def sample_custody_roundtrip call_fits_def append_fits_def pd_call_def
        custody_def append_call_def Append_def sample_io_def
        sample_env_def encrypt_Seal_def aes_key_ok_def sample_key_def NonceSize_def sample_enc_entry_def newEntry_def
        ToValidUTF8_def to_valid_ascii enc_int_def enc_data_def max_record_def
        writeTreeHead_def signHead_def split: prod.split)
qed

theorem catalog_refines_custody_log_witness:
  "\<exists>pd d. pdOpen sample_env (empty_disk, NoCatalog) sample_key sample_open = (Inr pd, d) \<and>
     (let pd' = pd_run sample_env sample_codec pd [(sample_pd_io, Intake sample_item ''clerk'')] in
      (\<exists>es. GetAllEvents sample_env pd' = Inr es \<and> catalog_view pd' = custody_log sample_codec es) \<and>
      loadCatalog (pdFile pd') = Some (pdItems pd') \<and> length (pdItems pd') = 1)"
proof -
  obtain st d where op: "pdOpen sample_env (empty_disk, NoCatalog) sample_key sample_open =
      (Inr \<lparr>pdLog = (st, d), pdItems = [], pdFile = NoCatalog\<rparr>, d)" "opened_as sample_env sample_key None [] st d []"
    using pdOpen_fresh [OF sample_env_ok good_sample_open] by blast
  define pd where "pd = \<lparr>pdLog = (st, d), pdItems = ([] :: catalog), pdFile = NoCatalog\<rparr>"
  have th: "all_through sample_env sample_codec pd [(sample_pd_io, Intake sample_item ''clerk'')]"
    using sample_intake_through [OF op(2)] by (simp add: pd_def)
  have "length (pdItems (pd_run sample_env sample_codec pd [(sample_pd_io, Intake sample_item ''clerk'')])) = 1"
    by (simp add: pd_run_def RecordIntake_def newItemID_def sample_pd_io_def Let_def pd_def)
  then show ?thesis
    using catalog_refines_custody_log [OF sample_env_ok good_sample_open op(1) [folded pd_def] th] op(1)
    unfolding Let_def pd_def by blast
qed

theorem legal_hold_holds_witness:
  "\<exists>st d. \<exists>it'. GetItem (pd_run sample_env sample_codec
      \<lparr>pdLog = (st, d), pdItems = [(''EV-1'', sample_item\<lparr>itLegalHold := True\<rparr>)], pdFile = NoCatalog\<rparr>
      [(sample_pd_io, Transfer ''EV-1'' ''clerk'' ''desk'' ''lab'' []), (sample_pd_io, HoldRelease ''EV-2'' ''clerk'' []),
       (sample_pd_io, Destroyed ''EV-1'' ''clerk'' [])]) ''EV-1'' = Some it' \<and>
     itCurrentNode it' = ''desk'' \<and> itLegalHold it'"
proof -
  have "\<exists>it'. GetItem (pd_run sample_env sample_codec
      \<lparr>pdLog = (st, d), pdItems = [(''EV-1'', sample_item\<lparr>itLegalHold := True\<rparr>)], pdFile = NoCatalog\<rparr>
      [(sample_pd_io, Transfer ''EV-1'' ''clerk'' ''desk'' ''lab'' []), (sample_pd_io, HoldRelease ''EV-2'' ''clerk'' []),
       (sample_pd_io, Destroyed ''EV-1'' ''clerk'' [])]) ''EV-1'' = Some it' \<and>
      held_as (sample_item\<lparr>itLegalHold := True\<rparr>) it'" for st d
    by (rule legal_hold_holds) simp_all
  then show ?thesis by (simp add: held_as_def sample_item_def) blast
qed

end
