(* ===== verification/Pd_Export.thy ===== *)
theory Pd_Export
  imports Pd_Evidence Merkle
begin

text \<open>
  Court export bundles (\<open>internal/pd/export\<close>): the log entries of a case with a hash over them
  and a signature over the whole bundle. JSON texts and the signing function are arguments;
  \<open>ed25519.Verify\<close> panics on a public key of the wrong length, which is the outcome \<open>Panic\<close>.
\<close>

section \<open>Data\<close>

record court_bundle =
  buBundleID :: string
  buGeneratedAt :: time
  buCaseNumber :: string
  buDepartment :: string
  buNodeID :: string
  buEntryCount :: nat
  buSHA256Chain :: string
  buSignature :: string
  buEntries :: "entry list"

record bundle_codec =
  bk_bundle :: "court_bundle \<Rightarrow> bytes option"
  bk_case :: "bytes \<Rightarrow> string option"

datatype bundle_error = BundleIDFailed | PrivKeyHex | PrivKeySize | PayloadError | NotSignedBundle | PubKeyHex | SigHex | SigFailed
  | BundleMkdir | BundleCreate | BundleWrite

section \<open>Generating\<close>

text \<open>\<open>matchesCase\<close>: the \<open>case_number\<close> of the data, empty if the field is missing.\<close>

definition matchesCase :: "bundle_codec \<Rightarrow> string \<Rightarrow> entry \<Rightarrow> bool" where
  "matchesCase K caseNumber e =
     (case eData e of
        None \<Rightarrow> False
      | Some d \<Rightarrow> (case bk_case K d of None \<Rightarrow> False | Some cn \<Rightarrow> cn = caseNumber))"

definition computeChain :: "env \<Rightarrow> entry list \<Rightarrow> string" where
  "computeChain C entries =
     hex_encode (sha256 C (concat (map (\<lambda>e. case marshal_entry C e of None \<Rightarrow> [] | Some b \<Rightarrow> b) entries)))"

definition newBundleID :: "string \<Rightarrow> bytes option \<Rightarrow> string option" where
  "newBundleID date rnd = map_option (\<lambda>b. ''BUNDLE-'' @ date @ ''-'' @ hex_encode b) rnd"

definition Generate ::
  "env \<Rightarrow> bundle_codec \<Rightarrow> string \<Rightarrow> bytes option \<Rightarrow> time \<Rightarrow> entry list \<Rightarrow> string \<Rightarrow> string \<Rightarrow> string \<Rightarrow> bundle_error + court_bundle" where
  "Generate C K date rnd now entries caseNumber department nodeID =
     (let filtered = filter (matchesCase K caseNumber) entries;
          chainHash = computeChain C filtered
      in case newBundleID date rnd of
           None \<Rightarrow> Inl BundleIDFailed
         | Some bid \<Rightarrow>
             Inr \<lparr>buBundleID = bid, buGeneratedAt = now, buCaseNumber = caseNumber, buDepartment = department, buNodeID = nodeID,
                  buEntryCount = length filtered, buSHA256Chain = chainHash, buSignature = [], buEntries = filtered\<rparr>)"

section \<open>Signing and verifying\<close>

definition bundlePayload :: "bundle_codec \<Rightarrow> court_bundle \<Rightarrow> bytes option" where
  "bundlePayload K b = bk_bundle K (b\<lparr>buSignature := []\<rparr>)"

definition PrivateKeySize :: nat where "PrivateKeySize = 64"

text \<open>\<open>sign\<close> is \<open>ed25519.Sign\<close> on a key of the right size.\<close>

definition bundle_Sign :: "bundle_codec \<Rightarrow> (bytes \<Rightarrow> bytes \<Rightarrow> bytes) \<Rightarrow> court_bundle \<Rightarrow> string \<Rightarrow> bundle_error + court_bundle" where
  "bundle_Sign K sign b privKeyHex =
     (case hex_decode privKeyHex of
        None \<Rightarrow> Inl PrivKeyHex
      | Some priv \<Rightarrow>
          if length priv \<noteq> PrivateKeySize then Inl PrivKeySize
          else case bundlePayload K b of
            None \<Rightarrow> Inl PayloadError
          | Some p \<Rightarrow> Inr (b\<lparr>buSignature := hex_encode (sign priv p)\<rparr>))"

definition bundle_Verify :: "env \<Rightarrow> bundle_codec \<Rightarrow> court_bundle \<Rightarrow> string \<Rightarrow> bundle_error option outcome" where
  "bundle_Verify C K b pubKeyHex =
     (if buSignature b = [] then Value (Some NotSignedBundle)
      else case hex_decode pubKeyHex of
        None \<Rightarrow> Value (Some PubKeyHex)
      | Some pub \<Rightarrow>
          (case hex_decode (buSignature b) of
             None \<Rightarrow> Value (Some SigHex)
           | Some sig \<Rightarrow>
               (case bundlePayload K b of
                  None \<Rightarrow> Value (Some PayloadError)
                | Some p \<Rightarrow>
                    if length pub \<noteq> PublicKeySize then Panic
                    else if \<not> ed_verify C pub p sig then Value (Some SigFailed)
                    else Value None)))"

section \<open>Writing\<close>

text \<open>
  \<open>WriteNDJSON\<close>: the lines written before it ends, and its error. \<open>fails\<close> says which line, if
  any, the file does not take.
\<close>

fun writeLines :: "nat option \<Rightarrow> nat \<Rightarrow> bytes option list \<Rightarrow> bytes list \<times> bundle_error option" where
  "writeLines fails i [] = ([], None)"
| "writeLines fails i (l # ls) =
     (case l of
        None \<Rightarrow> ([], Some PayloadError)
      | Some b \<Rightarrow>
          if fails = Some i then ([], Some BundleWrite)
          else (case writeLines fails (Suc i) ls of (out, err) \<Rightarrow> (b # out, err)))"

definition WriteNDJSON ::
  "env \<Rightarrow> bundle_codec \<Rightarrow> bool \<Rightarrow> bool \<Rightarrow> nat option \<Rightarrow> court_bundle \<Rightarrow> bytes list \<times> bundle_error option" where
  "WriteNDJSON C K mkdir creates fails b =
     (if \<not> mkdir then ([], Some BundleMkdir)
      else if \<not> creates then ([], Some BundleCreate)
      else writeLines fails 0 (bk_bundle K (b\<lparr>buEntries := []\<rparr>) # map (marshal_entry C) (buEntries b)))"

section \<open>Properties\<close>

text \<open>What was signed verifies under the matching key, for the entries of the case and nothing else.\<close>

lemma signed_bundle_verifies:
  assumes "Generate C K date rnd now entries cn dep node = Inr b" "bundle_Sign K sign b privHex = Inr b'"
    and "hex_decode privHex = Some priv" "length pub = PublicKeySize"
    and "\<And>p. ed_verify C pub p (sign priv p) \<and> sign priv p \<noteq> []"
  shows "bundle_Verify C K b' (hex_encode pub) = Value None"
    and "buEntries b' = filter (matchesCase K cn) entries \<and> buEntryCount b' = length (buEntries b') \<and>
      buSHA256Chain b' = computeChain C (buEntries b')"
proof -
  obtain p where p: "bundlePayload K b = Some p" "b' = b\<lparr>buSignature := hex_encode (sign priv p)\<rparr>"
    using assms(2,3) by (auto simp: bundle_Sign_def split: option.splits if_splits)
  have "bundlePayload K b' = Some p" using p by (simp add: bundlePayload_def)
  moreover have "buSignature b' \<noteq> []" using p(2) assms(5) [of p] by (cases "sign priv p") auto
  ultimately show "bundle_Verify C K b' (hex_encode pub) = Value None"
    using p(2) assms(4,5) by (simp add: bundle_Verify_def)
  show "buEntries b' = filter (matchesCase K cn) entries \<and> buEntryCount b' = length (buEntries b') \<and>
      buSHA256Chain b' = computeChain C (buEntries b')"
    using assms(1) p(2) by (auto simp: Generate_def Let_def split: option.splits)
qed

text \<open>A public key of the wrong length makes the verifier panic instead of failing.\<close>

lemma short_key_panics:
  assumes "buSignature b \<noteq> []" "hex_decode (buSignature b) = Some sig" "bundlePayload K b = Some p"
    and "hex_decode pubHex = Some pub" "length pub \<noteq> PublicKeySize"
  shows "bundle_Verify C K b pubHex = Panic"
  using assms by (simp add: bundle_Verify_def)

text \<open>A complete file has the header and one line per entry.\<close>

lemma writeLines_complete: "writeLines fails i ls = (out, None) \<Longrightarrow> map Some out = ls"
proof (induction ls arbitrary: i out)
  case (Cons l ls)
  obtain out1 e1 where r: "writeLines fails (Suc i) ls = (out1, e1)" by (cases "writeLines fails (Suc i) ls")
  show ?case using Cons r by (auto split: option.splits if_splits)
qed simp

lemma WriteNDJSON_complete:
  assumes "WriteNDJSON C K mkdir creates fails b = (out, None)"
  shows "length out = Suc (length (buEntries b))"
proof -
  have "writeLines fails 0 (bk_bundle K (b\<lparr>buEntries := []\<rparr>) # map (marshal_entry C) (buEntries b)) = (out, None)"
    using assms by (simp add: WriteNDJSON_def del: writeLines.simps split: if_splits)
  from writeLines_complete [OF this] show ?thesis by (metis length_Cons length_map)
qed

section \<open>The commands of the police edition\<close>

text \<open>
  \<open>cmd/witness-pd\<close> with its flags parsed (\<open>fl\<close> gives the value of a flag, its default if it is
  not set). Every command opens the store anew; the files it leaves are the result.
\<close>

datatype cli_outcome = CliUsage | CliFatal | CliDone

type_synonym pd_files = "disk \<times> catalog_file"

definition pd_files_of :: "pd_store \<Rightarrow> pd_files" where
  "pd_files_of pd = (snd (pdLog pd), pdFile pd)"

definition mustOpenStore :: "env \<Rightarrow> bool \<Rightarrow> bytes \<Rightarrow> open_io \<Rightarrow> pd_files \<Rightarrow> pd_store option \<times> pd_files" where
  "mustOpenStore C configured key oio df =
     (if \<not> configured then (None, df)
      else case pdOpen C df key oio of
        (Inl _, d) \<Rightarrow> (None, (d, snd df))
      | (Inr pd, d) \<Rightarrow> (Some pd, pd_files_of pd))"

definition with_store ::
  "env \<Rightarrow> bool \<Rightarrow> bytes \<Rightarrow> open_io \<Rightarrow> pd_files \<Rightarrow> (pd_store \<Rightarrow> pd_error option \<times> pd_store) \<Rightarrow> cli_outcome \<times> pd_files" where
  "with_store C configured key oio df act =
     (case mustOpenStore C configured key oio df of
        (None, df') \<Rightarrow> (CliFatal, df')
      | (Some pd, df') \<Rightarrow>
          (case act pd of
             (Some _, pd') \<Rightarrow> (CliFatal, pd_files_of pd')
           | (None, pd') \<Rightarrow> (CliDone, pd_files_of pd')))"

definition runIntake ::
  "env \<Rightarrow> pd_codec \<Rightarrow> bool \<Rightarrow> bytes \<Rightarrow> open_io \<Rightarrow> pd_io \<Rightarrow> (string \<Rightarrow> string) \<Rightarrow> pd_files \<Rightarrow> cli_outcome \<times> pd_files" where
  "runIntake C K configured key oio io fl df =
     (if fl ''case'' = [] \<or> fl ''desc'' = [] \<or> fl ''actor'' = [] then (CliUsage, df)
      else with_store C configured key oio df (\<lambda>pd.
        RecordIntake C K io pd \<lparr>itID = [], itCaseNumber = fl ''case'', itDescription = fl ''desc'', itCategory = fl ''cat'',
          itCreatedAt = 0, itCreatedBy = [], itLegalHold = False, itHoldReason = [], itStatus = [], itCurrentNode = fl ''node''\<rparr>
          (fl ''actor'')))"

definition runTransfer ::
  "env \<Rightarrow> pd_codec \<Rightarrow> bool \<Rightarrow> bytes \<Rightarrow> open_io \<Rightarrow> pd_io \<Rightarrow> (string \<Rightarrow> string) \<Rightarrow> pd_files \<Rightarrow> cli_outcome \<times> pd_files" where
  "runTransfer C K configured key oio io fl df =
     (if fl ''item'' = [] \<or> fl ''from'' = [] \<or> fl ''to'' = [] \<or> fl ''actor'' = [] then (CliUsage, df)
      else with_store C configured key oio df (\<lambda>pd.
        RecordTransfer C K io pd (fl ''item'') (fl ''actor'') (fl ''from'') (fl ''to'') (fl ''notes'')))"

definition runHold ::
  "env \<Rightarrow> pd_codec \<Rightarrow> bool \<Rightarrow> bytes \<Rightarrow> open_io \<Rightarrow> pd_io \<Rightarrow> string \<Rightarrow> (string \<Rightarrow> string) \<Rightarrow> pd_files \<Rightarrow> cli_outcome \<times> pd_files" where
  "runHold C K configured key oio io cmd fl df =
     (if cmd = ''set'' then
        (if fl ''item'' = [] \<or> fl ''reason'' = [] \<or> fl ''actor'' = [] then (CliUsage, df)
         else with_store C configured key oio df (\<lambda>pd. SetLegalHold C K io pd (fl ''item'') (fl ''actor'') (fl ''reason'')))
      else if cmd = ''release'' then
        (if fl ''item'' = [] \<or> fl ''actor'' = [] then (CliUsage, df)
         else with_store C configured key oio df (\<lambda>pd. ReleaseLegalHold C K io pd (fl ''item'') (fl ''actor'') (fl ''notes'')))
      else (CliUsage, df))"

text \<open>The export: the bundle that was written, and one export record per item of the case, whose errors are not looked at.\<close>

definition recordExports :: "env \<Rightarrow> pd_codec \<Rightarrow> (nat \<Rightarrow> pd_io) \<Rightarrow> string \<Rightarrow> string \<Rightarrow> pd_store \<Rightarrow> item list \<Rightarrow> pd_store" where
  "recordExports C K ios actor ref pd items =
     foldl (\<lambda>pd (i, it). snd (RecordExport C K (ios i) pd (itID it) actor ref)) pd (enumerate 0 items)"

definition runExport ::
  "env \<Rightarrow> pd_codec \<Rightarrow> bundle_codec \<Rightarrow> (bytes \<Rightarrow> bytes \<Rightarrow> bytes) \<Rightarrow> bool \<Rightarrow> bytes \<Rightarrow> open_io \<Rightarrow> (nat \<Rightarrow> pd_io) \<Rightarrow> string \<times> string \<Rightarrow>
   (string \<Rightarrow> string) \<Rightarrow> bool \<Rightarrow> string \<Rightarrow> bool \<times> bool \<times> nat option \<Rightarrow> pd_files \<Rightarrow> (cli_outcome \<times> court_bundle option) \<times> pd_files" where
  "runExport C K BK sign configured key oio ios deptNode fl wantSign privKey wr df =
     (if fl ''case'' = [] \<or> fl ''actor'' = [] then ((CliUsage, None), df)
      else case mustOpenStore C configured key oio df of
        (None, df') \<Rightarrow> ((CliFatal, None), df')
      | (Some pd, df') \<Rightarrow>
          (case GetAllEvents C pd of
             Inl _ \<Rightarrow> ((CliFatal, None), df')
           | Inr entries \<Rightarrow>
               (case Generate C BK (piDate (ios 0)) (piRandom (ios 0)) (piNow (ios 0)) entries (fl ''case'') (fst deptNode) (snd deptNode) of
                  Inl _ \<Rightarrow> ((CliFatal, None), df')
                | Inr b0 \<Rightarrow>
                    (case (if wantSign then (if privKey = [] then Inl PrivKeyHex else bundle_Sign BK sign b0 privKey) else Inr b0) of
                       Inl _ \<Rightarrow> ((CliFatal, None), df')
                     | Inr b \<Rightarrow>
                         (case WriteNDJSON C BK (fst wr) (fst (snd wr)) (snd (snd wr)) b of
                            (_, Some _) \<Rightarrow> ((CliFatal, None), df')
                          | (_, None) \<Rightarrow>
                              ((CliDone, Some b),
                               pd_files_of (recordExports C K ios (fl ''actor'') (buBundleID b) pd (GetItems pd (fl ''case''))))))))) "

text \<open>
  \<open>init\<close> and \<open>status\<close>: whether the primary directory exists, the soul installs and loads, the
  configuration is saved; the counts that \<open>status\<close> prints.
\<close>

definition runInit ::
  "env \<Rightarrow> bool \<Rightarrow> bool \<Rightarrow> bool \<Rightarrow> bool \<Rightarrow> bytes \<Rightarrow> open_io \<Rightarrow> pd_io \<Rightarrow> bytes \<Rightarrow> pd_files \<Rightarrow> cli_outcome \<times> pd_files" where
  "runInit C initialised installs soulLoads saves key oio io notes df =
     (if initialised then (CliFatal, df)
      else if \<not> installs \<or> \<not> soulLoads then (CliFatal, df)
      else case pdOpen C df key oio of
        (Inl _, d) \<Rightarrow> (CliFatal, (d, snd df))
      | (Inr pd, _) \<Rightarrow>
          (case AppendSystem C io notes pd ''INFO'' ''pd/init'' of
             (Some _, pd') \<Rightarrow> (CliFatal, pd_files_of pd')
           | (None, pd') \<Rightarrow> (if saves then CliDone else CliFatal, pd_files_of pd')))"

record pd_status =
  psSoul :: bool
  psItems :: nat
  psHolds :: nat
  psEntries :: nat
  psLastEvent :: string

definition runStatus :: "env \<Rightarrow> bool \<Rightarrow> bool \<Rightarrow> bytes \<Rightarrow> open_io \<Rightarrow> pd_files \<Rightarrow> pd_status option \<times> pd_files" where
  "runStatus C configured soulLoads key oio df =
     (case mustOpenStore C configured key oio df of
        (None, df') \<Rightarrow> (None, df')
      | (Some pd, df') \<Rightarrow>
          (let items = GetItems pd [];
               events = (case GetAllEvents C pd of Inl _ \<Rightarrow> [] | Inr es \<Rightarrow> es)
           in (Some \<lparr>psSoul = soulLoads, psItems = length items, psHolds = length (filter itLegalHold items),
                     psEntries = length events, psLastEvent = (if events = [] then [] else eEvent (last events))\<rparr>, df')))"

text \<open>An exported bundle holds every entry of the case that the log holds, in order.\<close>

lemma export_complete:
  assumes "runExport C K BK sign configured key oio ios deptNode fl wantSign privKey wr df = ((CliDone, Some b), df')"
  shows "\<exists>pd d entries. pdOpen C df key oio = (Inr pd, d) \<and> GetAllEvents C pd = Inr entries \<and>
     buEntries b = filter (matchesCase BK (fl ''case'')) entries \<and> buCaseNumber b = fl ''case''"
proof -
  obtain pd d where pd: "mustOpenStore C configured key oio df = (Some pd, d)"
    using assms by (auto simp: runExport_def split: if_splits prod.splits option.splits)
  obtain entries where en: "GetAllEvents C pd = Inr entries"
    using assms pd by (cases "GetAllEvents C pd") (auto simp: runExport_def split: if_splits)
  obtain b0 where b0: "Generate C BK (piDate (ios 0)) (piRandom (ios 0)) (piNow (ios 0)) entries (fl ''case'') (fst deptNode) (snd deptNode) = Inr b0"
      "b0 = b \<or> (\<exists>sg. b = b0\<lparr>buSignature := sg\<rparr>)"
    using assms pd en
    by (auto simp: runExport_def bundle_Sign_def split: if_splits sum.splits prod.splits option.splits)
  have "buEntries b0 = filter (matchesCase BK (fl ''case'')) entries \<and> buCaseNumber b0 = fl ''case''"
    using b0(1) by (auto simp: Generate_def Let_def split: option.splits)
  moreover have "\<exists>d. pdOpen C df key oio = (Inr pd, d)"
    using pd by (auto simp: mustOpenStore_def split: if_splits prod.splits sum.splits)
  ultimately show ?thesis using en b0(2) by auto
qed

end
