(* ===== verification/Death.thy ===== *)
theory Death
  imports Sample_Env Go_Strings "HOL-Library.Char_ord" "HOL-Library.List_Lexorder" "HOL-Library.Multiset"
begin

text \<open>
  Death records (\<open>internal/death\<close>): \<open>Fire\<close> writes one small file per stop with a digest of the
  log, either of the whole file or of the segment behind the previous record, chained to
  that record; \<open>Verify\<close> walks the records and recomputes the digests from a retained log.
  What timers, files and reads do in a call are arguments; the JSON text of a record is the
  parameter \<open>death_codec\<close>. Lengths and offsets (\<open>int64\<close>) are integers; they come from file
  sizes and from validated records, and differences of them do not leave the range.
\<close>

section \<open>Hashing a range of a file\<close>

record dhash =
  dhStatus :: string
  dhSHA256 :: string
  dhError :: string

text \<open>What one run of \<open>streamHash\<close> meets: sizes of the reads, the context, read errors.\<close>

record stream_io =
  siChunk :: "nat \<Rightarrow> nat"
  siExpired :: "nat \<Rightarrow> bool"
  siError :: "nat \<Rightarrow> string option"

record hash_io =
  hiExpired :: bool
  hiOpen :: "string option"
  hiSeek :: "string option"
  hiStream :: stream_io
  hiLate :: bool
  hiDone :: bool

datatype stream_error = Expired | ReadError string

definition bufSize :: nat where
  "bufSize = 64 * 1024"

text \<open>The read loop: \<open>acc\<close> is what has been written to the hash, \<open>rest\<close> what the reader still has.\<close>

function streamLoop :: "stream_io \<Rightarrow> nat \<Rightarrow> bytes \<Rightarrow> bytes \<Rightarrow> stream_error + bytes" where
  "streamLoop io i acc rest =
     (if siExpired io i then Inl Expired
      else case siError io i of
        Some e \<Rightarrow> Inl (ReadError e)
      | None \<Rightarrow>
          if rest = [] then (if siExpired io (Suc i) then Inl Expired else Inr acc)
          else let n = max 1 (min bufSize (siChunk io i)) in
            streamLoop io (Suc i) (acc @ take n rest) (drop n rest))"
  by pat_completeness auto
termination
  by (relation "measure (\<lambda>(io, i, acc, rest). length rest)") auto

declare streamLoop.simps [simp del]

definition streamHash :: "env \<Rightarrow> stream_io \<Rightarrow> bytes \<Rightarrow> int \<Rightarrow> stream_error + string" where
  "streamHash C io data sz =
     (case streamLoop io 0 [] data of
        Inl e \<Rightarrow> Inl e
      | Inr whole \<Rightarrow>
          if 0 \<le> sz \<and> int (length whole) \<noteq> sz then Inl (ReadError ''unexpected EOF'')
          else Inr (hex_encode (sha256 C whole)))"

definition incomplete :: dhash where
  "incomplete = \<lparr>dhStatus = ''incomplete'', dhSHA256 = [], dhError = []\<rparr>"

definition hash_error :: "string \<Rightarrow> dhash" where
  "hash_error e = \<lparr>dhStatus = ''error'', dhSHA256 = [], dhError = e\<rparr>"

text \<open>
  \<open>hashRange\<close>: the context may have expired before or while the worker runs (\<open>hiExpired\<close>,
  \<open>hiDone\<close>), or when it reports an error (\<open>hiLate\<close>). A file is its bytes.
\<close>

definition hashRange :: "env \<Rightarrow> hash_io \<Rightarrow> string \<Rightarrow> bytes \<Rightarrow> int \<Rightarrow> int \<Rightarrow> dhash" where
  "hashRange C io path content start sz =
     (if hiExpired io then incomplete
      else if hiDone io then incomplete
      else case hiOpen io of
        Some e \<Rightarrow> hash_error e
      | None \<Rightarrow>
          if start < 0 then hash_error (''seek '' @ path @ '': invalid argument'')
          else (case hiSeek io of
            Some e \<Rightarrow> hash_error e
          | None \<Rightarrow>
              (let rest = drop (nat start) content;
                   data = (if 0 \<le> sz then take (nat sz) rest else rest) in
               (case streamHash C (hiStream io) data sz of
                  Inl err \<Rightarrow>
                    (case err of
                       Expired \<Rightarrow> incomplete
                     | ReadError e \<Rightarrow> if hiLate io then incomplete else hash_error e)
                | Inr digest \<Rightarrow> \<lparr>dhStatus = ''complete'', dhSHA256 = digest, dhError = []\<rparr>))))"

definition hashFile :: "env \<Rightarrow> hash_io \<Rightarrow> string \<Rightarrow> bytes \<Rightarrow> int \<Rightarrow> dhash" where
  "hashFile C io path content sz = hashRange C io path content 0 sz"

section \<open>Records\<close>

record reference =
  rfName :: string
  rfSHA256 :: string

record skipped_record =
  skName :: string
  skError :: string

record death_record =
  drFormat :: string
  drTimestamp :: string
  drTrigger :: string
  drMachineID :: string
  drTreeHead :: "bytes option"
  drTreeHeadError :: string
  drLogBytes :: int
  drLogHash :: dhash
  drGenesisHash :: dhash
  drHashMode :: string
  drSegmentStart :: int
  drSegmentSHA256 :: string
  drChainSHA256 :: string
  drTailSHA256 :: string
  drTailHash :: dhash
  drPrevRecord :: "reference option"
  drSkippedRecords :: "skipped_record list"
  drFallbackReason :: string
  drPrefixChanged :: bool
  drLogShrank :: bool

record saved_record =
  svRecord :: death_record
  svReference :: reference

datatype load_error =
    OpenError string | TooLarge | BadJSON string | UnsupportedFormat string | InvalidLength
  | InvalidComplete | InvalidStatus string | InvalidMode | InvalidSegment | InvalidSegmentHash
  | SegmentOnFull | InvalidFullHash | InconsistentTail | MissingTail | PartialDigest

datatype link_error = BadReference | LinkGlob string | MissingRecord string | LinkLoad load_error | LinkMismatch string

text \<open>The JSON text of a record, the check \<open>json.Valid\<close> and the texts of the error values.\<close>

record death_codec =
  dc_marshal :: "death_record \<Rightarrow> bytes option"
  dc_unmarshal :: "bytes \<Rightarrow> string + death_record"
  dc_valid :: "bytes \<Rightarrow> bool"
  dc_load_text :: "load_error \<Rightarrow> string"
  dc_link_text :: "link_error \<Rightarrow> string"

text \<open>
  The directory: its files by name, each with its bytes or the error that opening or reading
  it gives, and the error of the glob, if any.
\<close>

record death_dir =
  ddGlob :: "string option"
  ddFiles :: "(string \<times> (string + bytes)) list"

definition format1 :: string where "format1 = ''witness-death/1''"
definition format2 :: string where "format2 = ''witness-death/2''"

definition validDigest :: "string \<Rightarrow> bool" where
  "validDigest s = (case hex_decode s of None \<Rightarrow> False | Some b \<Rightarrow> length b = 32 \<and> s = hex_encode b)"

definition is_record :: "string \<Rightarrow> bool" where
  "is_record name \<longleftrightarrow> 11 \<le> length name \<and> HasPrefix name ''death_'' \<and> HasSuffix name ''.json''"

definition recordNames :: "death_dir \<Rightarrow> string + string list" where
  "recordNames dd =
     (case ddGlob dd of Some e \<Rightarrow> Inl e | None \<Rightarrow> Inr (sort (filter is_record (map fst (ddFiles dd)))))"

definition anchor :: "death_record \<Rightarrow> string" where
  "anchor r = (if drFormat r = format2 \<and> drHashMode r = ''segment'' then drChainSHA256 r else dhSHA256 (drLogHash r))"

text \<open>The checks of \<open>loadRecord\<close> on a decoded record, in their order.\<close>

definition checkRecord2 :: "death_record \<Rightarrow> load_error option" where
  "checkRecord2 s =
     (let complete = (dhStatus (drLogHash s) = ''complete'') in
      if drHashMode s \<noteq> ''full'' \<and> drHashMode s \<noteq> ''segment'' \<and> 0 \<le> drLogBytes s then Some InvalidMode
      else if drHashMode s = ''segment'' \<and>
              (drPrevRecord s = None \<or> drSegmentStart s < 0 \<or> drLogBytes s < drSegmentStart s) then Some InvalidSegment
      else if drHashMode s = ''segment'' \<and> complete \<and>
              (\<not> validDigest (drSegmentSHA256 s) \<or> \<not> validDigest (drChainSHA256 s) \<or> dhSHA256 (drLogHash s) \<noteq> [])
           then Some InvalidSegmentHash
      else if drHashMode s \<noteq> ''segment'' \<and>
              (drSegmentSHA256 s \<noteq> [] \<or> drChainSHA256 s \<noteq> [] \<or> drSegmentStart s \<noteq> 0) then Some SegmentOnFull
      else if drHashMode s \<noteq> ''segment'' \<and> complete \<and> \<not> validDigest (dhSHA256 (drLogHash s)) then Some InvalidFullHash
      else if drTailSHA256 s \<noteq> [] \<and>
              (dhStatus (drTailHash s) \<noteq> ''complete'' \<or> \<not> validDigest (drTailSHA256 s) \<or>
               dhSHA256 (drTailHash s) \<noteq> drTailSHA256 s) then Some InconsistentTail
      else if dhStatus (drTailHash s) = ''complete'' \<and> \<not> validDigest (drTailSHA256 s) then Some MissingTail
      else if \<not> complete \<and>
              (dhSHA256 (drLogHash s) \<noteq> [] \<or> drSegmentSHA256 s \<noteq> [] \<or> drChainSHA256 s \<noteq> []) then Some PartialDigest
      else None)"

definition checkRecord :: "death_record \<Rightarrow> load_error option" where
  "checkRecord s =
     (if drFormat s \<noteq> format1 \<and> drFormat s \<noteq> format2 then Some (UnsupportedFormat (drFormat s))
      else if drLogBytes s < -1 then Some InvalidLength
      else if dhStatus (drLogHash s) = ''complete'' \<and> (drLogBytes s < 0 \<or> \<not> validDigest (anchor s)) then Some InvalidComplete
      else if dhStatus (drLogHash s) \<notin> {''complete'', ''incomplete'', ''error''} then Some (InvalidStatus (dhStatus (drLogHash s)))
      else if drFormat s = format2 then checkRecord2 s
      else None)"

definition maxRecord :: nat where
  "maxRecord = 2 ^ 20"

definition loadRecord :: "env \<Rightarrow> death_codec \<Rightarrow> death_dir \<Rightarrow> string \<Rightarrow> load_error + saved_record" where
  "loadRecord C K dd name =
     (case map_of (ddFiles dd) name of
        None \<Rightarrow> Inl (OpenError ''no such file or directory'')
      | Some (Inl e) \<Rightarrow> Inl (OpenError e)
      | Some (Inr content) \<Rightarrow>
          (let data = take (maxRecord + 1) content in
           if maxRecord < length data then Inl TooLarge
           else case dc_unmarshal K data of
             Inl e \<Rightarrow> Inl (BadJSON e)
           | Inr r \<Rightarrow>
               (case checkRecord r of
                  Some e \<Rightarrow> Inl e
                | None \<Rightarrow> Inr \<lparr>svRecord = r, svReference = \<lparr>rfName = name, rfSHA256 = hex_encode (sha256 C data)\<rparr>\<rparr>)))"

text \<open>\<open>hex.DecodeString\<close> with its error ignored: the bytes decoded in front of the first fault.\<close>

fun hex_partial :: "string \<Rightarrow> bytes" where
  "hex_partial (c # d # cs) =
     (case (fromHexChar c, fromHexChar d) of
        (Some h, Some l) \<Rightarrow> word_of_nat (16 * h + l) # hex_partial cs
      | _ \<Rightarrow> [])"
| "hex_partial _ = []"

definition chainDigest :: "env \<Rightarrow> string \<Rightarrow> string \<Rightarrow> int \<Rightarrow> string" where
  "chainDigest C previous segment len =
     hex_encode (sha256 C (hex_partial previous @ hex_partial segment @ put_u64 (word_of_int len)))"

definition tailBytes :: int where
  "tailBytes = 2 ^ 20"

definition tailStart :: "int \<Rightarrow> int" where
  "tailStart len = (if len > tailBytes then len - tailBytes else 0)"

text \<open>\<open>filepath.Base\<close> on Unix paths.\<close>

definition path_base :: "string \<Rightarrow> string" where
  "path_base p =
     (if p = [] then ''.''
      else let q = rev (dropWhile (\<lambda>c. c = CHR ''/'') (rev p));
               b = rev (takeWhile (\<lambda>c. c \<noteq> CHR ''/'') (rev q))
           in if b = [] then ''/'' else b)"

definition checkLink :: "env \<Rightarrow> death_codec \<Rightarrow> death_dir \<Rightarrow> string \<Rightarrow> reference \<Rightarrow> link_error option" where
  "checkLink C K dd current ref =
     (if rfName ref \<noteq> path_base (rfName ref) \<or> \<not> rfName ref < current \<or> \<not> validDigest (rfSHA256 ref)
      then Some BadReference
      else case recordNames dd of
        Inl e \<Rightarrow> Some (LinkGlob e)
      | Inr paths \<Rightarrow>
          if rfName ref \<notin> set paths then Some (MissingRecord (rfName ref))
          else case loadRecord C K dd (rfName ref) of
            Inl e \<Rightarrow> Some (LinkLoad e)
          | Inr s \<Rightarrow> if rfSHA256 (svReference s) \<noteq> rfSHA256 ref then Some (LinkMismatch (rfName ref)) else None)"

section \<open>Firing\<close>

record fire_io =
  fiTimestamp :: string
  fiHead :: "string + bytes"
  fiStat :: "string option"
  fiGenesisHash :: hash_io
  fiHistory :: "nat \<Rightarrow> bool"
  fiPrevTail :: hash_io
  fiTail :: hash_io
  fiLog :: hash_io

text \<open>
  The search for the newest loadable record: the names still to try, newest first, and the
  records skipped so far. The result says whether the deadline ended the search.
\<close>

fun findPrevious ::
  "env \<Rightarrow> death_codec \<Rightarrow> death_dir \<Rightarrow> (nat \<Rightarrow> bool) \<Rightarrow> nat \<Rightarrow> string list \<Rightarrow> skipped_record list
     \<Rightarrow> bool \<times> saved_record option \<times> skipped_record list" where
  "findPrevious C K dd expired i [] skipped = (False, None, skipped)"
| "findPrevious C K dd expired i (name # names) skipped =
     (if expired i then (True, None, skipped)
      else case loadRecord C K dd name of
        Inl e \<Rightarrow> findPrevious C K dd expired (Suc i) names
                   (skipped @ [\<lparr>skName = name, skError = dc_load_text K e\<rparr>])
      | Inr s \<Rightarrow> (False, Some s, skipped))"

text \<open>
  The decision of \<open>hashLog\<close> about the previous record: the reason to hash the whole log (empty:
  hash only the new segment) and whether the bytes under the previous tail changed.
\<close>

definition fallback ::
  "env \<Rightarrow> death_codec \<Rightarrow> death_dir \<Rightarrow> hash_io \<Rightarrow> string \<Rightarrow> bytes \<Rightarrow> death_record \<Rightarrow> saved_record \<Rightarrow> string \<times> bool" where
  "fallback C K dd io path log r prev =
     (let p = svRecord prev in
      if drSkippedRecords r \<noteq> [] then (''skipped_invalid_records'', False)
      else if drLogShrank r then (''log_shrank'', False)
      else if dhStatus (drLogHash p) \<noteq> ''complete'' then (''previous_hash_'' @ dhStatus (drLogHash p), False)
      else if drMachineID p \<noteq> drMachineID r then (''machine_id_changed'', False)
      else if drFormat p = format1 then (''previous_record_has_no_tail'', False)
      else if \<not> validDigest (drTailSHA256 p) then (''previous_record_has_no_tail'', False)
      else case Option.bind (drPrevRecord p) (checkLink C K dd (rfName (svReference prev))) of
        Some e \<Rightarrow> (''previous_record_link_invalid: '' @ dc_link_text K e, False)
      | None \<Rightarrow>
          (let start = tailStart (drLogBytes p);
               h = hashRange C io path log start (drLogBytes p - start) in
           if dhStatus h \<noteq> ''complete'' then (''previous_tail_'' @ dhStatus h, False)
           else if dhSHA256 h \<noteq> drTailSHA256 p then (''prefix_changed'', True)
           else ([], False)))"

text \<open>The first half of \<open>hashLog\<close>: previous record, reason and mode.\<close>

definition choosePrevious ::
  "env \<Rightarrow> death_codec \<Rightarrow> fire_io \<Rightarrow> death_dir \<Rightarrow> string \<Rightarrow> bytes \<Rightarrow> death_record \<Rightarrow> death_record \<times> saved_record option" where
  "choosePrevious C K io dd path log r0 =
     (let globbed = recordNames dd;
          paths = (case globbed of Inl e \<Rightarrow> [] | Inr ps \<Rightarrow> ps);
          reason0 = (case globbed of Inl e \<Rightarrow> ''history_read_error: '' @ e | Inr _ \<Rightarrow> ''no_previous_record'');
          (late, found, skipped) = findPrevious C K dd (fiHistory io) 0 (rev paths) [];
          r1 = r0\<lparr>drHashMode := ''full'', drSkippedRecords := skipped,
                  drFallbackReason := (if late then ''history_deadline'' else reason0)\<rparr>
      in case found of
        None \<Rightarrow> (if skipped \<noteq> [] then r1\<lparr>drFallbackReason := ''skipped_invalid_records''\<rparr> else r1, None)
      | Some prev \<Rightarrow>
          (let p = svRecord prev;
               r2 = r1\<lparr>drPrevRecord := Some (svReference prev),
                       drLogShrank := 0 \<le> drLogBytes p \<and> drLogBytes r1 < drLogBytes p\<rparr>;
               (reason, changed) = fallback C K dd (fiPrevTail io) path log r2 prev;
               r3 = r2\<lparr>drFallbackReason := reason, drPrefixChanged := changed\<rparr>
           in (if reason = [] then r3\<lparr>drHashMode := ''segment'', drSegmentStart := drLogBytes p\<rparr> else r3, Some prev)))"

definition hashLog ::
  "env \<Rightarrow> death_codec \<Rightarrow> fire_io \<Rightarrow> death_dir \<Rightarrow> string \<Rightarrow> bytes \<Rightarrow> death_record \<Rightarrow> death_record" where
  "hashLog C K io dd path log r0 =
     (let (r1, found) = choosePrevious C K io dd path log r0;
          start = tailStart (drLogBytes r1);
          th = hashRange C (fiTail io) path log start (drLogBytes r1 - start);
          r2 = r1\<lparr>drTailHash := th, drTailSHA256 := dhSHA256 th\<rparr>
      in case found of
        Some prev \<Rightarrow>
          if drHashMode r2 = ''segment'' then
            (let h = hashRange C (fiLog io) path log (drSegmentStart r2) (drLogBytes r2 - drSegmentStart r2);
                 r3 = r2\<lparr>drLogHash := \<lparr>dhStatus = dhStatus h, dhSHA256 = [], dhError = dhError h\<rparr>\<rparr>
             in if dhStatus h = ''complete''
                then r3\<lparr>drSegmentSHA256 := dhSHA256 h,
                        drChainSHA256 := chainDigest C (anchor (svRecord prev)) (dhSHA256 h) (drLogBytes r3)\<rparr>
                else r3)
          else r2\<lparr>drLogHash := hashFile C (fiLog io) path log (drLogBytes r2)\<rparr>
      | None \<Rightarrow> r2\<lparr>drLogHash := hashFile C (fiLog io) path log (drLogBytes r2)\<rparr>)"

definition no_hash :: dhash where
  "no_hash = \<lparr>dhStatus = [], dhSHA256 = [], dhError = []\<rparr>"

definition newRecord :: "death_codec \<Rightarrow> fire_io \<Rightarrow> string \<Rightarrow> string \<Rightarrow> death_record" where
  "newRecord K io machineID trigger =
     (let (th, err) = (case fiHead io of
              Inl e \<Rightarrow> (None, e)
            | Inr head \<Rightarrow> if \<not> dc_valid K head then (None, ''tree-head.json is not valid JSON'') else (Some head, []))
      in \<lparr>drFormat = format2, drTimestamp = fiTimestamp io, drTrigger = trigger, drMachineID = machineID,
          drTreeHead = th, drTreeHeadError = err, drLogBytes = -1, drLogHash = no_hash, drGenesisHash = no_hash,
          drHashMode = [], drSegmentStart = 0, drSegmentSHA256 = [], drChainSHA256 = [], drTailSHA256 = [],
          drTailHash = no_hash, drPrevRecord = None, drSkippedRecords = [], drFallbackReason = [],
          drPrefixChanged = False, drLogShrank = False\<rparr>)"

definition fireRecord ::
  "env \<Rightarrow> death_codec \<Rightarrow> fire_io \<Rightarrow> death_dir \<Rightarrow> string \<Rightarrow> string \<Rightarrow> bytes \<Rightarrow> bytes \<Rightarrow> death_record" where
  "fireRecord C K io dd machineID trigger genesis log =
     (let r0 = (newRecord K io machineID trigger)\<lparr>drGenesisHash := hashFile C (fiGenesisHash io) ''genesis.enc'' genesis (-1)\<rparr>
      in case fiStat io of
        Some e \<Rightarrow> r0\<lparr>drLogHash := hash_error e, drHashMode := ''full'', drTailHash := hash_error e\<rparr>
      | None \<Rightarrow> hashLog C K io dd ''witness.log'' log (r0\<lparr>drLogBytes := int (length log)\<rparr>))"

text \<open>
  \<open>atomicRecord\<close>: a temporary file (its name starts with a dot and never counts as a record)
  is written, synced, closed and renamed; the step that fails, if any, is an argument.
\<close>

datatype record_step = MkdirAll | CreateTemp | WriteTemp | SyncTemp | CloseTemp | Rename | OpenDir | SyncDir

definition atomicRecord ::
  "record_step option \<Rightarrow> string \<Rightarrow> bytes \<Rightarrow> death_dir \<Rightarrow> record_step option \<times> death_dir" where
  "atomicRecord fails sfx data dd =
     (case fails of
        Some step \<Rightarrow>
          if step = OpenDir \<or> step = SyncDir
          then (Some step, dd\<lparr>ddFiles := ddFiles dd @ [(''death_'' @ sfx @ ''.json'', Inr data)]\<rparr>)
          else (Some step, dd)
      | None \<Rightarrow> (None, dd\<lparr>ddFiles := ddFiles dd @ [(''death_'' @ sfx @ ''.json'', Inr data)]\<rparr>))"

datatype fire_error = MarshalRecord | PublishRecord record_step

definition fire ::
  "env \<Rightarrow> death_codec \<Rightarrow> fire_io \<Rightarrow> record_step option \<Rightarrow> string \<Rightarrow> death_dir \<Rightarrow> string \<Rightarrow> string \<Rightarrow> bytes \<Rightarrow> bytes
     \<Rightarrow> fire_error option \<times> death_dir" where
  "fire C K io fails sfx dd machineID trigger genesis log =
     (case dc_marshal K (fireRecord C K io dd machineID trigger genesis log) of
        None \<Rightarrow> (Some MarshalRecord, dd)
      | Some data \<Rightarrow>
          (let (e, dd') = atomicRecord fails sfx (data @ [10]) dd in (map_option PublishRecord e, dd')))"

section \<open>Verification\<close>

datatype issue =
    Unreadable load_error | Link link_error | WrongPrevious | MissingLink | NoPrevious | SegmentBounds
  | Ineligible | MachineChanged | ChainMismatch | TailUnavailable string | HashUnfinished string
  | InvalidRange | RangeUnread string | RangeMismatch | TailUnread string | TailMismatch

text \<open>The failures one record gets, in the order of the code; \<open>prev\<close> is the last record that loaded.\<close>

definition linkIssues :: "env \<Rightarrow> death_codec \<Rightarrow> death_dir \<Rightarrow> string \<Rightarrow> saved_record option \<Rightarrow> death_record \<Rightarrow> issue list" where
  "linkIssues C K dd name prev r =
     (case drPrevRecord r of
        Some ref \<Rightarrow>
          (case checkLink C K dd name ref of Some e \<Rightarrow> [Link e] | None \<Rightarrow> []) @
          (if prev = None \<or> rfName ref \<noteq> rfName (svReference (the prev)) then [WrongPrevious] else [])
      | None \<Rightarrow> if prev \<noteq> None then [MissingLink] else [])"

definition segmentIssues :: "env \<Rightarrow> saved_record option \<Rightarrow> death_record \<Rightarrow> issue list" where
  "segmentIssues C prev r =
     (if drHashMode r \<noteq> ''segment'' then []
      else case prev of
        None \<Rightarrow> [NoPrevious]
      | Some sp \<Rightarrow>
          if drPrevRecord r = None then [NoPrevious]
          else let p = svRecord sp in
            (if drSegmentStart r \<noteq> drLogBytes p \<or> drLogBytes r < drSegmentStart r then [SegmentBounds] else []) @
            (if dhStatus (drLogHash p) \<noteq> ''complete'' \<or> drFormat p \<noteq> format2 \<or> \<not> validDigest (drTailSHA256 p)
             then [Ineligible] else []) @
            (if drMachineID p \<noteq> drMachineID r then [MachineChanged] else []) @
            (if dhStatus (drLogHash r) = ''complete'' \<and>
                chainDigest C (anchor p) (drSegmentSHA256 r) (drLogBytes r) \<noteq> drChainSHA256 r then [ChainMismatch] else []))"

definition rangeIssues :: "env \<Rightarrow> hash_io \<Rightarrow> hash_io \<Rightarrow> string \<Rightarrow> bytes \<Rightarrow> death_record \<Rightarrow> issue list" where
  "rangeIssues C ioLog ioTail path log r =
     (let start = (if drHashMode r = ''segment'' then drSegmentStart r else 0);
          want = (if drHashMode r = ''segment'' then drSegmentSHA256 r else dhSHA256 (drLogHash r)) in
      (if start < 0 \<or> drLogBytes r < start then [InvalidRange]
       else if dhStatus (drLogHash r) = ''complete'' then
         (let h = hashRange C ioLog path log start (drLogBytes r - start) in
          if dhStatus h \<noteq> ''complete'' then [RangeUnread (dhStatus h)]
          else if dhSHA256 h \<noteq> want then [RangeMismatch] else [])
       else []) @
      (if drFormat r = format2 \<and> validDigest (drTailSHA256 r) then
         (let ts = tailStart (drLogBytes r);
              h = hashRange C ioTail path log ts (drLogBytes r - ts) in
          if dhStatus h \<noteq> ''complete'' then [TailUnread (dhStatus h)]
          else if dhSHA256 h \<noteq> drTailSHA256 r then [TailMismatch] else [])
       else []))"

text \<open>The retained log: none given, or its path and bytes with what each read does.\<close>

record retained_log =
  rlPath :: string
  rlBytes :: bytes
  rlLogIO :: "string \<Rightarrow> hash_io"
  rlTailIO :: "string \<Rightarrow> hash_io"

definition recordIssues ::
  "env \<Rightarrow> death_codec \<Rightarrow> death_dir \<Rightarrow> retained_log option \<Rightarrow> string \<Rightarrow> saved_record option \<Rightarrow> death_record \<Rightarrow> issue list" where
  "recordIssues C K dd logp name prev r =
     (if drFormat r = format2 then
        linkIssues C K dd name prev r @ segmentIssues C prev r @
        (if \<not> validDigest (drTailSHA256 r) then [TailUnavailable (dhStatus (drTailHash r))] else [])
      else []) @
     (if dhStatus (drLogHash r) \<noteq> ''complete'' then [HashUnfinished (dhStatus (drLogHash r))] else []) @
     (case logp of
        None \<Rightarrow> []
      | Some l \<Rightarrow> if 0 \<le> drLogBytes r then rangeIssues C (rlLogIO l name) (rlTailIO l name) (rlPath l) (rlBytes l) r else [])"

fun walk ::
  "env \<Rightarrow> death_codec \<Rightarrow> death_dir \<Rightarrow> retained_log option \<Rightarrow> saved_record option \<Rightarrow> string list \<Rightarrow> (string \<times> issue) list" where
  "walk C K dd logp prev [] = []"
| "walk C K dd logp prev (name # names) =
     (case loadRecord C K dd name of
        Inl e \<Rightarrow> (name, Unreadable e) # walk C K dd logp prev names
      | Inr s \<Rightarrow> map (Pair name) (recordIssues C K dd logp name prev (svRecord s)) @ walk C K dd logp (Some s) names)"

datatype verify_error = VerifyGlob string | NoRecords | VerifyFailed "(string \<times> issue) list"

definition death_Verify :: "env \<Rightarrow> death_codec \<Rightarrow> death_dir \<Rightarrow> retained_log option \<Rightarrow> verify_error option" where
  "death_Verify C K dd logp =
     (case recordNames dd of
        Inl e \<Rightarrow> Some (VerifyGlob e)
      | Inr paths \<Rightarrow>
          if paths = [] then Some NoRecords
          else let issues = walk C K dd logp None paths in
            if issues \<noteq> [] then Some (VerifyFailed issues) else None)"

section \<open>The digest of a range\<close>

text \<open>The bytes \<open>[start, start + n)\<close> of a file.\<close>

definition range_of :: "bytes \<Rightarrow> int \<Rightarrow> int \<Rightarrow> bytes" where
  "range_of content start n = take (nat n) (drop (nat start) content)"

text \<open>However the reads are cut, the loop hashes the bytes of the reader in their order.\<close>

lemma streamLoop_Inr: "streamLoop io i acc rest = Inr w \<Longrightarrow> w = acc @ rest"
proof (induction io i acc rest rule: streamLoop.induct)
  case (1 io i acc rest)
  then show ?case
    by (subst (asm) (2) streamLoop.simps) (auto simp: Let_def split: if_splits option.splits)
qed

definition good_stream :: "stream_io \<Rightarrow> bool" where
  "good_stream io \<longleftrightarrow> (\<forall>i. \<not> siExpired io i \<and> siError io i = None)"

lemma streamLoop_good: "good_stream io \<Longrightarrow> streamLoop io i acc rest = Inr (acc @ rest)"
proof (induction io i acc rest rule: streamLoop.induct)
  case (1 io i acc rest)
  then show ?case by (subst streamLoop.simps) (auto simp: Let_def good_stream_def)
qed

lemma streamHash_Inr:
  "streamHash C io data n = Inr d \<Longrightarrow> d = hex_encode (sha256 C data) \<and> (0 \<le> n \<longrightarrow> int (length data) = n)"
  by (auto simp: streamHash_def dest: streamLoop_Inr split: sum.splits if_splits)

lemma status_simps [simp]:
  "dhStatus incomplete \<noteq> ''complete''" "dhStatus (hash_error e) \<noteq> ''complete''"
  by (simp_all add: incomplete_def hash_error_def)

lemma hashRange_complete:
  assumes "dhStatus (hashRange C io path content start n) = ''complete''" "0 \<le> n"
  shows "0 \<le> start \<and> dhSHA256 (hashRange C io path content start n) = hex_encode (sha256 C (range_of content start n)) \<and>
    length (range_of content start n) = nat n"
  using assms
  by (auto simp: hashRange_def Let_def range_of_def dest!: streamHash_Inr
      split: if_splits option.splits sum.splits stream_error.splits)

definition good_hash :: "hash_io \<Rightarrow> bool" where
  "good_hash io \<longleftrightarrow> \<not> hiExpired io \<and> \<not> hiDone io \<and> hiOpen io = None \<and> hiSeek io = None \<and> good_stream (hiStream io)"

definition complete_hash :: "env \<Rightarrow> bytes \<Rightarrow> dhash" where
  "complete_hash C b = \<lparr>dhStatus = ''complete'', dhSHA256 = hex_encode (sha256 C b), dhError = []\<rparr>"

lemma hashRange_good:
  assumes "good_hash io" "0 \<le> start" "0 \<le> n" "length (range_of content start n) = nat n"
  shows "hashRange C io path content start n = complete_hash C (range_of content start n)"
  using assms
  by (simp add: hashRange_def good_hash_def streamHash_def streamLoop_good range_of_def complete_hash_def)

lemma range_of_prefix:
  assumes "length (range_of content start n) = nat n"
  shows "range_of (content @ rest) start n = range_of content start n"
proof (cases "nat n = 0")
  case False
  then show ?thesis using assms by (simp add: range_of_def)
qed (simp add: range_of_def)

lemma length_range_of:
  "0 \<le> start \<Longrightarrow> start \<le> n \<Longrightarrow> n \<le> int (length content) \<Longrightarrow> length (range_of content start (n - start)) = nat (n - start)"
  by (simp add: range_of_def)

lemma complete_hash_simps [simp]:
  "dhStatus (complete_hash C b) = ''complete''" "dhSHA256 (complete_hash C b) = hex_encode (sha256 C b)"
  "dhError (complete_hash C b) = []"
  by (simp_all add: complete_hash_def)

lemma tailStart_bounds: "0 \<le> n \<Longrightarrow> 0 \<le> tailStart n \<and> tailStart n \<le> n"
  by (simp add: tailStart_def tailBytes_def)

section \<open>Verified records bind the log\<close>

lemma loadRecord_checked: "loadRecord C K dd name = Inr s \<Longrightarrow> checkRecord (svRecord s) = None"
  by (auto simp: loadRecord_def Let_def split: option.splits sum.splits if_splits)

lemma loadRecord_name: "loadRecord C K dd name = Inr s \<Longrightarrow> rfName (svReference s) = name"
  by (auto simp: loadRecord_def Let_def split: option.splits sum.splits if_splits)

lemma checkRecord_complete:
  "checkRecord r = None \<Longrightarrow> dhStatus (drLogHash r) = ''complete'' \<Longrightarrow> 0 \<le> drLogBytes r"
  by (auto simp: checkRecord_def split: if_splits)

definition agree :: "bytes \<Rightarrow> bytes \<Rightarrow> int \<Rightarrow> bool" where
  "agree a b n \<longleftrightarrow> 0 \<le> n \<and> n \<le> int (length a) \<and> n \<le> int (length b) \<and> take (nat n) a = take (nat n) b"

lemma agree_extend:
  assumes "agree a b m" "m \<le> n" "range_of a m (n - m) = range_of b m (n - m)"
    "length (range_of a m (n - m)) = nat (n - m)" "length (range_of b m (n - m)) = nat (n - m)"
  shows "agree a b n"
proof -
  have m: "0 \<le> m" using assms(1) by (simp add: agree_def)
  then have n: "nat n = nat m + nat (n - m)" using assms(2) by linarith
  have bound: "n \<le> int (length x)" if "length (range_of x m (n - m)) = nat (n - m)" "m \<le> int (length x)" for x
    using that m assms(2) by (simp add: range_of_def)
  have "take (nat n) a = take (nat n) b"
    using assms(1,3) by (simp add: n take_add agree_def range_of_def)
  then show ?thesis using assms(1,2,4,5) m bound [of a] bound [of b] by (simp add: agree_def)
qed

definition hash_distinguishes :: "env \<Rightarrow> bytes \<Rightarrow> bytes \<Rightarrow> bool" where
  "hash_distinguishes C a b \<longleftrightarrow>
     (\<forall>s n. sha256 C (range_of a s n) = sha256 C (range_of b s n) \<longrightarrow> range_of a s n = range_of b s n)"

lemma rangeIssues_Nil:
  assumes "rangeIssues C io1 io2 path log r = []" "dhStatus (drLogHash r) = ''complete''"
  defines "start \<equiv> if drHashMode r = ''segment'' then drSegmentStart r else 0"
  shows "0 \<le> start \<and> start \<le> drLogBytes r \<and>
    hex_encode (sha256 C (range_of log start (drLogBytes r - start))) =
      (if drHashMode r = ''segment'' then drSegmentSHA256 r else dhSHA256 (drLogHash r)) \<and>
    length (range_of log start (drLogBytes r - start)) = nat (drLogBytes r - start)"
proof -
  have b: "0 \<le> start" "start \<le> drLogBytes r"
    and h: "dhStatus (hashRange C io1 path log start (drLogBytes r - start)) = ''complete''"
      "dhSHA256 (hashRange C io1 path log start (drLogBytes r - start)) =
        (if drHashMode r = ''segment'' then drSegmentSHA256 r else dhSHA256 (drLogHash r))"
    using assms(1,2) unfolding rangeIssues_def start_def Let_def by (auto split: if_splits)
  show ?thesis using hashRange_complete [OF h(1)] b h(2) by simp
qed

lemma record_binds:
  assumes "recordIssues C K dd (Some l1) name prev r = []" "recordIssues C K dd (Some l2) name prev r = []"
    and "checkRecord r = None" "drFormat r = format2" "hash_distinguishes C (rlBytes l1) (rlBytes l2)"
    and "\<And>sp. prev = Some sp \<Longrightarrow> drFormat (svRecord sp) = format2 \<Longrightarrow> agree (rlBytes l1) (rlBytes l2) (drLogBytes (svRecord sp))"
  shows "agree (rlBytes l1) (rlBytes l2) (drLogBytes r)"
proof -
  have c: "dhStatus (drLogHash r) = ''complete''" using assms(1) by (auto simp: recordIssues_def split: if_splits)
  have n: "0 \<le> drLogBytes r" by (rule checkRecord_complete [OF assms(3) c])
  define start where "start = (if drHashMode r = ''segment'' then drSegmentStart r else 0)"
  have r1: "rangeIssues C (rlLogIO l1 name) (rlTailIO l1 name) (rlPath l1) (rlBytes l1) r = []"
    and r2: "rangeIssues C (rlLogIO l2 name) (rlTailIO l2 name) (rlPath l2) (rlBytes l2) r = []"
    using assms(1,2) n by (auto simp: recordIssues_def)
  note v1 = rangeIssues_Nil [OF r1 c, folded start_def] and v2 = rangeIssues_Nil [OF r2 c, folded start_def]
  have "agree (rlBytes l1) (rlBytes l2) start"
  proof (cases "drHashMode r = ''segment''")
    case True
    then obtain sp where "prev = Some sp" "drFormat (svRecord sp) = format2" "drSegmentStart r = drLogBytes (svRecord sp)"
      using assms(1,4) by (auto simp: recordIssues_def segmentIssues_def Let_def split: option.splits if_splits)
    then show ?thesis using assms(6) True by (simp add: start_def)
  qed (simp add: start_def agree_def)
  then show ?thesis
  proof (rule agree_extend)
    show "range_of (rlBytes l1) start (drLogBytes r - start) = range_of (rlBytes l2) start (drLogBytes r - start)"
      using assms(5) v1 v2 unfolding hash_distinguishes_def by (metis hex_encode_inj)
  qed (use v1 v2 in auto)
qed

lemma walk_binds:
  assumes "walk C K dd (Some l1) prev names = []" "walk C K dd (Some l2) prev names = []"
    and "hash_distinguishes C (rlBytes l1) (rlBytes l2)"
    and "\<And>sp. prev = Some sp \<Longrightarrow> drFormat (svRecord sp) = format2 \<Longrightarrow> agree (rlBytes l1) (rlBytes l2) (drLogBytes (svRecord sp))"
    and "name \<in> set names" "loadRecord C K dd name = Inr s" "drFormat (svRecord s) = format2"
  shows "agree (rlBytes l1) (rlBytes l2) (drLogBytes (svRecord s))"
  using assms(1,2,4,5)
proof (induction names arbitrary: prev)
  case (Cons a names)
  obtain t where t: "loadRecord C K dd a = Inr t" using Cons.prems(1) by (auto split: sum.splits)
  have i: "recordIssues C K dd (Some l1) a prev (svRecord t) = []" "recordIssues C K dd (Some l2) a prev (svRecord t) = []"
    "walk C K dd (Some l1) (Some t) names = []" "walk C K dd (Some l2) (Some t) names = []"
    using Cons.prems(1,2) t by auto
  have b: "drFormat (svRecord t) = format2 \<Longrightarrow> agree (rlBytes l1) (rlBytes l2) (drLogBytes (svRecord t))"
    using record_binds [OF i(1,2) loadRecord_checked [OF t] _ assms(3) Cons.prems(3)] by blast
  show ?case
  proof (cases "name = a")
    case True
    then show ?thesis using b t assms(6,7) by simp
  next
    case False
    show ?thesis
    proof (rule Cons.IH [OF i(3,4)])
      show "agree (rlBytes l1) (rlBytes l2) (drLogBytes (svRecord sp))"
        if "Some t = Some sp" "drFormat (svRecord sp) = format2" for sp using b that by simp
    qed (use Cons.prems(4) False in simp)
  qed
qed simp

section \<open>Firing keeps a verified chain verified\<close>

fun last_loaded :: "env \<Rightarrow> death_codec \<Rightarrow> death_dir \<Rightarrow> saved_record option \<Rightarrow> string list \<Rightarrow> saved_record option" where
  "last_loaded C K dd prev [] = prev"
| "last_loaded C K dd prev (n # ns) =
     last_loaded C K dd (case loadRecord C K dd n of Inl _ \<Rightarrow> prev | Inr s \<Rightarrow> Some s) ns"

lemma walk_append:
  "walk C K dd l prev (xs @ ys) = walk C K dd l prev xs @ walk C K dd l (last_loaded C K dd prev xs) ys"
  by (induction xs arbitrary: prev) (auto split: sum.splits)

lemma last_loaded_append: "last_loaded C K dd prev (xs @ ys) = last_loaded C K dd (last_loaded C K dd prev xs) ys"
  by (induction xs arbitrary: prev) auto

lemma last_loaded_mem:
  "last_loaded C K dd prev ns = Some s \<Longrightarrow> prev = Some s \<or> (\<exists>n \<in> set ns. loadRecord C K dd n = Inr s)"
  by (induction ns arbitrary: prev) (fastforce split: sum.splits)+

lemma findPrevious_last:
  "\<forall>i. \<not> ex i \<Longrightarrow> fst (snd (findPrevious C K dd ex i (rev ns) sk)) = last_loaded C K dd None ns"
  by (induction ns arbitrary: i sk rule: rev_induct) (auto simp: last_loaded_append split: sum.splits)

lemma validDigest_hex [simp]: "length b = 32 \<Longrightarrow> validDigest (hex_encode b)"
  by (simp add: validDigest_def)

lemma path_base_plain: "p \<noteq> [] \<Longrightarrow> CHR ''/'' \<notin> set p \<Longrightarrow> path_base p = p"
proof -
  assume a: "p \<noteq> []" "CHR ''/'' \<notin> set p"
  have "dropWhile (\<lambda>c. c = CHR ''/'') (rev p) = rev p" using a by (cases "rev p") auto
  moreover have "takeWhile (\<lambda>c. c \<noteq> CHR ''/'') (rev p) = rev p" using a by auto
  ultimately show ?thesis using a by (simp add: path_base_def Let_def del: takeWhile_eq_all_conv)
qed

text \<open>Whether a previous record may be extended by a segment.\<close>

definition eligible :: "death_record \<Rightarrow> death_record \<Rightarrow> bool" where
  "eligible p r \<longleftrightarrow> dhStatus (drLogHash p) = ''complete'' \<and> drFormat p \<noteq> format1 \<and> validDigest (drTailSHA256 p) \<and>
     drMachineID p = drMachineID r \<and> drLogBytes p \<le> drLogBytes r"

lemma fallback_none:
  assumes "fallback C K dd io path log r prev = ([], ch)" "drLogShrank r = (0 \<le> drLogBytes (svRecord prev) \<and> drLogBytes r < drLogBytes (svRecord prev))"
    "checkRecord (svRecord prev) = None"
  shows "eligible (svRecord prev) r"
  using assms checkRecord_complete [OF assms(3)]
  by (auto simp: fallback_def eligible_def Let_def split: if_splits option.splits)

definition fresh_record :: "death_record \<Rightarrow> bool" where
  "fresh_record r \<longleftrightarrow> drSegmentStart r = 0 \<and> drSegmentSHA256 r = [] \<and> drChainSHA256 r = [] \<and> drPrevRecord r = None \<and>
     drFormat r = format2"

lemma choosePrevious_result:
  assumes "choosePrevious C K io dd path log r0 = (r1, found)" "fresh_record r0" "\<forall>i. \<not> fiHistory io i"
    and "recordNames dd = Inr ns"
  shows "found = last_loaded C K dd None ns"
    and "drPrevRecord r1 = map_option svReference found"
    and "drFormat r1 = format2" "drLogBytes r1 = drLogBytes r0" "drSegmentSHA256 r1 = []" "drChainSHA256 r1 = []"
    and "drHashMode r1 = ''full'' \<and> drSegmentStart r1 = 0 \<or>
      (\<exists>prev. found = Some prev \<and> drHashMode r1 = ''segment'' \<and> drSegmentStart r1 = drLogBytes (svRecord prev) \<and>
        (checkRecord (svRecord prev) = None \<longrightarrow> eligible (svRecord prev) r1))"
proof -
  obtain late fd sk where f: "findPrevious C K dd (fiHistory io) 0 (rev ns) [] = (late, fd, sk)" by (cases "findPrevious C K dd (fiHistory io) 0 (rev ns) []")
  have fd: "fd = last_loaded C K dd None ns" using findPrevious_last [OF assms(3), of C K dd 0 ns "[]"] f by simp
  note defs = choosePrevious_def Let_def assms(4) f fresh_record_def
  have "found = fd" and pr: "drPrevRecord r1 = map_option svReference fd"
    using assms(1,2) by (auto simp: defs split: option.splits if_splits prod.splits)
  then show "found = last_loaded C K dd None ns" "drPrevRecord r1 = map_option svReference found" using fd by simp_all
  show "drFormat r1 = format2" "drLogBytes r1 = drLogBytes r0" "drSegmentSHA256 r1 = []" "drChainSHA256 r1 = []"
    using assms(1,2) by (auto simp: defs split: option.splits if_splits prod.splits)
  show "drHashMode r1 = ''full'' \<and> drSegmentStart r1 = 0 \<or>
      (\<exists>prev. found = Some prev \<and> drHashMode r1 = ''segment'' \<and> drSegmentStart r1 = drLogBytes (svRecord prev) \<and>
        (checkRecord (svRecord prev) = None \<longrightarrow> eligible (svRecord prev) r1))"
  proof (cases fd)
    case None
    then show ?thesis using assms(1,2) by (auto simp: defs split: if_splits)
  next
    case (Some prev)
    define r2 where "r2 = r0\<lparr>drHashMode := ''full'', drSkippedRecords := sk,
      drFallbackReason := (if late then ''history_deadline'' else ''no_previous_record''),
      drPrevRecord := Some (svReference prev),
      drLogShrank := 0 \<le> drLogBytes (svRecord prev) \<and> drLogBytes r0 < drLogBytes (svRecord prev)\<rparr>"
    obtain reason ch where fb: "fallback C K dd (fiPrevTail io) path log r2 prev = (reason, ch)"
      by (cases "fallback C K dd (fiPrevTail io) path log r2 prev")
    have r1: "r1 = (let r3 = r2\<lparr>drFallbackReason := reason, drPrefixChanged := ch\<rparr>
        in if reason = [] then r3\<lparr>drHashMode := ''segment'', drSegmentStart := drLogBytes (svRecord prev)\<rparr> else r3)"
      "found = Some prev"
      using assms(1) Some fb by (auto simp: defs r2_def split: if_splits)
    have el: "eligible (svRecord prev) r2" if "reason = []" "checkRecord (svRecord prev) = None"
    proof (rule fallback_none)
      show "fallback C K dd (fiPrevTail io) path log r2 prev = ([], ch)" using fb that(1) by simp
    qed (simp_all add: r2_def that(2))
    show ?thesis
    proof (cases "reason = []")
      case True
      then show ?thesis using r1 el by (simp add: Let_def eligible_def)
    next
      case False
      then show ?thesis using r1 assms(2) by (simp add: Let_def r2_def fresh_record_def)
    qed
  qed
qed

definition good_fire :: "fire_io \<Rightarrow> bool" where
  "good_fire io \<longleftrightarrow> fiStat io = None \<and> (\<forall>i. \<not> fiHistory io i) \<and> good_hash (fiTail io) \<and> good_hash (fiLog io)"

definition tail_of :: "bytes \<Rightarrow> bytes" where
  "tail_of log = range_of log (tailStart (int (length log))) (int (length log) - tailStart (int (length log)))"

text \<open>The two shapes of a record that met no fault.\<close>

definition full_record :: "env \<Rightarrow> bytes \<Rightarrow> death_record \<Rightarrow> bool" where
  "full_record C log r \<longleftrightarrow> drHashMode r = ''full'' \<and> drSegmentStart r = 0 \<and> drSegmentSHA256 r = [] \<and> drChainSHA256 r = [] \<and>
     drLogHash r = complete_hash C log"

definition segment_record :: "env \<Rightarrow> bytes \<Rightarrow> death_record \<Rightarrow> death_record \<Rightarrow> bool" where
  "segment_record C log p r \<longleftrightarrow> drHashMode r = ''segment'' \<and> drSegmentStart r = drLogBytes p \<and> eligible p r \<and>
     drSegmentSHA256 r = hex_encode (sha256 C (range_of log (drLogBytes p) (int (length log) - drLogBytes p))) \<and>
     drChainSHA256 r = chainDigest C (anchor p) (drSegmentSHA256 r) (int (length log)) \<and>
     dhStatus (drLogHash r) = ''complete'' \<and> dhSHA256 (drLogHash r) = []"

definition sound_record :: "env \<Rightarrow> bytes \<Rightarrow> saved_record option \<Rightarrow> death_record \<Rightarrow> bool" where
  "sound_record C log prev r \<longleftrightarrow>
     drFormat r = format2 \<and> drLogBytes r = int (length log) \<and> drPrevRecord r = map_option svReference prev \<and>
     drTailHash r = complete_hash C (tail_of log) \<and> drTailSHA256 r = hex_encode (sha256 C (tail_of log)) \<and>
     (full_record C log r \<or> (\<exists>s. prev = Some s \<and> segment_record C log (svRecord s) r))"

lemma length_tail_of: "length (tail_of log) = nat (int (length log) - tailStart (int (length log)))"
  using length_range_of [of "tailStart (int (length log))" "int (length log)" log] tailStart_bounds [of "int (length log)"]
  by (simp add: tail_of_def)

lemma hashLog_good:
  assumes "good_fire io" "fresh_record r0" "drLogBytes r0 = int (length log)" "recordNames dd = Inr ns"
  shows "sound_record C log (last_loaded C K dd None ns) (hashLog C K io dd path log r0)"
proof -
  obtain r1 found where c: "choosePrevious C K io dd path log r0 = (r1, found)" by (cases "choosePrevious C K io dd path log r0")
  note g = assms(1) [unfolded good_fire_def]
  note f = choosePrevious_result [OF c assms(2) _ assms(4)]
  have f1: "found = last_loaded C K dd None ns" "drPrevRecord r1 = map_option svReference found"
    "drFormat r1 = format2" "drLogBytes r1 = int (length log)" "drSegmentSHA256 r1 = []" "drChainSHA256 r1 = []"
    using f g assms(3) by auto
  have ck: "checkRecord (svRecord prev) = None" if "found = Some prev" for prev
    using that f1(1) last_loaded_mem [of C K dd None ns prev] loadRecord_checked by auto
  have tl: "hashRange C (fiTail io) path log (tailStart (int (length log))) (int (length log) - tailStart (int (length log)))
      = complete_hash C (tail_of log)"
    using hashRange_good [of "fiTail io"] g length_tail_of [of log] tailStart_bounds [of "int (length log)"]
    by (simp add: tail_of_def)
  have full: "hashFile C (fiLog io) path log (int (length log)) = complete_hash C log"
    using hashRange_good [of "fiLog io" 0 "int (length log)" log] g by (simp add: hashFile_def range_of_def)
  consider "drHashMode r1 = ''full''" "drSegmentStart r1 = 0"
    | prev where "found = Some prev" "drHashMode r1 = ''segment''" "drSegmentStart r1 = drLogBytes (svRecord prev)"
        "eligible (svRecord prev) r1"
    using f(7) [OF conjunct1 [OF conjunct2 [OF g]]] ck by metis
  then have "sound_record C log found (hashLog C K io dd path log r0)"
  proof cases
    case 1
    then show ?thesis using f1(2-) tl full
      by (cases found) (simp_all add: hashLog_def c Let_def sound_record_def full_record_def)
  next
    case 2
    then have b: "0 \<le> drLogBytes (svRecord prev)" "drLogBytes (svRecord prev) \<le> int (length log)"
      using checkRecord_complete ck f1(4) by (auto simp: eligible_def)
    then have "hashRange C (fiLog io) path log (drLogBytes (svRecord prev)) (int (length log) - drLogBytes (svRecord prev))
        = complete_hash C (range_of log (drLogBytes (svRecord prev)) (int (length log) - drLogBytes (svRecord prev)))"
      using hashRange_good [of "fiLog io"] g length_range_of [OF b] by simp
    then show ?thesis using 2 f1(2-) tl b
      by (simp add: hashLog_def c Let_def sound_record_def segment_record_def eligible_def)
  qed
  then show ?thesis by (simp only: f1(1))
qed

lemma sound_record_tree_head [simp]: "sound_record C log prev (r\<lparr>drTreeHead := th\<rparr>) = sound_record C log prev r"
  by (simp add: sound_record_def full_record_def segment_record_def eligible_def)

lemma eligible_format2: "eligible p r \<Longrightarrow> checkRecord p = None \<Longrightarrow> drFormat p = format2 \<and> 0 \<le> drLogBytes p"
  by (auto simp: eligible_def checkRecord_def split: if_splits)

lemma format2_simps [simp]: "format2 \<noteq> format1" "format1 \<noteq> format2"
  by (simp_all add: format1_def format2_def)

lemmas sound_defs = sound_record_def full_record_def segment_record_def

lemma sound_shape:
  assumes "sound_record C log prev r"
  shows "drFormat r = format2" "drLogBytes r = int (length log)" "drPrevRecord r = map_option svReference prev"
    "dhStatus (drTailHash r) = ''complete''" "dhSHA256 (drTailHash r) = drTailSHA256 r"
    "drTailSHA256 r = hex_encode (sha256 C (tail_of log))" "dhStatus (drLogHash r) = ''complete''"
  using assms by (auto simp: sound_defs)

definition digest_ok :: "env \<Rightarrow> bool" where
  "digest_ok C \<longleftrightarrow> (\<forall>x. length (sha256 C x) = 32)"

lemma digest_simps:
  assumes "digest_ok C"
  shows "validDigest (hex_encode (sha256 C x))" "validDigest (chainDigest C a b n)" "sha256 C x \<noteq> []"
proof -
  have len: "length (sha256 C y) = 32" for y using assms by (simp add: digest_ok_def)
  show "validDigest (hex_encode (sha256 C x))" "validDigest (chainDigest C a b n)" by (simp_all add: chainDigest_def len)
  show "sha256 C x \<noteq> []" using len [of x] by auto
qed

definition prev_checked :: "saved_record option \<Rightarrow> bool" where
  "prev_checked prev \<longleftrightarrow> (\<forall>s. prev = Some s \<longrightarrow> checkRecord (svRecord s) = None)"

lemma sound_mode:
  assumes "sound_record C log prev r" "prev_checked prev"
  obtains (full) "full_record C log r"
    | (segment) s where "prev = Some s" "segment_record C log (svRecord s) r" "drFormat (svRecord s) = format2" "0 \<le> drLogBytes (svRecord s)"
proof -
  have "full_record C log r \<or> (\<exists>s. prev = Some s \<and> segment_record C log (svRecord s) r)"
    using assms(1) by (simp add: sound_record_def)
  then show ?thesis
    using full segment eligible_format2 assms(2) by (auto simp: segment_record_def prev_checked_def)
qed

lemma sound_checkRecord:
  assumes "sound_record C log prev r" "prev_checked prev" "digest_ok C"
  shows "checkRecord r = None"
  using assms(1,2)
proof (cases rule: sound_mode)
  case full
  then show ?thesis using sound_shape [OF assms(1)] digest_simps [OF assms(3)]
    by (simp add: checkRecord_def checkRecord2_def anchor_def full_record_def)
next
  case (segment s)
  then show ?thesis using sound_shape [OF assms(1)] digest_simps [OF assms(3)]
    by (simp add: checkRecord_def checkRecord2_def anchor_def segment_record_def eligible_def)
qed

lemma sound_segmentIssues:
  assumes "sound_record C log prev r" "prev_checked prev"
  shows "segmentIssues C prev r = []"
  using assms
proof (cases rule: sound_mode)
  case full
  then show ?thesis by (simp add: segmentIssues_def full_record_def)
next
  case (segment s)
  then show ?thesis using sound_shape [OF assms(1)]
    by (simp add: segmentIssues_def segment_record_def eligible_def)
qed

lemma sound_rangeIssues:
  assumes "sound_record C log prev r" "prev_checked prev" "good_hash io1" "good_hash io2"
  shows "rangeIssues C io1 io2 path log r = []"
proof -
  note shape = sound_shape [OF assms(1)]
  have t: "hashRange C io2 path log (tailStart (drLogBytes r)) (drLogBytes r - tailStart (drLogBytes r)) = complete_hash C (tail_of log)"
    using hashRange_good [OF assms(4)] length_tail_of [of log] tailStart_bounds [of "int (length log)"] shape(2)
    by (simp add: tail_of_def)
  show ?thesis using assms(1,2)
  proof (cases rule: sound_mode)
    case full
    have "hashRange C io1 path log 0 (drLogBytes r - 0) = complete_hash C log"
      using hashRange_good [OF assms(3), of 0 "int (length log)" log] shape(2) by (simp add: range_of_def)
    then show ?thesis using t full shape by (simp add: rangeIssues_def full_record_def)
  next
    case (segment s)
    then have b: "drLogBytes (svRecord s) \<le> int (length log)" using shape(2) by (simp add: segment_record_def eligible_def)
    have "hashRange C io1 path log (drSegmentStart r) (drLogBytes r - drSegmentStart r) =
        complete_hash C (range_of log (drLogBytes (svRecord s)) (int (length log) - drLogBytes (svRecord s)))"
      using hashRange_good [OF assms(3) segment(4)] length_range_of [OF segment(4) b] b shape(2) segment(2)
      by (simp add: segment_record_def)
    then show ?thesis using t segment b shape by (simp add: rangeIssues_def segment_record_def)
  qed
qed

lemma rangeIssues_extend:
  assumes "rangeIssues C io1 io2 path log r = []" "0 \<le> drLogBytes r" "good_hash io1'" "good_hash io2'"
  shows "rangeIssues C io1' io2' path' (log @ rest) r = []"
proof -
  have keep: "dhStatus (hashRange C io path log st n) = ''complete'' \<Longrightarrow> 0 \<le> n \<Longrightarrow> good_hash io' \<Longrightarrow>
      dhStatus (hashRange C io' path' (log @ rest) st n) = ''complete'' \<and>
      dhSHA256 (hashRange C io' path' (log @ rest) st n) = dhSHA256 (hashRange C io path log st n)" for io io' st n
    using hashRange_complete [of C io path log st n] hashRange_good [of io' st n "log @ rest" C path'] range_of_prefix [of log st n rest]
    by simp
  define ts where "ts = tailStart (drLogBytes r)"
  have "ts \<le> drLogBytes r" using tailStart_bounds [OF assms(2)] by (simp add: ts_def)
  then show ?thesis
    using assms(1,3,4) keep [of io1 _ _ io1'] keep [of io2 ts "drLogBytes r - ts" io2']
    by (auto simp: rangeIssues_def Let_def ts_def split: if_splits)
qed

section \<open>A directory with one more record\<close>

definition record_name :: "string \<Rightarrow> string" where
  "record_name sfx = ''death_'' @ sfx @ ''.json''"

definition add_record :: "string \<Rightarrow> bytes \<Rightarrow> death_dir \<Rightarrow> death_dir" where
  "add_record name data dd = dd\<lparr>ddFiles := ddFiles dd @ [(name, Inr data)]\<rparr>"

lemma is_record_name: "is_record (record_name sfx)"
proof -
  have "record_name sfx = (''death_'' @ sfx) @ ''.json''" by (simp add: record_name_def)
  then have "HasSuffix (record_name sfx) ''.json''" unfolding HasSuffix_iff by blast
  moreover have "HasPrefix (record_name sfx) ''death_''" unfolding record_name_def by (rule HasPrefix_append)
  ultimately show ?thesis by (simp add: is_record_def record_name_def)
qed

lemma sort_snoc: "\<forall>x \<in> set xs. x \<le> y \<Longrightarrow> sort (xs @ [y]) = sort xs @ [y :: 'a :: linorder]"
  by (rule properties_for_sort) (auto simp: sorted_append)

lemma recordNames_Inr: "recordNames dd = Inr ns \<longleftrightarrow> ddGlob dd = None \<and> ns = sort (filter is_record (map fst (ddFiles dd)))"
  by (auto simp: recordNames_def split: option.splits)

lemma recordNames_set: "recordNames dd = Inr ns \<Longrightarrow> n \<in> set ns \<longleftrightarrow> is_record n \<and> n \<in> fst ` set (ddFiles dd)"
  unfolding recordNames_Inr by (simp add: conj_commute)

lemma recordNames_add:
  assumes "recordNames dd = Inr ns" "\<forall>n \<in> set ns. n < record_name sfx"
  shows "recordNames (add_record (record_name sfx) data dd) = Inr (ns @ [record_name sfx])"
proof -
  have "set (filter is_record (map fst (ddFiles dd))) = set ns"
    using assms(1) by (simp add: recordNames_Inr)
  then have "\<forall>n \<in> set (filter is_record (map fst (ddFiles dd))). n \<le> record_name sfx"
    using assms(2) less_imp_le by blast
  from sort_snoc [OF this] show ?thesis using assms(1)
    by (simp add: recordNames_Inr add_record_def is_record_name)
qed

lemma record_name_fresh:
  assumes "recordNames dd = Inr ns" "\<forall>n \<in> set ns. n < record_name sfx"
  shows "map_of (ddFiles dd) (record_name sfx) = None"
proof (rule ccontr)
  assume "map_of (ddFiles dd) (record_name sfx) \<noteq> None"
  then have "record_name sfx \<in> fst ` set (ddFiles dd)" by (simp add: map_of_eq_None_iff)
  then have "record_name sfx \<in> set ns"
    using is_record_name [of sfx] by (simp add: recordNames_set [OF assms(1)])
  then show False using assms(2) by fast
qed

lemma loadRecord_add: "n \<noteq> name \<Longrightarrow> loadRecord C K (add_record name data dd) n = loadRecord C K dd n"
  by (simp add: loadRecord_def add_record_def map_add_def split: option.split)

lemma loadRecord_new:
  assumes "map_of (ddFiles dd) name = None" "length data \<le> maxRecord" "dc_unmarshal K data = Inr r" "checkRecord r = None"
  shows "loadRecord C K (add_record name data dd) name =
    Inr \<lparr>svRecord = r, svReference = \<lparr>rfName = name, rfSHA256 = hex_encode (sha256 C data)\<rparr>\<rparr>"
  using assms by (simp add: loadRecord_def add_record_def map_add_def)

lemma checkLink_add:
  assumes "checkLink C K dd cur ref = None" "recordNames dd = Inr ns" "\<forall>n \<in> set ns. n < record_name sfx"
  shows "checkLink C K (add_record (record_name sfx) data dd) cur ref = None"
proof -
  have "rfName ref \<in> set ns" using assms(1,2) by (auto simp: checkLink_def split: if_splits)
  then have "rfName ref \<noteq> record_name sfx" using assms(3) by fastforce
  then show ?thesis
    using assms(1,2) loadRecord_add [of "rfName ref"] recordNames_add [OF assms(2,3)]
    by (auto simp: checkLink_def split: if_splits sum.splits)
qed

lemma last_loaded_add:
  "name \<notin> set xs \<Longrightarrow> last_loaded C K (add_record name data dd) prev xs = last_loaded C K dd prev xs"
  by (induction xs arbitrary: prev) (auto simp: loadRecord_add)

definition good_log :: "retained_log \<Rightarrow> bool" where
  "good_log l \<longleftrightarrow> (\<forall>n. good_hash (rlLogIO l n) \<and> good_hash (rlTailIO l n))"

lemma recordIssues_longer:
  assumes "recordIssues C K dd (Some l) n prev r = []" "checkRecord r = None"
    and "good_log l'" "rlBytes l' = rlBytes l @ rest"
  shows "recordIssues C K dd (Some l') n prev r = []"
proof -
  have c: "dhStatus (drLogHash r) = ''complete''" using assms(1) by (auto simp: recordIssues_def split: if_splits)
  then have b: "0 \<le> drLogBytes r" using checkRecord_complete assms(2) by blast
  have "rangeIssues C (rlLogIO l' n) (rlTailIO l' n) (rlPath l') (rlBytes l') r = []"
    using assms(1,3,4) b rangeIssues_extend [of C "rlLogIO l n" "rlTailIO l n" "rlPath l" "rlBytes l" r "rlLogIO l' n" "rlTailIO l' n" "rlPath l'" rest]
    by (simp add: recordIssues_def good_log_def)
  then show ?thesis using assms(1) c b by (auto simp: recordIssues_def split: if_splits)
qed

lemma walk_longer:
  assumes "walk C K dd (Some l) prev xs = []" "good_log l'" "rlBytes l' = rlBytes l @ rest"
  shows "walk C K dd (Some l') prev xs = []"
  using assms(1)
proof (induction xs arbitrary: prev)
  case (Cons x xs)
  then show ?case
    using recordIssues_longer [OF _ _ assms(2,3)] loadRecord_checked by (auto split: sum.splits)
qed simp

lemma recordIssues_add:
  assumes "recordIssues C K dd l n prev r = []" "recordNames dd = Inr ns" "\<forall>n \<in> set ns. n < record_name sfx"
  shows "recordIssues C K (add_record (record_name sfx) data dd) l n prev r = []"
proof -
  have "linkIssues C K (add_record (record_name sfx) data dd) n prev r = []" if "linkIssues C K dd n prev r = []"
    using that checkLink_add [OF _ assms(2,3)] by (auto simp: linkIssues_def split: option.splits if_splits)
  then show ?thesis using assms(1) by (auto simp: recordIssues_def split: if_splits)
qed

lemma walk_add:
  assumes "walk C K dd l prev xs = []" "set xs \<subseteq> set ns"
    and "recordNames dd = Inr ns" "\<forall>n \<in> set ns. n < record_name sfx"
  shows "walk C K (add_record (record_name sfx) data dd) l prev xs = []"
  using assms(1,2)
proof (induction xs arbitrary: prev)
  case (Cons x xs)
  have "x \<noteq> record_name sfx" using Cons.prems(2) assms(4) by auto
  then have "loadRecord C K (add_record (record_name sfx) data dd) x = loadRecord C K dd x" using loadRecord_add by metis
  then show ?case using Cons recordIssues_add [OF _ assms(3,4)] by (auto split: sum.splits)
qed simp

definition dir_wf :: "death_dir \<Rightarrow> bool" where
  "dir_wf dd \<longleftrightarrow> ddGlob dd = None \<and> (\<forall>n \<in> fst ` set (ddFiles dd). CHR ''/'' \<notin> set n)"

text \<open>The directory has no record yet, or its records verify against the log.\<close>

definition chain_verified :: "env \<Rightarrow> death_codec \<Rightarrow> death_dir \<Rightarrow> bytes \<Rightarrow> bool" where
  "chain_verified C K dd log \<longleftrightarrow>
     recordNames dd = Inr [] \<or> (\<exists>l. rlBytes l = log \<and> death_Verify C K dd (Some l) = None)"

lemma chain_verified_walk:
  assumes "chain_verified C K dd log" "recordNames dd = Inr ns"
  obtains l where "rlBytes l = log" "walk C K dd (Some l) None ns = []"
proof (cases "ns = []")
  case True
  then show ?thesis using that [of "\<lparr>rlPath = [], rlBytes = log, rlLogIO = undefined, rlTailIO = undefined\<rparr>"] by simp
next
  case False
  then show ?thesis using assms that
    by (auto simp: chain_verified_def death_Verify_def Let_def split: if_splits)
qed

lemma fireRecord_sound:
  assumes "good_fire io" "recordNames dd = Inr ns"
  shows "sound_record C log (last_loaded C K dd None ns) (fireRecord C K io dd mid trigger gen log)"
  using assms hashLog_good [OF assms(1) _ _ assms(2)]
  by (auto simp: fireRecord_def Let_def good_fire_def fresh_record_def newRecord_def split: sum.splits)

lemma new_record_links:
  assumes "last_loaded C K dd None ns = Some s" "recordNames dd = Inr ns" "dir_wf dd" "digest_ok C"
    and "\<forall>n \<in> set ns. n < record_name sfx"
  shows "checkLink C K (add_record (record_name sfx) data dd) (record_name sfx) (svReference s) = None"
proof -
  obtain n where n: "n \<in> set ns" "loadRecord C K dd n = Inr s" using last_loaded_mem [OF assms(1)] by blast
  have lt: "n < record_name sfx" using n(1) assms(5) by blast
  have nm: "rfName (svReference s) = n" by (rule loadRecord_name [OF n(2)])
  have "is_record n" "n \<in> fst ` set (ddFiles dd)" using n(1) recordNames_set [OF assms(2)] by auto
  then have pb: "path_base n = n" using assms(3) by (intro path_base_plain) (auto simp: dir_wf_def is_record_def)
  have dg: "validDigest (rfSHA256 (svReference s))"
    using n(2) digest_simps(1) [OF assms(4)] by (auto simp: loadRecord_def Let_def split: option.splits sum.splits if_splits)
  have "n \<noteq> record_name sfx" using lt by blast
  then have "loadRecord C K (add_record (record_name sfx) data dd) n = Inr s" using n(2) loadRecord_add by metis
  then show ?thesis
    using nm pb dg lt n(1) recordNames_add [OF assms(2,5)] by (simp add: checkLink_def)
qed

lemma fire_chain_step:
  assumes "digest_ok C" "dir_wf dd" "chain_verified C K dd log" "good_fire io"
    and "recordNames dd = Inr ns" "\<forall>n \<in> set ns. n < record_name sfx"
    and "dc_marshal K (fireRecord C K io dd mid trigger gen (log @ new)) = Some data" "length data < maxRecord"
    and "dc_unmarshal K (data @ [10]) = Inr ((fireRecord C K io dd mid trigger gen (log @ new))\<lparr>drTreeHead := th\<rparr>)"
    and "good_log l" "rlBytes l = log @ new"
  shows "fire C K io None sfx dd mid trigger gen (log @ new) = (None, add_record (record_name sfx) (data @ [10]) dd)"
    and "death_Verify C K (add_record (record_name sfx) (data @ [10]) dd) (Some l) = None"
proof -
  define r where "r = (fireRecord C K io dd mid trigger gen (log @ new))\<lparr>drTreeHead := th\<rparr>"
  define lp where "lp = last_loaded C K dd None ns"
  define dd' where "dd' = add_record (record_name sfx) (data @ [10]) dd"
  show "fire C K io None sfx dd mid trigger gen (log @ new) = (None, add_record (record_name sfx) (data @ [10]) dd)"
    using assms(7) by (simp add: fire_def atomicRecord_def add_record_def record_name_def)
  have sd: "sound_record C (log @ new) lp r"
    unfolding r_def lp_def sound_record_tree_head by (rule fireRecord_sound [OF assms(4,5)])
  have pc: "prev_checked lp"
    using last_loaded_mem [of C K dd None ns] loadRecord_checked by (fastforce simp: lp_def prev_checked_def)
  have "loadRecord C K dd' (record_name sfx) =
      Inr \<lparr>svRecord = r, svReference = \<lparr>rfName = record_name sfx, rfSHA256 = hex_encode (sha256 C (data @ [10]))\<rparr>\<rparr>"
    unfolding dd'_def
    using loadRecord_new [OF record_name_fresh [OF assms(5,6)], of "data @ [10]" K r] assms(8,9)
      sound_checkRecord [OF sd pc assms(1)] by (simp add: r_def)
  moreover have "recordIssues C K dd' (Some l) (record_name sfx) lp r = []"
  proof -
    have "linkIssues C K dd' (record_name sfx) lp r = []"
    proof (cases lp)
      case None
      then show ?thesis using sound_shape(3) [OF sd] by (simp add: linkIssues_def)
    next
      case (Some s)
      then show ?thesis
        using sound_shape(3) [OF sd] new_record_links [OF _ assms(5,2,1,6)] by (simp add: linkIssues_def lp_def dd'_def)
    qed
    then show ?thesis
      using sound_segmentIssues [OF sd pc] sound_rangeIssues [OF sd pc] sound_shape [OF sd] assms(10,11)
        digest_simps(1) [OF assms(1)] by (simp add: recordIssues_def good_log_def)
  qed
  moreover obtain l0 where l0: "rlBytes l0 = log" "walk C K dd (Some l0) None ns = []"
    using chain_verified_walk [OF assms(3,5)] by blast
  have "walk C K dd (Some l) None ns = []"
    using l0 walk_longer [OF l0(2) assms(10)] assms(11) by blast
  then have "walk C K dd' (Some l) None ns = []"
    unfolding dd'_def by (rule walk_add [OF _ _ assms(5,6)]) simp
  moreover have "last_loaded C K dd' None ns = lp"
    using last_loaded_add [of "record_name sfx" ns] assms(6) by (auto simp: dd'_def lp_def)
  ultimately have "walk C K dd' (Some l) None (ns @ [record_name sfx]) = []" by (simp add: walk_append)
  then show "death_Verify C K (add_record (record_name sfx) (data @ [10]) dd) (Some l) = None"
    using recordNames_add [OF assms(5,6)] by (simp add: death_Verify_def dd'_def)
qed

text \<open>
  Property C17. An undisturbed stop keeps the chain verifiable: if the records of the
  directory verify against the log, whatever faults and fallbacks they went through, and
  the log only grew since, then a \<open>fire\<close> that meets no fault writes its record under the new
  name, as a segment of the previous record or over the whole log, and \<open>Verify\<close> accepts all
  records, old and new, against the grown log.
\<close>

theorem fire_keeps_chain_verified:
  assumes "digest_ok C" "dir_wf dd" "chain_verified C K dd log" "good_fire io"
    and "recordNames dd = Inr ns" "\<forall>n \<in> set ns. n < record_name sfx" "CHR ''/'' \<notin> set sfx"
    and "dc_marshal K (fireRecord C K io dd mid trigger gen (log @ new)) = Some data" "length data < maxRecord"
    and "dc_unmarshal K (data @ [10]) = Inr ((fireRecord C K io dd mid trigger gen (log @ new))\<lparr>drTreeHead := th\<rparr>)"
    and "good_log l" "rlBytes l = log @ new"
  shows "\<exists>dd'. fire C K io None sfx dd mid trigger gen (log @ new) = (None, dd') \<and>
    recordNames dd' = Inr (ns @ [record_name sfx]) \<and> dir_wf dd' \<and> death_Verify C K dd' (Some l) = None"
proof (intro exI conjI)
  show "dir_wf (add_record (record_name sfx) (data @ [10]) dd)"
    using assms(2,7) by (auto simp: dir_wf_def add_record_def record_name_def)
qed (use fire_chain_step [OF assms(1-6,8-)] recordNames_add [OF assms(5,6)] in simp_all)

text \<open>
  Property C16. The records bind the log: if \<open>Verify\<close> accepts the same directory of records
  against two logs, then, unless SHA-256 maps two different ranges of them to one digest,
  the two logs agree on every byte that some record of the current format covers, and both
  are at least that long. A chain of segments covers the whole log up to its last record,
  although each record hashes only its own segment.
\<close>

theorem verified_records_bind_log:
  assumes "death_Verify C K dd (Some l1) = None" "death_Verify C K dd (Some l2) = None"
    and "hash_distinguishes C (rlBytes l1) (rlBytes l2)"
    and "recordNames dd = Inr names" "name \<in> set names" "loadRecord C K dd name = Inr s" "drFormat (svRecord s) = format2"
  shows "agree (rlBytes l1) (rlBytes l2) (drLogBytes (svRecord s))"
proof (rule walk_binds [OF _ _ assms(3) _ assms(5-7)])
  show "walk C K dd (Some l1) None names = []" "walk C K dd (Some l2) None names = []"
    using assms(1,2,4) by (auto simp: death_Verify_def Let_def split: if_splits)
qed simp

section \<open>Witnesses\<close>

definition sample_stream :: stream_io where
  "sample_stream = \<lparr>siChunk = (\<lambda>_. 1), siExpired = (\<lambda>_. False), siError = (\<lambda>_. None)\<rparr>"

definition sample_hash_io :: hash_io where
  "sample_hash_io = \<lparr>hiExpired = False, hiOpen = None, hiSeek = None, hiStream = sample_stream, hiLate = False, hiDone = False\<rparr>"

definition sample_fire :: fire_io where
  "sample_fire = \<lparr>fiTimestamp = ''t'', fiHead = Inr [1], fiStat = None, fiGenesisHash = sample_hash_io, fiHistory = (\<lambda>_. False),
     fiPrevTail = sample_hash_io, fiTail = sample_hash_io, fiLog = sample_hash_io\<rparr>"

definition sample_retained :: "bytes \<Rightarrow> retained_log" where
  "sample_retained log = \<lparr>rlPath = ''witness.log'', rlBytes = log, rlLogIO = (\<lambda>_. sample_hash_io), rlTailIO = (\<lambda>_. sample_hash_io)\<rparr>"

definition no_deaths :: death_dir where
  "no_deaths = \<lparr>ddGlob = None, ddFiles = []\<rparr>"

definition blank_codec :: death_codec where
  "blank_codec = \<lparr>dc_marshal = (\<lambda>r. Some [1]), dc_unmarshal = (\<lambda>_. Inl []), dc_valid = (\<lambda>_. True),
     dc_load_text = (\<lambda>_. []), dc_link_text = (\<lambda>_. [])\<rparr>"

definition sample_death :: death_record where
  "sample_death = fireRecord sample_env blank_codec sample_fire no_deaths ''m'' ''test'' [7] [1, 2]"

definition sample_death_codec :: death_codec where
  "sample_death_codec = blank_codec\<lparr>dc_unmarshal := (\<lambda>_. Inr sample_death)\<rparr>"

lemma sample_good [simp]: "good_hash sample_hash_io" "good_fire sample_fire" "good_log (sample_retained log)"
  by (simp_all add: good_hash_def good_fire_def good_log_def good_stream_def sample_hash_io_def sample_stream_def
      sample_fire_def sample_retained_def)

lemma sample_fire_simps [simp]: "fiStat sample_fire = None" "fiHead sample_fire = Inr [1]" "rlBytes (sample_retained log) = log"
  by (simp_all add: sample_fire_def sample_retained_def)

lemma sample_digest_ok: "digest_ok sample_env"
  by (simp add: digest_ok_def sample_env_def)

lemma no_deaths_names: "recordNames no_deaths = Inr []"
  by (simp add: recordNames_def no_deaths_def)

lemma sample_fired: "fireRecord sample_env sample_death_codec sample_fire no_deaths ''m'' ''test'' [7] [1, 2] = sample_death"
  by (simp add: sample_death_def fireRecord_def hashLog_def choosePrevious_def no_deaths_names newRecord_def
      sample_death_codec_def blank_codec_def)

lemma sample_fire_facts:
  "dir_wf no_deaths" "chain_verified sample_env sample_death_codec no_deaths []"
  "dc_marshal sample_death_codec r = Some [1]" "length [1 :: byte] < maxRecord"
  "dc_unmarshal sample_death_codec ([1] @ [10]) = Inr (sample_death\<lparr>drTreeHead := drTreeHead sample_death\<rparr>)"
  by (simp_all add: dir_wf_def no_deaths_def chain_verified_def recordNames_def sample_death_codec_def blank_codec_def maxRecord_def)

theorem fire_keeps_chain_verified_witness:
  "\<exists>dd'. fire sample_env sample_death_codec sample_fire None ''0'' no_deaths ''m'' ''test'' [7] [1, 2] = (None, dd') \<and>
    recordNames dd' = Inr [record_name ''0''] \<and> dir_wf dd' \<and>
    death_Verify sample_env sample_death_codec dd' (Some (sample_retained [1, 2])) = None"
  using fire_keeps_chain_verified [of sample_env no_deaths sample_death_codec "[]" sample_fire "[]" "''0''" "''m''" "''test''"
      "[7]" "[1, 2]" "[1]" "drTreeHead sample_death" "sample_retained [1, 2]"]
    sample_fire_facts sample_digest_ok no_deaths_names sample_fired
  by simp

definition one_death :: death_dir where
  "one_death = add_record (record_name ''0'') ([1] @ [10]) no_deaths"

lemma one_death_verified: "death_Verify sample_env sample_death_codec one_death (Some (sample_retained [1, 2])) = None"
  using fire_chain_step(2) [of sample_env no_deaths sample_death_codec "[]" sample_fire "[]" "''0''" "''m''" "''test''"
      "[7]" "[1, 2]" "[1]" "drTreeHead sample_death" "sample_retained [1, 2]"]
    sample_fire_facts sample_digest_ok no_deaths_names sample_fired
  by (simp add: one_death_def)

lemma one_death_names: "recordNames one_death = Inr [record_name ''0'']"
  using recordNames_add [OF no_deaths_names, of "''0''" "[1] @ [10]"] by (simp add: one_death_def)

lemma one_death_verified_longer: "death_Verify sample_env sample_death_codec one_death (Some (sample_retained [1, 2, 3])) = None"
proof -
  have "walk sample_env sample_death_codec one_death (Some (sample_retained [1, 2])) None [record_name ''0''] = []"
    using one_death_verified by (simp only: death_Verify_def one_death_names) (auto simp: Let_def split: if_splits)
  from walk_longer [OF this, of "sample_retained [1, 2, 3]" "[3]"]
  have "walk sample_env sample_death_codec one_death (Some (sample_retained [1, 2, 3])) None [record_name ''0''] = []"
    by simp
  then show ?thesis by (simp only: death_Verify_def one_death_names) (simp add: Let_def)
qed

lemma sample_distinguishes: "hash_distinguishes sample_env [1, 2] [1, 2, 3]"
proof -
  have nz: "0 \<notin> set x \<Longrightarrow> 0 \<notin> set y \<Longrightarrow> length x \<le> 32 \<Longrightarrow> length y \<le> 32 \<Longrightarrow> copy32 x = copy32 y \<Longrightarrow> x = y" for x y :: bytes
  proof -
    assume a: "0 \<notin> set x" "0 \<notin> set y" "length x \<le> 32" "length y \<le> 32" "copy32 x = copy32 y"
    have "takeWhile (\<lambda>b. b \<noteq> 0) (copy32 z) = z" if "0 \<notin> set z" "length z \<le> 32" for z :: bytes
    proof (cases "32 - length z")
      case 0
      then show ?thesis using that by (auto simp: copy32_def takeWhile_eq_all_conv)
    next
      case (Suc k)
      have "takeWhile (\<lambda>b. b \<noteq> 0) (z @ 0 # ys) = z" for ys using that by (induction z) auto
      then show ?thesis using Suc that by (simp add: copy32_def)
    qed
    then show "x = y" using a by metis
  qed
  have mem: "set (range_of z s n) \<subseteq> set z" for z s n
    using set_take_subset set_drop_subset unfolding range_of_def by fast
  have len: "length (range_of z s n) \<le> length z" for z s n by (simp add: range_of_def)
  show ?thesis unfolding hash_distinguishes_def
  proof (intro allI impI)
    fix s n
    assume h: "sha256 sample_env (range_of [1, 2] s n) = sha256 sample_env (range_of [1, 2, 3] s n)"
    have "0 \<notin> set [1 :: byte, 2]" "0 \<notin> set [1 :: byte, 2, 3]" by simp_all
    then have z: "0 \<notin> set (range_of [1, 2] s n)" "0 \<notin> set (range_of [1, 2, 3] s n)" using mem by blast+
    have l: "length (range_of [1, 2] s n) \<le> 32" "length (range_of [1, 2, 3] s n) \<le> 32"
      using len [of "[1, 2]" s n] len [of "[1, 2, 3]" s n] by simp_all
    have "copy32 (range_of [1, 2] s n) = copy32 (range_of [1, 2, 3] s n)" using h by (simp add: sample_env_def)
    from nz [OF z l this] show "range_of [1, 2] s n = range_of [1, 2, 3] s n" .
  qed
qed

theorem verified_records_bind_log_witness:
  "\<exists>s. loadRecord sample_env sample_death_codec one_death (record_name ''0'') = Inr s \<and>
    agree [1, 2] [1, 2, 3] (drLogBytes (svRecord s))"
proof -
  have "sound_record sample_env ([1, 2]) None sample_death"
    using fireRecord_sound [OF sample_good(2) no_deaths_names, of sample_env "[1, 2]" sample_death_codec "''m''" "''test''" "[7]"] sample_fired
    by simp
  then have "checkRecord sample_death = None" "drFormat sample_death = format2"
    using sound_checkRecord [OF _ _ sample_digest_ok] sound_shape(1) by (auto simp: prev_checked_def)
  moreover have "dc_unmarshal sample_death_codec ([1] @ [10]) = Inr sample_death" by (simp add: sample_death_codec_def)
  ultimately obtain s where s: "loadRecord sample_env sample_death_codec one_death (record_name ''0'') = Inr s" "drFormat (svRecord s) = format2"
    using loadRecord_new [of no_deaths "record_name ''0''" "[1] @ [10]" sample_death_codec sample_death sample_env]
    by (simp add: one_death_def no_deaths_def maxRecord_def)
  then show ?thesis
    using verified_records_bind_log [OF one_death_verified one_death_verified_longer _ one_death_names _ s] sample_distinguishes
    by simp
qed

end
