(* ===== verification/Commands.thy ===== *)
theory Commands
  imports Daemon Log_Export Death
begin

text \<open>
  The other commands of the witness (\<open>cmd/witness\<close>: \<open>init\<close>, \<open>status\<close>, \<open>verify\<close>, \<open>prove\<close>,
  \<open>export\<close>, \<open>verify-export\<close>, \<open>migrate\<close>) and the import of old logs (\<open>internal/migrate\<close>).
  Arguments, files, the machine and the clock are parameters; a command gives its outcome and
  the disk it leaves.
\<close>

section \<open>Verify and prove\<close>

text \<open>\<open>None\<close> is a non-zero exit. The result of \<open>verify\<close>: what is uncovered, the leaves, the root.\<close>

definition cmdVerify ::
  "env \<Rightarrow> (string \<Rightarrow> file_text) \<Rightarrow> string list \<Rightarrow> bytes \<Rightarrow> (nat \<Rightarrow> view) \<Rightarrow> (nat \<Rightarrow> view) \<Rightarrow> string \<Rightarrow> (uncovered \<times> u64 \<times> string) option" where
  "cmdVerify C files args key vs vs' now =
     (case parseVerifierPins files args of
        Inl _ \<Rightarrow> None
      | Inr (pins, rest) \<Rightarrow>
          if rest \<noteq> [] then None
          else case OpenPinned C vs key pins of
            Inl _ \<Rightarrow> None
          | Inr st \<Rightarrow>
              (case VerifyIntegrity C st empty_disk vs' of
                 Inl _ \<Rightarrow> None
               | Inr n \<Rightarrow> Some (stUncovered st, n, thRoot (Head C st now))))"

record prove_output =
  poTreeSize :: u64
  poTreeRoot :: string
  poLeafIndex :: u64
  poLeafHash :: string
  poProof :: merkle_proof
  poEntry :: entry

definition cmdProve ::
  "env \<Rightarrow> (string \<Rightarrow> file_text) \<Rightarrow> string list \<Rightarrow> bytes \<Rightarrow> (nat \<Rightarrow> view) \<Rightarrow> disk \<Rightarrow> string \<Rightarrow> prove_output option outcome" where
  "cmdProve C files args key vs d now =
     (case parseVerifierPins files args of
        Inl _ \<Rightarrow> Value None
      | Inr (pins, rest) \<Rightarrow>
          (case rest of
             [a] \<Rightarrow>
               (case ParseUint a of
                  None \<Rightarrow> Value None
                | Some index \<Rightarrow>
                    (case OpenPinned C vs key pins of
                       Inl _ \<Rightarrow> Value None
                     | Inr st \<Rightarrow>
                         (case InclusionProof C st d index of
                            Inl _ \<Rightarrow> Value None
                          | Inr (prf, e) \<Rightarrow>
                              (let head = Head C st now;
                                   root = copy32 (hex_partial (thRoot head));
                                   lh = leafHash C e
                               in map_outcome2 (\<lambda>r. case r of
                                      Some _ \<Rightarrow> None
                                    | None \<Rightarrow> Some \<lparr>poTreeSize = thSize head, poTreeRoot = thRoot head, poLeafIndex = index,
                                                    poLeafHash = hex_encode lh, poProof = prf, poEntry = e\<rparr>)
                                    (Verify (blake3 C) root lh prf)))))
           | _ \<Rightarrow> Value None))"

section \<open>Export and its verification\<close>

datatype export_arg_error = NeedsValue string | BadTime string | ExportUsage

text \<open>The arguments of \<open>witness export\<close>: the filter and the output file; \<open>parse\<close> is \<open>time.Parse\<close>.\<close>

fun exportArgs :: "(string \<Rightarrow> time option) \<Rightarrow> string list \<Rightarrow> export_filter \<Rightarrow> string \<Rightarrow> export_arg_error + (export_filter \<times> string)" where
  "exportArgs parse [] f out = Inr (f, out)"
| "exportArgs parse [a] f out =
     (if a \<in> {''--since'', ''--until'', ''--source'', ''--out''} then Inl (NeedsValue a) else Inl ExportUsage)"
| "exportArgs parse (a # v # rest) f out =
     (if a = ''--since'' then
        (case parse v of None \<Rightarrow> Inl (BadTime a) | Some t \<Rightarrow> exportArgs parse rest (f\<lparr>fSince := t\<rparr>) out)
      else if a = ''--until'' then
        (case parse v of None \<Rightarrow> Inl (BadTime a) | Some t \<Rightarrow> exportArgs parse rest (f\<lparr>fUntil := t\<rparr>) out)
      else if a = ''--source'' then exportArgs parse rest (f\<lparr>fSources := fSources f @ [v]\<rparr>) out
      else if a = ''--out'' then exportArgs parse rest f v
      else Inl ExportUsage)"

definition cmdExport ::
  "env \<Rightarrow> (string \<Rightarrow> file_text) \<Rightarrow> (string \<Rightarrow> time option) \<Rightarrow> string list \<Rightarrow> bytes \<Rightarrow> (nat \<Rightarrow> view) \<Rightarrow> (export \<times> string) option" where
  "cmdExport C files parse args key vs =
     (case parseVerifierPins files args of
        Inl _ \<Rightarrow> None
      | Inr (pins, rest) \<Rightarrow>
          (case exportArgs parse rest \<lparr>fSince = zero_time, fUntil = zero_time, fSources = []\<rparr> [] of
             Inl _ \<Rightarrow> None
           | Inr (f, out) \<Rightarrow>
               (case ExportDir C vs key f of
                  Inl _ \<Rightarrow> None
                | Inr x \<Rightarrow>
                    if 0 < length pins \<and> (case VerifyExport C x pins [] of Inl _ \<Rightarrow> True | Inr _ \<Rightarrow> False) then None
                    else Some (x, out))))"

text \<open>The arguments of \<open>witness verify-export\<close>: \<open>heads\<close> gives the parsed prior heads.\<close>

fun verifyExportArgs :: "(string \<Rightarrow> tree_head option) \<Rightarrow> string list \<Rightarrow> string \<Rightarrow> tree_head list \<Rightarrow> (string \<times> tree_head list) option" where
  "verifyExportArgs heads [] xfile priors = Some (xfile, priors)"
| "verifyExportArgs heads (a # rest) xfile priors =
     (if a = ''--prior'' \<and> rest \<noteq> [] then
        (case rest of
           v # rest' \<Rightarrow> (case heads v of None \<Rightarrow> None | Some h \<Rightarrow> verifyExportArgs heads rest' xfile (priors @ [h]))
         | [] \<Rightarrow> None)
      else if xfile = [] \<and> a \<noteq> [] \<and> hd a \<noteq> CHR ''-'' then verifyExportArgs heads rest a priors
      else None)"

definition cmdVerifyExport ::
  "env \<Rightarrow> (string \<Rightarrow> file_text) \<Rightarrow> (string \<Rightarrow> tree_head option) \<Rightarrow> (string \<Rightarrow> export option) \<Rightarrow> string list \<Rightarrow> verify_result option" where
  "cmdVerifyExport C files heads exports args =
     (case parseVerifierPins files args of
        Inl _ \<Rightarrow> None
      | Inr (pins, rest) \<Rightarrow>
          (case verifyExportArgs heads rest [] [] of
             None \<Rightarrow> None
           | Some (xfile, priors) \<Rightarrow>
               if xfile = [] then None
               else case exports xfile of
                 None \<Rightarrow> None
               | Some x \<Rightarrow> (case VerifyExport C x pins priors of Inl _ \<Rightarrow> None | Inr r \<Rightarrow> Some r)))"

section \<open>Status\<close>

datatype genesis_status = GUnknown | GClean | GCompromised nat

record status_report =
  srGenesis :: genesis_status
  srEntries :: nat
  srDrift :: nat
  srSize :: u64
  srRoot :: string
  srPrevRoot :: string
  srIntegrity :: "store_error option"
  srLast :: "entry option"

definition genesisStatus :: "env \<Rightarrow> (bytes \<Rightarrow> snapshot option) \<Rightarrow> bytes \<Rightarrow> bytes \<Rightarrow> genesis_status" where
  "genesisStatus C load key enc =
     (if enc = [] then GUnknown
      else case encrypt_Open C enc key of
        None \<Rightarrow> GUnknown
      | Some plain \<Rightarrow>
          (case load plain of
             None \<Rightarrow> GUnknown
           | Some snap \<Rightarrow> if Clean snap then GClean else GCompromised (length (snAgents snap))))"

text \<open>\<open>cmdStatus\<close> opens the log for writing, with no signer; \<open>enc\<close> is the genesis file, empty if unreadable.\<close>

definition cmdStatus ::
  "env \<Rightarrow> (bytes \<Rightarrow> snapshot option) \<Rightarrow> bytes \<Rightarrow> bytes \<Rightarrow> string \<Rightarrow> open_io \<Rightarrow> disk \<Rightarrow> status_report option \<times> disk" where
  "cmdStatus C load key enc now io d =
     (case ReadAll C d key of
        Inl _ \<Rightarrow> (None, d)
      | Inr entries \<Rightarrow>
          (let r = \<lparr>srGenesis = genesisStatus C load key enc, srEntries = length entries,
                    srDrift = length (filter (\<lambda>e. eLevel e = ''DRIFT'') entries), srSize = 0, srRoot = [], srPrevRoot = [],
                    srIntegrity = None, srLast = (if entries = [] then None else Some (last entries))\<rparr>
           in case Open C d key None io of
                (Inl err, d') \<Rightarrow> (Some (r\<lparr>srIntegrity := Some err\<rparr>), d')
              | (Inr st, d') \<Rightarrow>
                  (let head = Head C st now
                   in (Some (r\<lparr>srSize := thSize head, srRoot := thRoot head, srPrevRoot := thPrevRoot head\<rparr>), d'))))"

section \<open>Init\<close>

text \<open>
  \<open>cmdInit\<close> on a machine: the agents found need a confirmation, the snapshot is sealed and
  written (\<open>indented\<close> is the text of \<open>Bytes\<close>, \<open>marshal\<close> the one that is hashed), and the genesis
  record is appended without a signer. The result holds the genesis file written.
\<close>

record init_io =
  iiConfirm :: string
  iiNow :: time
  iiNonce :: "bytes option"
  iiMkdir :: bool
  iiWrite :: bool
  iiOpen :: open_io
  iiAppend :: append_io

datatype init_outcome = InitFatal | InitDeclined | InitDone snapshot bytes

definition cmdInit ::
  "env \<Rightarrow> (snapshot \<Rightarrow> bytes) \<Rightarrow> (snapshot \<Rightarrow> bytes) \<Rightarrow> (snapshot \<Rightarrow> string \<Rightarrow> bytes) \<Rightarrow> bool \<Rightarrow> string \<Rightarrow> bytes \<Rightarrow> machine \<Rightarrow> init_io \<Rightarrow> disk \<Rightarrow>
   init_outcome \<times> disk" where
  "cmdInit C marshal indented genesis_data soulLoads mid key m io d =
     (if \<not> soulLoads then (InitFatal, d)
      else let agents = ScanForAgents m in
        if 0 < length agents \<and> lower_scheme (TrimSpace (iiConfirm io)) \<noteq> ''y'' then (InitDeclined, d)
        else let snap = Take C marshal m (iiNow io) mid agents in
          if \<not> snapshot_Verify C marshal snap then (InitFatal, d)
          else case encrypt_Seal C (iiNonce io) (indented snap) key of
            None \<Rightarrow> (InitFatal, d)
          | Some enc \<Rightarrow>
              if \<not> iiMkdir io \<or> \<not> iiWrite io then (InitFatal, d)
              else (case Open C d key None (iiOpen io) of
                 (Inl _, d') \<Rightarrow> (InitFatal, d')
               | (Inr st, d') \<Rightarrow>
                   (let status = (if Clean snap then ''CLEAN'' else ''COMPROMISED'');
                        c = witness_call ''SYSTEM'' ''genesis'' ''witness-init'' (Some (genesis_data snap status)) (iiAppend io)
                    in case append_call C (st, d') c of
                         (Some _, _, d'') \<Rightarrow> (InitFatal, d'')
                       | (None, _, d'') \<Rightarrow> (InitDone snap enc, d''))))"

text \<open>The genesis file \<open>init\<close> writes is the one \<open>start\<close> accepts, agents present or not.\<close>

lemma init_then_start:
  assumes "env_ok C" "\<And>n. iiNonce io = Some n \<Longrightarrow> length n = NonceSize" "\<And>sn. load (indented sn) = Some sn"
    and "cmdInit C marshal indented genesis_data soulLoads mid key m io d = (InitDone snap enc, d')"
  shows "loadGenesis C load marshal key (Some enc) = Some snap"
proof -
  have *: "snapshot_Verify C marshal snap" "encrypt_Seal C (iiNonce io) (indented snap) key = Some enc"
    using assms(4) by (auto simp: cmdInit_def Let_def split: if_splits option.splits prod.splits sum.splits)
  then obtain n where n: "iiNonce io = Some n" by (auto simp: encrypt_Seal_def split: if_splits option.splits)
  have "encrypt_Open C enc key = Some (indented snap)"
    using seal_open [OF assms(1) assms(2) [OF n]] *(2) n by simp
  then show ?thesis using *(1) assms(3) by (simp add: loadGenesis_def)
qed

section \<open>Status beside a running daemon\<close>

text \<open>
  The two writes of one \<open>Append\<close>, with a moment between them: first the record goes to the log
  file, then the new head replaces the head file.
\<close>

definition append_record :: "env \<Rightarrow> store \<times> disk \<Rightarrow> append_call \<Rightarrow> disk option" where
  "append_record C sd c =
     (case marshal_entry C (call_entry sd c) of
        None \<Rightarrow> None
      | Some plain \<Rightarrow>
          map_option (\<lambda>b. write_log (snd sd) (frame b)) (encrypt_Seal C (aiNonce (acIO c)) plain (stKey (fst sd))))"

definition append_head :: "env \<Rightarrow> store \<times> disk \<Rightarrow> append_call \<Rightarrow> disk \<Rightarrow> store_error option \<times> disk" where
  "append_head C sd c d =
     writeTreeHead C d (stKey (fst sd)) (stSigner (fst sd)) (stLeaves (fst sd) @ [leafHash C (call_entry sd c)])
       (aiNowText (acIO c)) (aiHead (acIO c))"

lemma append_two_writes:
  assumes "append_ok C sd c"
  shows "\<exists>d1. append_record C sd c = Some d1 \<and> append_head C sd c d1 = (None, snd (append_step C sd c))"
proof -
  obtain st d where sd: "sd = (st, d)" by (cases sd)
  obtain st' d' where a: "append_call C (st, d) c = (None, st', d')"
    using assms by (cases "append_call C (st, d) c") (auto simp: append_ok_def sd)
  obtain e plain b h where *:
    "e = newEntry (stSeq st + 1) (aiNow (acIO c)) (acLevel c) (acEvent c) (acSource c) (Option.bind (acData c) id)"
    "marshal_entry C e = Some plain" "encrypt_Seal C (aiNonce (acIO c)) plain (stKey st) = Some b"
    using a unfolding append_call_def fst_conv snd_conv by (rule Append_success)
  then have d1: "append_record C sd c = Some (write_log d (frame b))" by (simp add: append_record_def sd call_entry_def)
  have "append_head C sd c (write_log d (frame b)) = (None, d')"
    using a * by (auto simp: append_call_def Append_def append_head_def sd call_entry_def Let_def
        split: if_splits option.splits prod.splits)
  then show ?thesis using d1 a by (simp add: append_step_def sd)
qed

lemma checkSignature_unsigned:
  "checkSignature C head s trusted [] leaves = None \<Longrightarrow> checkSignature C head None [] [] leaves = None"
  by (auto simp: checkSignature_def split: option.splits if_splits)

lemma checkTreeHead_unsigned:
  assumes "checkTreeHead C head key s trusted [] leaves = None"
  shows "checkTreeHead C head key None [] [] leaves = None"
proof -
  define P where "P = checkSignature C head s trusted [] leaves"
  define Q where "Q = checkSignature C head None [] [] leaves"
  have PQ: "P = None \<Longrightarrow> Q = None" using checkSignature_unsigned unfolding P_def Q_def by blast
  show ?thesis
    using assms PQ unfolding checkTreeHead_def Let_def P_def [symmetric] Q_def [symmetric] by (auto split: option.splits if_splits)
qed

lemma verifyTreeHead_unsigned:
  "verifyTreeHead C f key s trusted [] leaves = None \<Longrightarrow> verifyTreeHead C f key None [] [] leaves = None"
  using checkTreeHead_unsigned by (auto simp: verifyTreeHead_def split: fcontent.splits option.splits if_splits)

text \<open>Between the two writes the disk is one that a start would recover by moving the record aside.\<close>

lemma between_writes_recoverable:
  assumes "env_ok C" "signers_ok C st" "opened_as C key s trusted st d es" "es \<noteq> []" "length es < 2 ^ 63"
    and "append_ok C (st, d) c" "append_record C (st, d) c = Some d1"
  shows "recoverable C key None [] d1 es \<and> head_file d1 = head_file d"
proof -
  obtain bs where si: "store_inv C st d bs es" and f: "stKey st = key" "stSigner st = s" "stTrusted st = trusted"
    using assms(3) by (auto simp: opened_as_def)
  obtain b where si': "store_inv C (fst (append_step C (st, d) c)) (snd (append_step C (st, d) c)) (bs @ [b]) (es @ [call_entry (st, d) c])"
    using append_call_inv [OF assms(1,2) si assms(6)] by blast
  have h: "append_head C (st, d) c d1 = (None, snd (append_step C (st, d) c))"
    using append_two_writes [OF assms(6)] assms(7) by auto
  then obtain hd1 where "d1\<lparr>head_file := hd1\<rparr> = snd (append_step C (st, d) c)"
    by (auto simp: append_head_def writeTreeHead_def split: option.splits head_write.splits)
  then have "snd (append_step C (st, d) c) = d1\<lparr>head_file := hd1\<rparr>" by simp
  then have same: "log_file (snd (append_step C (st, d) c)) = log_file d1" by simp
  have key': "stKey (fst (append_step C (st, d) c)) = key"
    using Append_keeps f(1) unfolding append_step_def append_call_def by (metis fst_conv prod.collapse)
  have holds: "log_holds C key (log_file d1) (bs @ [b]) (es @ [call_entry (st, d) c])"
    using si' same key' by (simp add: store_inv_def)
  then have log: "log_file d1 = Content (frames_of bs @ frame b)" "list_all2 (decodes C key) bs es" "decodes C key b (call_entry (st, d) c)"
    using log_holds_lengths [OF holds] by (auto simp: log_holds_def list_all2_append)
  have hf: "head_file d1 = head_file d"
    using assms(7) by (auto simp: append_record_def write_log_def split: option.splits)
  have "verifyTreeHead C (head_file d1) key None [] [] (map (leafHash C) es) = None"
    by (rule verifyTreeHead_unsigned [of _ _ _ s trusted]) (use si f hf in \<open>auto simp: store_inv_def\<close>)
  then show ?thesis using log assms(4,5) hf by (auto simp: recoverable_def leftover_def)
qed

lemma head_ahead_refused:
  assumes "log_holds C key (log_file d) bs es" "es \<noteq> []" "Suc (length es) < 2 ^ 63"
    and "readStoredHead C (head_file d) = Inr h" "thSize h = word_of_nat (Suc (length es))"
  shows "\<exists>err d'. openStore C d key s trusted [] io = (Inl err, d')"
proof -
  have un: "unat (word_of_nat (length es) :: u64) = length es" "unat (word_of_nat (Suc (length es)) :: u64) = Suc (length es)"
    using assms(3) unat_word64 [of "length es"] unat_word64 [of "Suc (length es)"] by simp_all
  have cc: "committed_count C (head_file d) (length es) = length es"
  proof -
    have "thSize h + 1 = word_of_nat (Suc (Suc (length es)))" using assms(5) by simp
    then have "unat (thSize h + 1) = Suc (Suc (length es))"
      using unat_word64 [of "Suc (Suc (length es))"] assms(3) by (simp del: of_nat_Suc)
    then have "thSize h + 1 \<noteq> word_of_nat (length es)" using un(1) by auto
    then show ?thesis using assms(4) by (simp add: committed_count_def)
  qed
  have "thSize h \<noteq> word_of_nat (length es)" using assms(5) un by (metis n_not_Suc_n)
  then have "\<exists>e. verifyTreeHead C (head_file d) key s trusted [] (map (leafHash C) es) = Some e"
    using assms(4) by (auto simp: verifyTreeHead_def readStoredHead_def checkTreeHead_def Let_def
        split: fcontent.splits option.splits if_splits)
  then show ?thesis
    using readLog_holds [OF assms(1)] cc assms(2) by (auto simp: openStore_def)
qed

text \<open>
  Property C14. Asking for the status can destroy a record and the log with it. \<open>status\<close> opens
  the log like a starting daemon, recovery included. If it runs between the two writes of an
  append, it takes the new record for a crash tail and moves it out of the log; the append
  then writes the head that covers the record and returns without error. The record is gone
  from the log, and the log does not open any more, whatever the system calls do.
\<close>

theorem status_breaks_running_log:
  assumes "env_ok C" "signer_opt_ok C s" "log_reachable C key s trusted (es, Up st d)" "es \<noteq> []" "Suc (length es) < 2 ^ 63"
    and "append_ok C (st, d) c" "append_record C (st, d) c = Some d1"
    and "good_open io" "cmdStatus C load key enc now io d1 = (r, d2)"
  shows "\<exists>d3. append_head C (st, d) c d2 = (None, d3) \<and> ReadAll C d3 key = Inr es \<and>
     (\<forall>io'. \<exists>err d4. OpenTrusting C d3 key s trusted io' = (Inl err, d4))"
proof -
  have op: "opened_as C key s trusted st d es"
    using reachable_inv [OF assms(1) signer_opt_okD [OF assms(2)] assms(3)] by simp
  then have sok: "signers_ok C st" using assms(2) by (auto simp: opened_as_def signers_ok_def signer_opt_ok_def)
  have len: "length (stLeaves st) = length es" using op by (auto simp: opened_as_def store_inv_def)
  have rec: "recoverable C key None [] d1 es" "head_file d1 = head_file d"
    using between_writes_recoverable [OF assms(1) sok op assms(4) _ assms(6,7)] assms(5) by simp_all
  obtain st2 d2' where o2: "openStore C d1 key None [] [] io = (Inr st2, d2')" "opened_as C key None [] st2 d2' es"
    using openStore_recovers [OF rec(1) assms(8)] by blast
  obtain x where "ReadAll C d1 key = Inr x"
    using o2(1) by (cases "readLog C (log_file d1) key") (auto simp: openStore_def ReadAll_def split: if_splits prod.splits)
  then have "d2' = d2" using assms(9) o2(1) by (simp add: cmdStatus_def Open_def OpenTrusting_def Let_def)
  then obtain bs where d2: "log_holds C key (log_file d2) bs es"
    using o2(2) by (auto simp: opened_as_def store_inv_def)
  have hf: "head_file d2 = head_file d1"
    using o2(1) openStore_plan run_plan_head \<open>d2' = d2\<close> by (metis prod.inject)
  define L where "L = stLeaves st @ [leafHash C (call_entry (st, d) c)]"
  obtain h where h: "signHead C (stSigner st) L (newHead C (head_file d1) (stKey st) L (aiNowText (acIO c))) = Some h"
      "aiHead (acIO c) = HeadWritten"
    using append_two_writes [OF assms(6)] assms(7)
    by (auto simp: append_head_def writeTreeHead_def L_def split: option.splits head_write.splits)
  define d3 where "d3 = d2\<lparr>head_file := Content (marshal_head C h)\<rparr>"
  have w: "append_head C (st, d) c d2 = (None, d3)"
    using h hf by (simp add: append_head_def writeTreeHead_def d3_def flip: L_def)
  have "thSize h = word_of_nat (Suc (length es))"
    using h(1) len by (auto simp: signHead_def newHead_def Let_def L_def split: option.splits)
  moreover have "readStoredHead C (head_file d3) = Inr h" using assms(1) by (simp add: d3_def readStoredHead_def env_ok_def)
  moreover have d3: "log_holds C key (log_file d3) bs es" using d2 by (simp add: d3_def)
  ultimately have "\<exists>err d4. OpenTrusting C d3 key s trusted io' = (Inl err, d4)" for io'
    using head_ahead_refused [OF _ assms(4,5)] by (simp add: OpenTrusting_def)
  then show ?thesis using w ReadAll_holds [OF d3] by blast
qed

theorem status_breaks_running_log_witness:
  "\<exists>e st d d1 r d2 d3 err d4. log_reachable sample_env sample_key (Some sample_signer) [] ([e], Up st d) \<and>
     append_record sample_env (st, d) sample_call = Some d1 \<and>
     cmdStatus sample_env (\<lambda>b. None) sample_key [] ''now'' sample_open d1 = (r, d2) \<and>
     append_head sample_env (st, d) sample_call d2 = (None, d3) \<and> ReadAll sample_env d3 sample_key = Inr [e] \<and>
     OpenTrusting sample_env d3 sample_key (Some sample_signer) [] sample_open = (Inl err, d4)"
proof -
  obtain e st d where up: "log_reachable sample_env sample_key (Some sample_signer) [] ([e], Up st d)"
    using sample_recorded by blast
  have st: "stKey st = sample_key" "stSigner st = Some sample_signer" "\<not> stReadOnly st"
    using reachable_inv [OF sample_env_ok sample_signed up] by (auto simp: opened_as_def store_inv_def)
  have ok: "append_ok sample_env (st, d) sample_call" by (rule sample_append(1) [OF st])
  obtain d1 where d1: "append_record sample_env (st, d) sample_call = Some d1" using append_two_writes [OF ok] by blast
  obtain r d2 where stat: "cmdStatus sample_env (\<lambda>b. None) sample_key [] ''now'' sample_open d1 = (r, d2)"
    by (cases "cmdStatus sample_env (\<lambda>b. None) sample_key [] ''now'' sample_open d1")
  have "signer_opt_ok sample_env (Some sample_signer)" by (simp add: signer_opt_ok_def sample_signer_ok)
  from status_breaks_running_log [OF sample_env_ok this up _ _ ok d1 good_sample_open stat]
  show ?thesis using up d1 stat by fastforce
qed

end
