(* ===== verification/Migrate.thy ===== *)
theory Migrate
  imports Store_Props
begin

text \<open>
  The import of a log of version 1 (\<open>internal/migrate\<close>): read every frame of the old file,
  append what decodes in the old order, then a boundary record. The old JSON format and the
  re-encoding of its data are arguments.
\<close>

section \<open>Reading the old log\<close>

record v1_entry =
  v1Seq :: u64
  v1Level :: string
  v1Event :: string
  v1Source :: string
  v1PrevHash :: string
  v1Data :: "bytes option"

text \<open>The read loop: the entries that decode, and the number of frames that do not.\<close>

function readV1 :: "env \<Rightarrow> (bytes \<Rightarrow> v1_entry option) \<Rightarrow> bytes \<Rightarrow> bytes \<Rightarrow> v1_entry list \<times> nat" where
  "readV1 C dec key rest =
     (if length rest < 4 then ([], 0)
      else let len = unat (get_u32 (take 4 rest)) in
        if len = 0 \<or> len > max_record then ([], 0)
        else if length (drop 4 rest) < len then ([], 0)
        else let (es, skipped) = readV1 C dec key (drop (4 + len) rest) in
          case encrypt_Open C (take len (drop 4 rest)) key of
            None \<Rightarrow> (es, Suc skipped)
          | Some plain \<Rightarrow> (case dec plain of None \<Rightarrow> (es, Suc skipped) | Some e \<Rightarrow> (e # es, skipped)))"
  by pat_completeness auto
termination
  by (relation "measure (\<lambda>(C, dec, key, rest). length rest)") auto

declare readV1.simps [simp del]

section \<open>Importing\<close>

record import_result =
  irImported :: nat
  irSkipped :: nat

datatype import_error = V1NotFound | V1Unreadable | WriteEntry u64 store_error | WriteBoundary store_error

text \<open>A missing data field is a nil raw message, whose JSON is \<open>null\<close>; \<open>compact\<close> is the encoder on raw JSON.\<close>

definition v1_call :: "(bytes \<Rightarrow> bytes option) \<Rightarrow> append_io \<Rightarrow> v1_entry \<Rightarrow> append_call" where
  "v1_call compact io e =
     \<lparr>acLevel = v1Level e, acEvent = v1Event e, acSource = v1Source e,
      acData = Some (compact (case v1Data e of None \<Rightarrow> bytes_of ''null'' | Some b \<Rightarrow> b)), acIO = io\<rparr>"

fun importLoop ::
  "env \<Rightarrow> (bytes \<Rightarrow> bytes option) \<Rightarrow> (nat \<Rightarrow> append_io) \<Rightarrow> nat \<Rightarrow> v1_entry list \<Rightarrow> store \<times> disk \<Rightarrow> import_error option \<times> nat \<times> (store \<times> disk)" where
  "importLoop C compact ios n [] sd = (None, n, sd)"
| "importLoop C compact ios n (e # es) sd =
     (case append_call C sd (v1_call compact (ios n) e) of
        (Some err, sd') \<Rightarrow> (Some (WriteEntry (v1Seq e) err), n, sd')
      | (None, sd') \<Rightarrow> importLoop C compact ios (Suc n) es sd')"

definition boundary_call :: "(nat \<Rightarrow> nat \<Rightarrow> bytes) \<Rightarrow> append_io \<Rightarrow> nat \<Rightarrow> nat \<Rightarrow> append_call" where
  "boundary_call note_of io imported skipped =
     \<lparr>acLevel = ''SYSTEM'', acEvent = ''v1_import_boundary'', acSource = ''migrate'',
      acData = Some (Some (note_of imported skipped)), acIO = io\<rparr>"

definition FromV1Log ::
  "env \<Rightarrow> (bytes \<Rightarrow> v1_entry option) \<Rightarrow> (bytes \<Rightarrow> bytes option) \<Rightarrow> (nat \<Rightarrow> nat \<Rightarrow> bytes) \<Rightarrow> bytes \<Rightarrow> fcontent \<Rightarrow> (nat \<Rightarrow> append_io) \<Rightarrow>
   store \<times> disk \<Rightarrow> (import_error option \<times> import_result option) \<times> (store \<times> disk)" where
  "FromV1Log C dec compact note_of key src ios sd =
     (case src of
        Missing \<Rightarrow> ((Some V1NotFound, None), sd)
      | Unreadable \<Rightarrow> ((Some V1Unreadable, None), sd)
      | Content b \<Rightarrow>
          (case readV1 C dec key b of (entries, skipped) \<Rightarrow>
             (case importLoop C compact ios 0 entries sd of
                (Some err, n, sd') \<Rightarrow> ((Some err, Some \<lparr>irImported = n, irSkipped = skipped\<rparr>), sd')
              | (None, n, sd') \<Rightarrow>
                  (case append_call C sd' (boundary_call note_of (ios n) n skipped) of
                     (Some err, sd'') \<Rightarrow> ((Some (WriteBoundary err), Some \<lparr>irImported = n, irSkipped = skipped\<rparr>), sd'')
                   | (None, sd'') \<Rightarrow> ((None, Some \<lparr>irImported = n, irSkipped = skipped\<rparr>), sd'')))))"

section \<open>What an import leaves\<close>

text \<open>The record an old entry becomes: a new number and time, the same level, event, source and data.\<close>

definition imported_as :: "(bytes \<Rightarrow> bytes option) \<Rightarrow> v1_entry \<Rightarrow> entry \<Rightarrow> bool" where
  "imported_as compact v e \<longleftrightarrow>
     eLevel e = ToValidUTF8 (v1Level v) \<and> eEvent e = ToValidUTF8 (v1Event v) \<and> eSource e = ToValidUTF8 (v1Source v) \<and>
     eData e = compact (case v1Data v of None \<Rightarrow> bytes_of ''null'' | Some b \<Rightarrow> b)"

lemma v1_call_entry: "imported_as compact v (call_entry sd (v1_call compact io v))"
  by (simp add: imported_as_def call_entry_def v1_call_def newEntry_def)

lemma importLoop_records:
  assumes "log_inv C sd" "importLoop C compact ios n es sd = (err, n', sd')"
    and "\<And>sd v i. v \<in> set es \<Longrightarrow> log_inv C sd \<Longrightarrow> call_fits C sd (v1_call compact (ios i) v)"
  shows "if err = None then n' = n + length es \<and> log_inv C sd' \<and>
       (\<exists>new. log_records C sd' = log_records C sd @ new \<and> list_all2 (imported_as compact) es new)
     else n \<le> n' \<and> n' < n + length es"
  using assms
proof (induction es arbitrary: n sd)
  case (Cons v es)
  let ?c = "v1_call compact (ios n) v"
  obtain e sd1 where a: "append_call C sd ?c = (e, sd1)" by (cases "append_call C sd ?c")
  show ?case
  proof (cases e)
    case None
    then have ok: "append_ok C sd ?c" using a Cons.prems(1,3) by (simp add: append_ok_def)
    have sd1: "append_step C sd ?c = sd1" using a by (simp add: append_step_def)
    have "log_inv C sd1" using al.step_inv [OF Cons.prems(1) ok] sd1 by simp
    note ih = Cons.IH [OF this, of "Suc n"]
    have rec: "log_records C sd1 = log_records C sd @ [call_entry sd ?c]" using al.step_records [OF Cons.prems(1) ok] sd1 by simp
    have loop: "importLoop C compact ios (Suc n) es sd1 = (err, n', sd')" using Cons.prems(2) a None by simp
    show ?thesis
    proof (cases "err = None")
      case True
      then obtain new where n: "n' = Suc n + length es" "log_inv C sd'" "log_records C sd' = log_records C sd1 @ new"
          "list_all2 (imported_as compact) es new"
        using ih loop Cons.prems(3) by auto
      then have "log_records C sd' = log_records C sd @ (call_entry sd ?c # new)" by (simp add: rec)
      moreover have "list_all2 (imported_as compact) (v # es) (call_entry sd ?c # new)" using n(4) v1_call_entry by simp
      ultimately show ?thesis using n True by auto
    next
      case False
      then show ?thesis using ih loop Cons.prems(3) by auto
    qed
  next
    case (Some err')
    then show ?thesis using Cons.prems(2) a by auto
  qed
qed simp

text \<open>
  A successful import leaves the old records first, then one record per entry of the old log
  that decodes, in order and with its level, event, source and data, then the boundary.
\<close>

lemma import_complete:
  assumes "log_inv C sd" "FromV1Log C dec compact note_of key (Content b) ios sd = ((None, Some r), sd')"
    and "readV1 C dec key b = (es, skipped)"
    and "\<And>sd v i. v \<in> set es \<Longrightarrow> log_inv C sd \<Longrightarrow> call_fits C sd (v1_call compact (ios i) v)"
    and "\<And>sd i. log_inv C sd \<Longrightarrow> call_fits C sd (boundary_call note_of (ios i) (length es) skipped)"
  shows "r = \<lparr>irImported = length es, irSkipped = skipped\<rparr> \<and> log_inv C sd' \<and>
     (\<exists>new bd. log_records C sd' = log_records C sd @ new @ [bd] \<and> list_all2 (imported_as compact) es new \<and>
        eEvent bd = ''v1_import_boundary'' \<and> eSource bd = ''migrate'')"
proof -
  obtain err n sd1 where loop: "importLoop C compact ios 0 es sd = (err, n, sd1)"
    by (cases "importLoop C compact ios 0 es sd")
  have err: "err = None" using assms(2,3) loop by (auto simp: FromV1Log_def split: option.splits)
  obtain new where n: "n = length es" "log_inv C sd1" "log_records C sd1 = log_records C sd @ new" "list_all2 (imported_as compact) es new"
    using importLoop_records [OF assms(1) loop assms(4)] err by auto
  let ?c = "boundary_call note_of (ios n) (length es) skipped"
  obtain e sd2 where a: "append_call C sd1 ?c = (e, sd2)" by (cases "append_call C sd1 ?c")
  have r: "e = None" "sd' = sd2" "r = \<lparr>irImported = length es, irSkipped = skipped\<rparr>"
    using assms(2,3) loop err a n(1) by (auto simp: FromV1Log_def split: option.splits)
  have ok: "append_ok C sd1 ?c" using a r(1) assms(5) n(2) by (simp add: append_ok_def)
  have "log_records C sd' = log_records C sd1 @ [call_entry sd1 ?c]" "log_inv C sd'"
    using al.step_records [OF n(2) ok] al.step_inv [OF n(2) ok] a r by (simp_all add: append_step_def)
  moreover have "eEvent (call_entry sd1 ?c) = ''v1_import_boundary''" "eSource (call_entry sd1 ?c) = ''migrate''"
    by (simp_all add: call_entry_def boundary_call_def newEntry_def ToValidUTF8_def to_valid_ascii)
  ultimately show ?thesis using n r by (intro conjI exI [of _ new] exI [of _ "call_entry sd1 ?c"]) auto
qed

end
