(* ===== verification/Accept_Cmd.thy ===== *)
theory Accept_Cmd
  imports Signers Go_Files
begin

text \<open>
  The operator's side of an approval: request files, operator keys and the spool
  (\<open>internal/accept/request.go\<close>, \<open>spool.go\<close>) and the command \<open>witness accept\<close>
  (\<open>cmd/witness/accept.go\<close>). A call of \<open>fatal\<close> is the left value of a result. The JSON texts
  and Ed25519 are parameters.
\<close>

section \<open>Request files and keys\<close>

record request_codec =
  rcCodec :: accept_codec
  rcPrint :: "request \<Rightarrow> string option"
  rcParse :: "string \<Rightarrow> request option"
  rcAnswer :: "bytes \<Rightarrow> (string \<times> string) option"

text \<open>A file that cannot be read and one that does not parse are both errors of \<open>ReadFile\<close>.\<close>

definition request_ReadFile :: "request_codec \<Rightarrow> file_sys \<Rightarrow> string \<Rightarrow> accept_error + request" where
  "request_ReadFile K fs path =
     (case Option.bind (fsFiles fs path) (rcParse K) of None \<Rightarrow> Inl ParseFailed | Some r \<Rightarrow> Inr r)"

definition request_WriteFile :: "request_codec \<Rightarrow> write_result \<Rightarrow> request \<Rightarrow> string \<Rightarrow> file_sys \<Rightarrow> bool \<times> file_sys" where
  "request_WriteFile K w r path fs =
     (case rcPrint K r of None \<Rightarrow> (False, fs) | Some data \<Rightarrow> writeFile w path (data @ [LF]) fs)"

datatype key_problem = KeyUnread | KeyLength | KeyExists | KeyNotWritten | KeyRandom

text \<open>Operator key files: the bytes at a path.\<close>

type_synonym key_files = "string \<Rightarrow> bytes option"

definition request_LoadKey :: "key_files \<Rightarrow> string \<Rightarrow> key_problem + bytes" where
  "request_LoadKey ks path =
     (case ks path of
        None \<Rightarrow> Inl KeyUnread
      | Some seed \<Rightarrow> if length seed \<noteq> SeedSize then Inl KeyLength else Inr seed)"

text \<open>\<open>Keygen\<close> never overwrites; a failed write leaves a part of the seed behind.\<close>

definition Keygen :: "ed_impl \<Rightarrow> bytes option \<Rightarrow> bytes option \<Rightarrow> string \<Rightarrow> key_files \<Rightarrow> (key_problem + bytes) \<times> key_files" where
  "Keygen E rnd failed path ks =
     (case rnd of
        None \<Rightarrow> (Inl KeyRandom, ks)
      | Some seed \<Rightarrow>
          if ks path \<noteq> None then (Inl KeyExists, ks)
          else (case failed of
             None \<Rightarrow> (Inr (edPublic E seed), ks(path \<mapsto> seed))
           | Some part \<Rightarrow> (Inl KeyNotWritten, ks(path \<mapsto> part))))"

definition OperatorsPath :: "string \<Rightarrow> string" where
  "OperatorsPath witnessDir = path_join [witnessDir, ''trust'', ''operators.txt'']"

section \<open>The spool\<close>

record submit_io =
  suMkdir :: bool
  suWrite :: write_result
  suRename :: bool

datatype submit_error = SubmitSig accept_error | SubmitDir | SubmitWrite | SubmitRename

definition spoolPath :: "string \<Rightarrow> request \<Rightarrow> string" where
  "spoolPath primaryDir r = path_join [SpoolDir primaryDir, rqID r @ ''.json'']"

definition Submit ::
  "env \<Rightarrow> request_codec \<Rightarrow> submit_io \<Rightarrow> string \<Rightarrow> request \<Rightarrow> file_sys \<Rightarrow> (submit_error + string) \<times> file_sys" where
  "Submit C K io primaryDir r fs =
     (case verifySig C (rcCodec K) r of
        Some e \<Rightarrow> (Inl (SubmitSig e), fs)
      | None \<Rightarrow>
          (case mkdirAll (suMkdir io) (SpoolDir primaryDir) fs of
             (False, fs1) \<Rightarrow> (Inl SubmitDir, fs1)
           | (True, fs1) \<Rightarrow>
               let path = spoolPath primaryDir r; tmp = path @ ''.tmp'' in
               (case request_WriteFile K (suWrite io) r tmp fs1 of
                  (False, fs2) \<Rightarrow> (Inl SubmitWrite, fs2)
                | (True, fs2) \<Rightarrow>
                    if suRename io
                    then (Inr path, fs2\<lparr>fsFiles := ((fsFiles fs2)(path := fsFiles fs2 tmp))(tmp := None)\<rparr>)
                    else (Inl SubmitRename, fs2))))"

section \<open>Commands\<close>

function rune_count :: "string \<Rightarrow> nat" where
  "rune_count s = (if s = [] then 0 else Suc (rune_count (drop (max 1 (rune_width s)) s)))"
  by pat_completeness auto
termination
  by (relation "measure length") auto

declare rune_count.simps [simp del]

definition arrow :: string where
  "arrow = [CHR 0xE2, CHR 0x86, CHR 0x92]"

definition ellipsis :: string where
  "ellipsis = [CHR 0xE2, CHR 0x80, CHR 0xA6]"

definition describeChange :: "change \<Rightarrow> string" where
  "describeChange c =
     (if chType c = ''new_process'' then ''new_process  '' @ chProcess c
      else if chType c = ''file_removed'' then ''file_removed '' @ chPath c
      else let n = (if 12 < length (chNew c) then take 12 (chNew c) @ ellipsis else chNew c)
           in chType c @ replicate (12 - rune_count (chType c)) (CHR '' '') @ '' '' @ chPath c @ '' '' @ arrow @ '' '' @ n)"

text \<open>
  What the commands read of the log and of the trust files: the entries (\<open>acceptLog\<close> ends the
  program if they cannot be read), the machine's ID and the operators.
\<close>

record accept_view =
  avEntries :: "entry list"
  avMachine :: string
  avOperators :: "allow_entry list"
  avPrimary :: string

definition viewApprovals :: "env \<Rightarrow> request_codec \<Rightarrow> accept_view \<Rightarrow> accept_set" where
  "viewApprovals C K v = recordedApprovals C (rcCodec K) (avMachine v) (avOperators v) (avEntries v)"

text \<open>The open changes of the latest drift, in the order in which both commands number them.\<close>

definition openChanges :: "env \<Rightarrow> request_codec \<Rightarrow> (bytes \<Rightarrow> change list option) \<Rightarrow> accept_view \<Rightarrow> (entry \<times> change list) option" where
  "openChanges C K parse v =
     map_option (\<lambda>(e, ch). (e, fst (set_Filter (viewApprovals C K v) ch))) (latestDrift parse (avEntries v))"

definition acceptList ::
  "env \<Rightarrow> request_codec \<Rightarrow> (bytes \<Rightarrow> change list option) \<Rightarrow> accept_view \<Rightarrow>
   (approval \<times> string list) list \<times> (u64 \<times> time \<times> (nat \<times> string) list) option" where
  "acceptList C K parse v =
     (map (\<lambda>a. (a, map describeChange (aChanges a))) (Approvals (viewApprovals C K v)),
      map_option (\<lambda>(e, ch). (eSeq e, eTimestamp e, zip [1..<Suc (length ch)] (map describeChange ch))) (openChanges C K parse v))"

datatype cli_error =
    Usage | CliFlags flag_error | NoDrift | AllApproved | BadItem string nat | CliRequest accept_error
  | KeyOrOut | FileError | CliKey key_problem | CliSubmit submit_error | Rejected u64 string | NoAnswer string

fun pickItems :: "change list \<Rightarrow> string list \<Rightarrow> cli_error + change list" where
  "pickItems changes [] = Inr []"
| "pickItems changes (s # ss) =
     (case Atoi (TrimSpace s) of
        None \<Rightarrow> Inl (BadItem s (length changes))
      | Some n \<Rightarrow>
          if n < 1 \<or> int (length changes) < n then Inl (BadItem s (length changes))
          else (case pickItems changes ss of Inl e \<Rightarrow> Inl e | Inr cs \<Rightarrow> Inr (changes ! nat (n - 1) # cs)))"

definition flag :: "accept_flags \<Rightarrow> string \<Rightarrow> string" where
  "flag f name = (case map_of (afVals f) name of None \<Rightarrow> [] | Some v \<Rightarrow> v)"

text \<open>\<open>acceptRequest\<close> up to \<open>finishRequest\<close>.\<close>

definition buildRequest ::
  "env \<Rightarrow> request_codec \<Rightarrow> (bytes \<Rightarrow> change list option) \<Rightarrow> bytes option \<Rightarrow> string \<Rightarrow> accept_view \<Rightarrow> string list \<Rightarrow>
   cli_error + request \<times> accept_flags" where
  "buildRequest C K parse rnd now v args =
     (case parseAcceptFlags args [''--item'', ''--reason'', ''--key'', ''--out''] of
        Inl e \<Rightarrow> Inl (CliFlags e)
      | Inr f \<Rightarrow>
          if afAll f = (flag f ''--item'' \<noteq> []) \<or> afPos f \<noteq> [] then Inl Usage
          else case openChanges C K parse v of
            None \<Rightarrow> Inl NoDrift
          | Some (e, changes) \<Rightarrow>
              if changes = [] then Inl AllApproved
              else (case (if afAll f then Inr changes else pickItems changes (split_on (CHR '','') (flag f ''--item''))) of
                 Inl e \<Rightarrow> Inl e
               | Inr picked \<Rightarrow>
                   (case NewAccept rnd now (avMachine v) (flag f ''--reason'') picked of
                      Inl e \<Rightarrow> Inl (CliRequest e)
                    | Inr r \<Rightarrow> Inr (r, f))))"

definition buildRevoke :: "bytes option \<Rightarrow> string \<Rightarrow> accept_view \<Rightarrow> string list \<Rightarrow> cli_error + request \<times> accept_flags" where
  "buildRevoke rnd now v args =
     (case parseAcceptFlags args [''--reason'', ''--key'', ''--out''] of
        Inl e \<Rightarrow> Inl (CliFlags e)
      | Inr f \<Rightarrow>
          (case afPos f of
             [aid] \<Rightarrow>
               (case NewRevoke rnd now (avMachine v) (flag f ''--reason'') aid of
                  Inl e \<Rightarrow> Inl (CliRequest e)
                | Inr r \<Rightarrow> Inr (r, f))
           | _ \<Rightarrow> Inl Usage))"

section \<open>Waiting for the daemon\<close>

text \<open>The newest operator entry whose data names the request.\<close>

definition findAnswer :: "request_codec \<Rightarrow> string \<Rightarrow> entry list \<Rightarrow> (entry \<times> string) option" where
  "findAnswer K rid entries =
     map_option (\<lambda>e. (e, snd (the (Option.bind (eData e) (rcAnswer K)))))
       (find (\<lambda>e. eSource e = accept_Source \<and>
                (case Option.bind (eData e) (rcAnswer K) of Some (i, _) \<Rightarrow> i = rid | None \<Rightarrow> False)) (rev entries))"

text \<open>The polls of \<open>acceptSubmit\<close>: the clock at the loop's test and what \<open>ReadAll\<close> gives.\<close>

fun pollAnswer :: "request_codec \<Rightarrow> string \<Rightarrow> string \<Rightarrow> time \<Rightarrow> (time \<times> entry list option) list \<Rightarrow> cli_error + string \<times> u64" where
  "pollAnswer K path rid deadline [] = Inl (NoAnswer path)"
| "pollAnswer K path rid deadline ((now, entries) # ps) =
     (if \<not> now < deadline then Inl (NoAnswer path)
      else case Option.bind entries (findAnswer K rid) of
        None \<Rightarrow> pollAnswer K path rid deadline ps
      | Some (e, err) \<Rightarrow> if eEvent e = EventRejected then Inl (Rejected (eSeq e) err) else Inr (eEvent e, eSeq e))"

record wait_polls =
  wpSubmit :: submit_io
  wpStart :: time
  wpInterval :: int
  wpPolls :: "(time \<times> entry list option) list"

definition acceptSubmit ::
  "env \<Rightarrow> request_codec \<Rightarrow> wait_polls \<Rightarrow> accept_view \<Rightarrow> request \<Rightarrow> file_sys \<Rightarrow> (cli_error + string \<times> u64) \<times> file_sys" where
  "acceptSubmit C K io v r fs =
     (case Submit C K (wpSubmit io) (avPrimary v) r fs of
        (Inl e, fs1) \<Rightarrow> (Inl (CliSubmit e), fs1)
      | (Inr path, fs1) \<Rightarrow>
          (pollAnswer K path (rqID r) (wpStart io + wpInterval io * 10 ^ 9 * 2 + 10 * 10 ^ 9) (wpPolls io), fs1))"

datatype accept_done = WroteUnsigned string | Answered string u64 | SignedFile request

text \<open>\<open>finishRequest\<close>: exactly one of \<open>--key\<close> (sign and submit) and \<open>--out\<close> (write unsigned).\<close>

definition finishRequest ::
  "env \<Rightarrow> request_codec \<Rightarrow> ed_impl \<Rightarrow> write_result \<Rightarrow> wait_polls \<Rightarrow> key_files \<Rightarrow> accept_view \<Rightarrow> request \<Rightarrow> accept_flags \<Rightarrow> file_sys \<Rightarrow>
   (cli_error + accept_done) \<times> file_sys" where
  "finishRequest C K E w io ks v r f fs =
     (let keyFile = flag f ''--key''; out = flag f ''--out'' in
      if (keyFile = []) = (out = []) then (Inl KeyOrOut, fs)
      else if out \<noteq> [] then
        (case request_WriteFile K w r out fs of
           (False, fs1) \<Rightarrow> (Inl FileError, fs1)
         | (True, fs1) \<Rightarrow> (Inr (WroteUnsigned (rqID r)), fs1))
      else case request_LoadKey ks keyFile of
        Inl e \<Rightarrow> (Inl (CliKey e), fs)
      | Inr seed \<Rightarrow>
          (case Sign (rcCodec K) (edPublic E seed) (edSign E seed) r of
             Inl e \<Rightarrow> (Inl (CliRequest e), fs)
           | Inr r' \<Rightarrow>
               (case acceptSubmit C K io v r' fs of
                  (Inl e, fs1) \<Rightarrow> (Inl e, fs1)
                | (Inr (event, seq), fs1) \<Rightarrow> (Inr (Answered event seq), fs1))))"

definition acceptSign ::
  "request_codec \<Rightarrow> ed_impl \<Rightarrow> write_result \<Rightarrow> key_files \<Rightarrow> string list \<Rightarrow> file_sys \<Rightarrow> (cli_error + accept_done) \<times> file_sys" where
  "acceptSign K E w ks args fs =
     (case parseAcceptFlags args [''--key''] of
        Inl e \<Rightarrow> (Inl (CliFlags e), fs)
      | Inr f \<Rightarrow>
          (case afPos f of
             [file_name] \<Rightarrow>
               if flag f ''--key'' = [] then (Inl Usage, fs)
               else (case request_ReadFile K fs file_name of
                  Inl e \<Rightarrow> (Inl FileError, fs)
                | Inr r \<Rightarrow>
                    (case request_LoadKey ks (flag f ''--key'') of
                       Inl e \<Rightarrow> (Inl (CliKey e), fs)
                     | Inr seed \<Rightarrow>
                         (case Sign (rcCodec K) (edPublic E seed) (edSign E seed) r of
                            Inl e \<Rightarrow> (Inl (CliRequest e), fs)
                          | Inr r' \<Rightarrow>
                              (case request_WriteFile K w r' file_name fs of
                                 (False, fs1) \<Rightarrow> (Inl FileError, fs1)
                               | (True, fs1) \<Rightarrow> (Inr (SignedFile r'), fs1)))))
           | _ \<Rightarrow> (Inl Usage, fs)))"

text \<open>The dispatch of \<open>cmdAccept\<close> on the arguments after \<open>witness accept\<close>.\<close>

record accept_cmd_io =
  aiRandom :: "bytes option"
  aiFailed :: "bytes option"
  aiTime :: string
  aiFile :: write_result
  aiWait :: wait_polls

datatype accept_result =
    Listing "(approval \<times> string list) list \<times> (u64 \<times> time \<times> (nat \<times> string) list) option"
  | Finished accept_done | NewOperator bytes

definition finished :: "(cli_error + accept_done) \<times> file_sys \<Rightarrow> key_files \<Rightarrow> (cli_error + accept_result) \<times> file_sys \<times> key_files" where
  "finished r ks = ((case fst r of Inl e \<Rightarrow> Inl e | Inr d \<Rightarrow> Inr (Finished d)), snd r, ks)"

definition cmdAccept ::
  "env \<Rightarrow> request_codec \<Rightarrow> ed_impl \<Rightarrow> (bytes \<Rightarrow> change list option) \<Rightarrow> accept_cmd_io \<Rightarrow> accept_view \<Rightarrow> string list \<Rightarrow>
   file_sys \<Rightarrow> key_files \<Rightarrow> (cli_error + accept_result) \<times> file_sys \<times> key_files" where
  "cmdAccept C K E parse io v args fs ks =
     (case args of
        [] \<Rightarrow> (Inl Usage, fs, ks)
      | sub # rest \<Rightarrow>
          if sub = ''list'' then (Inr (Listing (acceptList C K parse v)), fs, ks)
          else if sub = ''request'' then
            (case buildRequest C K parse (aiRandom io) (aiTime io) v rest of
               Inl e \<Rightarrow> (Inl e, fs, ks)
             | Inr (r, f) \<Rightarrow> finished (finishRequest C K E (aiFile io) (aiWait io) ks v r f fs) ks)
          else if sub = ''revoke'' then
            (case buildRevoke (aiRandom io) (aiTime io) v rest of
               Inl e \<Rightarrow> (Inl e, fs, ks)
             | Inr (r, f) \<Rightarrow> finished (finishRequest C K E (aiFile io) (aiWait io) ks v r f fs) ks)
          else if sub = ''sign'' then finished (acceptSign K E (aiFile io) ks rest fs) ks
          else if sub = ''submit'' then
            (case rest of
               [file_name] \<Rightarrow>
                 (case request_ReadFile K fs file_name of
                    Inl e \<Rightarrow> (Inl FileError, fs, ks)
                  | Inr r \<Rightarrow>
                      (case acceptSubmit C K (aiWait io) v r fs of
                         (Inl e, fs1) \<Rightarrow> (Inl e, fs1, ks)
                       | (Inr (event, seq), fs1) \<Rightarrow> (Inr (Finished (Answered event seq)), fs1, ks)))
             | _ \<Rightarrow> (Inl Usage, fs, ks))
          else if sub = ''keygen'' then
            (case parseAcceptFlags rest [''--out''] of
               Inl e \<Rightarrow> (Inl (CliFlags e), fs, ks)
             | Inr f \<Rightarrow>
                 if flag f ''--out'' = [] then (Inl Usage, fs, ks)
                 else (case Keygen E (aiRandom io) (aiFailed io) (flag f ''--out'') ks of
                    (Inl e, ks1) \<Rightarrow> (Inl (CliKey e), fs, ks1)
                  | (Inr pub, ks1) \<Rightarrow> (Inr (NewOperator pub), fs, ks1)))
          else (Inl Usage, fs, ks))"

section \<open>From the command line to the filter\<close>

lemma Sign_fields:
  "Sign K pub sign r = Inr r' \<Longrightarrow>
     \<exists>sig. r' = r\<lparr>rqSigner := hex_encode pub, rqSig := hex_encode sig\<rparr> \<and>
       payload K (r\<lparr>rqSigner := hex_encode pub\<rparr>) \<noteq> None \<and> sig = sign (the (payload K (r\<lparr>rqSigner := hex_encode pub\<rparr>)))"
  by (auto simp: Sign_def Let_def split: option.splits)

lemma check_signed: "check (r\<lparr>rqSigner := a, rqSig := b\<rparr>) = check r"
  by (simp add: check_def)

lemma verify_signed:
  assumes "ed_ok C E" "length seed = SeedSize" "Sign K (edPublic E seed) (edSign E seed) r = Inr r'"
  shows "verifySig C K r' = None \<and> SignerKey r' = Inr (edPublic E seed)"
proof -
  define p where "p = the (payload K (r\<lparr>rqSigner := hex_encode (edPublic E seed)\<rparr>))"
  have r': "r' = r\<lparr>rqSigner := hex_encode (edPublic E seed), rqSig := hex_encode (edSign E seed p)\<rparr>"
      "payload K (r\<lparr>rqSigner := hex_encode (edPublic E seed)\<rparr>) = Some p"
    using Sign_fields [OF assms(3)] by (auto simp: p_def)
  have ed: "length (edPublic E seed) = PublicKeySize" "length (edSign E seed p) = SignatureSize"
      "ed_verify C (edPublic E seed) p (edSign E seed p)"
    using assms(1,2) by (auto simp: ed_ok_def)
  have key: "SignerKey r' = Inr (edPublic E seed)" using ed(1) by (simp add: SignerKey_def r'(1))
  have "payload K r' = Some p" using r'(2) by (simp add: payload_def r'(1))
  moreover have "edSign E seed p \<noteq> []" using ed(2) by (auto simp: SignatureSize_def)
  then have "rqSig r' \<noteq> []" by (cases "edSign E seed p") (auto simp: r'(1))
  moreover have "hex_decode (rqSig r') = Some (edSign E seed p)" by (simp add: r'(1))
  ultimately show ?thesis using ed(3) key by (simp add: verifySig_def)
qed

lemma signerLabel_operator:
  assumes "SignerKey r = Inr pub" "plOwn p \<noteq> Some pub" "\<exists>op \<in> set (plOperators p). alPubKey op = pub"
  shows "\<exists>label. signerLabel p r = Inr label"
proof -
  have "find (\<lambda>op. pub = alPubKey op) (plOperators p) \<noteq> None"
    using assms(3) by (auto simp: find_None_iff)
  then show ?thesis using assms(1,2) by (auto simp: signerLabel_def)
qed

lemma update_fresh: "k \<notin> fst ` set al \<Longrightarrow> AList.update k v al = al @ [(k, v)]"
  by (induction al) auto

lemma Apply_accept_items:
  assumes "set_inv s" "Apply C K p s r = Inr (label, s')" "rqKind r = KindAccept"
  shows "asItems s' = asItems s \<union> set (itemKeys (rqChanges r))"
proof -
  have f: "rqID r \<notin> fst ` set (asApprovals s)"
    using Apply_Inr [OF assms(2)] set_inv_seen [OF assms(1)] by blast
  have "s' = rebuild (s\<lparr>asApprovals := asApprovals s @ [(rqID r, approval_of r label)], asSeen := insert (rqID r) (asSeen s)\<rparr>)"
    using Apply_Inr [OF assms(2)] assms(3) update_fresh [OF f] by simp
  then show ?thesis
    unfolding set_inv_items [OF assms(1)] by (auto simp: rebuild_items set_itemKeys approval_of_def)
qed

lemma pickItems_subset: "pickItems changes ss = Inr cs \<Longrightarrow> set cs \<subseteq> set changes"
  by (induction ss arbitrary: cs) (auto split: option.splits if_splits sum.splits)

lemma newRequest_fields:
  "newRequest rnd now kind m reason ch rv = Inr r \<Longrightarrow>
     check r = None \<and> rqKind r = kind \<and> rqMachineID r = m \<and> rqChanges r = ch"
  by (auto simp: newRequest_def Let_def split: option.splits)

lemma check_kind_changes: "check r = None \<Longrightarrow> rqKind r = KindAccept \<Longrightarrow> rqChanges r \<noteq> []"
  by (auto simp: check_def split: if_splits)

lemma buildRequest_picks:
  assumes "buildRequest C K parse rnd now v args = Inr (r, f)"
  shows "check r = None \<and> rqKind r = KindAccept \<and> rqMachineID r = avMachine v \<and>
     (\<exists>e changes. openChanges C K parse v = Some (e, changes) \<and> set (rqChanges r) \<subseteq> set changes)"
proof -
  obtain e changes picked where p: "openChanges C K parse v = Some (e, changes)"
      "(if afAll f then Inr changes else pickItems changes (split_on (CHR '','') (flag f ''--item''))) = Inr picked"
      "NewAccept rnd now (avMachine v) (flag f ''--reason'') picked = Inr r"
    using assms by (auto simp: buildRequest_def split: sum.splits option.splits if_splits)
  have "set picked \<subseteq> set changes" using p(2) pickItems_subset by (auto split: if_splits)
  then show ?thesis using p(1) newRequest_fields [of rnd now KindAccept] p(3) by (auto simp: NewAccept_def)
qed

text \<open>What the printer writes, the parser reads (\<open>encoding/json\<close> on the fields of a request).\<close>

definition request_json_ok :: "request_codec \<Rightarrow> request \<Rightarrow> bool" where
  "request_json_ok K r \<longleftrightarrow> (\<forall>t. rcPrint K r = Some t \<longrightarrow> rcParse K (t @ [LF]) = Some r)"

lemma Submit_spools:
  assumes "Submit C K io primaryDir r fs = (Inr path, fs')" "request_json_ok K r"
  shows "path = spoolPath primaryDir r \<and> request_ReadFile K fs' path = Inr r \<and> verifySig C (rcCodec K) r = None"
proof -
  obtain fs1 fs2 where f: "verifySig C (rcCodec K) r = None" "path = spoolPath primaryDir r"
      "request_WriteFile K (suWrite io) r (path @ ''.tmp'') fs1 = (True, fs2)"
      "fs' = fs2\<lparr>fsFiles := ((fsFiles fs2)(path := fsFiles fs2 (path @ ''.tmp'')))(path @ ''.tmp'' := None)\<rparr>"
    using assms(1) by (auto simp: Submit_def Let_def split: option.splits prod.splits bool.splits if_splits)
  obtain t where t: "rcPrint K r = Some t" "fs2 = fs1\<lparr>fsFiles := (fsFiles fs1)(path @ ''.tmp'' \<mapsto> t @ [LF])\<rparr>"
    using f(3) writeFile_ok by (auto simp: request_WriteFile_def split: option.splits)
  have "fsFiles fs' path = Some (t @ [LF])" using f(4) t(2) by simp
  then show ?thesis using f(1,2) t(1) assms(2) by (simp add: request_ReadFile_def request_json_ok_def)
qed

text \<open>
  Property C23. An approval takes effect as asked, and no further: when an operator picks items of
  the latest drift on the command line, signs the request with a key on the operators file and
  spools it, then the daemon reads back that request, applies it, and from then on its filter
  drops exactly the changes it dropped before and those with the item key of a picked one.
  Only open items of the latest drift can be picked, and never none.
\<close>

theorem approval_takes_effect:
  assumes "ed_ok C E" "set_inv s"
    and "buildRequest C K parse rnd now v args = Inr (r, f)"
    and "request_LoadKey ks keyFile = Inr seed" "Sign (rcCodec K) (edPublic E seed) (edSign E seed) r = Inr r'"
    and "Submit C K io (avPrimary v) r' fs = (Inr path, fs')" "request_json_ok K r'"
    and "plMachineID p = avMachine v" "\<exists>op \<in> set (plOperators p). alPubKey op = edPublic E seed"
    and "plOwn p \<noteq> Some (edPublic E seed)" "rqID r \<notin> asSeen s"
  shows "\<exists>label s' e changes. openChanges C K parse v = Some (e, changes) \<and>
     set (rqChanges r) \<subseteq> set changes \<and> rqChanges r \<noteq> [] \<and>
     request_ReadFile K fs' path = Inr r' \<and>
     spoolResult C (rcCodec K) p s \<lparr>pdFile = path, pdRequest = Some r', pdErr = None\<rparr> = Inr (label, s') \<and>
     fst (set_Filter s' cs) =
       filter (\<lambda>c. \<not> (\<exists>k. itemKey c = Inr k \<and> (k \<in> asItems s \<or> k \<in> set (itemKeys (rqChanges r))))) cs"
proof -
  have seed: "length seed = SeedSize" using assms(4) by (auto simp: request_LoadKey_def split: option.splits if_splits)
  obtain a b where r': "r' = r\<lparr>rqSigner := a, rqSig := b\<rparr>" using Sign_fields [OF assms(5)] by auto
  note built = buildRequest_picks [OF assms(3)]
  have same: "rqID r' = rqID r" "rqKind r' = KindAccept" "rqMachineID r' = avMachine v" "rqChanges r' = rqChanges r" "check r' = None"
    using built by (simp_all add: r' check_signed)
  have sig: "verifySig C (rcCodec K) r' = None" "SignerKey r' = Inr (edPublic E seed)"
    using verify_signed [OF assms(1) seed assms(5)] by simp_all
  obtain label where label: "signerLabel p r' = Inr label"
    using signerLabel_operator [OF sig(2) assms(10,9)] by blast
  obtain s' where ap: "Apply C (rcCodec K) p s r' = Inr (label, s')"
    using same sig(1) label assms(8,11) by (simp add: Apply_def)
  have items: "asItems s' = asItems s \<union> set (itemKeys (rqChanges r))"
    using Apply_accept_items [OF assms(2) ap] same by simp
  have read: "request_ReadFile K fs' path = Inr r'" using Submit_spools [OF assms(6,7)] by blast
  have "rqChanges r \<noteq> []" using check_kind_changes [OF same(5,2)] same(4) by simp
  moreover have "fst (set_Filter s' cs) =
      filter (\<lambda>c. \<not> (\<exists>k. itemKey c = Inr k \<and> (k \<in> asItems s \<or> k \<in> set (itemKeys (rqChanges r))))) cs"
    by (simp add: set_Filter_fst items)
  moreover have "spoolResult C (rcCodec K) p s \<lparr>pdFile = path, pdRequest = Some r', pdErr = None\<rparr> = Inr (label, s')"
    using ap by (simp add: spoolResult_def)
  ultimately show ?thesis using built read by blast
qed

definition sample_drift :: "change list" where
  "sample_drift = [\<lparr>chType = ''new_process'', chPath = [], chProcess = ''cron'', chOld = [], chNew = []\<rparr>]"

definition sample_view :: accept_view where
  "sample_view = \<lparr>avEntries = [\<lparr>eSeq = 1, eTimestamp = 0, eLevel = ''WARN'', eEvent = ''drift_detected'', eSource = ''drift'',
     eData = Some []\<rparr>], avMachine = ''m'', avOperators = [], avPrimary = ''/w''\<rparr>"

definition sample_request_codec :: request_codec where
  "sample_request_codec = \<lparr>rcCodec = sample_codec, rcPrint = (\<lambda>r. Some []), rcParse = (\<lambda>t. Some sample_request), rcAnswer = (\<lambda>b. None)\<rparr>"

definition sample_args :: "string list" where
  "sample_args = [''--all'', ''--reason'', ''ok'', ''--key'', ''k'']"

definition sample_submit :: submit_io where
  "sample_submit = \<lparr>suMkdir = True, suWrite = WriteOk, suRename = True\<rparr>"

definition sample_flags :: accept_flags where
  "sample_flags = \<lparr>afVals = [(''--reason'', ''ok''), (''--key'', ''k'')], afAll = True, afPos = []\<rparr>"

lemma sample_open: "openChanges sample_env sample_request_codec (\<lambda>b. Some sample_drift) sample_view = Some (hd (avEntries sample_view), sample_drift)"
  by (simp add: openChanges_def latestDrift_def sample_view_def viewApprovals_def recordedApprovals_def Replay_def replayStep_def
      accept_Source_def NewSet_def sample_drift_def split: sum.splits)

lemma sample_build:
  "buildRequest sample_env sample_request_codec (\<lambda>b. Some sample_drift) (Some [0xa1]) ''t'' sample_view sample_args =
     Inr (sample_request\<lparr>rqSigner := [], rqSig := []\<rparr>, sample_flags)"
proof -
  have "parseAcceptFlags sample_args [''--item'', ''--reason'', ''--key'', ''--out''] = Inr sample_flags"
    by (simp add: sample_args_def parseAcceptFlags_def parseFlags.simps sample_flags_def)
  moreover have "hex_encode [0xa1] = ''a1''" by (simp add: hexdigit_def hexdigits_def)
  then have "NewAccept (Some [0xa1]) ''t'' ''m'' ''ok'' sample_drift = Inr (sample_request\<lparr>rqSigner := [], rqSig := []\<rparr>)"
    by (simp add: NewAccept_def newRequest_def Let_def check_def sample_drift_def itemKey_def sample_request_def)
  ultimately show ?thesis
    by (simp add: buildRequest_def sample_open flag_def sample_flags_def) (simp add: sample_drift_def sample_view_def)
qed

theorem approval_takes_effect_witness:
  "\<exists>label s'. spoolResult sample_env sample_codec sample_policy NewSet
      \<lparr>pdFile = ''/w/accept-spool/a1.json'', pdRequest = Some sample_request, pdErr = None\<rparr> = Inr (label, s') \<and>
     fst (set_Filter s' sample_drift) = []"
proof -
  have ed: "ed_ok sample_env sample_ed"
    by (simp add: ed_ok_def sample_env_def sample_ed_def SeedSize_def PublicKeySize_def SignatureSize_def)
  have key: "request_LoadKey [''k'' \<mapsto> replicate 32 5] ''k'' = Inr (replicate 32 5)"
    by (simp add: request_LoadKey_def SeedSize_def)
  have sg: "Sign (rcCodec sample_request_codec) (edPublic sample_ed (replicate 32 5)) (edSign sample_ed (replicate 32 5))
      (sample_request\<lparr>rqSigner := [], rqSig := []\<rparr>) = Inr sample_request"
    by (simp add: Sign_def Let_def payload_def sample_request_codec_def sample_codec_def sample_ed_def sample_request_def flip: replicate_add)
  obtain fs' where sub: "Submit sample_env sample_request_codec sample_submit (avPrimary sample_view) sample_request no_files =
      (Inr ''/w/accept-spool/a1.json'', fs')"
    by (simp add: Submit_def sample_sig sample_request_codec_def mkdirAll_def request_WriteFile_def writeFile_def Let_def
        sample_submit_def sample_view_def spoolPath_def SpoolDir_def path_join_def path_clean_def sample_request_fields)
  have json: "request_json_ok sample_request_codec sample_request"
    by (simp add: request_json_ok_def sample_request_codec_def)
  have pol: "plMachineID sample_policy = avMachine sample_view"
      "\<exists>op \<in> set (plOperators sample_policy). alPubKey op = edPublic sample_ed (replicate 32 5)"
      "plOwn sample_policy \<noteq> Some (edPublic sample_ed (replicate 32 5))"
      "rqID (sample_request\<lparr>rqSigner := [], rqSig := []\<rparr>) \<notin> asSeen NewSet"
    by (simp_all add: sample_policy_def sample_view_def sample_ed_def NewSet_def)
  have keys: "itemKeys (rqChanges (sample_request\<lparr>rqSigner := [], rqSig := []\<rparr>)) = [''new_process'' @ NUL # ''cron'']"
    by (simp add: sample_request_def itemKeys_def map_filter_simps itemKey_def)
  have none: "filter (\<lambda>c. \<not> (\<exists>k. itemKey c = Inr k \<and> (k \<in> asItems NewSet \<or>
      k \<in> set (itemKeys (rqChanges (sample_request\<lparr>rqSigner := [], rqSig := []\<rparr>)))))) sample_drift = []"
    unfolding keys by (simp add: sample_drift_def itemKey_def)
  have codec: "rcCodec sample_request_codec = sample_codec" by (simp add: sample_request_codec_def)
  show ?thesis
    using approval_takes_effect [OF ed set_inv_NewSet sample_build key sg sub json pol, of sample_drift]
    unfolding none codec by blast
qed

section \<open>Two gaps\<close>

text \<open>
  The spool file is named after the request's ID, which is not checked: a signed request from
  another machine whose ID climbs out of the directory is written outside the spool.
\<close>

lemma spool_path_escapes:
  "spoolPath ''/w'' (r\<lparr>rqID := ''../x''\<rparr>) = ''/w/x.json''"
  by (simp add: spoolPath_def SpoolDir_def path_join_def path_clean_def)

lemma unchecked_id_is_spooled:
  assumes "verifySig C (rcCodec K) r = None" "rcPrint K r = Some t" "suMkdir io" "suWrite io = WriteOk" "suRename io"
  shows "fst (Submit C K io primaryDir r fs) = Inr (spoolPath primaryDir r)"
  using assms by (simp add: Submit_def mkdirAll_def request_WriteFile_def writeFile_def Let_def)

text \<open>
  Submitting the same request a second time reports the entry of the first submission as the
  outcome: the search takes any entry with the request's ID, also one from before.
\<close>

lemma stale_answer_reported:
  assumes "findAnswer K (rqID r) old = Some (e, err)" "eEvent e \<noteq> EventRejected"
    and "Submit C K (wpSubmit io) (avPrimary v) r fs = (Inr path, fs')" "wpPolls io = (t, Some old) # ps"
    and "t < wpStart io + wpInterval io * 10 ^ 9 * 2 + 10 * 10 ^ 9"
  shows "acceptSubmit C K io v r fs = (Inr (eEvent e, eSeq e), fs')"
  using assms by (simp add: acceptSubmit_def)

end
