(* ===== verification/Tailer.thy ===== *)
theory Tailer
  imports Go_Strings Witness_Env
begin

text \<open>
  The resuming line reader of \<open>internal/pipelock/tailer.go\<close>. The state of a \<open>Tailer\<close> is the
  record \<open>tailer\<close>, its state file included; the operations are those of the reader goroutine
  (\<open>openFile\<close>, one turn of the read loop) and of the consumer (\<open>Ack\<close>, \<open>Flush\<close>). Every
  interleaving of the two is a list of operations.
\<close>

section \<open>State\<close>

record file_ident =
  fiDev :: u64
  fiIno :: u64

record pending_line =
  plEnd :: int
  plAcked :: bool

record tail_state =
  tsPath :: string
  tsIdent :: file_ident
  tsOffset :: int
  tsUpdated :: time

record open_info =
  oiMode :: string
  oiFrom :: int
  oiFileSize :: int

record tailer =
  tlPath :: string
  tlResume :: bool
  tlPending :: "pending_line list"
  tlCommitted :: int
  tlIdent :: file_ident
  tlDirty :: nat
  tlLastFlush :: time
  tlSaved :: "tail_state option"

definition flushEvery :: int where
  "flushEvery = 10 ^ 9"

definition flushEveryAcks :: nat where
  "flushEveryAcks = 64"

section \<open>Committing\<close>

text \<open>\<open>advanceLocked\<close>: past the longest fully acknowledged prefix.\<close>

fun advance :: "int \<Rightarrow> pending_line list \<Rightarrow> int \<times> pending_line list" where
  "advance c [] = (c, [])"
| "advance c (p # ps) = (if plAcked p then advance (plEnd p) ps else (c, p # ps))"

definition advanceLocked :: "tailer \<Rightarrow> tailer" where
  "advanceLocked t =
     (case advance (tlCommitted t) (tlPending t) of (c, ps) \<Rightarrow> t\<lparr>tlPending := ps, tlCommitted := c\<rparr>)"

text \<open>\<open>flushLocked\<close>; the flag says whether every file operation of it succeeded.\<close>

definition flushLocked :: "bool \<Rightarrow> time \<Rightarrow> tailer \<Rightarrow> tailer" where
  "flushLocked ok now t =
     (if ok then t\<lparr>tlDirty := 0, tlLastFlush := now,
                  tlSaved := Some \<lparr>tsPath = tlPath t, tsIdent = tlIdent t, tsOffset = tlCommitted t, tsUpdated = now\<rparr>\<rparr>
      else t)"

fun ackFirst :: "pending_line list \<Rightarrow> pending_line list" where
  "ackFirst [] = []"
| "ackFirst (p # ps) = (if plAcked p then p # ackFirst ps else p\<lparr>plAcked := True\<rparr> # ps)"

definition Ack :: "bool \<Rightarrow> time \<Rightarrow> tailer \<Rightarrow> tailer" where
  "Ack ok now t =
     (if \<not> tlResume t then t
      else let t1 = advanceLocked (t\<lparr>tlPending := ackFirst (tlPending t)\<rparr>);
               t2 = t1\<lparr>tlDirty := Suc (tlDirty t1)\<rparr>
           in if flushEveryAcks \<le> tlDirty t2 \<or> flushEvery \<le> now - tlLastFlush t2
              then flushLocked ok now t2 else t2)"

definition Flush :: "bool \<Rightarrow> time \<Rightarrow> tailer \<Rightarrow> tailer" where
  "Flush ok now t = (if \<not> tlResume t then t else flushLocked ok now t)"

definition record_line :: "int \<Rightarrow> bool \<Rightarrow> tailer \<Rightarrow> tailer" where
  "record_line lend emitted t =
     (if \<not> tlResume t then t
      else advanceLocked (t\<lparr>tlPending := tlPending t @ [\<lparr>plEnd = lend, plAcked = \<not> emitted\<rparr>]\<rparr>))"

section \<open>Opening\<close>

definition loadState :: "tailer \<Rightarrow> tail_state option" where
  "loadState t =
     (case tlSaved t of
        None \<Rightarrow> None
      | Some st \<Rightarrow> if tsPath st \<noteq> tlPath t \<or> tsOffset st < 0 then None else Some st)"

definition openMode :: "tailer \<Rightarrow> bool \<Rightarrow> bool \<Rightarrow> int \<Rightarrow> file_ident \<Rightarrow> open_info" where
  "openMode t firstOpen appeared sz ident =
     (if \<not> firstOpen then \<lparr>oiMode = ''rotated'', oiFrom = 0, oiFileSize = sz\<rparr>
      else if appeared then \<lparr>oiMode = ''created'', oiFrom = 0, oiFileSize = sz\<rparr>
      else if \<not> tlResume t then \<lparr>oiMode = ''fresh'', oiFrom = sz, oiFileSize = sz\<rparr>
      else case loadState t of
        None \<Rightarrow> \<lparr>oiMode = ''fresh'', oiFrom = sz, oiFileSize = sz\<rparr>
      | Some st \<Rightarrow>
          if tsIdent st = ident \<and> tsOffset st \<le> sz
          then \<lparr>oiMode = ''resumed'', oiFrom = tsOffset st, oiFileSize = sz\<rparr>
          else \<lparr>oiMode = ''restarted'', oiFrom = 0, oiFileSize = sz\<rparr>)"

definition openFile :: "tailer \<Rightarrow> bool \<Rightarrow> bool \<Rightarrow> int \<Rightarrow> file_ident \<Rightarrow> tailer \<times> open_info" where
  "openFile t firstOpen appeared sz ident =
     (let info = openMode t firstOpen appeared sz ident in
      (if tlResume t then t\<lparr>tlPending := [], tlCommitted := oiFrom info, tlIdent := ident\<rparr> else t, info))"

definition OpenEvent :: "string \<Rightarrow> open_info \<Rightarrow> string \<times> string \<times> string \<times> open_info \<times> int" where
  "OpenEvent feed i =
     (if oiMode i = ''restarted'' then ''WARN'' else ''INFO'', ''tail_'' @ oiMode i,
      feed, i, oiFileSize i - oiFrom i)"

section \<open>Reading\<close>


text \<open>\<open>ReadString('\n')\<close>: the next complete line with its newline, and what follows it.\<close>

fun nextLine :: "string \<Rightarrow> (string \<times> string) option" where
  "nextLine [] = None"
| "nextLine (c # s) =
     (if c = LF then Some ([c], s)
      else case nextLine s of None \<Rightarrow> None | Some (l, r) \<Rightarrow> Some (c # l, r))"

definition trimNewline :: "string \<Rightarrow> string" where
  "trimNewline s = rev (dropWhile (\<lambda>c. c = LF \<or> c = CR) (rev s))"

lemma nextLine_split: "nextLine s = Some (l, r) \<Longrightarrow> s = l @ r \<and> l \<noteq> []"
  by (induction s arbitrary: l) (auto split: if_splits option.splits)

lemma nextLine_length: "nextLine s = Some (l, r) \<Longrightarrow> length r < length s"
  using nextLine_split by fastforce

text \<open>
  The complete lines of a text read from offset \<open>off\<close> on: the offset after each line and the
  event it parses to, if any.
\<close>

function scan :: "(string \<Rightarrow> 'e option) \<Rightarrow> int \<Rightarrow> string \<Rightarrow> (int \<times> 'e option) list" where
  "scan parse off s =
     (case nextLine s of
        None \<Rightarrow> []
      | Some (l, r) \<Rightarrow>
          (let lend = off + int (length l); body = trimNewline l in
           (lend, if body = [] then None else parse body) # scan parse lend r))"
  by pat_completeness auto
termination
  by (relation "measure (\<lambda>(p, off, s). length s)") (auto simp: nextLine_length)

declare scan.simps [simp del]

text \<open>
  One turn of the read loop on the rest of the file: the line is recorded, and its event, if
  it has one, is sent.
\<close>

definition readStep ::
  "(string \<Rightarrow> 'e option) \<Rightarrow> tailer \<times> int \<times> string \<Rightarrow> (tailer \<times> int \<times> string) \<times> 'e option" where
  "readStep parse tps =
     (case tps of (t, pos, s) \<Rightarrow>
        case nextLine s of
          None \<Rightarrow> ((t, pos, s), None)
        | Some (l, r) \<Rightarrow>
            (let pos' = pos + int (length l); body = trimNewline l;
                 evt = (if body = [] then None else parse body)
             in ((record_line pos' (evt \<noteq> None) t, pos', r), evt)))"

section \<open>What the state means\<close>

text \<open>
  The reference: the lines read so far, in order (offset after the line, whether it was
  emitted), of which the first \<open>k\<close> emitted ones were acknowledged.
\<close>

fun mark :: "nat \<Rightarrow> (int \<times> bool) list \<Rightarrow> pending_line list" where
  "mark k [] = []"
| "mark k ((e, emitted) # ls) =
     (if \<not> emitted then \<lparr>plEnd = e, plAcked = True\<rparr> # mark k ls
      else case k of 0 \<Rightarrow> \<lparr>plEnd = e, plAcked = False\<rparr> # mark 0 ls
           | Suc j \<Rightarrow> \<lparr>plEnd = e, plAcked = True\<rparr> # mark j ls)"

definition emitted_count :: "(int \<times> bool) list \<Rightarrow> nat" where
  "emitted_count ls = length (filter snd ls)"

definition tail_spec :: "int \<Rightarrow> nat \<Rightarrow> (int \<times> bool) list \<Rightarrow> tailer \<Rightarrow> bool" where
  "tail_spec start k ls t \<longleftrightarrow>
     tlResume t \<and> (tlCommitted t, tlPending t) = advance start (mark k ls) \<and> k \<le> emitted_count ls"

lemma emitted_count_simps [simp]:
  "emitted_count [] = 0" "emitted_count (ls @ ms) = emitted_count ls + emitted_count ms"
  "emitted_count ((e, b) # ls) = (if b then 1 else 0) + emitted_count ls"
  by (simp_all add: emitted_count_def)

lemma advance_append:
  "advance c (ps @ [x]) = (case advance c ps of (c', ps') \<Rightarrow> advance c' (ps' @ [x]))"
  by (induction c ps rule: advance.induct) auto

lemma mark_snoc:
  "k \<le> emitted_count ls \<Longrightarrow> mark k (ls @ [(e, b)]) = mark k ls @ [\<lparr>plEnd = e, plAcked = \<not> b\<rparr>]"
  by (induction k ls rule: mark.induct) (auto split: nat.splits)

lemma ackFirst_mark: "k < emitted_count ls \<Longrightarrow> ackFirst (mark k ls) = mark (Suc k) ls"
  by (induction k ls rule: mark.induct) (auto split: nat.splits)

lemma advance_ackFirst:
  "advance c (ackFirst ps) = (case advance c ps of (c', ps') \<Rightarrow> advance c' (ackFirst ps'))"
  by (induction c ps rule: advance.induct) auto

lemma record_line_spec:
  assumes "tail_spec start k ls t"
  shows "tail_spec start k (ls @ [(e, b)]) (record_line e b t)"
  using assms advance_append [of start "mark k ls"] mark_snoc [of k ls e b]
  by (auto simp: tail_spec_def record_line_def advanceLocked_def split: prod.splits)

lemma Ack_fields:
  "tlCommitted (flushLocked ok now t) = tlCommitted t" "tlPending (flushLocked ok now t) = tlPending t"
  "tlResume (flushLocked ok now t) = tlResume t"
  by (simp_all add: flushLocked_def)

lemma Ack_spec:
  assumes "tail_spec start k ls t" "k < emitted_count ls"
  shows "tail_spec start (Suc k) ls (Ack ok now t)"
  using assms advance_ackFirst [of start "mark k ls"] ackFirst_mark [OF assms(2)]
  by (auto simp: tail_spec_def Ack_def advanceLocked_def Let_def Ack_fields split: prod.splits)

lemma Flush_spec: "tail_spec start k ls t \<Longrightarrow> tail_spec start k ls (Flush ok now t)"
  by (simp add: tail_spec_def Flush_def Ack_fields)

text \<open>The committed offset ends a prefix of the lines with at most \<open>k\<close> emitted ones.\<close>

lemma advance_mark:
  assumes "advance start (mark k ls) = (c, ps)"
  shows "\<exists>m. m \<le> length ls \<and> emitted_count (take m ls) \<le> k \<and>
     c = (if m = 0 then start else fst (ls ! (m - 1)))"
  using assms
proof (induction k ls arbitrary: start rule: mark.induct)
  case (1 k)
  then show ?case by simp
next
  case (2 k e b ls)
  show ?case
  proof (cases "b \<and> k = 0")
    case True
    then show ?thesis using "2.prems" by (intro exI [of _ 0]) simp
  next
    case False
    define j where "j = (if b then k - 1 else k)"
    have adv: "advance e (mark j ls) = (c, ps)"
      using "2.prems" False by (cases k) (auto simp: j_def)
    have "\<exists>m. m \<le> length ls \<and> emitted_count (take m ls) \<le> j \<and> c = (if m = 0 then e else fst (ls ! (m - 1)))"
      using adv False "2.IH" by (cases b; cases k) (auto simp: j_def)
    then obtain m where "m \<le> length ls" "emitted_count (take m ls) \<le> j" "c = (if m = 0 then e else fst (ls ! (m - 1)))"
      by blast
    then show ?thesis
      using False by (intro exI [of _ "Suc m"]) (auto simp: j_def nth_Cons' split: if_splits)
  qed
qed

section \<open>Interleavings\<close>

datatype tail_op = ReadOp | AckOp bool time | FlushOp bool time

text \<open>
  A run of the reader and an in-order consumer that stores every event it receives before it
  acknowledges it: the reader's state, the events sent so far and how many were acknowledged.
\<close>

type_synonym 'e tail_run = "(tailer \<times> int \<times> string) \<times> 'e list \<times> nat"

fun tail_op_step :: "(string \<Rightarrow> 'e option) \<Rightarrow> 'e tail_run \<Rightarrow> tail_op \<Rightarrow> 'e tail_run" where
  "tail_op_step parse (tps, sent, k) ReadOp =
     (case readStep parse tps of (tps', evt) \<Rightarrow>
        (tps', sent @ (case evt of None \<Rightarrow> [] | Some e \<Rightarrow> [e]), k))"
| "tail_op_step parse ((t, pos, s), sent, k) (AckOp ok now) =
     (if k < length sent then ((Ack ok now t, pos, s), sent, Suc k) else ((t, pos, s), sent, k))"
| "tail_op_step parse ((t, pos, s), sent, k) (FlushOp ok now) = ((Flush ok now t, pos, s), sent, k)"

definition events_of :: "(int \<times> 'e option) list \<Rightarrow> 'e list" where
  "events_of ls = List.map_filter snd ls"

definition flags_of :: "(int \<times> 'e option) list \<Rightarrow> (int \<times> bool) list" where
  "flags_of ls = map (\<lambda>(e, ev). (e, ev \<noteq> None)) ls"

lemma events_of_simps [simp]:
  "events_of [] = []" "events_of ((e, ev) # ls) = (case ev of None \<Rightarrow> [] | Some x \<Rightarrow> [x]) @ events_of ls"
  "events_of (ls @ ms) = events_of ls @ events_of ms"
  by (auto simp: events_of_def map_filter_def split: option.splits)

lemma flags_of_simps [simp]:
  "flags_of [] = []" "flags_of (ls @ ms) = flags_of ls @ flags_of ms" "length (flags_of ls) = length ls"
  "take m (flags_of ls) = flags_of (take m ls)"
  by (simp_all add: flags_of_def take_map)

lemma emitted_count_flags: "emitted_count (flags_of ls) = length (events_of ls)"
proof (induction ls)
  case (Cons x ls)
  then show ?case by (cases x) (auto simp: flags_of_def split: option.splits)
qed simp

text \<open>A saved or committed offset that skips at most \<open>k\<close> of the events of the file.\<close>

definition safe_offset :: "int \<Rightarrow> (int \<times> 'e option) list \<Rightarrow> nat \<Rightarrow> int \<Rightarrow> bool" where
  "safe_offset start full k off \<longleftrightarrow>
     (\<exists>m \<le> length full. length (events_of (take m full)) \<le> k \<and>
        off = (if m = 0 then start else fst (full ! (m - 1))))"

lemma safe_offset_mono: "safe_offset start full k off \<Longrightarrow> k \<le> k' \<Longrightarrow> safe_offset start full k' off"
  unfolding safe_offset_def using le_trans by blast

lemma tail_spec_safe:
  assumes "tail_spec start k (flags_of (take n full)) t"
  shows "safe_offset start full k (tlCommitted t)"
proof -
  obtain m where m: "m \<le> length (flags_of (take n full))" "emitted_count (take m (flags_of (take n full))) \<le> k"
      "tlCommitted t = (if m = 0 then start else fst (flags_of (take n full) ! (m - 1)))"
    using advance_mark [of start k "flags_of (take n full)"] assms unfolding tail_spec_def by metis
  have "m \<le> n" "m \<le> length full" using m(1) by auto
  moreover have "length (events_of (take m full)) \<le> k"
    using m(2) \<open>m \<le> n\<close> by (simp add: emitted_count_flags min_def)
  moreover have "fst (flags_of (take n full) ! (m - 1)) = fst (full ! (m - 1))" if "m \<noteq> 0"
  proof -
    have "m - 1 < length (take n full)" "m - 1 < n" using that \<open>m \<le> n\<close> \<open>m \<le> length full\<close> by auto
    then show ?thesis by (simp add: flags_of_def split_beta)
  qed
  ultimately show ?thesis using m(3) unfolding safe_offset_def by (intro exI [of _ m]) simp
qed

text \<open>The invariant of a run over a file whose lines from \<open>start\<close> on are \<open>full\<close>.\<close>

definition run_inv :: "(string \<Rightarrow> 'e option) \<Rightarrow> int \<Rightarrow> (int \<times> 'e option) list \<Rightarrow> string \<Rightarrow> file_ident \<Rightarrow> 'e tail_run \<Rightarrow> bool" where
  "run_inv parse start full path ident r \<longleftrightarrow>
     (case r of ((t, pos, s), sent, k) \<Rightarrow>
        \<exists>n \<le> length full. scan parse pos s = drop n full \<and> sent = events_of (take n full) \<and>
          tail_spec start k (flags_of (take n full)) t \<and> tlPath t = path \<and> tlIdent t = ident \<and>
          (\<exists>st. tlSaved t = Some st \<and> tsPath st = path \<and> tsIdent st = ident \<and> safe_offset start full k (tsOffset st)))"

lemma Ack_keeps:
  "tlPath (Ack ok now t) = tlPath t \<and> tlIdent (Ack ok now t) = tlIdent t \<and>
   (tlSaved (Ack ok now t) = tlSaved t \<or>
    tlSaved (Ack ok now t) = Some \<lparr>tsPath = tlPath t, tsIdent = tlIdent t,
      tsOffset = tlCommitted (Ack ok now t), tsUpdated = now\<rparr>)"
  by (auto simp: Ack_def advanceLocked_def flushLocked_def Let_def split: prod.splits)

lemma record_line_keeps:
  "tlPath (record_line e b t) = tlPath t \<and> tlIdent (record_line e b t) = tlIdent t \<and> tlSaved (record_line e b t) = tlSaved t"
  by (simp add: record_line_def advanceLocked_def split: prod.splits)

lemma run_inv_read:
  assumes "run_inv parse start full path ident ((t, pos, s), sent, k)"
  shows "run_inv parse start full path ident (tail_op_step parse ((t, pos, s), sent, k) ReadOp)"
proof (cases "nextLine s")
  case None
  then show ?thesis using assms by (simp add: readStep_def)
next
  case (Some lr)
  obtain l rest where lr: "lr = (l, rest)" by (cases lr)
  obtain n where n: "n \<le> length full" "scan parse pos s = drop n full" "sent = events_of (take n full)"
      "tail_spec start k (flags_of (take n full)) t" "tlPath t = path" "tlIdent t = ident"
      "\<exists>st. tlSaved t = Some st \<and> tsPath st = path \<and> tsIdent st = ident \<and> safe_offset start full k (tsOffset st)"
    using assms by (auto simp: run_inv_def)
  define lend where "lend = pos + int (length l)"
  define evt where "evt = (if trimNewline l = [] then None else parse (trimNewline l))"
  have sc: "scan parse pos s = (lend, evt) # scan parse lend rest"
    using Some lr by (subst scan.simps) (simp add: lend_def evt_def Let_def)
  then have dn: "drop n full = (lend, evt) # scan parse lend rest" using n(2) by simp
  then have lt: "n < length full" by (metis drop_eq_Nil list.distinct(1) not_less)
  have hd: "full ! n = (lend, evt)" and tl: "drop (Suc n) full = scan parse lend rest"
    using dn by (metis Cons_nth_drop_Suc lt list.inject)+
  have tk: "take (Suc n) full = take n full @ [(lend, evt)]" using hd lt by (simp add: take_Suc_conv_app_nth)
  have step: "tail_op_step parse ((t, pos, s), sent, k) ReadOp =
      ((record_line lend (evt \<noteq> None) t, lend, rest), sent @ (case evt of None \<Rightarrow> [] | Some e \<Rightarrow> [e]), k)"
    using Some lr by (simp add: readStep_def Let_def lend_def evt_def)
  have spec: "tail_spec start k (flags_of (take (Suc n) full)) (record_line lend (evt \<noteq> None) t)"
    using record_line_spec [OF n(4), of lend "evt \<noteq> None"] tk by (simp add: flags_of_def)
  show ?thesis
    unfolding run_inv_def step
    using lt tl tk n(3,5,6,7) spec record_line_keeps
    by (auto intro!: exI [of _ "Suc n"])
qed

lemma run_inv_ack:
  assumes "run_inv parse start full path ident ((t, pos, s), sent, k)"
  shows "run_inv parse start full path ident (tail_op_step parse ((t, pos, s), sent, k) (AckOp ok now))"
proof (cases "k < length sent")
  case False
  then show ?thesis using assms by simp
next
  case True
  obtain n where n: "n \<le> length full" "scan parse pos s = drop n full" "sent = events_of (take n full)"
      "tail_spec start k (flags_of (take n full)) t" "tlPath t = path" "tlIdent t = ident"
      "\<exists>st. tlSaved t = Some st \<and> tsPath st = path \<and> tsIdent st = ident \<and> safe_offset start full k (tsOffset st)"
    using assms by (auto simp: run_inv_def)
  have spec: "tail_spec start (Suc k) (flags_of (take n full)) (Ack ok now t)"
    using Ack_spec [OF n(4)] True n(3) by (simp add: emitted_count_flags)
  then have "\<exists>st. tlSaved (Ack ok now t) = Some st \<and> tsPath st = path \<and> tsIdent st = ident \<and>
      safe_offset start full (Suc k) (tsOffset st)"
    using Ack_keeps [of ok now t] n(5,6,7) tail_spec_safe [OF spec]
    by (metis le_SucI order_refl safe_offset_mono tail_state.select_convs(1,2,3))
  then show ?thesis using True n spec Ack_keeps [of ok now t] by (auto simp: run_inv_def)
qed

lemma run_inv_flush:
  assumes "run_inv parse start full path ident ((t, pos, s), sent, k)"
  shows "run_inv parse start full path ident (tail_op_step parse ((t, pos, s), sent, k) (FlushOp ok now))"
proof -
  obtain n where n: "n \<le> length full" "scan parse pos s = drop n full" "sent = events_of (take n full)"
      "tail_spec start k (flags_of (take n full)) t" "tlPath t = path" "tlIdent t = ident"
      "\<exists>st. tlSaved t = Some st \<and> tsPath st = path \<and> tsIdent st = ident \<and> safe_offset start full k (tsOffset st)"
    using assms by (auto simp: run_inv_def)
  have "\<exists>st. tlSaved (Flush ok now t) = Some st \<and> tsPath st = path \<and> tsIdent st = ident \<and>
      safe_offset start full k (tsOffset st)"
    using n(5,6,7) tail_spec_safe [OF n(4)] by (auto simp: Flush_def flushLocked_def)
  moreover have "tlPath (Flush ok now t) = path \<and> tlIdent (Flush ok now t) = ident"
    using n(5,6) by (simp add: Flush_def flushLocked_def)
  ultimately show ?thesis using n Flush_spec [OF n(4)] by (auto simp: run_inv_def)
qed

lemma run_inv_run:
  "run_inv parse start full path ident r \<Longrightarrow> run_inv parse start full path ident (foldl (tail_op_step parse) r ops)"
proof (induction ops arbitrary: r)
  case (Cons op ops)
  obtain t pos s sent k where r: "r = ((t, pos, s), sent, k)" by (cases r) auto
  have "run_inv parse start full path ident (tail_op_step parse r op)"
    using Cons.prems unfolding r by (cases op) (simp_all only: run_inv_read run_inv_ack run_inv_flush)
  then show ?case using Cons.IH by simp
qed simp

section \<open>At least once\<close>

text \<open>Reading again from the end of the \<open>m\<close>-th line gives the lines after it.\<close>

lemma scan_from_line:
  "m \<le> length (scan parse off s) \<Longrightarrow>
     (let e = (if m = 0 then off else fst (scan parse off s ! (m - 1))) in
      off \<le> e \<and> e \<le> off + int (length s) \<and> scan parse e (drop (nat (e - off)) s) = drop m (scan parse off s))"
proof (induction parse off s arbitrary: m rule: scan.induct)
  case (1 parse off s)
  show ?case
  proof (cases m)
    case 0
    then show ?thesis by simp
  next
    case (Suc j)
    then obtain l r where lr: "nextLine s = Some (l, r)"
      using "1.prems" by (subst (asm) scan.simps) (auto split: option.splits)
    define lend where "lend = off + int (length l)"
    define ev where "ev = (if trimNewline l = [] then None else parse (trimNewline l))"
    have sc: "scan parse off s = (lend, ev) # scan parse lend r"
      using lr by (subst scan.simps) (simp add: Let_def lend_def ev_def)
    have s: "s = l @ r" using nextLine_split [OF lr] by simp
    have j: "j \<le> length (scan parse lend r)" using "1.prems" Suc sc by simp
    define e where "e = (if j = 0 then lend else fst (scan parse lend r ! (j - 1)))"
    have ih: "lend \<le> e" "e \<le> lend + int (length r)" "scan parse e (drop (nat (e - lend)) r) = drop j (scan parse lend r)"
      using "1.IH" [OF lr refl refl refl, of j] j unfolding Let_def e_def lend_def by auto
    have eq: "(if m = 0 then off else fst (scan parse off s ! (m - 1))) = e"
      using Suc sc by (simp add: e_def nth_Cons')
    have "nat (e - off) = length l + nat (e - lend)" using ih(1) by (simp add: lend_def)
    then have "drop (nat (e - off)) s = drop (nat (e - lend)) r" by (simp add: s)
    then show ?thesis using ih Suc sc eq s by (simp add: Let_def lend_def)
  qed
qed

text \<open>
  The state in which \<open>openFile\<close> leaves a tailer that resumes at \<open>start\<close>.
\<close>

definition resumed_at :: "tailer \<Rightarrow> int \<Rightarrow> bool" where
  "resumed_at t start \<longleftrightarrow>
     tlResume t \<and> tlPending t = [] \<and> tlCommitted t = start \<and> 0 \<le> start \<and>
     (\<exists>st. tlSaved t = Some st \<and> tsPath st = tlPath t \<and> tsIdent st = tlIdent t \<and> tsOffset st = start)"

lemma openFile_resumed:
  assumes "openFile t True False sz ident = (t', info)" "oiMode info = ''resumed''"
  shows "resumed_at t' (oiFrom info)"
  using assms
  by (auto simp: openFile_def openMode_def loadState_def resumed_at_def Let_def split: if_splits option.splits)

lemma resumed_at_inv:
  assumes "resumed_at t start"
  shows "run_inv parse start (scan parse start s) (tlPath t) (tlIdent t) ((t, start, s), [], 0)"
proof -
  have "safe_offset start (scan parse start s) 0 start" unfolding safe_offset_def by (intro exI [of _ 0]) simp
  then show ?thesis
    using assms by (auto simp: run_inv_def resumed_at_def tail_spec_def intro!: exI [of _ 0])
qed

text \<open>
  Property C24. Delivery is at least once: for any interleaving of reading, acknowledging
  and flushing by a consumer that stores each event before it acknowledges it, whether the
  flushes succeed or not, a crash loses nothing. When the file is opened again, reading
  resumes at an offset from which every event that was not acknowledged is read again, in
  order; at most events that were acknowledged are skipped.
\<close>

theorem at_least_once:
  assumes "resumed_at t start" "start \<le> int (length file_text)"
    and "foldl (tail_op_step parse) ((t, start, drop (nat start) file_text), [], 0) ops = ((t', pos, s), sent, k)"
    and "openFile t' True False (int (length file_text)) (tlIdent t') = (t2, info)"
  shows "oiMode info = ''resumed'' \<and>
     (let all = events_of (scan parse start (drop (nat start) file_text)) in
      sent = take (length sent) all \<and> k \<le> length sent \<and>
      (\<exists>j \<le> k. events_of (scan parse (oiFrom info) (drop (nat (oiFrom info)) file_text)) = drop j all))"
proof -
  define tail_text where "tail_text = drop (nat start) file_text"
  define full where "full = scan parse start tail_text"
  have start: "0 \<le> start" using assms(1) by (simp add: resumed_at_def)
  have inv: "run_inv parse start full (tlPath t) (tlIdent t) ((t', pos, s), sent, k)"
    using run_inv_run [OF resumed_at_inv [OF assms(1), of parse tail_text], of ops] assms(3) by (simp add: full_def tail_text_def)
  obtain n st where n: "n \<le> length full" "sent = events_of (take n full)"
      "tail_spec start k (flags_of (take n full)) t'"
      "tlSaved t' = Some st" "tsPath st = tlPath t'" "tsIdent st = tlIdent t'" "safe_offset start full k (tsOffset st)"
    using inv by (auto simp: run_inv_def)
  obtain m where m: "m \<le> length full" "length (events_of (take m full)) \<le> k"
      "tsOffset st = (if m = 0 then start else fst (full ! (m - 1)))"
    using n(7) by (auto simp: safe_offset_def)
  have off: "start \<le> tsOffset st" "tsOffset st \<le> start + int (length tail_text)"
      "scan parse (tsOffset st) (drop (nat (tsOffset st - start)) tail_text) = drop m full"
    using scan_from_line [of m parse start tail_text] m(1,3) unfolding full_def Let_def by auto
  have len: "start + int (length tail_text) = int (length file_text)" using start assms(2) by (simp add: tail_text_def)
  have "nat (tsOffset st - start) + nat start = nat (tsOffset st)" using start off(1) by linarith
  then have "drop (nat (tsOffset st - start)) tail_text = drop (nat (tsOffset st)) file_text" by (simp add: tail_text_def)
  then have rest: "scan parse (tsOffset st) (drop (nat (tsOffset st)) file_text) = drop m full" using off(3) by simp
  have res: "tlResume t'" using n(3) by (simp add: tail_spec_def)
  have info: "info = \<lparr>oiMode = ''resumed'', oiFrom = tsOffset st, oiFileSize = int (length file_text)\<rparr>"
    using assms(4) res n(4,5,6) off(1,2) start len
    by (auto simp: openFile_def openMode_def loadState_def Let_def)
  have split: "events_of full = events_of (take m full) @ events_of (drop m full)"
      "events_of full = sent @ events_of (drop n full)"
    using n(2) by (metis append_take_drop_id events_of_simps(3))+
  then have "events_of (drop m full) = drop (length (events_of (take m full))) (events_of full)" by simp
  moreover have "k \<le> length sent"
    using n(2,3) by (simp add: tail_spec_def emitted_count_flags)
  ultimately show ?thesis
    using m(2) split(2) rest by (auto simp: info Let_def full_def tail_text_def)
qed

definition sample_ident :: file_ident where
  "sample_ident = \<lparr>fiDev = 1, fiIno = 2\<rparr>"

definition sample_tailer :: tailer where
  "sample_tailer = \<lparr>tlPath = ''f'', tlResume = True, tlPending = [], tlCommitted = 0, tlIdent = sample_ident,
     tlDirty = 0, tlLastFlush = 0,
     tlSaved = Some \<lparr>tsPath = ''f'', tsIdent = sample_ident, tsOffset = 0, tsUpdated = 0\<rparr>\<rparr>"

definition sample_text :: string where
  "sample_text = ''a'' @ [LF] @ ''b'' @ [LF]"

definition sample_ops :: "tail_op list" where
  "sample_ops = [ReadOp, ReadOp, AckOp True (2 * 10 ^ 9)]"

theorem at_least_once_witness:
  "resumed_at sample_tailer 0 \<and>
   (let ((t', pos, s), sent, k) = foldl (tail_op_step Some) ((sample_tailer, 0, drop (nat 0) sample_text), [], 0) sample_ops;
        (t2, info) = openFile t' True False (int (length sample_text)) (tlIdent t')
    in oiMode info = ''resumed'' \<and> k \<le> length sent)"
proof -
  have r: "resumed_at sample_tailer 0" by (simp add: resumed_at_def sample_tailer_def)
  obtain t' pos s sent k where run: "foldl (tail_op_step Some) ((sample_tailer, 0, drop (nat 0) sample_text), [], 0) sample_ops
      = ((t', pos, s), sent, k)"
    by (metis prod.exhaust)
  obtain t2 info where op: "openFile t' True False (int (length sample_text)) (tlIdent t') = (t2, info)"
    by (metis prod.exhaust)
  show ?thesis using at_least_once [OF r _ run op] r run op by (simp add: Let_def)
qed

text \<open>
  The limits of that guarantee: an acknowledgement does not say which event was
  stored. After two events were sent and one acknowledgement was made (the store of the first
  event failed, so only the second was acknowledged), a restart reads only the second event
  again. And without a saved state a crash before the first acknowledgement makes the next
  run start at the end of the file, past events that were sent and never stored.
\<close>

lemma unstored_event_skipped:
  "(let ((t', pos, s), sent, k) = foldl (tail_op_step Some) ((sample_tailer, 0, sample_text), [], 0) sample_ops;
        (t2, info) = openFile t' True False (int (length sample_text)) (tlIdent t')
    in sent = [''a'', ''b''] \<and> k = 1 \<and>
       events_of (scan Some (oiFrom info) (drop (nat (oiFrom info)) sample_text)) = [''b'']) \<and>
   (let ((t', pos, s), sent, k) = foldl (tail_op_step Some) ((sample_tailer\<lparr>tlSaved := None\<rparr>, 0, sample_text), [], 0) [ReadOp];
        (t2, info) = openFile t' True False (int (length sample_text)) (tlIdent t')
    in sent = [''a''] \<and> k = 0 \<and>
       events_of (scan Some (oiFrom info) (drop (nat (oiFrom info)) sample_text)) = [])"
  by (simp add: sample_ops_def sample_text_def readStep_def LF_def CR_def trimNewline_def sample_tailer_def
      record_line_def advanceLocked_def Ack_def flushLocked_def flushEvery_def flushEveryAcks_def openFile_def
      openMode_def loadState_def Let_def scan.simps)

end
