(* ===== verification/Tailer_Run.thy ===== *)
theory Tailer_Run
  imports Tailer
begin

text \<open>
  The goroutine \<open>Tailer.Run\<close> of \<open>internal/pipelock/tailer.go\<close>: waiting for the file, one turn of
  the read loop with its end-of-file, rotation and read-error branches, and the drain after
  \<open>Stop\<close>. What the system answers during a turn is the record \<open>turn_io\<close>; a run is a list of
  turns. The first part shows that the turns refine the reader of \<open>Tailer\<close>; the second what
  \<open>Stop\<close> does to the events on disk.
\<close>

section \<open>State and input of the loop\<close>

text \<open>
  A file only grows while it is open (\<open>rsFile\<close> is its text as far as it was read); a
  truncation shows as a size below the position. \<open>rsCur\<close> is where the buffered reader
  continues, \<open>rsPos\<close> the end of the last complete line.
\<close>

record run_state =
  rsT :: tailer
  rsOpen :: bool
  rsFile :: string
  rsCur :: nat
  rsPos :: int
  rsFirstOpen :: bool
  rsAppeared :: bool
  rsStopped :: bool
  rsDeadline :: time

text \<open>
  The branch a \<open>select\<close> that offers an event takes: the event was received, or the other case
  (the stop channel, or the drain timer once stopped) fired first. Go picks at random when
  both are ready.
\<close>

datatype send_choice = Delivered | OtherCase

text \<open>An opened file: its text, its identity, and whether seeking to the start succeeded.\<close>

type_synonym opened = "string \<times> file_ident \<times> bool"

record turn_io =
  tuGrow :: string
  tuStop :: bool
  tuReadErr :: bool
  tuSeekOk :: bool
  tuStat :: "(int \<times> bool) option"
  tuOpen :: "opened option"
  tuSend :: send_choice
  tuNow :: time
  tuEnd :: time

definition drainTimeout :: int where
  "drainTimeout = 2 * 10 ^ 9"

definition NewTailer :: "string \<Rightarrow> tailer" where
  "NewTailer path = \<lparr>tlPath = path, tlResume = False, tlPending = [], tlCommitted = 0,
     tlIdent = \<lparr>fiDev = 0, fiIno = 0\<rparr>, tlDirty = 0, tlLastFlush = 0, tlSaved = None\<rparr>"

text \<open>\<open>SetStateFile\<close> with a non-empty path; the argument is what that file holds.\<close>

definition SetStateFile :: "tail_state option \<Rightarrow> tailer \<Rightarrow> tailer" where
  "SetStateFile saved t = t\<lparr>tlResume := True, tlSaved := saved\<rparr>"

definition startRun :: "tailer \<Rightarrow> run_state" where
  "startRun t = \<lparr>rsT = t, rsOpen = False, rsFile = [], rsCur = 0, rsPos = 0, rsFirstOpen = True,
     rsAppeared = False, rsStopped = False, rsDeadline = 0\<rparr>"

section \<open>Operations\<close>

text \<open>The closure \<open>openFile\<close> of \<open>Run\<close>; the flag is its result.\<close>

definition tryOpen :: "opened option \<Rightarrow> run_state \<Rightarrow> run_state \<times> bool" where
  "tryOpen opn rs =
     (case opn of
        None \<Rightarrow> (rs\<lparr>rsOpen := False\<rparr>, False)
      | Some (content, ident, seekOk) \<Rightarrow>
          (case openFile (rsT rs) (rsFirstOpen rs) (rsAppeared rs) (int (length content)) ident of
             (t, info) \<Rightarrow>
               if \<not> seekOk then (rs\<lparr>rsFirstOpen := False, rsOpen := False\<rparr>, False)
               else (rs\<lparr>rsFirstOpen := False, rsT := t, rsOpen := True, rsFile := content,
                        rsCur := nat (oiFrom info), rsPos := oiFrom info\<rparr>, True)))"

text \<open>The first loop: whether \<open>stop\<close> is closed, what opening gives, whether the path is missing.\<close>

type_synonym wait_io = "bool \<times> opened option \<times> bool"

datatype wait_result = WaitStopped | Opened | StillWaiting

fun waitFile :: "wait_io list \<Rightarrow> run_state \<Rightarrow> run_state \<times> wait_result" where
  "waitFile [] rs = (rs, StillWaiting)"
| "waitFile ((stopped, opn, missing) # ws) rs =
     (if stopped then (rs, WaitStopped)
      else case tryOpen opn rs of
        (rs1, True) \<Rightarrow> (rs1, Opened)
      | (rs1, False) \<Rightarrow> waitFile ws (if missing then rs1\<lparr>rsAppeared := True\<rparr> else rs1))"

definition seeStop :: "turn_io \<Rightarrow> run_state \<Rightarrow> run_state" where
  "seeStop io rs =
     (if \<not> rsStopped rs \<and> tuStop io then rs\<lparr>rsStopped := True, rsDeadline := tuNow io + drainTimeout\<rparr> else rs)"

text \<open>End of file: rewind a partial line, reopen a replaced file, leave when draining.\<close>

definition atEOF :: "turn_io \<Rightarrow> run_state \<Rightarrow> run_state \<times> bool" where
  "atEOF io rs =
     (let frag = drop (rsCur rs) (rsFile rs);
          rs1 = rs\<lparr>rsCur := (if frag \<noteq> [] then (if tuSeekOk io then nat (rsPos rs) else length (rsFile rs)) else rsCur rs)\<rparr>
      in case tuStat io of
        None \<Rightarrow> (rs1, rsStopped rs1)
      | Some (sz, same) \<Rightarrow>
          if sz < rsPos rs1 \<or> \<not> same
          then (case tryOpen (tuOpen io) rs1 of
                  (rs2, True) \<Rightarrow> (rs2, False)
                | (rs2, False) \<Rightarrow> (rs2, rsStopped rs2))
          else (rs1, rsStopped rs1))"

text \<open>A complete line: recorded, then offered to the consumer if it parses.\<close>

definition onLine :: "(string \<Rightarrow> 'e option) \<Rightarrow> turn_io \<Rightarrow> string \<Rightarrow> run_state \<Rightarrow> run_state \<times> 'e option \<times> bool" where
  "onLine parse io l rs =
     (let pos = rsPos rs + int (length l); body = trimNewline l;
          evt = (if body = [] then None else parse body);
          rs1 = rs\<lparr>rsCur := rsCur rs + length l, rsPos := pos, rsT := record_line pos (evt \<noteq> None) (rsT rs)\<rparr>;
          late = (\<lambda>r. rsStopped r \<and> rsDeadline r < tuEnd io)
      in case evt of
        None \<Rightarrow> (rs1, None, late rs1)
      | Some e \<Rightarrow>
          (case tuSend io of
             Delivered \<Rightarrow> (rs1, Some e, late rs1)
           | OtherCase \<Rightarrow>
               if rsStopped rs1 then (rs1, None, True)
               else (let rs2 = rs1\<lparr>rsStopped := True, rsDeadline := tuNow io + drainTimeout\<rparr> in (rs2, None, late rs2))))"

text \<open>One turn of the loop: the new state, the event the consumer received, and whether \<open>Run\<close> returns.\<close>

definition runTurn :: "(string \<Rightarrow> 'e option) \<Rightarrow> turn_io \<Rightarrow> run_state \<Rightarrow> run_state \<times> 'e option \<times> bool" where
  "runTurn parse io rs =
     (let rs0 = seeStop io rs in
      if tuReadErr io \<or> \<not> rsOpen rs0 then
        (if rsStopped rs0 then (rs0\<lparr>rsOpen := False\<rparr>, None, True)
         else (fst (tryOpen (tuOpen io) rs0), None, False))
      else let rs1 = rs0\<lparr>rsFile := rsFile rs0 @ tuGrow io\<rparr> in
        case nextLine (drop (rsCur rs1) (rsFile rs1)) of
          None \<Rightarrow> (case atEOF io rs1 of (rs2, ret) \<Rightarrow> (rs2, None, ret))
        | Some (l, r) \<Rightarrow> onLine parse io l rs1)"

text \<open>A run: the events received, in order, until the loop returns or the turns are used up.\<close>

fun runLoop :: "(string \<Rightarrow> 'e option) \<Rightarrow> turn_io list \<Rightarrow> run_state \<Rightarrow> run_state \<times> 'e list \<times> bool" where
  "runLoop parse [] rs = (rs, [], False)"
| "runLoop parse (io # ios) rs =
     (case runTurn parse io rs of
        (rs1, evt, ret) \<Rightarrow>
          let sent = (case evt of None \<Rightarrow> [] | Some e \<Rightarrow> [e]) in
          if ret then (rs1, sent, True)
          else case runLoop parse ios rs1 of (rs2, evs, ret2) \<Rightarrow> (rs2, sent @ evs, ret2))"

section \<open>The turns refine the reader\<close>

text \<open>The reader stands at the end of a complete line of an open file.\<close>

definition aligned :: "run_state \<Rightarrow> bool" where
  "aligned rs \<longleftrightarrow> rsOpen rs \<and> 0 \<le> rsPos rs \<and> rsCur rs = nat (rsPos rs) \<and> rsCur rs \<le> length (rsFile rs)"

text \<open>A turn in which no file operation fails and the file was not replaced.\<close>

definition undisturbed :: "turn_io \<Rightarrow> run_state \<Rightarrow> bool" where
  "undisturbed io rs \<longleftrightarrow> \<not> tuReadErr io \<and> tuSeekOk io \<and>
     (case tuStat io of None \<Rightarrow> True | Some (sz, same) \<Rightarrow> int (length (rsFile rs @ tuGrow io)) \<le> sz \<and> same)"

definition unread :: "run_state \<Rightarrow> string" where
  "unread rs = drop (nat (rsPos rs)) (rsFile rs)"

lemma nextLine_drop_length: "nextLine (drop n s) = Some (l, r) \<Longrightarrow> n + length l \<le> length s \<and> drop (n + length l) s = r"
  using nextLine_split [of "drop n s" l r] by (metis add.commute append_eq_conv_conj drop_drop drop_eq_Nil
      le_add_diff_inverse length_append length_drop nat_add_left_cancel_le nat_le_linear self_append_conv2 le_add1)

lemma seeStop_fields [simp]:
  "rsT (seeStop io rs) = rsT rs" "rsOpen (seeStop io rs) = rsOpen rs" "rsFile (seeStop io rs) = rsFile rs"
  "rsCur (seeStop io rs) = rsCur rs" "rsPos (seeStop io rs) = rsPos rs"
  by (simp_all add: seeStop_def)

lemma unread_grow:
  assumes "aligned rs"
  shows "drop (rsCur rs) (rsFile rs @ tuGrow io) = unread rs @ tuGrow io"
  using assms by (simp add: aligned_def unread_def)

lemma turn_eof:
  assumes "aligned rs" "undisturbed io rs" "nextLine (unread rs @ tuGrow io) = None"
  shows "runTurn parse io rs = ((seeStop io rs)\<lparr>rsFile := rsFile rs @ tuGrow io, rsCur := nat (rsPos rs)\<rparr>, None, rsStopped (seeStop io rs))"
proof -
  define rs1 where "rs1 = (seeStop io rs)\<lparr>rsFile := rsFile rs @ tuGrow io\<rparr>"
  have pos: "rsPos rs \<le> int (length (rsFile rs @ tuGrow io))" using assms(1) by (auto simp: aligned_def)
  have "atEOF io rs1 = (rs1\<lparr>rsCur := nat (rsPos rs)\<rparr>, rsStopped rs1)"
    using assms(1,2) pos by (auto simp: atEOF_def rs1_def aligned_def undisturbed_def Let_def split: option.splits)
  then show ?thesis
    using assms unread_grow [OF assms(1)] by (simp add: runTurn_def Let_def rs1_def aligned_def undisturbed_def)
qed

lemma turn_line:
  assumes "aligned rs" "undisturbed io rs" "nextLine (unread rs @ tuGrow io) = Some (l, r)"
  shows "runTurn parse io rs = onLine parse io l ((seeStop io rs)\<lparr>rsFile := rsFile rs @ tuGrow io\<rparr>)"
  using assms unread_grow [OF assms(1)] by (simp add: runTurn_def Let_def aligned_def undisturbed_def)

lemma onLine_state:
  assumes "onLine parse io l rs = (rs', evt, ret)"
  defines "ev \<equiv> (if trimNewline l = [] then None else parse (trimNewline l))"
  shows "rsOpen rs' = rsOpen rs" "rsFile rs' = rsFile rs" "rsCur rs' = rsCur rs + length l"
    "rsPos rs' = rsPos rs + int (length l)" "rsT rs' = record_line (rsPos rs + int (length l)) (ev \<noteq> None) (rsT rs)"
    "tuSend io = Delivered \<Longrightarrow> evt = ev"
  using assms by (auto simp: onLine_def Let_def split: option.splits send_choice.splits if_splits)

lemma aligned_line:
  assumes "aligned rs" "nextLine (unread rs @ tuGrow io) = Some (l, r)"
    and "onLine parse io l ((seeStop io rs)\<lparr>rsFile := rsFile rs @ tuGrow io\<rparr>) = (rs', evt, ret)"
  shows "aligned rs' \<and> unread rs' = r"
proof -
  have cur: "nat (rsPos rs) + length l \<le> length (rsFile rs @ tuGrow io)"
      "drop (nat (rsPos rs) + length l) (rsFile rs @ tuGrow io) = r"
    using nextLine_drop_length [of "nat (rsPos rs)" "rsFile rs @ tuGrow io" l r] assms(1,2)
    by (simp_all add: aligned_def unread_def)
  have "nat (rsPos rs + int (length l)) = nat (rsPos rs) + length l"
    using assms(1) by (simp add: aligned_def nat_add_distrib)
  then show ?thesis
    using cur assms(1) onLine_state [OF assms(3)] by (simp add: aligned_def unread_def)
qed

text \<open>
  A turn of an undisturbed reader whose event is received is one step of the reader of
  \<open>Tailer\<close> on the unread text.
\<close>

lemma runTurn_refines:
  assumes "aligned rs" "undisturbed io rs" "tuSend io = Delivered" "runTurn parse io rs = (rs', evt, ret)"
  shows "aligned rs' \<and> rsFile rs' = rsFile rs @ tuGrow io \<and>
     readStep parse (rsT rs, rsPos rs, unread rs @ tuGrow io) = ((rsT rs', rsPos rs', unread rs'), evt)"
proof (cases "nextLine (unread rs @ tuGrow io)")
  case None
  then show ?thesis
    using assms turn_eof [OF assms(1,2) None, of parse]
    by (auto simp: aligned_def unread_def readStep_def nat_le_iff)
next
  case (Some lr)
  obtain l r where lr: "lr = (l, r)" by (cases lr)
  have on: "onLine parse io l ((seeStop io rs)\<lparr>rsFile := rsFile rs @ tuGrow io\<rparr>) = (rs', evt, ret)"
    using turn_line [OF assms(1,2)] Some assms(4) lr by metis
  show ?thesis
    using aligned_line [OF assms(1) _ on] Some lr onLine_state [OF on] assms(3)
    by (simp add: readStep_def Let_def)
qed

section \<open>Stopping\<close>

text \<open>A turn of the drain: nothing fails, the consumer takes the event, the deadline is not reached.\<close>

definition draining :: "time \<Rightarrow> int \<Rightarrow> turn_io \<Rightarrow> bool" where
  "draining deadline sz io \<longleftrightarrow> \<not> tuReadErr io \<and> tuSeekOk io \<and> tuGrow io = [] \<and> tuSend io = Delivered \<and>
     tuEnd io \<le> deadline \<and> (case tuStat io of None \<Rightarrow> True | Some (n, same) \<Rightarrow> sz \<le> n \<and> same)"

lemma scan_line:
  "nextLine s = Some (l, r) \<Longrightarrow>
     scan parse off s = (off + int (length l), if trimNewline l = [] then None else parse (trimNewline l))
        # scan parse (off + int (length l)) r"
  by (subst scan.simps) (simp add: Let_def)

lemma scan_none: "nextLine s = None \<Longrightarrow> scan parse off s = []"
  by (subst scan.simps) simp

text \<open>
  The state after draining: every remaining line is recorded, none is acknowledged.
\<close>

definition record_all :: "(int \<times> 'e option) list \<Rightarrow> tailer \<Rightarrow> tailer" where
  "record_all ls t = foldl (\<lambda>t (e, ev). record_line e (ev \<noteq> None) t) t ls"

lemma record_all_Cons [simp]: "record_all ((e, ev) # ls) t = record_all ls (record_line e (ev \<noteq> None) t)"
  by (simp add: record_all_def)

lemma record_all_Nil [simp]: "record_all [] t = t"
  by (simp add: record_all_def)

lemma drain_run:
  assumes "aligned rs" "rsStopped rs" "\<forall>io \<in> set ios. draining (rsDeadline rs) (int (length (rsFile rs))) io"
    and "length (scan parse (rsPos rs) (unread rs)) < length ios"
  shows "\<exists>rs'. runLoop parse ios rs = (rs', events_of (scan parse (rsPos rs) (unread rs)), True) \<and>
     rsT rs' = record_all (scan parse (rsPos rs) (unread rs)) (rsT rs) \<and> rsFile rs' = rsFile rs"
  using assms
proof (induction ios arbitrary: rs)
  case (Cons io ios)
  have d: "draining (rsDeadline rs) (int (length (rsFile rs))) io" using Cons.prems(3) by simp
  have u: "undisturbed io rs" using d by (auto simp: draining_def undisturbed_def split: option.splits)
  have g: "tuGrow io = []" "tuSend io = Delivered" using d by (auto simp: draining_def)
  have st: "seeStop io rs = rs" using Cons.prems(2) by (simp add: seeStop_def)
  show ?case
  proof (cases "nextLine (unread rs)")
    case None
    then show ?thesis
      using turn_eof [OF Cons.prems(1) u, of parse] g st Cons.prems(2) by (simp add: scan_none)
  next
    case (Some lr)
    obtain l r where lr: "lr = (l, r)" by (cases lr)
    obtain rs1 evt ret where t1: "runTurn parse io rs = (rs1, evt, ret)" by (metis prod.exhaust)
    have on: "onLine parse io l rs = (rs1, evt, ret)"
      using turn_line [OF Cons.prems(1) u, of l r parse] Some lr g st t1 by simp
    note s1 = onLine_state [OF on]
    have keep: "rsStopped rs1" "rsDeadline rs1 = rsDeadline rs" "\<not> ret"
      using on Cons.prems(2) d by (auto simp: onLine_def Let_def draining_def split: option.splits)
    have al: "aligned rs1 \<and> unread rs1 = r"
      using aligned_line [OF Cons.prems(1), of io l r parse rs1 evt ret] Some lr g st on by simp
    have sc: "scan parse (rsPos rs) (unread rs) = (rsPos rs1, evt) # scan parse (rsPos rs1) (unread rs1)"
      using scan_line [of "unread rs" l r parse "rsPos rs"] Some lr s1 g al by simp
    have "\<exists>rs'. runLoop parse ios rs1 = (rs', events_of (scan parse (rsPos rs1) (unread rs1)), True) \<and>
        rsT rs' = record_all (scan parse (rsPos rs1) (unread rs1)) (rsT rs1) \<and> rsFile rs' = rsFile rs1"
      using Cons.prems sc keep al s1(2) by (intro Cons.IH) simp_all
    moreover have "rsT rs1 = record_line (rsPos rs1) (evt \<noteq> None) (rsT rs)" using s1 g by simp
    ultimately show ?thesis using t1 keep sc s1(2) by (auto simp: Let_def)
  qed
qed simp

text \<open>
  \<open>Stop\<close> drains: once the loop has seen the stop signal, and as long as the consumer
  takes the events within the deadline, the loop delivers every complete line that is on
  disk, in order, and returns, after at most one turn more than there are lines.
\<close>

lemma Stop_drains_file:
  assumes "aligned rs" "rsStopped rs"
    and "\<forall>io \<in> set ios. draining (rsDeadline rs) (int (length (rsFile rs))) io"
    and "length (scan parse (rsPos rs) (unread rs)) < length ios"
  shows "\<exists>rs'. runLoop parse ios rs = (rs', events_of (scan parse (rsPos rs) (unread rs)), True)"
  using drain_run [OF assms] by blast

section \<open>The event at hand when Stop arrives\<close>

text \<open>The committed offset is exactly the end of the longest prefix that is acknowledged.\<close>

lemma advance_mark_exact:
  assumes "advance start (mark k ls) = (c, ps)" "k \<le> emitted_count ls"
  shows "\<exists>m. m \<le> length ls \<and> emitted_count (take m ls) = k \<and>
     c = (if m = 0 then start else fst (ls ! (m - 1)))"
  using assms
proof (induction k ls arbitrary: start rule: mark.induct)
  case (1 k)
  then show ?case by simp
next
  case (2 k e b ls)
  show ?case
  proof (cases "b \<and> k = 0")
    case True
    then show ?thesis using "2.prems" by (intro exI [of _ 0]) simp
  next
    case False
    define j where "j = (if b then k - 1 else k)"
    have adv: "advance e (mark j ls) = (c, ps)" "j \<le> emitted_count ls"
      using "2.prems" False by (cases k; auto simp: j_def split: if_splits)+
    have "\<exists>m. m \<le> length ls \<and> emitted_count (take m ls) = j \<and> c = (if m = 0 then e else fst (ls ! (m - 1)))"
      using adv False "2.IH" by (cases b; cases k) (auto simp: j_def)
    then obtain m where "m \<le> length ls" "emitted_count (take m ls) = j" "c = (if m = 0 then e else fst (ls ! (m - 1)))"
      by blast
    then show ?thesis
      using False by (intro exI [of _ "Suc m"]) (auto simp: j_def nth_Cons' split: if_splits)
  qed
qed

lemma record_all_spec:
  "tail_spec start k ls t \<Longrightarrow> tail_spec start k (ls @ flags_of ms) (record_all ms t)"
proof (induction ms arbitrary: ls t)
  case (Cons x ms)
  obtain e ev where x: "x = (e, ev)" by (cases x)
  show ?case
    using Cons.IH [OF record_line_spec [OF Cons.prems, of e "ev \<noteq> None"]] x by (simp add: flags_of_def)
qed simp

lemma acks_spec:
  "tail_spec start k ls t \<Longrightarrow> k + length nows \<le> emitted_count ls \<Longrightarrow>
     tail_spec start (k + length nows) ls (foldl (\<lambda>t now. Ack True now t) t nows)"
proof (induction nows arbitrary: k t)
  case (Cons now nows)
  show ?case
    using Cons.IH [OF Ack_spec [OF Cons.prems(1), of True now]] Cons.prems(2) by simp
qed simp

lemma tail_spec_reread:
  assumes "tail_spec start k (flags_of (scan parse start s)) t"
  shows "start \<le> tlCommitted t \<and> tlCommitted t \<le> start + int (length s) \<and>
     events_of (scan parse (tlCommitted t) (drop (nat (tlCommitted t - start)) s)) = drop k (events_of (scan parse start s))"
proof -
  define full where "full = scan parse start s"
  obtain m where m: "m \<le> length full" "emitted_count (take m (flags_of full)) = k"
      "tlCommitted t = (if m = 0 then start else fst (flags_of full ! (m - 1)))"
    using advance_mark_exact [of start k "flags_of full"] assms unfolding tail_spec_def full_def by (metis flags_of_simps(3))
  have k: "length (events_of (take m full)) = k" using m(2) by (simp add: emitted_count_flags)
  have "fst (flags_of full ! (m - 1)) = fst (full ! (m - 1))" if "m \<noteq> 0"
    using m(1) that by (cases "full ! (m - 1)") (simp add: flags_of_def)
  then have c: "tlCommitted t = (if m = 0 then start else fst (full ! (m - 1)))" using m(3) by simp
  have "events_of full = events_of (take m full) @ events_of (drop m full)"
    by (metis append_take_drop_id events_of_simps(3))
  then have "events_of (drop m full) = drop k (events_of full)" using k by simp
  then show ?thesis
    using scan_from_line [of m parse start s] m(1) c unfolding Let_def full_def by auto
qed

text \<open>What a restart reads after the consumer acknowledged and the position was flushed.\<close>

definition reread :: "(string \<Rightarrow> 'e option) \<Rightarrow> tailer \<Rightarrow> string \<Rightarrow> string \<times> 'e list" where
  "reread parse t file_content =
     (case openFile t True False (int (length file_content)) (tlIdent t) of
        (t2, info) \<Rightarrow> (oiMode info, events_of (scan parse (oiFrom info) (drop (nat (oiFrom info)) file_content))))"

lemma reread_flushed:
  assumes "tail_spec start k (flags_of (scan parse start (drop (nat start) s))) t" "0 \<le> start" "start \<le> int (length s)"
  shows "reread parse (Flush True now t) s = (''resumed'', drop k (events_of (scan parse start (drop (nat start) s))))"
proof -
  define c where "c = tlCommitted t"
  have c: "start \<le> c" "c \<le> int (length s)"
      "events_of (scan parse c (drop (nat (c - start)) (drop (nat start) s))) = drop k (events_of (scan parse start (drop (nat start) s)))"
    using tail_spec_reread [OF assms(1)] assms(2,3) by (auto simp: c_def)
  have "nat (c - start) + nat start = nat c" using c(1) assms(2) by linarith
  then have "drop (nat (c - start)) (drop (nat start) s) = drop (nat c) s" by simp
  moreover have "tlResume t" using assms(1) by (simp add: tail_spec_def)
  ultimately show ?thesis
    using c assms(2) by (simp add: reread_def Flush_def flushLocked_def openFile_def openMode_def loadState_def Let_def c_def)
qed

lemma resumed_spec: "resumed_at t start \<Longrightarrow> tail_spec start 0 [] t"
  by (simp add: resumed_at_def tail_spec_def)

lemma dropped_turn:
  assumes "aligned rs" "\<not> rsStopped rs" "undisturbed io rs" "tuGrow io = []" "tuSend io = OtherCase" "\<not> tuStop io"
    and "tuEnd io \<le> tuNow io + drainTimeout" "scan parse (rsPos rs) (unread rs) = (off, Some e) # rest"
  shows "\<exists>rs1. runTurn parse io rs = (rs1, None, False) \<and> aligned rs1 \<and> rsStopped rs1 \<and> rsFile rs1 = rsFile rs \<and>
     rsDeadline rs1 = tuNow io + drainTimeout \<and> rsT rs1 = record_line off True (rsT rs) \<and>
     scan parse (rsPos rs1) (unread rs1) = rest"
proof -
  obtain l r where lr: "nextLine (unread rs) = Some (l, r)"
    using assms(8) scan_none [of "unread rs" parse "rsPos rs"] by (cases "nextLine (unread rs)") auto
  have sc: "off = rsPos rs + int (length l)" "(if trimNewline l = [] then None else parse (trimNewline l)) = Some e"
      "rest = scan parse off r"
    using scan_line [OF lr, of parse "rsPos rs"] assms(8) by auto
  have st: "seeStop io rs = rs" using assms(6) by (simp add: seeStop_def)
  obtain rs1 evt ret where t1: "runTurn parse io rs = (rs1, evt, ret)" by (metis prod.exhaust)
  have on: "onLine parse io l rs = (rs1, evt, ret)"
    using turn_line [OF assms(1,3), of l r parse] lr assms(4) st t1 by simp
  have "aligned rs1 \<and> unread rs1 = r"
    using aligned_line [OF assms(1), of io l r parse rs1 evt ret] lr assms(4) st on by simp
  moreover have "evt = None \<and> \<not> ret \<and> rsStopped rs1 \<and> rsDeadline rs1 = tuNow io + drainTimeout"
    using on assms(2,5,7) sc(2) by (auto simp: onLine_def Let_def split: if_splits)
  ultimately show ?thesis using t1 onLine_state [OF on] sc by simp
qed

text \<open>
  Property C27. An event the reader holds when \<open>Stop\<close> arrives is lost, although the position file
  is meant to make it read again: if the \<open>select\<close> takes the stop channel instead of handing
  the event \<open>e\<close> over, the drain delivers the events after it; their acknowledgements are
  counted from the oldest unacknowledged line, which is that of \<open>e\<close>. The next run then reads
  the last event a second time and never reads \<open>e\<close> (unless \<open>e\<close> was itself the last one).
\<close>

theorem stop_drops_event:
  assumes "aligned rs" "\<not> rsStopped rs" "resumed_at (rsT rs) (rsPos rs)"
    and "undisturbed io rs" "tuGrow io = []" "tuSend io = OtherCase" "\<not> tuStop io" "tuEnd io \<le> tuNow io + drainTimeout"
    and "scan parse (rsPos rs) (unread rs) = (off, Some e) # rest"
    and "\<forall>io' \<in> set ios. draining (tuNow io + drainTimeout) (int (length (rsFile rs))) io'" "length rest < length ios"
    and "length nows = length (events_of rest)"
  shows "\<exists>rs'. runLoop parse (io # ios) rs = (rs', events_of rest, True) \<and>
     reread parse (Flush True now (foldl (\<lambda>t now. Ack True now t) (rsT rs') nows)) (rsFile rs) =
       (''resumed'', [last (e # events_of rest)])"
proof -
  obtain rs1 where r1: "runTurn parse io rs = (rs1, None, False)" "aligned rs1" "rsStopped rs1" "rsFile rs1 = rsFile rs"
      "rsDeadline rs1 = tuNow io + drainTimeout" "rsT rs1 = record_line off True (rsT rs)"
      "scan parse (rsPos rs1) (unread rs1) = rest"
    using dropped_turn [OF assms(1,2,4,5,6,7,8,9)] by blast
  obtain rs' where r2: "runLoop parse ios rs1 = (rs', events_of rest, True)" "rsT rs' = record_all rest (rsT rs1)"
    using drain_run [OF r1(2,3), of ios parse] assms(10,11) r1(4,5,7) by auto
  have all: "flags_of (scan parse (rsPos rs) (unread rs)) = [(off, True)] @ flags_of rest"
    using assms(9) by (simp add: flags_of_def)
  have "tail_spec (rsPos rs) 0 (flags_of (scan parse (rsPos rs) (unread rs))) (rsT rs')"
    using record_all_spec [OF record_line_spec [OF resumed_spec [OF assms(3)], of off True], of rest] r2(2) r1(6) all by simp
  then have "tail_spec (rsPos rs) (length nows) (flags_of (scan parse (rsPos rs) (unread rs)))
      (foldl (\<lambda>t now. Ack True now t) (rsT rs') nows)"
    using acks_spec [of "rsPos rs" 0 _ "rsT rs'" nows] all assms(12) by (simp add: emitted_count_flags)
  then have "reread parse (Flush True now (foldl (\<lambda>t now. Ack True now t) (rsT rs') nows)) (rsFile rs) =
      (''resumed'', drop (length nows) (e # events_of rest))"
    using reread_flushed [of "rsPos rs" "length nows" parse "rsFile rs"] assms(1,9) by (auto simp: aligned_def unread_def)
  moreover have "drop (length es) (x # es) = [last (x # es)]" for x :: 'a and es
    by (induction es arbitrary: x) auto
  ultimately show ?thesis using r1(1) r2(1) assms(12) by (auto simp: Let_def)
qed

definition sample_run :: run_state where
  "sample_run = \<lparr>rsT = sample_tailer, rsOpen = True, rsFile = sample_text, rsCur = 0, rsPos = 0, rsFirstOpen = False,
     rsAppeared = False, rsStopped = False, rsDeadline = 0\<rparr>"

definition sample_turn :: turn_io where
  "sample_turn = \<lparr>tuGrow = [], tuStop = False, tuReadErr = False, tuSeekOk = True, tuStat = Some (4, True), tuOpen = None,
     tuSend = Delivered, tuNow = 0, tuEnd = 1\<rparr>"

lemma sample_scan: "scan Some 0 sample_text = [(2, Some ''a''), (4, Some ''b'')]"
  by (simp add: sample_text_def LF_def CR_def trimNewline_def Let_def scan.simps)

theorem stop_drops_event_witness:
  "\<exists>rs'. runLoop Some (sample_turn\<lparr>tuSend := OtherCase\<rparr> # [sample_turn, sample_turn]) sample_run = (rs', [''b''], True) \<and>
     reread Some (Flush True 9 (foldl (\<lambda>t now. Ack True now t) (rsT rs') [8])) sample_text = (''resumed'', [''b''])"
proof -
  have sc: "scan Some (rsPos sample_run) (unread sample_run) = (2, Some ''a'') # [(4, Some ''b'')]"
    using sample_scan by (simp add: sample_run_def unread_def)
  have "resumed_at (rsT sample_run) (rsPos sample_run)" by (simp add: resumed_at_def sample_tailer_def sample_run_def)
  then show ?thesis
    using stop_drops_event [OF _ _ _ _ _ _ _ _ sc, of "sample_turn\<lparr>tuSend := OtherCase\<rparr>" "[sample_turn, sample_turn]" "[8]" 9]
    by (simp add: sample_run_def sample_turn_def aligned_def undisturbed_def draining_def drainTimeout_def sample_text_def)
qed

lemma Stop_drains_file_witness:
  "\<exists>rs'. runLoop Some [sample_turn, sample_turn, sample_turn] (sample_run\<lparr>rsStopped := True, rsDeadline := 5\<rparr>) =
     (rs', [''a'', ''b''], True)"
  using Stop_drains_file [of "sample_run\<lparr>rsStopped := True, rsDeadline := 5\<rparr>" "[sample_turn, sample_turn, sample_turn]" Some] sample_scan
  by (simp add: sample_run_def sample_turn_def aligned_def draining_def unread_def sample_text_def)

end
