(* ===== verification/Evidence_Tailer.thy ===== *)
theory Evidence_Tailer
  imports Tailer_Run
begin

text \<open>
  The reader of pipelock's flight-recorder directory, \<open>internal/pipelock/evidence_tailer.go\<close>. The
  first part is the follower of one file (\<open>follow\<close>): every interleaving of the recorder's
  writes with the reader's turns delivers the complete lines, in order. The second is the
  discovery of files (\<open>scan\<close>, \<open>Run\<close>, \<open>Stop\<close>) as a step relation between the polling goroutine,
  the followers and the caller of \<open>Stop\<close>.
\<close>

section \<open>Following one file\<close>

record follower =
  flText :: string
  flRead :: nat
  flPending :: string
  flStopped :: bool
  flDeadline :: time

record follow_io =
  foGrow :: string
  foStop :: bool
  foErr :: bool
  foSend :: send_choice
  foNow :: time
  foEnd :: time

definition openFollower :: "string \<Rightarrow> bool \<Rightarrow> follower" where
  "openFollower text fromStart =
     \<lparr>flText = text, flRead = (if fromStart then 0 else length text), flPending = [], flStopped = False, flDeadline = 0\<rparr>"

text \<open>The body of a complete line: parsed, then offered to the consumer.\<close>

definition offerLine :: "(string \<Rightarrow> 'e option) \<Rightarrow> follow_io \<Rightarrow> string \<Rightarrow> follower \<Rightarrow> follower \<times> 'e option \<times> bool" where
  "offerLine parse io line fl =
     (if line = [] then (fl, None, False)
      else case parse line of
        None \<Rightarrow> (fl, None, False)
      | Some e \<Rightarrow>
          (case foSend io of
             Delivered \<Rightarrow> (fl, Some e, False)
           | OtherCase \<Rightarrow>
               if flStopped fl then (fl, None, True)
               else (fl\<lparr>flStopped := True, flDeadline := foNow io + drainTimeout\<rparr>, None, False)))"

text \<open>
  One turn: the new state, the event that was received, and whether \<open>follow\<close> returns. A read
  error other than end of file ends it: what \<open>ReadBytes\<close> returns with it has no newline, so
  nothing is parsed.
\<close>

definition followTurn :: "(string \<Rightarrow> 'e option) \<Rightarrow> follow_io \<Rightarrow> follower \<Rightarrow> follower \<times> 'e option \<times> bool" where
  "followTurn parse io fl =
     (let fl0 = (if \<not> flStopped fl \<and> foStop io then fl\<lparr>flStopped := True, flDeadline := foNow io + drainTimeout\<rparr> else fl) in
      if foErr io then (fl0, None, True)
      else let text = flText fl0 @ foGrow io; rest = drop (flRead fl0) text;
               (chunk, eof) = (case nextLine rest of Some (l, r) \<Rightarrow> (l, False) | None \<Rightarrow> (rest, True));
               pend = flPending fl0 @ chunk;
               fl1 = fl0\<lparr>flText := text, flRead := flRead fl0 + length chunk, flPending := pend\<rparr>;
               (fl2, evt, ret) =
                 (if pend \<noteq> [] \<and> last pend = LF
                  then offerLine parse io (trimNewline pend) (fl1\<lparr>flPending := []\<rparr>)
                  else (fl1, None, False))
           in if ret then (fl2, evt, True)
              else if eof then (fl2, evt, flStopped fl2)
              else (fl2, evt, flStopped fl2 \<and> flDeadline fl2 < foEnd io))"

fun followLoop :: "(string \<Rightarrow> 'e option) \<Rightarrow> follow_io list \<Rightarrow> follower \<Rightarrow> follower \<times> 'e list \<times> bool" where
  "followLoop parse [] fl = (fl, [], False)"
| "followLoop parse (io # ios) fl =
     (case followTurn parse io fl of
        (fl1, evt, ret) \<Rightarrow>
          let sent = (case evt of None \<Rightarrow> [] | Some e \<Rightarrow> [e]) in
          if ret then (fl1, sent, True)
          else case followLoop parse ios fl1 of (fl2, evs, ret2) \<Rightarrow> (fl2, sent @ evs, ret2))"

section \<open>Complete lines, in order\<close>

text \<open>The events of the complete lines of a text.\<close>

definition line_events :: "(string \<Rightarrow> 'e option) \<Rightarrow> string \<Rightarrow> 'e list" where
  "line_events parse s = events_of (scan parse 0 s)"

lemma events_scan_offset: "events_of (scan parse off s) = events_of (scan parse off' s)"
proof (induction parse off s arbitrary: off' rule: scan.induct)
  case (1 parse off s)
  show ?case
  proof (cases "nextLine s")
    case (Some lr)
    obtain l r where lr: "lr = (l, r)" by (cases lr)
    have "events_of (scan parse (off + int (length l)) r) = events_of (scan parse (off' + int (length l)) r)"
      using "1.IH" [OF Some lr [symmetric] refl refl] by simp
    then show ?thesis using Some lr by (simp add: scan_line)
  qed (simp add: scan_none)
qed

lemma nextLine_no_LF: "LF \<notin> set s \<longleftrightarrow> nextLine s = None"
  by (induction s) (auto split: option.splits)

lemma nextLine_pending: "LF \<notin> set p \<Longrightarrow> nextLine s = Some (l, r) \<Longrightarrow> nextLine (p @ s) = Some (p @ l, r)"
  by (induction p) auto

lemma nextLine_ends: "nextLine s = Some (l, r) \<Longrightarrow> last l = LF \<and> l \<noteq> []"
  by (induction s arbitrary: l) (auto split: if_splits option.splits)

lemma nextLine_self: "nextLine s = Some (l, r) \<Longrightarrow> nextLine l = Some (l, [])"
  by (induction s arbitrary: l) (auto split: if_splits option.splits)

lemma nextLine_append: "nextLine s = Some (l, r) \<Longrightarrow> nextLine (s @ t) = Some (l, r @ t)"
  by (induction s arbitrary: l) (auto split: if_splits option.splits)

lemma line_events_none: "LF \<notin> set s \<Longrightarrow> line_events parse s = []"
  by (simp add: line_events_def scan_none nextLine_no_LF)

lemma line_events_line:
  assumes "nextLine s = Some (l, r)"
  shows "line_events parse s =
     (case (if trimNewline l = [] then None else parse (trimNewline l)) of None \<Rightarrow> [] | Some e \<Rightarrow> [e]) @ line_events parse r"
  using scan_line [OF assms, of parse 0] events_scan_offset [of parse 0 r "int (length l)"]
  by (simp add: line_events_def)

lemma line_events_append:
  "s = [] \<or> last s = LF \<Longrightarrow> line_events parse (s @ t) = line_events parse s @ line_events parse t"
proof (induction "length s" arbitrary: s rule: less_induct)
  case less
  show ?case
  proof (cases "nextLine s")
    case None
    then have "s = []" using less.prems nextLine_no_LF [of s] last_in_set [of s] by metis
    then show ?thesis by (simp add: line_events_none)
  next
    case (Some lr)
    obtain l r where lr: "nextLine s = Some (l, r)" using Some by (cases lr) auto
    have s: "s = l @ r" using nextLine_split [OF lr] by simp
    have "line_events parse (r @ t) = line_events parse r @ line_events parse t"
      using less.hyps [of r] less.prems nextLine_length [OF lr] s by (cases "r = []") auto
    then show ?thesis using line_events_line [OF lr, of parse] line_events_line [OF nextLine_append [OF lr], of parse t] by simp
  qed
qed

text \<open>
  The invariant of a follower: the text is what lies before the start, the lines read and
  delivered, a pending fragment without a newline, and the part not yet read.
\<close>

definition follow_inv :: "(string \<Rightarrow> 'e option) \<Rightarrow> string \<Rightarrow> follower \<Rightarrow> 'e list \<Rightarrow> bool" where
  "follow_inv parse before fl sent \<longleftrightarrow>
     (\<exists>done rest. flText fl = before @ done @ flPending fl @ rest \<and>
        flRead fl = length (before @ done @ flPending fl) \<and> LF \<notin> set (flPending fl) \<and>
        (done = [] \<or> last done = LF) \<and> sent = line_events parse done)"

lemma follow_inv_open:
  "follow_inv parse (if fromStart then [] else text) (openFollower text fromStart) []"
  by (auto simp: follow_inv_def openFollower_def line_events_none)

lemma follow_inv_turn:
  assumes "follow_inv parse before fl sent" "foSend io = Delivered" "\<not> foErr io" "followTurn parse io fl = (fl', evt, ret)"
  shows "follow_inv parse before fl' (sent @ (case evt of None \<Rightarrow> [] | Some e \<Rightarrow> [e])) \<and>
     flText fl' = flText fl @ foGrow io"
proof -
  obtain ls rest where inv: "flText fl = before @ ls @ flPending fl @ rest" "flRead fl = length (before @ ls @ flPending fl)"
      "LF \<notin> set (flPending fl)" "ls = [] \<or> last ls = LF" "sent = line_events parse ls"
    using assms(1) by (auto simp: follow_inv_def)
  have rd: "drop (flRead fl) (flText fl @ foGrow io) = rest @ foGrow io" by (simp add: inv(1,2))
  show ?thesis
  proof (cases "nextLine (rest @ foGrow io)")
    case None
    have nl: "LF \<notin> set (rest @ foGrow io)" using None nextLine_no_LF by blast
    then have "\<not> (flPending fl @ rest @ foGrow io \<noteq> [] \<and> last (flPending fl @ rest @ foGrow io) = LF)"
      using inv(3) last_in_set [of "flPending fl @ rest @ foGrow io"] by (metis Un_iff set_append)
    then have fl': "evt = None" "flText fl' = flText fl @ foGrow io" "flPending fl' = flPending fl @ rest @ foGrow io"
        "flRead fl' = flRead fl + length (rest @ foGrow io)"
      using assms(3,4) None rd by (auto simp: followTurn_def Let_def split: if_splits)
    then show ?thesis
      unfolding follow_inv_def using inv nl by (intro conjI exI [of _ ls] exI [of _ "[]"]) simp_all
  next
    case (Some lr)
    obtain l r where lr: "nextLine (rest @ foGrow io) = Some (l, r)" using Some by (cases lr) auto
    define line where "line = flPending fl @ l"
    have line: "line \<noteq> []" "last line = LF" using nextLine_ends [OF lr] by (simp_all add: line_def)
    have fl': "evt = (if trimNewline line = [] then None else parse (trimNewline line))"
        "flText fl' = flText fl @ foGrow io" "flPending fl' = []" "flRead fl' = flRead fl + length l"
      using assms(2,3,4) lr rd line
      by (auto simp: followTurn_def Let_def offerLine_def line_def split: if_splits option.splits)
    have "nextLine line = Some (line, [])"
      using nextLine_pending [OF inv(3) nextLine_self [OF lr]] by (simp add: line_def)
    then have "line_events parse line = (case evt of None \<Rightarrow> [] | Some e \<Rightarrow> [e])"
      using line_events_line [of line line "[]" parse] fl'(1) by (simp add: line_events_none)
    then have ev: "sent @ (case evt of None \<Rightarrow> [] | Some e \<Rightarrow> [e]) = line_events parse (ls @ line)"
      using line_events_append [OF inv(4), of parse line] inv(5) by simp
    have "flText fl' = before @ (ls @ line) @ r" using inv(1) fl'(2) nextLine_split [OF lr] by (simp add: line_def)
    then show ?thesis
      unfolding follow_inv_def using ev fl' inv(2) line
      by (intro conjI exI [of _ "ls @ line"] exI [of _ r]) (simp_all add: line_def)
  qed
qed

lemma follow_inv_loop:
  assumes "follow_inv parse before fl sent" "\<forall>io \<in> set ios. foSend io = Delivered \<and> \<not> foErr io"
    and "followLoop parse ios fl = (fl', evs, ret)"
  shows "follow_inv parse before fl' (sent @ evs)"
  using assms
proof (induction ios arbitrary: fl sent evs fl' ret)
  case (Cons io ios)
  obtain fl1 evt r1 where t: "followTurn parse io fl = (fl1, evt, r1)" by (metis prod.exhaust)
  obtain fl2 evs2 r2 where l: "followLoop parse ios fl1 = (fl2, evs2, r2)" by (metis prod.exhaust)
  have inv1: "follow_inv parse before fl1 (sent @ (case evt of None \<Rightarrow> [] | Some e \<Rightarrow> [e]))"
    using follow_inv_turn [OF Cons.prems(1) _ _ t] Cons.prems(2) by simp
  show ?case
  proof (cases r1)
    case True
    then show ?thesis using inv1 Cons.prems(3) t by (auto simp: Let_def)
  next
    case False
    then have "fl' = fl2" "evs = (case evt of None \<Rightarrow> [] | Some e \<Rightarrow> [e]) @ evs2"
      using Cons.prems(3) t l by (auto simp: Let_def)
    then show ?thesis using Cons.IH [OF inv1 _ l] Cons.prems(2) by simp
  qed
qed simp

lemma follow_inv_prefix:
  assumes "follow_inv parse before fl sent"
  shows "\<exists>rest. sent @ rest = line_events parse (drop (length before) (flText fl)) \<and>
     (flRead fl = length (flText fl) \<longrightarrow> rest = [])"
proof -
  obtain ls r where inv: "flText fl = before @ ls @ flPending fl @ r" "flRead fl = length (before @ ls @ flPending fl)"
      "LF \<notin> set (flPending fl)" "ls = [] \<or> last ls = LF" "sent = line_events parse ls"
    using assms by (auto simp: follow_inv_def)
  have "line_events parse (drop (length before) (flText fl)) = sent @ line_events parse (flPending fl @ r)"
    using line_events_append [OF inv(4), of parse "flPending fl @ r"] inv(1,5) by simp
  moreover have "flRead fl = length (flText fl) \<Longrightarrow> line_events parse (flPending fl @ r) = []"
    using inv(1,2,3) by (simp add: line_events_none)
  ultimately show ?thesis by auto
qed


definition sample_follow :: "string \<Rightarrow> follow_io" where
  "sample_follow grow = \<lparr>foGrow = grow, foStop = False, foErr = False, foSend = Delivered, foNow = 0, foEnd = 0\<rparr>"


section \<open>Discovering files\<close>

text \<open>
  The polling goroutine \<open>Run\<close> is at one of four places: about to scan, waiting in \<open>select\<close>,
  waiting for the followers after the final scan, or returned. \<open>evFollowed\<close> is the map
  \<open>followed\<close> with the \<open>fromStart\<close> flag each follower was launched with, \<open>evActive\<close> the followers
  the wait group still counts, \<open>evBoot\<close> (not in the code) the files the first scan saw.
\<close>

datatype run_place = AtScan | AtSelect | AtWait | RunReturned

record ev_sys =
  evDir :: "string list"
  evPlace :: run_place
  evFirstScan :: bool
  evFollowed :: "(string \<times> bool) list"
  evActive :: "string list"
  evBoot :: "string list"
  evStop :: bool
  evStopReturned :: bool

definition NewEvidenceTailer :: "string list \<Rightarrow> ev_sys" where
  "NewEvidenceTailer files = \<lparr>evDir = files, evPlace = AtScan, evFirstScan = True, evFollowed = [], evActive = [],
     evBoot = [], evStop = False, evStopReturned = False\<rparr>"

definition scanFile :: "bool \<Rightarrow> ev_sys \<Rightarrow> string \<Rightarrow> ev_sys" where
  "scanFile fromStart s path =
     (if path \<in> fst ` set (evFollowed s) then s
      else s\<lparr>evFollowed := evFollowed s @ [(path, fromStart)], evActive := evActive s @ [path]\<rparr>)"

text \<open>\<open>scan\<close>: the directory is matched once, then each file in turn.\<close>

definition evScan :: "bool \<Rightarrow> ev_sys \<Rightarrow> ev_sys" where
  "evScan fromStart s = foldl (scanFile fromStart) s (evDir s)"

inductive ev_step :: "ev_sys \<Rightarrow> ev_sys \<Rightarrow> bool" where
  create: "path \<notin> set (evDir s) \<Longrightarrow> ev_step s (s\<lparr>evDir := evDir s @ [path]\<rparr>)"
| poll: "evPlace s = AtScan \<Longrightarrow>
     ev_step s ((evScan (\<not> evFirstScan s) s)\<lparr>evPlace := AtSelect, evFirstScan := False,
       evBoot := if evFirstScan s then evDir s else evBoot s\<rparr>)"
| tick: "evPlace s = AtSelect \<Longrightarrow> ev_step s (s\<lparr>evPlace := AtScan\<rparr>)"
| final: "evPlace s = AtSelect \<Longrightarrow> evStop s \<Longrightarrow> ev_step s ((evScan True s)\<lparr>evPlace := AtWait\<rparr>)"
| run_return: "evPlace s = AtWait \<Longrightarrow> evActive s = [] \<Longrightarrow> ev_step s (s\<lparr>evPlace := RunReturned\<rparr>)"
| follower_done: "path \<in> set (evActive s) \<Longrightarrow> ev_step s (s\<lparr>evActive := remove1 path (evActive s)\<rparr>)"
| stop: "\<not> evStop s \<Longrightarrow> ev_step s (s\<lparr>evStop := True\<rparr>)"
| stop_return: "evStop s \<Longrightarrow> evActive s = [] \<Longrightarrow> ev_step s (s\<lparr>evStopReturned := True\<rparr>)"

inductive ev_reach :: "string list \<Rightarrow> ev_sys \<Rightarrow> bool" for files where
  start: "ev_reach files (NewEvidenceTailer files)"
| step: "ev_reach files s \<Longrightarrow> ev_step s s' \<Longrightarrow> ev_reach files s'"

inductive_cases ev_stepE: "ev_step s s'"

section \<open>Every file is followed once\<close>

definition ev_inv :: "ev_sys \<Rightarrow> bool" where
  "ev_inv s \<longleftrightarrow>
     distinct (map fst (evFollowed s)) \<and> distinct (evActive s) \<and> set (evActive s) \<subseteq> fst ` set (evFollowed s) \<and>
     fst ` set (evFollowed s) \<subseteq> set (evDir s) \<and> set (evBoot s) \<subseteq> fst ` set (evFollowed s) \<and>
     (\<forall>(path, fromStart) \<in> set (evFollowed s). fromStart \<longleftrightarrow> path \<notin> set (evBoot s)) \<and>
     (evFirstScan s \<longrightarrow> evFollowed s = [] \<and> evPlace s = AtScan)"

lemma scanFile_fields:
  "evDir (scanFile b s p) = evDir s" "evBoot (scanFile b s p) = evBoot s" "evPlace (scanFile b s p) = evPlace s"
  "evStop (scanFile b s p) = evStop s" "evFirstScan (scanFile b s p) = evFirstScan s"
  "evStopReturned (scanFile b s p) = evStopReturned s"
  by (simp_all add: scanFile_def)

text \<open>The state \<open>s'\<close> after files \<open>ps\<close> were scanned from \<open>s\<close>.\<close>

definition scanned :: "bool \<Rightarrow> ev_sys \<Rightarrow> string list \<Rightarrow> ev_sys \<Rightarrow> bool" where
  "scanned b s ps s' \<longleftrightarrow>
     evDir s' = evDir s \<and> evBoot s' = evBoot s \<and> evStop s' = evStop s \<and>
     evFirstScan s' = evFirstScan s \<and> evStopReturned s' = evStopReturned s \<and>
     (\<exists>new. evFollowed s' = evFollowed s @ map (\<lambda>p. (p, b)) new \<and> evActive s' = evActive s @ new \<and>
        distinct new \<and> set new = set ps - fst ` set (evFollowed s))"

lemma scanned_file:
  assumes "scanned b s ps s1"
  shows "scanned b s (ps @ [p]) (scanFile b s1 p)"
proof -
  obtain new where new: "evFollowed s1 = evFollowed s @ map (\<lambda>p. (p, b)) new" "evActive s1 = evActive s @ new"
      "distinct new" "set new = set ps - fst ` set (evFollowed s)"
    using assms unfolding scanned_def by blast
  have seen: "fst ` set (evFollowed s1) = fst ` set (evFollowed s) \<union> set new"
    by (simp add: new(1) image_Un image_image)
  define new' where "new' = (if p \<in> fst ` set (evFollowed s1) then new else new @ [p])"
  have "distinct new'" "set new' = set (ps @ [p]) - fst ` set (evFollowed s)"
    using new(3,4) seen by (auto simp: new'_def)
  moreover have "evFollowed (scanFile b s1 p) = evFollowed s @ map (\<lambda>p. (p, b)) new'"
      "evActive (scanFile b s1 p) = evActive s @ new'"
    using new(1,2) by (simp_all add: scanFile_def new'_def)
  ultimately show ?thesis using assms unfolding scanned_def scanFile_fields by blast
qed

lemma scan_files: "scanned b s ps (foldl (scanFile b) s ps)"
proof (induction ps rule: rev_induct)
  case Nil
  then show ?case by (auto simp: scanned_def)
next
  case (snoc p ps)
  then show ?case using scanned_file by simp
qed

lemma ev_inv_scan:
  assumes "ev_inv s" "b \<longleftrightarrow> \<not> evFirstScan s"
  shows "ev_inv ((evScan b s)\<lparr>evPlace := place, evFirstScan := False, evBoot := if evFirstScan s then evDir s else evBoot s\<rparr>)
     \<and> set (evDir s) \<subseteq> fst ` set (evFollowed (evScan b s))"
proof -
  define boot where "boot = (if evFirstScan s then evDir s else evBoot s)"
  obtain new where new: "evFollowed (evScan b s) = evFollowed s @ map (\<lambda>p. (p, b)) new"
      "evActive (evScan b s) = evActive s @ new" "distinct new" "set new = set (evDir s) - fst ` set (evFollowed s)"
      "evDir (evScan b s) = evDir s"
    using scan_files [of b s "evDir s"] unfolding evScan_def scanned_def by blast
  have fst: "fst ` set (evFollowed (evScan b s)) = set (evDir s)"
    using assms(1) new(4) by (auto simp: new(1) image_Un image_image ev_inv_def)
  have "distinct (map fst (evFollowed (evScan b s)))" "distinct (evActive (evScan b s))"
    using assms(1) new(3,4) by (auto simp: ev_inv_def new(1,2) comp_def)
  moreover have "set (evActive (evScan b s)) \<subseteq> set (evDir s)" "set boot \<subseteq> set (evDir s)"
    using assms(1) new(4) by (auto simp: ev_inv_def new(2) boot_def)
  moreover have "\<forall>(path, fs) \<in> set (evFollowed (evScan b s)). fs \<longleftrightarrow> path \<notin> set boot"
    using assms new(4) unfolding new(1) ev_inv_def boot_def by auto
  ultimately show ?thesis
    using fst new(5) unfolding ev_inv_def boot_def by simp
qed

lemma ev_inv_step:
  assumes "ev_step s s'" "ev_inv s"
  shows "ev_inv s'"
  using assms
proof (cases rule: ev_step.cases)
  case poll
  then show ?thesis using ev_inv_scan [OF assms(2), of _ AtSelect] by simp
next
  case final
  then have nf: "\<not> evFirstScan s" using assms(2) by (auto simp: ev_inv_def)
  then have "evFirstScan (evScan True s) = False" "evBoot (evScan True s) = evBoot s"
    using scan_files [of True s "evDir s"] by (simp_all add: evScan_def scanned_def)
  then have "(evScan True s)\<lparr>evPlace := AtWait, evFirstScan := False, evBoot := evBoot s\<rparr> = (evScan True s)\<lparr>evPlace := AtWait\<rparr>"
    by (cases "evScan True s") simp
  then show ?thesis using ev_inv_scan [OF assms(2), of True AtWait] final nf by simp
next
  case (follower_done path)
  then show ?thesis using assms(2) set_remove1_subset [of path "evActive s"] by (auto simp: ev_inv_def)
qed (auto simp: ev_inv_def)

lemma ev_reach_inv: "ev_reach files s \<Longrightarrow> ev_inv s"
  by (induction rule: ev_reach.induct) (auto simp: ev_inv_step, simp add: ev_inv_def NewEvidenceTailer_def)

lemma ev_boot: "ev_inv s \<Longrightarrow> (path, fromStart) \<in> set (evFollowed s) \<Longrightarrow> fromStart \<longleftrightarrow> path \<notin> set (evBoot s)"
  by (auto simp: ev_inv_def)

text \<open>
  In every reachable state of the discovery each evidence file is followed at most
  once, with a single choice of where to begin: at its end if the first scan saw it, at its
  beginning otherwise; a follower runs only for a file that was discovered, and the files of
  the first scan are all followed.
\<close>

lemma evidence_followed_once:
  assumes "ev_reach files s" "(path, b) \<in> set (evFollowed s)" "(path, b') \<in> set (evFollowed s)"
  shows "b = b' \<and> (b \<longleftrightarrow> path \<notin> set (evBoot s)) \<and> distinct (map fst (evFollowed s)) \<and>
     set (evActive s) \<subseteq> fst ` set (evFollowed s) \<and> set (evBoot s) \<subseteq> fst ` set (evFollowed s)"
  using ev_boot [OF ev_reach_inv [OF assms(1)] assms(2)] ev_boot [OF ev_reach_inv [OF assms(1)] assms(3)]
    ev_reach_inv [OF assms(1)] by (auto simp: ev_inv_def)

text \<open>
  \<open>Stop\<close> does not wait for the final scan: with no follower running it returns as soon as the
  stop channel is closed, and a file the recorder created since the last poll is not followed yet.
\<close>

definition missed_file :: ev_sys where
  "missed_file = \<lparr>evDir = [''evidence-1.jsonl''], evPlace = AtSelect, evFirstScan = False, evFollowed = [], evActive = [],
     evBoot = [], evStop = True, evStopReturned = True\<rparr>"

lemma Stop_returns_before_final_scan:
  "ev_reach [] missed_file \<and> evStopReturned missed_file \<and>
   ''evidence-1.jsonl'' \<in> set (evDir missed_file) \<and> ''evidence-1.jsonl'' \<notin> fst ` set (evFollowed missed_file)"
proof -
  define s0 where "s0 = NewEvidenceTailer []"
  have "ev_reach [] s0" unfolding s0_def by (rule ev_reach.start)
  moreover have "ev_step s0 (s0\<lparr>evPlace := AtSelect, evFirstScan := False\<rparr>)"
    using ev_step.poll [of s0] by (simp add: s0_def NewEvidenceTailer_def evScan_def)
  ultimately have 1: "ev_reach [] (s0\<lparr>evPlace := AtSelect, evFirstScan := False\<rparr>)" by (rule ev_reach.step)
  have 2: "ev_reach [] (s0\<lparr>evPlace := AtSelect, evFirstScan := False, evDir := [''evidence-1.jsonl'']\<rparr>)"
    using ev_reach.step [OF 1 ev_step.create [of "''evidence-1.jsonl''"]] by (simp add: s0_def NewEvidenceTailer_def)
  have 3: "ev_reach [] (missed_file\<lparr>evStopReturned := False\<rparr>)"
    using ev_reach.step [OF 2 ev_step.stop] by (simp add: s0_def NewEvidenceTailer_def missed_file_def)
  have "ev_reach [] missed_file"
    using ev_reach.step [OF 3 ev_step.stop_return] by (simp add: missed_file_def)
  then show ?thesis by (simp add: missed_file_def)
qed

definition sample_followed :: ev_sys where
  "sample_followed = \<lparr>evDir = [''evidence-1.jsonl''], evPlace = AtSelect, evFirstScan = False,
     evFollowed = [(''evidence-1.jsonl'', False)], evActive = [''evidence-1.jsonl''],
     evBoot = [''evidence-1.jsonl''], evStop = False, evStopReturned = False\<rparr>"

lemma evidence_followed_once_witness:
  "ev_reach [''evidence-1.jsonl''] sample_followed \<and> ''evidence-1.jsonl'' \<in> set (evBoot sample_followed)"
proof -
  define s0 where "s0 = NewEvidenceTailer [''evidence-1.jsonl'']"
  have "ev_reach [''evidence-1.jsonl''] s0" unfolding s0_def by (rule ev_reach.start)
  moreover have "ev_step s0 sample_followed"
    using ev_step.poll [of s0] by (simp add: s0_def NewEvidenceTailer_def evScan_def scanFile_def sample_followed_def)
  ultimately have r: "ev_reach [''evidence-1.jsonl''] sample_followed" by (rule ev_reach.step)
  show ?thesis
    using r evidence_followed_once [OF r, of "''evidence-1.jsonl''" False False] by (simp add: sample_followed_def)
qed

end
