(* ===== verification/Feeds.thy ===== *)
theory Feeds
  imports Tailer Store_Props "HOL-Library.AList" "HOL-Library.Char_ord" "HOL-Library.List_Lexorder"
    "HOL-Library.Multiset"
begin

text \<open>
  The event feeds that end in the witness log: named feeds (\<open>internal/feeds\<close>), the farm feed
  with its silence monitor (\<open>internal/farm\<close>), the split-brain-harness logs (\<open>internal/sbh\<close>)
  and the pipelock bridge (\<open>internal/pipelock_bridge\<close>). Each classifies a line, appends it to
  the store and acknowledges it to its tailer. Parsed JSON is the datatype \<open>json\<close>; its text,
  the parsing of times and Go's Unicode case mapping are parameters.
\<close>

section \<open>Events\<close>

datatype json = JNull | JBool bool | JNum string | JStr string | JArr "json list" | JObj "(string \<times> json) list"

type_synonym audit_event = "(string \<times> json) list"

definition str_field :: "audit_event \<Rightarrow> string \<Rightarrow> string option" where
  "str_field evt k = (case map_of evt k of Some (JStr s) \<Rightarrow> Some s | _ \<Rightarrow> None)"

definition bool_field :: "audit_event \<Rightarrow> string \<Rightarrow> bool option" where
  "bool_field evt k = (case map_of evt k of Some (JBool b) \<Rightarrow> Some b | _ \<Rightarrow> None)"

definition str_or_empty :: "audit_event \<Rightarrow> string \<Rightarrow> string" where
  "str_or_empty evt k = (case str_field evt k of Some s \<Rightarrow> s | None \<Rightarrow> [])"

definition event_Level :: "audit_event \<Rightarrow> string" where
  "event_Level evt = (case str_field evt ''level'' of Some v \<Rightarrow> v | None \<Rightarrow> ''info'')"

definition EventName :: "audit_event \<Rightarrow> string" where
  "EventName evt = (case str_field evt ''event'' of Some v \<Rightarrow> v | None \<Rightarrow> ''pipelock_event'')"

section \<open>Classifiers\<close>

definition is_alnum :: "char \<Rightarrow> bool" where
  "is_alnum c \<longleftrightarrow>
     (let n = of_char c :: nat in (48 \<le> n \<and> n \<le> 57) \<or> (65 \<le> n \<and> n \<le> 90) \<or> (97 \<le> n \<and> n \<le> 122))"

text \<open>The regular expression \<open>^[A-Za-z0-9_.:-]{1,64}$\<close>.\<close>

definition kindRE :: "string \<Rightarrow> bool" where
  "kindRE k \<longleftrightarrow> 1 \<le> length k \<and> length k \<le> 64 \<and> list_all (\<lambda>c. is_alnum c \<or> c \<in> set ''_.:-'') k"

definition feeds_Classify :: "audit_event \<Rightarrow> string \<times> string" where
  "feeds_Classify evt =
     ((case str_field evt ''level'' of
         Some l \<Rightarrow> if l = ''WARN'' \<or> l = ''CRITICAL'' then l else ''INFO''
       | None \<Rightarrow> ''INFO''),
      (case str_field evt ''kind'' of Some k \<Rightarrow> if kindRE k then k else ''feed_event'' | None \<Rightarrow> ''feed_event''))"

definition farm_sub :: "audit_event \<Rightarrow> string \<Rightarrow> string" where
  "farm_sub evt field = (case str_field evt field of Some v \<Rightarrow> if v \<noteq> [] then '':'' @ v else [] | None \<Rightarrow> [])"

definition farm_Classify :: "audit_event \<Rightarrow> string \<times> string" where
  "farm_Classify evt =
     (let kind = str_or_empty evt ''kind'' in
      if kind = ''alarm'' then (''WARN'', ''farm_alarm'' @ farm_sub evt ''alarm'')
      else if kind = ''setting_change'' then (''INFO'', ''farm_setting_change'' @ farm_sub evt ''setting'')
      else if kind = ''reading'' then (''INFO'', ''farm_reading'' @ farm_sub evt ''metric'')
      else if kind = ''access'' then (''INFO'', ''farm_access'' @ farm_sub evt ''door'')
      else if kind = ''health'' then (''INFO'', ''farm_health'' @ farm_sub evt ''record'')
      else if kind = ''heartbeat'' then (''INFO'', ''farm_heartbeat'')
      else (''INFO'', ''farm_event''))"

definition ClassifyForge :: "audit_event \<Rightarrow> string \<times> string" where
  "ClassifyForge evt =
     (if bool_field evt ''succeeded'' = Some False then ''WARN'' else ''INFO'',
      (case str_field evt ''capability'' of
         Some c \<Rightarrow> if c \<noteq> [] then ''forge_run:'' @ c else ''forge_run'' | None \<Rightarrow> ''forge_run''))"

definition ClassifyDecision :: "audit_event \<Rightarrow> string \<times> string" where
  "ClassifyDecision evt =
     (let stopped = (bool_field evt ''stop_and_ask'' = Some True);
          escalated = (bool_field evt ''escalation'' = Some True);
          risk = str_or_empty evt ''manipulation_risk''
      in (if stopped \<or> escalated \<or> risk = ''high'' then ''WARN'' else ''INFO'',
          if stopped then ''sbh_decision:stop_and_ask'' else ''sbh_decision:pass''))"

definition ClassifyEscalation :: "audit_event \<Rightarrow> string \<times> string" where
  "ClassifyEscalation evt = (''WARN'', ''sbh_escalation'')"

text \<open>\<open>strings.ToUpper\<close> and \<open>strings.ToLower\<close>.\<close>

record casing =
  to_upper :: "string \<Rightarrow> string"
  to_lower :: "string \<Rightarrow> string"

definition normalizeLevel :: "casing \<Rightarrow> string \<Rightarrow> string" where
  "normalizeLevel U level =
     (let l = to_upper U level in if l = ''DEBUG'' \<or> l = ''TRACE'' \<or> l = [] then ''INFO'' else l)"

fun nestedString :: "json \<Rightarrow> string list \<Rightarrow> string" where
  "nestedString cur [] = []"
| "nestedString cur (k # ks) =
     (case cur of
        JObj m \<Rightarrow>
          (case map_of m k of
             None \<Rightarrow> []
           | Some v \<Rightarrow> if ks = [] then (case v of JStr s \<Rightarrow> s | _ \<Rightarrow> []) else nestedString v ks)
      | _ \<Rightarrow> [])"

fun firstNonEmpty :: "string list \<Rightarrow> string" where
  "firstNonEmpty [] = []"
| "firstNonEmpty (v # vs) = (if v \<noteq> [] then v else firstNonEmpty vs)"

definition elevateForVerdict :: "casing \<Rightarrow> string \<Rightarrow> string \<Rightarrow> string" where
  "elevateForVerdict U level verdict =
     (if to_lower U verdict \<in> {''block'', ''blocked'', ''deny'', ''denied'', ''warn'', ''warning''} \<and> level = ''INFO''
      then ''WARN'' else level)"

definition classifyReceipt :: "casing \<Rightarrow> audit_event \<Rightarrow> string \<times> string" where
  "classifyReceipt U evt =
     (let m = JObj evt;
          kind = firstNonEmpty
            [nestedString m [''detail'', ''action_record'', ''session_control'', ''kind''],
             nestedString m [''event_kind''],
             nestedString m [''detail'', ''action_record'', ''action_type''],
             nestedString m [''type'']];
          event = (if kind \<noteq> [] then ''pipelock_receipt:'' @ kind else ''pipelock_receipt'');
          level = normalizeLevel U (event_Level evt);
          verdict = firstNonEmpty
            [nestedString m [''detail'', ''action_record'', ''verdict''],
             nestedString m [''detail'', ''payload'', ''verdict''],
             nestedString m [''detail'', ''verdict''],
             nestedString m [''verdict'']]
      in (elevateForVerdict U level verdict, event))"

section \<open>Grading pipelock's stderr\<close>

definition is_word :: "char \<Rightarrow> bool" where
  "is_word c \<longleftrightarrow> is_alnum c \<or> c = CHR ''_''"

definition starts_nonword :: "string \<Rightarrow> bool" where
  "starts_nonword s \<longleftrightarrow> (case s of [] \<Rightarrow> True | c # _ \<Rightarrow> \<not> is_word c)"

definition re_space :: "char \<Rightarrow> bool" where
  "re_space c \<longleftrightarrow> of_char c \<in> {9 :: nat, 10, 12, 13, 32}"

definition ascii_lower :: "char \<Rightarrow> char" where
  "ascii_lower c = (let n = of_char c :: nat in if 65 \<le> n \<and> n \<le> 90 then char_of (n + 32) else c)"

text \<open>\<open>\bERROR\b\<close>: an occurrence with a word boundary on both sides.\<close>

fun reErrorWord :: "bool \<Rightarrow> string \<Rightarrow> bool" where
  "reErrorWord atStart [] = False"
| "reErrorWord atStart (c # s) =
     ((atStart \<and> HasPrefix (c # s) ''ERROR'' \<and> starts_nonword (drop 5 (c # s))) \<or> reErrorWord (\<not> is_word c) s)"

definition word_prefix :: "string \<Rightarrow> string \<Rightarrow> bool" where
  "word_prefix w s \<longleftrightarrow> HasPrefix (map ascii_lower s) w \<and> starts_nonword (drop (length w) s)"

definition reErrorPrefix :: "string \<Rightarrow> bool" where
  "reErrorPrefix line \<longleftrightarrow>
     (let s = dropWhile re_space line in word_prefix ''error'' s \<or> word_prefix ''fatal'' s \<or> word_prefix ''panic'' s)"

definition reWarnPrefix :: "string \<Rightarrow> bool" where
  "reWarnPrefix line \<longleftrightarrow>
     (let s = dropWhile re_space line in word_prefix ''warn'' s \<or> word_prefix ''warning'' s)"

definition reBannerStart :: "string \<Rightarrow> bool" where
  "reBannerStart line \<longleftrightarrow>
     (let mid = drop 10 (take (length line - 9) line) in
      20 \<le> length line \<and> HasPrefix line ''Pipelock v'' \<and> HasSuffix line '' starting'' \<and>
      list_all (\<lambda>c. \<not> re_space c) mid)"

definition reBannerStop :: "string \<Rightarrow> bool" where
  "reBannerStop line \<longleftrightarrow> line = ''Pipelock stopped'' \<or> line = ''Pipelock stopped.''"

definition reBannerField :: "string \<Rightarrow> bool" where
  "reBannerField line \<longleftrightarrow>
     HasPrefix line ''  '' \<and>
     (case drop 2 line of
        [] \<Rightarrow> False
      | c # s \<Rightarrow> (let n = of_char c :: nat in 65 \<le> n \<and> n \<le> 90) \<and>
          HasPrefix (dropWhile (\<lambda>c. is_alnum c \<or> c = CHR '' '') s) '': '')"

definition classifyStderr :: "string \<Rightarrow> string" where
  "classifyStderr line =
     (if reErrorWord True line \<or> reErrorPrefix line then ''ERROR''
      else if reWarnPrefix line then ''WARN''
      else if reBannerStart line \<or> reBannerStop line \<or> reBannerField line then ''INFO''
      else ''WARN'')"

text \<open>One call of \<open>level\<close>: the previous level and the line give the level, which is kept.\<close>

definition stderr_level :: "string \<Rightarrow> string \<Rightarrow> string" where
  "stderr_level prev line =
     (let lvl = classifyStderr line in
      if prev \<noteq> [] \<and> HasPrefix line ''    '' \<and> lvl \<noteq> ''ERROR'' then prev else lvl)"

section \<open>Forwarding\<close>

text \<open>
  A forwarder works on the store, its disk and its tailer. The argument \<open>io\<close> is the system's
  part of the append, \<open>ok\<close> and \<open>now\<close> that of the state file.
\<close>

type_synonym forward_state = "(store \<times> disk) \<times> tailer"

definition feed_call :: "(audit_event \<Rightarrow> bytes) \<Rightarrow> string \<Rightarrow> string \<times> string \<Rightarrow> audit_event \<Rightarrow> append_io \<Rightarrow> append_call" where
  "feed_call marshal source le evt io =
     \<lparr>acLevel = fst le, acEvent = snd le, acSource = source, acData = Some (Some (marshal evt)), acIO = io\<rparr>"

definition appendAndAck ::
  "env \<Rightarrow> append_call \<Rightarrow> bool \<Rightarrow> time \<Rightarrow> forward_state \<Rightarrow> forward_state" where
  "appendAndAck C c ok now fs =
     (case fs of (sd, t) \<Rightarrow>
        (append_step C sd c, if fst (append_call C sd c) = None then Ack ok now t else t))"

definition feeds_forward ::
  "env \<Rightarrow> (audit_event \<Rightarrow> bytes) \<Rightarrow> string \<Rightarrow> audit_event \<Rightarrow> append_io \<Rightarrow> bool \<Rightarrow> time \<Rightarrow> forward_state \<Rightarrow> forward_state" where
  "feeds_forward C marshal source evt io ok now fs =
     appendAndAck C (feed_call marshal source (feeds_Classify evt) evt io) ok now fs"

definition sbh_forward ::
  "env \<Rightarrow> (audit_event \<Rightarrow> bytes) \<Rightarrow> (audit_event \<Rightarrow> string \<times> string) \<Rightarrow> audit_event \<Rightarrow> append_io \<Rightarrow> bool \<Rightarrow> time \<Rightarrow>
   forward_state \<Rightarrow> forward_state" where
  "sbh_forward C marshal classify evt io ok now fs =
     appendAndAck C (feed_call marshal ''sbh'' (classify evt) evt io) ok now fs"

text \<open>The two channels of the pipelock bridge: audit events and receipts.\<close>

datatype bridge_event = AuditEvt audit_event | Receipt audit_event

definition bridge_forward ::
  "env \<Rightarrow> casing \<Rightarrow> (audit_event \<Rightarrow> bytes) \<Rightarrow> bridge_event \<Rightarrow> append_io \<Rightarrow> bool \<Rightarrow> time \<Rightarrow> forward_state \<Rightarrow> forward_state" where
  "bridge_forward C U marshal be io ok now fs =
     (case be of
        AuditEvt evt \<Rightarrow>
          appendAndAck C (feed_call marshal ''pipelock'' (normalizeLevel U (event_Level evt), EventName evt) evt io) ok now fs
      | Receipt evt \<Rightarrow>
          (append_step C (fst fs) (feed_call marshal ''pipelock'' (classifyReceipt U evt) evt io), snd fs))"

definition drainRemaining ::
  "env \<Rightarrow> casing \<Rightarrow> (audit_event \<Rightarrow> bytes) \<Rightarrow> (bridge_event \<times> append_io \<times> bool \<times> time) list \<Rightarrow> forward_state \<Rightarrow> forward_state" where
  "drainRemaining C U marshal evs fs =
     foldl (\<lambda>fs (be, io, ok, now). bridge_forward C U marshal be io ok now fs) fs evs"

section \<open>The farm's silence monitor\<close>

record monitor =
  mnThreshold :: int
  mnLastSeen :: "(string \<times> time) list"
  mnSilent :: "string set"

text \<open>A transition, with the times its texts are made of.\<close>

record transition =
  trLevel :: string
  trEvent :: string
  trSource :: string
  trLastSeen :: time
  trAt :: time

definition NewMonitor :: "int \<Rightarrow> monitor" where
  "NewMonitor threshold = \<lparr>mnThreshold = threshold, mnLastSeen = [], mnSilent = {}\<rparr>"

definition periodic :: "string \<Rightarrow> bool" where
  "periodic kind \<longleftrightarrow> kind = ''heartbeat'' \<or> kind = ''reading''"

text \<open>\<open>prev\<close> is the zero time when the source is not known (its text is then never used).\<close>

definition Seen :: "monitor \<Rightarrow> string \<Rightarrow> string \<Rightarrow> time \<Rightarrow> monitor \<times> transition option" where
  "Seen m source kind t =
     (if source = [] then (m, None)
      else case map_of (mnLastSeen m) source of
        None \<Rightarrow>
          if \<not> periodic kind then (m, None)
          else let m1 = m\<lparr>mnLastSeen := AList.update source t (mnLastSeen m)\<rparr> in
            if source \<in> mnSilent m
            then (m1\<lparr>mnSilent := mnSilent m - {source}\<rparr>,
                  Some \<lparr>trLevel = ''INFO'', trEvent = ''farm_source_resumed'', trSource = source,
                        trLastSeen = - 62135596800 * 10 ^ 9, trAt = t\<rparr>)
            else (m1, None)
      | Some prev \<Rightarrow>
          let m1 = (if prev < t then m\<lparr>mnLastSeen := AList.update source t (mnLastSeen m)\<rparr> else m) in
            if source \<in> mnSilent m
            then (m1\<lparr>mnSilent := mnSilent m - {source}\<rparr>,
                  Some \<lparr>trLevel = ''INFO'', trEvent = ''farm_source_resumed'', trSource = source,
                        trLastSeen = prev, trAt = t\<rparr>)
            else (m1, None))"

definition overdue :: "monitor \<Rightarrow> time \<Rightarrow> string \<times> time \<Rightarrow> bool" where
  "overdue m now ss \<longleftrightarrow> \<not> (fst ss \<in> mnSilent m \<or> now - snd ss \<le> mnThreshold m)"

definition Check :: "monitor \<Rightarrow> time \<Rightarrow> monitor \<times> transition list" where
  "Check m now =
     (let late = filter (overdue m now) (mnLastSeen m) in
      (m\<lparr>mnSilent := mnSilent m \<union> fst ` set late\<rparr>,
       sort_key trSource (map (\<lambda>(src, seen). \<lparr>trLevel = ''WARN'', trEvent = ''farm_source_silent'',
         trSource = src, trLastSeen = seen, trAt = now\<rparr>) late)))"

definition eventTime :: "(string \<Rightarrow> time option) \<Rightarrow> audit_event \<Rightarrow> time \<Rightarrow> time" where
  "eventTime parse evt arrived =
     (case str_field evt ''ts'' of
        Some s \<Rightarrow> (case parse s of Some t \<Rightarrow> t | None \<Rightarrow> arrived)
      | None \<Rightarrow> arrived)"

definition transition_call :: "(transition \<Rightarrow> bytes) \<Rightarrow> transition \<Rightarrow> append_io \<Rightarrow> append_call" where
  "transition_call marshal tr io =
     \<lparr>acLevel = trLevel tr, acEvent = trEvent tr, acSource = ''farm'', acData = Some (Some (marshal tr)), acIO = io\<rparr>"

definition ingest ::
  "env \<Rightarrow> (audit_event \<Rightarrow> bytes) \<Rightarrow> (transition \<Rightarrow> bytes) \<Rightarrow> (string \<Rightarrow> time option) \<Rightarrow> audit_event \<Rightarrow>
   append_io \<Rightarrow> append_io \<Rightarrow> bool \<Rightarrow> time \<Rightarrow> forward_state \<times> monitor \<Rightarrow> forward_state \<times> monitor" where
  "ingest C marshal marshalT parse evt io io2 ok now fsm =
     (case fsm of ((sd, t), m) \<Rightarrow>
        let c = feed_call marshal ''farm'' (farm_Classify evt) evt io; sd1 = append_step C sd c in
        if fst (append_call C sd c) \<noteq> None then ((sd1, t), m)
        else let t1 = Ack ok now t in
          case Seen m (str_or_empty evt ''source'') (str_or_empty evt ''kind'') (eventTime parse evt now) of
            (m1, None) \<Rightarrow> ((sd1, t1), m1)
          | (m1, Some tr) \<Rightarrow> ((append_step C sd1 (transition_call marshalT tr io2), t1), m1))"

definition checkSilence ::
  "env \<Rightarrow> (transition \<Rightarrow> bytes) \<Rightarrow> time \<Rightarrow> (transition \<Rightarrow> append_io) \<Rightarrow> (store \<times> disk) \<times> monitor \<Rightarrow> (store \<times> disk) \<times> monitor" where
  "checkSilence C marshalT now ios sdm =
     (case Check (snd sdm) now of (m1, trs) \<Rightarrow>
        (foldl (\<lambda>sd tr. append_step C sd (transition_call marshalT tr (ios tr))) (fst sdm) trs, m1))"

section \<open>The monitor\<close>

definition monitor_inv :: "monitor \<Rightarrow> bool" where
  "monitor_inv m \<longleftrightarrow> distinct (map fst (mnLastSeen m)) \<and> mnSilent m \<subseteq> fst ` set (mnLastSeen m)"

lemma NewMonitor_inv: "monitor_inv (NewMonitor th)"
  by (simp add: monitor_inv_def NewMonitor_def)

lemma keys_update: "fst ` set (AList.update k v al) = insert k (fst ` set al)"
  by (induction al) auto

lemma monitor_inv_update:
  "monitor_inv m \<Longrightarrow> monitor_inv (m\<lparr>mnLastSeen := AList.update k t (mnLastSeen m)\<rparr>)"
  by (auto simp: monitor_inv_def distinct_update keys_update)

lemma monitor_inv_silent: "monitor_inv m \<Longrightarrow> S \<subseteq> mnSilent m \<Longrightarrow> monitor_inv (m\<lparr>mnSilent := S\<rparr>)"
  by (auto simp: monitor_inv_def)

lemma Seen_inv: "monitor_inv m \<Longrightarrow> monitor_inv (fst (Seen m src kind t))"
  by (auto simp: Seen_def Let_def intro!: monitor_inv_update monitor_inv_silent split: option.splits)

lemma Check_inv: "monitor_inv m \<Longrightarrow> monitor_inv (fst (Check m now))"
  by (auto simp: Check_def Let_def monitor_inv_def)

lemma Check_sources:
  "trSource ` set (snd (Check m now)) = {src. \<exists>seen. (src, seen) \<in> set (mnLastSeen m) \<and> overdue m now (src, seen)}"
  by (force simp: Check_def Let_def image_iff)

lemma map_sort_key: "map f (sort_key f xs) = sort (map f xs)"
  by (rule sym, rule properties_for_sort) simp_all

lemma distinct_late: "distinct (map fst al) \<Longrightarrow> distinct (map fst (filter P al))"
  by (rule distinct_map_filter)

text \<open>
  The frozen-house check of the farm feed: a check flags exactly the watched
  sources that have been quiet for longer than the threshold and are not flagged yet, each
  once and in the order of their names; right after it the next check at the same time flags
  nothing; and the first report of a flagged source is answered by one resumed transition.
\<close>

lemma silent_sources_flagged_once:
  assumes "monitor_inv m"
  shows "map trSource (snd (Check m now)) =
       sorted_list_of_set {src. \<exists>seen. map_of (mnLastSeen m) src = Some seen \<and> src \<notin> mnSilent m \<and>
          mnThreshold m < now - seen} \<and>
     snd (Check (fst (Check m now)) now) = [] \<and>
     (src \<in> mnSilent m \<and> src \<noteq> [] \<longrightarrow>
        (\<exists>tr. snd (Seen m src kind t) = Some tr \<and> trEvent tr = ''farm_source_resumed'' \<and> trSource tr = src) \<and>
        src \<notin> mnSilent (fst (Seen m src kind t)))"
proof (intro conjI)
  let ?late = "filter (overdue m now) (mnLastSeen m)"
  have dist: "distinct (map fst ?late)" using assms by (intro distinct_late) (simp add: monitor_inv_def)
  have mp: "map trSource (snd (Check m now)) = sort (map fst ?late)"
    by (simp add: Check_def Let_def map_sort_key o_def split_beta)
  have "set (map fst ?late) = {src. \<exists>seen. map_of (mnLastSeen m) src = Some seen \<and> src \<notin> mnSilent m \<and> mnThreshold m < now - seen}"
    using assms by (force simp: overdue_def monitor_inv_def not_le)
  then show "map trSource (snd (Check m now)) =
      sorted_list_of_set {src. \<exists>seen. map_of (mnLastSeen m) src = Some seen \<and> src \<notin> mnSilent m \<and> mnThreshold m < now - seen}"
    using mp dist by (metis sorted_list_of_set_sort_remdups distinct_remdups_id)
  have "filter (overdue (fst (Check m now)) now) (mnLastSeen m) = []"
    by (force simp: overdue_def Check_def Let_def filter_empty_conv)
  then show "snd (Check (fst (Check m now)) now) = []" by (simp add: Check_def Let_def)
  show "src \<in> mnSilent m \<and> src \<noteq> [] \<longrightarrow>
      (\<exists>tr. snd (Seen m src kind t) = Some tr \<and> trEvent tr = ''farm_source_resumed'' \<and> trSource tr = src) \<and>
      src \<notin> mnSilent (fst (Seen m src kind t))"
  proof (intro impI)
    assume s: "src \<in> mnSilent m \<and> src \<noteq> []"
    then obtain prev where "map_of (mnLastSeen m) src = Some prev"
      using assms by (fastforce simp: monitor_inv_def map_of_eq_None_iff)
    then show "(\<exists>tr. snd (Seen m src kind t) = Some tr \<and> trEvent tr = ''farm_source_resumed'' \<and> trSource tr = src) \<and>
      src \<notin> mnSilent (fst (Seen m src kind t))"
      using s by (simp add: Seen_def Let_def)
  qed
qed

definition sample_monitor :: monitor where
  "sample_monitor = \<lparr>mnThreshold = 10, mnLastSeen = [(''coop'', 0), (''barn'', 5)], mnSilent = {''barn''}\<rparr>"

lemma silent_sources_flagged_once_witness:
  "monitor_inv sample_monitor \<and> map trSource (snd (Check sample_monitor 11)) = [''coop''] \<and>
   snd (Check (fst (Check sample_monitor 11)) 11) = [] \<and>
   ''barn'' \<notin> mnSilent (fst (Seen sample_monitor ''barn'' ''access'' 20))"
proof -
  have inv: "monitor_inv sample_monitor" by (simp add: monitor_inv_def sample_monitor_def)
  have "{src. \<exists>seen. map_of (mnLastSeen sample_monitor) src = Some seen \<and> src \<notin> mnSilent sample_monitor \<and>
      mnThreshold sample_monitor < 11 - seen} = {''coop''}"
    by (auto simp: sample_monitor_def split: if_splits)
  moreover have "''barn'' \<in> mnSilent sample_monitor" by (simp add: sample_monitor_def)
  ultimately show ?thesis
    using silent_sources_flagged_once [OF inv, of 11 "''barn''" "''access''" 20] inv by simp
qed

section \<open>Stored before acknowledged\<close>

lemma appendAndAck_cases:
  "appendAndAck C c ok now (sd, t) =
     (if fst (append_call C sd c) = None then (append_step C sd c, Ack ok now t) else (append_step C sd c, t))"
  by (simp add: appendAndAck_def)

text \<open>
  A feed acknowledges only what is in the log: when a forwarder acknowledges an
  event to its tailer, the records read back from the log are the earlier ones followed by
  the event, under the feed's own configured source, with its whole text as data; when the
  append fails, the tailer's state is untouched.
\<close>

lemma acknowledged_event_is_logged:
  assumes "log_inv C sd" "call_fits C sd (feed_call marshal source (feeds_Classify evt) evt io)"
    and "feeds_forward C marshal source evt io ok now (sd, t) = (sd', t')"
  shows "(t' = t \<and> fst (append_call C sd (feed_call marshal source (feeds_Classify evt) evt io)) \<noteq> None) \<or>
     (t' = Ack ok now t \<and> log_inv C sd' \<and>
      (\<exists>e. log_records C sd' = log_records C sd @ [e] \<and> eSource e = ToValidUTF8 source \<and> eData e = Some (marshal evt) \<and>
         eLevel e = ToValidUTF8 (fst (feeds_Classify evt)) \<and> eEvent e = ToValidUTF8 (snd (feeds_Classify evt))))"
proof (cases "fst (append_call C sd (feed_call marshal source (feeds_Classify evt) evt io)) = None")
  case False
  then have "t' = t" using assms(3) unfolding feeds_forward_def appendAndAck_cases by (simp only: if_False prod.inject)
  then show ?thesis using False by simp
next
  case True
  let ?c = "feed_call marshal source (feeds_Classify evt) evt io"
  have ok: "append_ok C sd ?c" using assms(2) True by (simp add: append_ok_def)
  have "sd' = append_step C sd ?c" "t' = Ack ok now t"
    using assms(3) True by (simp_all add: feeds_forward_def appendAndAck_cases)
  then show ?thesis
    using al.step_inv [OF assms(1) ok] al.step_records [OF assms(1) ok]
    by (auto simp: call_entry_def feed_call_def newEntry_def)
qed

lemma acknowledged_event_is_logged_witness:
  "\<exists>sd t' sd'. log_inv sample_env sd \<and>
     feeds_forward sample_env (\<lambda>e. []) ''feed'' [(''kind'', JStr ''start'')] sample_io True 0 (sd, sample_tailer) = (sd', t') \<and>
     (\<exists>e. log_records sample_env sd' = log_records sample_env sd @ [e] \<and> eSource e = ToValidUTF8 ''feed'')"
proof -
  obtain st d where up: "log_reachable sample_env sample_key (Some sample_signer) [] ([], Up st d)"
    using sample_opened by blast
  obtain bs where si: "store_inv sample_env st d bs []" and st: "stKey st = sample_key"
      "stSigner st = Some sample_signer" "\<not> stReadOnly st"
    using reachable_inv [OF sample_env_ok sample_signed up] by (auto simp: opened_as_def store_inv_def)
  have inv: "log_inv sample_env (st, d)"
    using si st by (auto simp: log_inv_def sample_env_ok signers_ok_def sample_signer_ok)
  let ?c = "feed_call (\<lambda>e. []) ''feed'' (feeds_Classify [(''kind'', JStr ''start'')]) [(''kind'', JStr ''start'')] sample_io"
  have ok: "append_ok sample_env (st, d) ?c"
    using st
    by (simp add: append_ok_def call_fits_def append_fits_def append_call_def Append_def feed_call_def
        feeds_Classify_def str_field_def kindRE_def is_alnum_def sample_io_def sample_env_def encrypt_Seal_def
        aes_key_ok_def sample_key_def NonceSize_def sample_enc_entry_def newEntry_def ToValidUTF8_def to_valid_ascii
        enc_int_def enc_data_def max_record_def writeTreeHead_def signHead_def sample_signer_def Let_def)
  obtain sd' t' where fw: "feeds_forward sample_env (\<lambda>e. []) ''feed'' [(''kind'', JStr ''start'')] sample_io True 0
      ((st, d), sample_tailer) = (sd', t')"
    by (metis prod.exhaust)
  have "\<exists>e. log_records sample_env sd' = log_records sample_env (st, d) @ [e] \<and> eSource e = ToValidUTF8 ''feed''"
    using acknowledged_event_is_logged [OF inv _ fw] ok unfolding append_ok_def by (elim conjE) fast
  then show ?thesis using inv fw by blast
qed

end
