(* ===== verification/Pipelock.thy ===== *)
theory Pipelock
  imports Evidence_Tailer Feeds Go_Files
begin

text \<open>
  The pipelock subprocess: its stderr sink, configuration and start-up (\<open>internal/pipelock/
  runner.go\<close>), the signing key the witness provisions for it (\<open>signingkey.go\<close>), and the
  life cycle of the bridge that folds its events into the log (\<open>internal/pipelock_bridge/
  bridge.go\<close>). The process, the file system's answers and key generation are arguments.
\<close>

section \<open>The stderr sink\<close>

definition maxStderrLines :: nat where
  "maxStderrLines = 20"

record line_sink =
  lsPend :: string
  lsLines :: "string list"
  lsSink :: bool

definition newSink :: line_sink where
  "newSink = \<lparr>lsPend = [], lsLines = [], lsSink = False\<rparr>"

definition setSink :: "line_sink \<Rightarrow> line_sink" where
  "setSink l = l\<lparr>lsSink := True\<rparr>"

text \<open>\<open>strings.TrimRight(s, "\r")\<close>.\<close>

definition trimCR :: "string \<Rightarrow> string" where
  "trimCR s = rev (dropWhile (\<lambda>c. c = CR) (rev s))"

definition keepLast :: "string list \<Rightarrow> string list" where
  "keepLast ls = (if maxStderrLines < length ls then drop (length ls - maxStderrLines) ls else ls)"

text \<open>The loop of \<open>Write\<close>: what stays pending, the retained lines, the lines to emit.\<close>

function sinkLines :: "string \<Rightarrow> string list \<Rightarrow> string list \<Rightarrow> string \<times> string list \<times> string list" where
  "sinkLines pend ls emit =
     (case nextLine pend of
        None \<Rightarrow> (pend, ls, emit)
      | Some (l, r) \<Rightarrow>
          let line = trimCR (butlast l) in
          if line = [] then sinkLines r ls emit else sinkLines r (keepLast (ls @ [line])) (emit @ [line]))"
  by pat_completeness auto
termination
  by (relation "measure (\<lambda>(p, ls, em). length p)") (auto simp: nextLine_length)

declare sinkLines.simps [simp del]

text \<open>\<open>Write\<close>: the new state and the lines handed to the callback.\<close>

definition sinkWrite :: "string \<Rightarrow> line_sink \<Rightarrow> line_sink \<times> string list" where
  "sinkWrite p l =
     (case sinkLines (lsPend l @ p) (lsLines l) [] of
        (pend, ls, emit) \<Rightarrow> (l\<lparr>lsPend := pend, lsLines := ls\<rparr>, if lsSink l then emit else []))"

definition sinkTail :: "line_sink \<Rightarrow> string" where
  "sinkTail l = (if lsLines l = [] then ''(no stderr output)'' else join_with '' | '' (lsLines l))"

text \<open>A sequence of writes, as the subprocess's pipe delivers them.\<close>

definition sinkRun :: "string list \<Rightarrow> line_sink \<Rightarrow> line_sink \<times> string list" where
  "sinkRun chunks l = foldl (\<lambda>(l, out) p. case sinkWrite p l of (l', emit) \<Rightarrow> (l', out @ emit)) (l, []) chunks"

text \<open>
  The reference: the non-empty lines of the whole text, a carriage return at the end removed,
  and the fragment after the last newline.
\<close>

definition stderr_lines :: "string \<Rightarrow> string list" where
  "stderr_lines s = filter (\<lambda>l. l \<noteq> []) (map trimCR (butlast (split_on LF s)))"

definition fragment :: "string \<Rightarrow> string" where
  "fragment s = last (split_on LF s)"

lemma split_on_line:
  "nextLine s = Some (l, r) \<Longrightarrow> split_on LF s = butlast l # split_on LF r"
proof (induction s arbitrary: l)
  case (Cons c s)
  show ?case
  proof (cases "c = LF")
    case False
    then obtain l' where l': "nextLine s = Some (l', r)" "l = c # l'"
      using Cons.prems by (auto split: option.splits)
    then show ?thesis using Cons.IH [OF l'(1)] False nextLine_ends [OF l'(1)] by auto
  qed (use Cons.prems in auto)
qed simp

lemma split_on_none: "nextLine s = None \<Longrightarrow> split_on LF s = [s]"
  using nextLine_no_LF [of s] by (simp add: split_on_single)

lemma stderr_line:
  assumes "nextLine s = Some (l, r)"
  shows "stderr_lines s = (if trimCR (butlast l) = [] then [] else [trimCR (butlast l)]) @ stderr_lines r"
    "fragment s = fragment r"
  using split_on_line [OF assms] by (simp_all add: stderr_lines_def fragment_def)

lemma stderr_none:
  "nextLine s = None \<Longrightarrow> stderr_lines s = [] \<and> fragment s = s"
  by (simp add: split_on_none stderr_lines_def fragment_def)

definition last_lines :: "string list \<Rightarrow> string list" where
  "last_lines ls = drop (length ls - maxStderrLines) ls"

lemma keepLast_eq: "keepLast ls = last_lines ls"
  by (simp add: keepLast_def last_lines_def)

lemma last_lines_snoc: "last_lines (last_lines ls @ [x]) = last_lines (ls @ [x])"
proof -
  have "length ls - (length ls - 20 + 19) + (length ls - 20) = length ls - 19" by arith
  then show ?thesis by (auto simp: last_lines_def maxStderrLines_def Suc_diff_le)
qed

lemma sinkLines_spec:
  "sinkLines pend (last_lines ls) emit = (fragment pend, last_lines (ls @ stderr_lines pend), emit @ stderr_lines pend)"
proof (induction "length pend" arbitrary: pend ls emit rule: less_induct)
  case less
  show ?case
  proof (cases "nextLine pend")
    case None
    then show ?thesis using stderr_none [OF None] by (subst sinkLines.simps) simp
  next
    case (Some lr)
    obtain l r where lr: "nextLine pend = Some (l, r)" using Some by (cases lr) auto
    note len = nextLine_length [OF lr]
    show ?thesis
      using less.hyps [OF len, of ls emit] less.hyps [OF len, of "ls @ [trimCR (butlast l)]" "emit @ [trimCR (butlast l)]"]
        stderr_line [OF lr] lr
      by (subst sinkLines.simps) (auto simp: Let_def keepLast_eq last_lines_snoc)
  qed
qed

lemma split_on_fragment: "split_on LF (s @ p) = butlast (split_on LF s) @ split_on LF (fragment s @ p)"
proof (induction "length s" arbitrary: s rule: less_induct)
  case less
  show ?case
  proof (cases "nextLine s")
    case None
    then show ?thesis by (simp add: split_on_none fragment_def)
  next
    case (Some lr)
    obtain l r where lr: "nextLine s = Some (l, r)" using Some by (cases lr) auto
    show ?thesis
      using less.hyps [OF nextLine_length [OF lr]] split_on_line [OF lr] split_on_line [OF nextLine_append [OF lr, of p]] stderr_line(2) [OF lr]
      by simp
  qed
qed

lemma stderr_lines_append: "stderr_lines (s @ p) = stderr_lines s @ stderr_lines (fragment s @ p)"
  using split_on_fragment [of s p] by (simp add: stderr_lines_def butlast_append)

lemma fragment_append: "fragment (s @ p) = fragment (fragment s @ p)"
  using split_on_fragment [of s p] by (simp add: fragment_def)

text \<open>
  However the subprocess's output is cut into writes, the sink keeps the same
  state and hands the same lines to its callback as if the whole text had come at once: the
  callback gets every non-empty complete line once and in order, and the error report holds
  the last twenty of them.
\<close>

lemma sink_chunking_irrelevant:
  "sinkRun chunks (setSink newSink) =
     (\<lparr>lsPend = fragment (concat chunks), lsLines = last_lines (stderr_lines (concat chunks)), lsSink = True\<rparr>,
      stderr_lines (concat chunks))"
proof (induction chunks rule: rev_induct)
  case Nil
  then show ?case
    by (simp add: sinkRun_def setSink_def newSink_def fragment_def stderr_lines_def last_lines_def)
next
  case (snoc p chunks)
  then show ?case
    using sinkLines_spec [of "fragment (concat chunks) @ p" "stderr_lines (concat chunks)" "[]"]
      stderr_lines_append [of "concat chunks" p] fragment_append [of "concat chunks" p]
    by (simp add: sinkRun_def sinkWrite_def)
qed

lemma last_lines_length: "length (last_lines ls) \<le> maxStderrLines"
  by (simp add: last_lines_def)

lemma stderr_lines_clean: "line \<in> set (stderr_lines s) \<Longrightarrow> line \<noteq> [] \<and> LF \<notin> set line \<and> last line \<noteq> CR"
proof -
  assume "line \<in> set (stderr_lines s)"
  then obtain p where p: "p \<in> set (split_on LF s)" "line = trimCR p" "line \<noteq> []"
    by (auto simp: stderr_lines_def dest: in_set_butlastD)
  have "LF \<notin> set line" using split_on_no_sep [OF p(1)] p(2) by (auto simp: trimCR_def dest!: set_dropWhileD)
  moreover have "last line \<noteq> CR"
    using p(2,3) hd_dropWhile [of "\<lambda>c. c = CR" "rev p"] by (auto simp: trimCR_def last_rev)
  ultimately show ?thesis using p(3) by simp
qed

text \<open>
  Property C39. The error report stays small and clean: after any sequence of writes, with or
  without a callback, it holds at most twenty lines, and none of them is empty, contains a
  newline or ends in a carriage return.
\<close>

theorem stderr_report_bounded:
  "length (lsLines (fst (sinkRun chunks newSink))) \<le> 20 \<and>
   list_all (\<lambda>line. line \<noteq> [] \<and> LF \<notin> set line \<and> last line \<noteq> CR) (lsLines (fst (sinkRun chunks newSink)))"
proof -
  have "lsLines (fst (sinkRun chunks newSink)) = last_lines (stderr_lines (concat chunks)) \<and>
      lsPend (fst (sinkRun chunks newSink)) = fragment (concat chunks)"
  proof (induction chunks rule: rev_induct)
    case (snoc p chunks)
    obtain l out where run: "sinkRun chunks newSink = (l, out)" by (metis prod.exhaust)
    show ?case
      using snoc run sinkLines_spec [of "fragment (concat chunks) @ p" "stderr_lines (concat chunks)" "[]"]
        stderr_lines_append [of "concat chunks" p] fragment_append [of "concat chunks" p]
      by (simp add: sinkRun_def sinkWrite_def)
  qed (simp add: sinkRun_def newSink_def fragment_def stderr_lines_def last_lines_def)
  moreover have "set (last_lines ls) \<subseteq> set ls" for ls :: "string list"
    by (simp add: last_lines_def set_drop_subset)
  ultimately show ?thesis
    using last_lines_length [of "stderr_lines (concat chunks)"] stderr_lines_clean
    by (auto simp: maxStderrLines_def list_all_iff)
qed

section \<open>The signing key\<close>

definition pipelockPrivateHeader :: string where
  "pipelockPrivateHeader = ''pipelock-ed25519-private-v1''"

definition pipelockPublicHeader :: string where
  "pipelockPublicHeader = ''pipelock-ed25519-public-v1''"

definition keyBody :: "string \<Rightarrow> bytes \<Rightarrow> string" where
  "keyBody header key = header @ [LF] @ base64_encode key @ [LF]"

record key_io =
  kyStatErr :: bool
  kyGenerate :: "(bytes \<times> bytes) option"
  kyMkdir :: bool
  kyPriv :: write_result
  kyPub :: write_result

datatype key_error = KeyStat | KeyGenerate | KeyDir | KeyWrite | KeySidecar

text \<open>\<open>EnsureSigningKey\<close>: whether a key was generated, or the error, and the files.\<close>

definition EnsureSigningKey :: "key_io \<Rightarrow> string \<Rightarrow> file_sys \<Rightarrow> (key_error + bool) \<times> file_sys" where
  "EnsureSigningKey io path fs =
     (if path = [] then (Inr False, fs)
      else if kyStatErr io then (Inl KeyStat, fs)
      else if fsFiles fs path \<noteq> None then (Inr False, fs)
      else case kyGenerate io of
        None \<Rightarrow> (Inl KeyGenerate, fs)
      | Some (pub, priv) \<Rightarrow>
          (case mkdirAll (kyMkdir io) (path_dir path) fs of
             (False, fs1) \<Rightarrow> (Inl KeyDir, fs1)
           | (True, fs1) \<Rightarrow>
               (case writeFile (kyPriv io) path (keyBody pipelockPrivateHeader priv) fs1 of
                  (False, fs2) \<Rightarrow> (Inl KeyWrite, fs2)
                | (True, fs2) \<Rightarrow>
                    (case writeFile (kyPub io) (path @ ''.pub'') (keyBody pipelockPublicHeader pub) fs2 of
                       (False, fs3) \<Rightarrow> (Inl KeySidecar, fs3)
                     | (True, fs3) \<Rightarrow> (Inr True, fs3)))))"

text \<open>The key material a key file holds: the text between its first two newlines, decoded.\<close>

definition key_of_file :: "string \<Rightarrow> string \<Rightarrow> bytes option" where
  "key_of_file header text =
     (case split_on LF text of [h, b, e] \<Rightarrow> if h = header \<and> e = [] then Some (base64_decode b) else None | _ \<Rightarrow> None)"

section \<open>The configuration\<close>

record pl_config =
  pcConfigFile :: string
  pcAuditLog :: string
  pcProxyPort :: int
  pcBinPath :: string
  pcProfileDir :: string
  pcEvidenceDir :: string
  pcSigningKeyPath :: string

definition defaultSigningKeyPath :: "(string \<Rightarrow> string) \<Rightarrow> string \<Rightarrow> string" where
  "defaultSigningKeyPath getenv primaryDir =
     (let p = getenv ''PIPELOCK_SIGNING_KEY'' in
      if p \<noteq> [] then p else path_join [primaryDir, ''pipelock-keys'', ''id_ed25519''])"

definition pipelock_DefaultConfig :: "(string \<Rightarrow> string) \<Rightarrow> string \<Rightarrow> pl_config" where
  "pipelock_DefaultConfig getenv primaryDir =
     \<lparr>pcConfigFile = path_join [primaryDir, ''pipelock.yaml''], pcAuditLog = path_join [primaryDir, ''pipelock-audit.log''],
      pcProxyPort = 8889, pcBinPath = ''pipelock'', pcProfileDir = path_join [primaryDir, ''pipelock-profiles''],
      pcEvidenceDir = path_join [primaryDir, ''pipelock-evidence''],
      pcSigningKeyPath = defaultSigningKeyPath getenv primaryDir\<rparr>"

definition emDash :: string where
  "emDash = [CHR 0xE2, CHR 0x80, CHR 0x94]"

definition quote :: string where
  "quote = [CHR 34]"

text \<open>The executed template.\<close>

definition configTemplate :: "pl_config \<Rightarrow> string list" where
  "configTemplate c =
     [''# SGAIL Labs Harborlight Firewall '' @ emDash @ '' generated Pipelock config (audit mode)'',
        ''# Do not edit manually; regenerated on every '' @ [CHR 39] @ ''witness init'' @ [CHR 39] @ ''.'',
        ''# Schema: Pipelock v3 (github.com/luckyPipewrench/pipelock).'',
        ''version: 1'',
        ''mode: audit          # detect and log, never block '' @ emDash @ '' witness handles alerting'',
        ''enforce: false       # belt-and-suspenders with mode: audit'',
        [],
        ''fetch_proxy:'',
        ''  listen: '' @ quote @ ''127.0.0.1:'' @ fmt_int (pcProxyPort c) @ quote,
        [],
        ''forward_proxy:'',
        ''  enabled: true'',
        ''  max_tunnel_seconds: 300'',
        ''  idle_timeout_seconds: 120'',
        [],
        ''logging:'',
        ''  format: json'',
        ''  output: file'',
        ''  file: '' @ quote @ pcAuditLog c @ quote,
        ''  include_allowed: true'',
        ''  include_blocked: true'',
        [],
        ''dlp:'',
        ''  scan_env: true'',
        [],
        ''response_scanning:'',
        ''  enabled: true'',
        ''  action: warn'',
        [],
        ''mcp_input_scanning:'',
        ''  enabled: true'',
        ''  action: warn'',
        ''  on_parse_error: forward'',
        [],
        ''mcp_tool_scanning:'',
        ''  enabled: true'',
        ''  action: warn'',
        [],
        ''session_profiling:'',
        ''  enabled: true'',
        [],
        ''behavioral_baseline:'',
        ''  enabled: true'',
        ''  profile_dir: '' @ quote @ pcProfileDir c @ quote,
        ''  deviation_action: warn'',
        [],
        ''# Hash-chained, tamper-evident evidence log. The witness bridge tails this'',
        ''# directory and folds every signed decision receipt into the witness Merkle log'',
        ''# alongside the raw audit events. A signing key is required: Pipelock'' @ [CHR 39] @ ''s recorder'',
        ''# is inert without flight_recorder.signing_key_path and writes nothing, so'',
        ''# witness provisions one by default (see EnsureSigningKey).'',
        ''flight_recorder:'',
        ''  enabled: true'',
        ''  dir: '' @ quote @ pcEvidenceDir c @ quote] @
     (if pcSigningKeyPath c = [] then []
      else [''  signing_key_path: '' @ quote @ pcSigningKeyPath c @ quote,
        ''  sign_checkpoints: true''])"

definition renderConfig :: "pl_config \<Rightarrow> string" where
  "renderConfig c = concat (map (\<lambda>l. l @ [LF]) (configTemplate c))"

record conf_io =
  cfMkdir :: "string \<Rightarrow> bool"
  cfKey :: key_io
  cfWrite :: write_result

datatype conf_error = ConfDir string | ConfKey key_error | ConfWrite

fun mkdirs :: "(string \<Rightarrow> bool) \<Rightarrow> string list \<Rightarrow> file_sys \<Rightarrow> conf_error option \<times> file_sys" where
  "mkdirs ok [] fs = (None, fs)"
| "mkdirs ok (d # ds) fs =
     (if d = [] then mkdirs ok ds fs
      else case mkdirAll (ok d) d fs of (False, fs1) \<Rightarrow> (Some (ConfDir d), fs1) | (True, fs1) \<Rightarrow> mkdirs ok ds fs1)"

definition WriteConfig :: "conf_io \<Rightarrow> pl_config \<Rightarrow> file_sys \<Rightarrow> conf_error option \<times> file_sys" where
  "WriteConfig io c fs =
     (case mkdirs (cfMkdir io) [path_dir (pcConfigFile c), pcProfileDir c, pcEvidenceDir c] fs of
        (Some e, fs1) \<Rightarrow> (Some e, fs1)
      | (None, fs1) \<Rightarrow>
          (case EnsureSigningKey (cfKey io) (pcSigningKeyPath c) fs1 of
             (Inl e, fs2) \<Rightarrow> (Some (ConfKey e), fs2)
           | (Inr _, fs2) \<Rightarrow>
               (case writeFile (cfWrite io) (pcConfigFile c) (renderConfig c) fs2 of
                  (True, fs3) \<Rightarrow> (None, fs3)
                | (False, fs3) \<Rightarrow> (Some ConfWrite, fs3))))"

section \<open>The subprocess\<close>

text \<open>\<open>resolveBin\<close>; \<open>exists\<close> is \<open>os.Stat\<close>, \<open>lookPath\<close> the search in \<open>PATH\<close>.\<close>

definition resolveBin :: "(string \<Rightarrow> bool) \<Rightarrow> (string \<Rightarrow> string option) \<Rightarrow> string \<Rightarrow> string option" where
  "resolveBin exists lookPath name =
     (if HasPrefix name ''/'' then (if exists name then Some name else None)
      else case filter exists [''/usr/local/bin/'' @ name, ''/usr/bin/'' @ name] of
        c # _ \<Rightarrow> Some c
      | [] \<Rightarrow> lookPath (TrimPrefix name ''./''))"

record runner =
  rnCfg :: pl_config
  rnStarted :: bool
  rnAlive :: bool
  rnStderr :: line_sink

definition NewRunner :: "pl_config \<Rightarrow> runner" where
  "NewRunner cfg = \<lparr>rnCfg = cfg, rnStarted = False, rnAlive = False, rnStderr = newSink\<rparr>"

definition ProxyAddr :: "runner \<Rightarrow> string" where
  "ProxyAddr r = ''http://127.0.0.1:'' @ fmt_int (pcProxyPort (rnCfg r))"

text \<open>
  One turn of \<open>waitReady\<close>: the clock, what the process wrote to stderr since the last turn,
  whether it has exited, whether the port accepts a connection.
\<close>

record poll_io =
  poNow :: time
  poStderr :: string
  poExited :: bool
  poDial :: bool

datatype start_error = BinNotFound | StartFailed | ExitedDuringStartup string | ProxyNotUp string

datatype ready = Ready | NotReady start_error | StillPolling

fun waitReady :: "time \<Rightarrow> poll_io list \<Rightarrow> line_sink \<Rightarrow> ready \<times> line_sink" where
  "waitReady deadline [] l = (StillPolling, l)"
| "waitReady deadline (p # ps) l =
     (let l1 = fst (sinkWrite (poStderr p) l) in
      if \<not> poNow p < deadline then (NotReady (ProxyNotUp (sinkTail l1)), l1)
      else if poExited p then (NotReady (ExitedDuringStartup (sinkTail l1)), l1)
      else if poDial p then (Ready, l1)
      else waitReady deadline ps l1)"

text \<open>
  \<open>Stop\<close> interrupts the process and waits for it. It returns only if the process exits
  (\<open>exits\<close>).
\<close>

definition runner_Stop :: "bool \<Rightarrow> runner \<Rightarrow> runner outcome" where
  "runner_Stop exits r =
     (if \<not> rnStarted r then Value r
      else if rnAlive r \<and> \<not> exits then Diverge
      else Value (r\<lparr>rnAlive := False\<rparr>))"

record start_proc =
  spExists :: "string \<Rightarrow> bool"
  spLookPath :: "string \<Rightarrow> string option"
  spTouch :: bool
  spSpawn :: bool
  spNow :: time
  spPolls :: "poll_io list"
  spExits :: bool

text \<open>\<open>Start\<close>; \<open>None\<close> is success. The audit log is created if it is missing.\<close>

definition runner_Start :: "start_proc \<Rightarrow> runner \<Rightarrow> file_sys \<Rightarrow> (start_error option \<times> runner) outcome \<times> file_sys" where
  "runner_Start io r fs =
     (case resolveBin (spExists io) (spLookPath io) (pcBinPath (rnCfg r)) of
        None \<Rightarrow> (Value (Some BinNotFound, r), fs)
      | Some bin \<Rightarrow>
          let log = pcAuditLog (rnCfg r);
              fs1 = (if spTouch io \<and> fsFiles fs log = None then fs\<lparr>fsFiles := (fsFiles fs)(log \<mapsto> [])\<rparr> else fs)
          in if \<not> spSpawn io then (Value (Some StartFailed, r), fs1)
             else (case waitReady (spNow io + 3 * 10 ^ 9) (spPolls io) (rnStderr r) of
                     (StillPolling, l) \<Rightarrow> (Diverge, fs1)
                   | (Ready, l) \<Rightarrow> (Value (None, r\<lparr>rnStarted := True, rnAlive := True, rnStderr := l\<rparr>), fs1)
                   | (NotReady e, l) \<Rightarrow>
                       (map_outcome2 (\<lambda>r1. (Some e, r1))
                          (runner_Stop (spExits io) (r\<lparr>rnStarted := True, rnAlive := True, rnStderr := l\<rparr>)), fs1)))"

section \<open>The bridge\<close>

record bridge =
  brRunner :: runner
  brTail :: run_state
  brEvidence :: bool
  brEnabled :: bool
  brStderrPrev :: string

text \<open>\<open>New\<close>: the sink forwards stderr, the evidence tailer exists only with a directory.\<close>

definition bridge_New :: "pl_config \<Rightarrow> bridge" where
  "bridge_New cfg =
     \<lparr>brRunner = (NewRunner cfg)\<lparr>rnStderr := setSink newSink\<rparr>, brTail = startRun (NewTailer (pcAuditLog cfg)),
      brEvidence = (pcEvidenceDir cfg \<noteq> []), brEnabled = False, brStderrPrev = []\<rparr>"

definition ResumeAuditFrom :: "tail_state option \<Rightarrow> bridge \<Rightarrow> bridge" where
  "ResumeAuditFrom saved b = b\<lparr>brTail := startRun (SetStateFile saved (rsT (brTail b)))\<rparr>"

text \<open>The stderr callback: the line is graded, and appended under that level.\<close>

definition forwardStderr ::
  "env \<Rightarrow> (string \<Rightarrow> bytes) \<Rightarrow> string \<Rightarrow> append_io \<Rightarrow> bridge \<times> (store \<times> disk) \<Rightarrow> bridge \<times> (store \<times> disk)" where
  "forwardStderr C marshalMsg line io bs =
     (case bs of (b, sd) \<Rightarrow>
        let lvl = stderr_level (brStderrPrev b) line in
        (b\<lparr>brStderrPrev := lvl\<rparr>,
         append_step C sd \<lparr>acLevel = lvl, acEvent = ''pipelock_stderr'', acSource = ''pipelock'',
           acData = Some (Some (marshalMsg line)), acIO = io\<rparr>))"

text \<open>\<open>Start\<close>: the reader goroutines begin only once the proxy accepts connections.\<close>

definition bridge_Start :: "start_proc \<Rightarrow> bridge \<Rightarrow> file_sys \<Rightarrow> (start_error option \<times> bridge) outcome \<times> file_sys" where
  "bridge_Start io b fs =
     (case runner_Start io (brRunner b) fs of
        (r, fs1) \<Rightarrow>
          (map_outcome2 (\<lambda>(e, r1). case e of
              Some err \<Rightarrow> (Some err, b\<lparr>brRunner := r1\<rparr>)
            | None \<Rightarrow> (None, b\<lparr>brRunner := r1, brEnabled := True\<rparr>)) r, fs1))"

type_synonym forwarded = "bridge_event \<times> append_io \<times> bool \<times> time"

text \<open>
  \<open>Stop\<close>: the process first, then the tailers, which read to the end of their files, then the
  forwarder, which appends what is left in the channels (\<open>ws\<close>, in the order it takes them),
  and last the position file.
\<close>

definition bridge_Stop ::
  "env \<Rightarrow> casing \<Rightarrow> (audit_event \<Rightarrow> bytes) \<Rightarrow> (string \<Rightarrow> audit_event option) \<Rightarrow> bool \<Rightarrow> turn_io list \<Rightarrow> forwarded list \<Rightarrow> bool \<Rightarrow> time \<Rightarrow>
   bridge \<times> (store \<times> disk) \<Rightarrow> (bridge \<times> (store \<times> disk)) outcome" where
  "bridge_Stop C U marshal parse exits turns ws ok now bs =
     (case bs of (b, sd) \<Rightarrow>
        if \<not> brEnabled b then Value (b, sd)
        else case runner_Stop exits (brRunner b) of
          Diverge \<Rightarrow> Diverge
        | Panic \<Rightarrow> Panic
        | Value r \<Rightarrow>
            (case runLoop parse turns (brTail b) of
               (rs, evs, ret) \<Rightarrow>
                 if \<not> ret then Diverge else (case drainRemaining C U marshal ws (sd, rsT rs) of
                    (sd1, t) \<Rightarrow> Value (b\<lparr>brRunner := r, brTail := rs\<lparr>rsT := Flush ok now t\<rparr>\<rparr>, sd1))))"

section \<open>Provisioning\<close>

lemma mkdirs_ok:
  "mkdirs ok ds fs = (None, fs') \<Longrightarrow> fsFiles fs' = fsFiles fs \<and> fsDirs fs' = fsDirs fs \<union> {d \<in> set ds. d \<noteq> []}"
  by (induction ok ds fs rule: mkdirs.induct) (auto simp: mkdirAll_def split: if_splits prod.splits bool.splits)

lemma key_of_keyBody: "LF \<notin> set header \<Longrightarrow> key_of_file header (keyBody header key) = Some key"
proof -
  assume h: "LF \<notin> set header"
  have digit: "b64_char n \<noteq> LF" if "n < 64" for n
  proof -
    have "b64_char n \<in> set b64_digits" using that length_b64_digits by (simp add: b64_char_def)
    then show ?thesis by (auto simp: b64_digits_def LF_def)
  qed
  have "LF \<notin> set (base64_encode key)"
  proof (induction key rule: base64_encode.induct)
    case (2 a)
    then show ?case
      using six_bits [OF unat_byte [of a] unat_byte [of a]] digit [THEN not_sym] by (simp add: LF_def [symmetric]) (simp add: LF_def)
  next
    case (3 a b)
    then show ?case
      using six_bits [OF unat_byte [of a] unat_byte [of b]] digit [THEN not_sym] by (simp add: LF_def [symmetric]) (simp add: LF_def)
  next
    case (4 a b c r)
    then show ?case
      using six_bits [OF unat_byte [of a] unat_byte [of b]] six_bits [OF unat_byte [of c] unat_byte [of b]] digit [THEN not_sym] by simp
  qed simp
  then show ?thesis
    using h by (simp add: keyBody_def key_of_file_def split_on_append base64_roundtrip)
qed

lemma EnsureSigningKey_ok:
  assumes "EnsureSigningKey io path fs = (Inr g, fs')" "path \<noteq> []"
  shows "fsDirs fs \<subseteq> fsDirs fs' \<and>
    (if g then fsFiles fs path = None \<and>
        (\<exists>pub priv. kyGenerate io = Some (pub, priv) \<and>
           fsFiles fs' = (fsFiles fs)(path \<mapsto> keyBody pipelockPrivateHeader priv, path @ ''.pub'' \<mapsto> keyBody pipelockPublicHeader pub))
     else fsFiles fs path \<noteq> None \<and> fs' = fs)"
  using assms
  by (auto simp: EnsureSigningKey_def mkdirAll_def writeFile_def split: if_splits option.splits prod.splits bool.splits write_result.splits)

text \<open>
  Provisioning the signing key is safe and exact: a key file that exists is never
  touched; a call that reports a new key has left, at the path and at its \<open>.pub\<close> sidecar, texts
  from which the generated private and public key are read back.
\<close>

lemma EnsureSigningKey_roundtrip:
  assumes "path \<noteq> []" "EnsureSigningKey io path fs = (r, fs')"
  shows "(fsFiles fs path \<noteq> None \<longrightarrow> fs' = fs) \<and>
    (r = Inr True \<longrightarrow> (\<exists>pub priv text side. kyGenerate io = Some (pub, priv) \<and>
       fsFiles fs' path = Some text \<and> key_of_file pipelockPrivateHeader text = Some priv \<and>
       fsFiles fs' (path @ ''.pub'') = Some side \<and> key_of_file pipelockPublicHeader side = Some pub))"
proof (intro conjI impI)
  assume "fsFiles fs path \<noteq> None"
  then show "fs' = fs" using assms by (auto simp: EnsureSigningKey_def split: if_splits)
next
  assume "r = Inr True"
  then obtain pub priv where k: "kyGenerate io = Some (pub, priv)"
      "fsFiles fs' = (fsFiles fs)(path \<mapsto> keyBody pipelockPrivateHeader priv, path @ ''.pub'' \<mapsto> keyBody pipelockPublicHeader pub)"
    using EnsureSigningKey_ok [of io path fs True fs'] assms by auto
  have "LF \<notin> set pipelockPrivateHeader" "LF \<notin> set pipelockPublicHeader"
    by (simp_all add: pipelockPrivateHeader_def pipelockPublicHeader_def LF_def)
  then show "\<exists>pub priv text side. kyGenerate io = Some (pub, priv) \<and>
       fsFiles fs' path = Some text \<and> key_of_file pipelockPrivateHeader text = Some priv \<and>
       fsFiles fs' (path @ ''.pub'') = Some side \<and> key_of_file pipelockPublicHeader side = Some pub"
    using k by (simp add: key_of_keyBody)
qed

definition sample_key_io :: key_io where
  "sample_key_io = \<lparr>kyStatErr = False, kyGenerate = Some ([1], [2, 3]), kyMkdir = True, kyPriv = WriteOk, kyPub = WriteOk\<rparr>"

lemma EnsureSigningKey_roundtrip_witness:
  "fst (EnsureSigningKey sample_key_io ''/k/id'' no_files) = Inr True \<and>
   (\<exists>text. fsFiles (snd (EnsureSigningKey sample_key_io ''/k/id'' no_files)) ''/k/id'' = Some text \<and>
      key_of_file pipelockPrivateHeader text = Some [2, 3])"
proof -
  obtain r fs' where e: "EnsureSigningKey sample_key_io ''/k/id'' no_files = (r, fs')" by (metis prod.exhaust)
  have r: "r = Inr True"
    using e by (simp add: EnsureSigningKey_def sample_key_io_def no_files_def mkdirAll_def writeFile_def)
  show ?thesis
    using EnsureSigningKey_roundtrip [OF _ e] e r by (auto simp: sample_key_io_def)
qed

text \<open>
  A private key whose write failed half-way is taken for a provisioned one by the next call,
  and so is a key whose sidecar could not be written.
\<close>

lemma broken_key_accepted:
  assumes "EnsureSigningKey io path fs = (Inl e, fs1)" "fsFiles fs1 path \<noteq> None" "\<not> kyStatErr io2" "path \<noteq> []"
  shows "EnsureSigningKey io2 path fs1 = (Inr False, fs1)"
  using assms by (simp add: EnsureSigningKey_def)

lemma broken_key_sample:
  "EnsureSigningKey (sample_key_io\<lparr>kyPriv := WriteFailed (Some [])\<rparr>) ''/k/id'' no_files =
     (Inl KeyWrite, \<lparr>fsFiles = [''/k/id'' \<mapsto> []], fsDirs = {path_dir ''/k/id''}\<rparr>)"
  by (simp add: EnsureSigningKey_def sample_key_io_def no_files_def mkdirAll_def writeFile_def)

lemma WriteConfig_ok:
  assumes "WriteConfig io c fs = (None, fs')"
  shows "fsFiles fs' (pcConfigFile c) = Some (renderConfig c) \<and>
    {d. d \<in> {path_dir (pcConfigFile c), pcProfileDir c, pcEvidenceDir c} \<and> d \<noteq> []} \<subseteq> fsDirs fs' \<and>
    (pcSigningKeyPath c \<noteq> [] \<longrightarrow> fsFiles fs' (pcSigningKeyPath c) \<noteq> None) \<and>
    (pcSigningKeyPath c \<noteq> [] \<and> pcSigningKeyPath c \<noteq> pcConfigFile c \<and> fsFiles fs (pcSigningKeyPath c) \<noteq> None \<longrightarrow>
       fsFiles fs' (pcSigningKeyPath c) = fsFiles fs (pcSigningKeyPath c))"
proof -
  obtain fs1 where m: "mkdirs (cfMkdir io) [path_dir (pcConfigFile c), pcProfileDir c, pcEvidenceDir c] fs = (None, fs1)"
    using assms by (auto simp: WriteConfig_def split: prod.splits option.splits)
  note m1 = mkdirs_ok [OF m]
  obtain g fs2 where k: "EnsureSigningKey (cfKey io) (pcSigningKeyPath c) fs1 = (Inr g, fs2)"
    using assms m by (auto simp: WriteConfig_def split: prod.splits sum.splits)
  have w: "fs' = fs2\<lparr>fsFiles := (fsFiles fs2)(pcConfigFile c \<mapsto> renderConfig c)\<rparr>"
    using assms m k writeFile_ok [of "cfWrite io" "pcConfigFile c" "renderConfig c" fs2 fs']
    by (auto simp: WriteConfig_def split: prod.splits bool.splits)
  show ?thesis
  proof (cases "pcSigningKeyPath c = []")
    case True
    then show ?thesis using k w m1 by (auto simp: EnsureSigningKey_def)
  next
    case False
    then show ?thesis using EnsureSigningKey_ok [OF k False] w m1 by (auto split: if_splits)
  qed
qed

section \<open>Starting\<close>

text \<open>Polls that are at least 100 ms apart, the first not before \<open>t\<close>.\<close>

fun spaced :: "time \<Rightarrow> poll_io list \<Rightarrow> bool" where
  "spaced t [] = True"
| "spaced t (p # ps) \<longleftrightarrow> t \<le> poNow p \<and> spaced (poNow p + 10 ^ 8) ps"

lemma waitReady_ends:
  "spaced t ps \<Longrightarrow> deadline \<le> t + int k * 10 ^ 8 \<Longrightarrow> k < length ps \<Longrightarrow> fst (waitReady deadline ps l) \<noteq> StillPolling"
proof (induction ps arbitrary: t k l)
  case (Cons p ps)
  show ?case
  proof (cases k)
    case 0
    then show ?thesis using Cons.prems by (auto simp: Let_def)
  next
    case (Suc j)
    have "deadline \<le> (poNow p + 10 ^ 8) + int j * 10 ^ 8" using Cons.prems(1,2) Suc by (simp add: algebra_simps)
    then show ?thesis
      using Cons.IH [of "poNow p + 10 ^ 8" j] Cons.prems(1,3) Suc by (auto simp: Let_def)
  qed
qed simp

lemma waitReady_Ready:
  "waitReady deadline ps l = (Ready, l') \<Longrightarrow> \<exists>p \<in> set ps. poDial p \<and> \<not> poExited p \<and> poNow p < deadline"
  by (induction deadline ps l rule: waitReady.induct) (auto simp: Let_def split: if_splits)

text \<open>
  Starting pipelock is honest and finite: with polls 100 ms apart \<open>Start\<close> is decided
  after at most 31 of them. It reports success only if the proxy port accepted a connection
  before the deadline while the process had not exited, and it reports an error only when
  no process is left running.
\<close>

lemma runner_Start_honest:
  assumes "spaced (spNow io) (spPolls io)" "30 < length (spPolls io)" "spExits io" "\<not> rnAlive r"
  shows "\<exists>e r' fs'. runner_Start io r fs = (Value (e, r'), fs') \<and>
    (e = None \<longleftrightarrow> rnAlive r') \<and>
    (e = None \<longrightarrow> (\<exists>p \<in> set (spPolls io). poDial p \<and> \<not> poExited p \<and> poNow p < spNow io + 3 * 10 ^ 9))"
proof -
  obtain w l where w: "waitReady (spNow io + 3 * 10 ^ 9) (spPolls io) (rnStderr r) = (w, l)" by (metis prod.exhaust)
  have "w \<noteq> StillPolling"
    using waitReady_ends [OF assms(1), of "spNow io + 3 * 10 ^ 9" 30 "rnStderr r"] assms(2) w by simp
  moreover have "w = Ready \<Longrightarrow> \<exists>p \<in> set (spPolls io). poDial p \<and> \<not> poExited p \<and> poNow p < spNow io + 3 * 10 ^ 9"
    using waitReady_Ready w by blast
  ultimately show ?thesis
    using w assms(3,4)
    by (cases "resolveBin (spExists io) (spLookPath io) (pcBinPath (rnCfg r))"; cases w)
      (auto simp: runner_Start_def runner_Stop_def Let_def)
qed

definition sample_poll :: "nat \<Rightarrow> bool \<Rightarrow> poll_io" where
  "sample_poll n dial = \<lparr>poNow = int n * 10 ^ 8, poStderr = [], poExited = False, poDial = dial\<rparr>"

definition sample_proc :: start_proc where
  "sample_proc = \<lparr>spExists = (\<lambda>p. True), spLookPath = (\<lambda>p. None), spTouch = True, spSpawn = True, spNow = 0,
     spPolls = map (\<lambda>n. sample_poll n (n = 1)) [0..<31], spExits = True\<rparr>"

definition sample_cfg :: pl_config where
  "sample_cfg = \<lparr>pcConfigFile = ''/w/pipelock.yaml'', pcAuditLog = ''/w/audit.log'', pcProxyPort = 8889, pcBinPath = ''pipelock'',
     pcProfileDir = ''/w/p'', pcEvidenceDir = ''/w/e'', pcSigningKeyPath = ''/w/k''\<rparr>"

lemma spaced_map: "t \<le> int a * 10 ^ 8 \<Longrightarrow> spaced t (map (\<lambda>n. sample_poll n (d n)) [a..<b])"
proof (induction "b - a" arbitrary: a t)
  case (Suc k)
  then have ab: "[a..<b] = a # [Suc a..<b]" by (simp add: upt_conv_Cons)
  have "spaced (int a * 10 ^ 8 + 10 ^ 8) (map (\<lambda>n. sample_poll n (d n)) [Suc a..<b])"
    using Suc.hyps by (intro Suc.hyps(1)) (auto simp: algebra_simps)
  then show ?case using Suc.prems ab by (simp add: sample_poll_def)
qed simp

lemma runner_Start_honest_witness:
  "\<exists>e r' fs'. runner_Start sample_proc (NewRunner sample_cfg) no_files = (Value (e, r'), fs') \<and> (e = None \<longleftrightarrow> rnAlive r')"
proof -
  have f: "spNow sample_proc = 0" "spPolls sample_proc = map (\<lambda>n. sample_poll n (n = 1)) [0..<31]" "spExits sample_proc"
      "\<not> rnAlive (NewRunner sample_cfg)"
    by (simp_all only: sample_proc_def NewRunner_def start_proc.select_convs runner.select_convs simp_thms)
  have "spaced (spNow sample_proc) (spPolls sample_proc)"
    unfolding f(1,2) by (rule spaced_map) simp
  moreover have "30 < length (spPolls sample_proc)" unfolding f(2) length_map length_upt by simp
  ultimately show ?thesis using runner_Start_honest [of sample_proc "NewRunner sample_cfg" no_files] f(3,4) by blast
qed

text \<open>A start that failed leaves the bridge disabled, and stopping it then does nothing.\<close>

lemma failed_start_disabled:
  assumes "bridge_Start io b fs = (Value (Some e, b'), fs')" "\<not> brEnabled b"
  shows "bridge_Stop C U marshal parse exits turns ws ok now (b', sd) = Value (b', sd)"
proof -
  obtain r fs1 where r: "runner_Start io (brRunner b) fs = (r, fs1)" by (metis prod.exhaust)
  have "\<not> brEnabled b'"
  proof (cases r)
    case (Value x)
    obtain e0 r1 where "x = (e0, r1)" by (cases x)
    then show ?thesis using assms r Value by (cases e0) (auto simp: bridge_Start_def)
  qed (use assms r in \<open>simp_all add: bridge_Start_def\<close>)
  then show ?thesis by (simp add: bridge_Stop_def)
qed

section \<open>A clean shutdown\<close>

context append_log
begin

lemma run_records_map:
  assumes "\<And>s i. f (record_of s i) = g i"
  shows "inv s \<Longrightarrow> oks s js \<Longrightarrow> map f (records (foldl step s js)) = map f (records s) @ map g js"
  by (induction js arbitrary: s) (simp_all add: step_inv step_records assms)

end

definition forwarded_event :: "bridge_event \<Rightarrow> audit_event" where
  "forwarded_event be = (case be of AuditEvt e \<Rightarrow> e | Receipt e \<Rightarrow> e)"

definition forward_call :: "casing \<Rightarrow> (audit_event \<Rightarrow> bytes) \<Rightarrow> forwarded \<Rightarrow> append_call" where
  "forward_call U marshal w =
     (case w of (be, io, _) \<Rightarrow>
        feed_call marshal ''pipelock''
          (case be of AuditEvt e \<Rightarrow> (normalizeLevel U (event_Level e), EventName e) | Receipt e \<Rightarrow> classifyReceipt U e) (forwarded_event be) io)"

text \<open>The audit events among the forwarded ones, with the system's part of their acknowledgement.\<close>

definition audit_acks :: "forwarded list \<Rightarrow> (audit_event \<times> bool \<times> time) list" where
  "audit_acks ws = List.map_filter (\<lambda>(be, io, ok, now). case be of AuditEvt e \<Rightarrow> Some (e, ok, now) | Receipt e \<Rightarrow> None) ws"

lemma audit_acks_simps [simp]:
  "audit_acks [] = []"
  "audit_acks ((AuditEvt e, io, ok, now) # ws) = (e, ok, now) # audit_acks ws"
  "audit_acks ((Receipt e, io, ok, now) # ws) = audit_acks ws"
  by (simp_all add: audit_acks_def map_filter_def)

lemma drainRemaining_ok:
  "al.oks C sd (map (forward_call U marshal) ws) \<Longrightarrow>
     drainRemaining C U marshal ws (sd, t) =
       (foldl (append_step C) sd (map (forward_call U marshal) ws), foldl (\<lambda>t (e, ok, now). Ack ok now t) t (audit_acks ws))"
proof (induction ws arbitrary: sd t)
  case Nil
  then show ?case by (simp add: drainRemaining_def)
next
  case (Cons w ws)
  obtain be io ok now where w: "w = (be, io, ok, now)" by (cases w) auto
  have ok: "append_ok C sd (forward_call U marshal w)"
      "al.oks C (append_step C sd (forward_call U marshal w)) (map (forward_call U marshal) ws)"
    using Cons.prems by simp_all
  have "fst (append_call C sd (forward_call U marshal w)) = None" using ok(1) by (simp add: append_ok_def)
  then have "bridge_forward C U marshal be io ok now (sd, t) =
      (append_step C sd (forward_call U marshal w), foldl (\<lambda>t (e, ok, now). Ack ok now t) t (audit_acks [w]))"
    by (cases be) (simp_all add: bridge_forward_def appendAndAck_def forward_call_def forwarded_event_def w)
  moreover have "audit_acks (w # ws) = audit_acks [w] @ audit_acks ws" by (simp add: audit_acks_def map_filter_def)
  ultimately show ?case
    using Cons.IH [OF ok(2)] w by (simp add: drainRemaining_def)
qed

lemma ack_events_spec:
  "tail_spec start k ls t \<Longrightarrow> k + length acks \<le> emitted_count ls \<Longrightarrow>
     tail_spec start (k + length acks) ls (foldl (\<lambda>t (e, ok, now). Ack ok now t) t acks)"
proof (induction acks arbitrary: k t)
  case (Cons a acks)
  obtain e ok now where a: "a = (e, ok, now)" by (cases a) auto
  show ?case using Cons.IH [OF Ack_spec [OF Cons.prems(1), of ok now]] Cons.prems(2) a by simp
qed simp

lemma runLoop_seeStop: "tuStop io \<Longrightarrow> runLoop parse (io # ios) (seeStop io rs) = runLoop parse (io # ios) rs"
proof -
  assume "tuStop io"
  then have "seeStop io (seeStop io rs) = seeStop io rs" by (simp add: seeStop_def)
  then show ?thesis by (simp add: runTurn_def)
qed

text \<open>
  The tailer at the moment of the shutdown: it reads at a line end, every event it sent so far
  was acknowledged.
\<close>

definition caught_up :: "(string \<Rightarrow> 'e option) \<Rightarrow> int \<Rightarrow> run_state \<Rightarrow> bool" where
  "caught_up parse start rs \<longleftrightarrow> aligned rs \<and> 0 \<le> start \<and> start \<le> rsPos rs \<and>
     (\<exists>ls. scan parse start (drop (nat start) (rsFile rs)) = ls @ scan parse (rsPos rs) (unread rs) \<and>
        tail_spec start (length (events_of ls)) (flags_of ls) (rsT rs))"

lemma caught_up_drained:
  assumes "caught_up parse start rs" "length acks = length (events_of (scan parse (rsPos rs) (unread rs)))"
  shows "reread parse (Flush True now (foldl (\<lambda>t (e, ok, now). Ack ok now t)
      (record_all (scan parse (rsPos rs) (unread rs)) (rsT rs)) acks)) (rsFile rs) = (''resumed'', [])"
proof -
  obtain ls where ls: "scan parse start (drop (nat start) (rsFile rs)) = ls @ scan parse (rsPos rs) (unread rs)"
      "tail_spec start (length (events_of ls)) (flags_of ls) (rsT rs)"
    using assms(1) by (auto simp: caught_up_def)
  have b: "0 \<le> start" "start \<le> int (length (rsFile rs))"
    using assms(1) by (auto simp: caught_up_def aligned_def)
  have "tail_spec start (length (events_of ls)) (flags_of (scan parse start (drop (nat start) (rsFile rs))))
      (record_all (scan parse (rsPos rs) (unread rs)) (rsT rs))"
    using record_all_spec [OF ls(2), of "scan parse (rsPos rs) (unread rs)"] ls(1) by simp
  then have "tail_spec start (length (events_of ls) + length acks) (flags_of (scan parse start (drop (nat start) (rsFile rs))))
      (foldl (\<lambda>t (e, ok, now). Ack ok now t) (record_all (scan parse (rsPos rs) (unread rs)) (rsT rs)) acks)"
    using ls(1) assms(2) by (intro ack_events_spec) (simp_all add: emitted_count_flags)
  from reread_flushed [OF this b] show ?thesis using ls(1) assms(2) by simp
qed


definition sample_casing :: casing where
  "sample_casing = \<lparr>to_upper = (\<lambda>s. ''INFO''), to_lower = id\<rparr>"

definition sample_event :: audit_event where
  "sample_event = [(''event'', JStr ''start'')]"

definition sample_tail :: run_state where
  "sample_tail = \<lparr>rsT = sample_tailer, rsOpen = True, rsFile = ''a'' @ [LF], rsCur = 0, rsPos = 0, rsFirstOpen = False,
     rsAppeared = False, rsStopped = False, rsDeadline = 0\<rparr>"

definition sample_bridge :: bridge where
  "sample_bridge = \<lparr>brRunner = (NewRunner sample_cfg)\<lparr>rnStarted := True, rnAlive := True\<rparr>, brTail = sample_tail,
     brEvidence = True, brEnabled = True, brStderrPrev = []\<rparr>"

lemma sample_tail_scan: "scan (\<lambda>s. Some sample_event) 0 (''a'' @ [LF]) = [(2, Some sample_event)]"
  by (simp add: LF_def CR_def trimNewline_def Let_def scan.simps)


end
