(* ===== verification/Config.thy ===== *)
theory Config
  imports Feeds Lifecycle Soul
begin

text \<open>
  The configuration of the witness (\<open>internal/config\<close>): defaults, environment overrides, and
  the check of the named event feeds. JSON is an argument. A Go \<open>int\<close> and a duration are
  64-bit: the product of minutes wraps.
\<close>

section \<open>Data\<close>

record event_feed =
  efPath :: string
  efSource :: string

record config =
  cgPrimaryDir :: string
  cgDriftIntervalSec :: int
  cgMirrorURL :: string
  cgSBHAuditPath :: string
  cgSBHDecisionLogPath :: string
  cgSBHSessionLogPath :: string
  cgFarmEventsPath :: string
  cgEventFeeds :: "event_feed list"
  cgFarmSilenceMinutes :: int
  cgDowntimeAlertMinutes :: int
  cgMirrorEscalateAfter :: int
  cgSigner :: string

section \<open>Feeds\<close>

definition feedSourceRE :: "string \<Rightarrow> bool" where
  "feedSourceRE s \<longleftrightarrow>
     (let low = (\<lambda>c. let n = of_char c :: nat in (97 \<le> n \<and> n \<le> 122) \<or> (48 \<le> n \<and> n \<le> 57)) in
      s \<noteq> [] \<and> low (hd s) \<and> length (tl s) \<le> 31 \<and> list_all (\<lambda>c. low c \<or> c \<in> set ''_.-'') (tl s))"

definition reservedSources :: "string list" where
  "reservedSources = [''witness'', ''witness-init'', ''sbh'', ''farm'', ''pipelock'', ''drift'', ''migrate'', ''pd'', ''pd-system'',
     ''mirror'', ''enforcer'', ''anomaly'', ''operator'']"

datatype feed_error = FeedPathEmpty nat | FeedSourceBad nat | FeedSourceReserved nat | FeedSourceTwice nat | FeedPathTwice nat

fun validateFeeds :: "nat \<Rightarrow> string list \<Rightarrow> string list \<Rightarrow> event_feed list \<Rightarrow> feed_error option" where
  "validateFeeds i sources paths [] = None"
| "validateFeeds i sources paths (f # fs) =
     (if efPath f = [] then Some (FeedPathEmpty i)
      else if \<not> feedSourceRE (efSource f) then Some (FeedSourceBad i)
      else if efSource f \<in> set reservedSources then Some (FeedSourceReserved i)
      else if efSource f \<in> set sources then Some (FeedSourceTwice i)
      else if path_clean (efPath f) \<in> set paths then Some (FeedPathTwice i)
      else validateFeeds (Suc i) (efSource f # sources) (path_clean (efPath f) # paths) fs)"

definition ValidateEventFeeds :: "config \<Rightarrow> feed_error option" where
  "ValidateEventFeeds c = validateFeeds 0 [] [] (cgEventFeeds c)"

section \<open>Thresholds\<close>

definition Minute :: int where "Minute = 60 * 1000000000"

text \<open>A product of durations as \<open>int64\<close>.\<close>

definition wrap64 :: "int \<Rightarrow> int" where
  "wrap64 i = sint (word_of_int i :: 64 word)"

definition minutes_or :: "int \<Rightarrow> int \<Rightarrow> int" where
  "minutes_or dflt n = (if 0 < n then wrap64 (n * Minute) else dflt * Minute)"

definition DowntimeAlert :: "config \<Rightarrow> int" where
  "DowntimeAlert c = minutes_or 10 (cgDowntimeAlertMinutes c)"

definition MirrorEscalation :: "config \<Rightarrow> int" where
  "MirrorEscalation c = (if 0 < cgMirrorEscalateAfter c then cgMirrorEscalateAfter c else 3)"

definition FarmSilence :: "config \<Rightarrow> int" where
  "FarmSilence c = minutes_or 10 (cgFarmSilenceMinutes c)"

section \<open>Loading and saving\<close>

definition DefaultConfig :: "string \<Rightarrow> config" where
  "DefaultConfig home =
     \<lparr>cgPrimaryDir = path_join [home, ''.witness'', ''primary''], cgDriftIntervalSec = 30, cgMirrorURL = [], cgSBHAuditPath = [],
      cgSBHDecisionLogPath = [], cgSBHSessionLogPath = [], cgFarmEventsPath = [], cgEventFeeds = [], cgFarmSilenceMinutes = 0,
      cgDowntimeAlertMinutes = 0, cgMirrorEscalateAfter = 0, cgSigner = []\<rparr>"

definition env_or :: "(string \<Rightarrow> string) \<Rightarrow> string \<Rightarrow> string \<Rightarrow> string" where
  "env_or getenv name old = (if getenv name \<noteq> [] then getenv name else old)"

datatype config_error = ConfigUnreadable | ConfigParse

text \<open>
  \<open>Load\<close>: \<open>decode\<close> is \<open>json.Unmarshal\<close> into a configuration that holds the defaults. The
  environment counts only if there is a file.
\<close>

definition config_Load ::
  "(string \<Rightarrow> config \<Rightarrow> config option) \<Rightarrow> (string \<Rightarrow> string) \<Rightarrow> string \<Rightarrow> file_text \<Rightarrow> config_error + config" where
  "config_Load decode getenv home content =
     (case content of
        Inl NotExist \<Rightarrow> Inr (DefaultConfig home)
      | Inl ReadFailed \<Rightarrow> Inl ConfigUnreadable
      | Inr data \<Rightarrow>
          (case decode data (DefaultConfig home) of
             None \<Rightarrow> Inl ConfigParse
           | Some cfg \<Rightarrow>
               Inr (cfg\<lparr>cgSBHAuditPath := env_or getenv ''SBH_AUDIT_PATH'' (cgSBHAuditPath cfg),
                        cgSBHDecisionLogPath := env_or getenv ''SBH_DECISION_LOG'' (cgSBHDecisionLogPath cfg),
                        cgSBHSessionLogPath := env_or getenv ''SBH_SESSION_LOG'' (cgSBHSessionLogPath cfg),
                        cgFarmEventsPath := env_or getenv ''FARM_EVENTS_PATH'' (cgFarmEventsPath cfg)\<rparr>)))"

text \<open>\<open>Save\<close>: whether the directory can be made and the file written; the text it holds then.\<close>

definition config_Save :: "(config \<Rightarrow> string) \<Rightarrow> bool \<Rightarrow> bool \<Rightarrow> config \<Rightarrow> file_text \<Rightarrow> bool \<times> file_text" where
  "config_Save encode mkdir writes c old = (if mkdir \<and> writes then (True, Inr (encode c)) else (False, old))"

section \<open>What a validated list of feeds guarantees\<close>

lemma validateFeeds_None:
  "validateFeeds i sources paths fs = None \<Longrightarrow>
     (\<forall>f \<in> set fs. efPath f \<noteq> [] \<and> feedSourceRE (efSource f) \<and> efSource f \<notin> set reservedSources \<and>
        efSource f \<notin> set sources \<and> path_clean (efPath f) \<notin> set paths) \<and>
     distinct (map efSource fs) \<and> distinct (map (path_clean \<circ> efPath) fs)"
  by (induction i sources paths fs rule: validateFeeds.induct) (auto split: if_splits)

lemma source_ascii:
  assumes "feedSourceRE s"
  shows "ToValidUTF8 s = s"
proof -
  have low: "(of_char c :: nat) < 128" if "c \<in> set ''_.-''" for c using that by auto
  have "list_all (\<lambda>c. (of_char c :: nat) < 128) s"
    using assms by (cases s) (auto simp: feedSourceRE_def Let_def list_all_iff)
  then show ?thesis by (simp add: ToValidUTF8_ascii)
qed

lemma feed_level: "fst (feeds_Classify evt) \<in> {''INFO'', ''WARN'', ''CRITICAL''}"
  by (auto simp: feeds_Classify_def split: option.splits)

text \<open>
  Property C28. A named feed cannot speak for the witness. If the configuration passes the
  check, then whatever a line of a feed says, the record it becomes carries the name of that
  feed and of no other, never a name the witness writes under; a replay for approvals ignores
  it; and, except as the very first record of a log, it is never taken for a recorded stop.
\<close>

theorem feeds_cannot_impersonate:
  assumes "ValidateEventFeeds cfg = None" "f \<in> set (cgEventFeeds cfg)"
    and "e = call_entry sd (feed_call marshal (efSource f) (feeds_Classify evt) evt io)"
  shows "eSource e = efSource f \<and> eSource e \<notin> set reservedSources \<and>
     (\<forall>g \<in> set (cgEventFeeds cfg). efSource g = eSource e \<longrightarrow> g = f) \<and>
     replayStep C K p sk e = sk \<and> (clean_stop e \<longrightarrow> eSeq e = 1)"
proof -
  have v: "feedSourceRE (efSource f)" "efSource f \<notin> set reservedSources" "distinct (map efSource (cgEventFeeds cfg))"
    using validateFeeds_None assms(1,2) unfolding ValidateEventFeeds_def by blast+
  have s: "eSource e = efSource f"
    using source_ascii [OF v(1)] by (simp add: assms(3) call_entry_def feed_call_def newEntry_def)
  have "eLevel e = ToValidUTF8 (fst (feeds_Classify evt))" by (simp add: assms(3) call_entry_def feed_call_def newEntry_def)
  then have "eLevel e \<noteq> ''DEATH''" using feed_level [of evt] by (auto simp: ToValidUTF8_ascii)
  moreover have "\<forall>g \<in> set (cgEventFeeds cfg). efSource g = eSource e \<longrightarrow> g = f"
    using v(3) assms(2) s by (auto simp: distinct_map dest: inj_onD)
  moreover have "replayStep C K p sk e = sk"
    using v(2) s by (cases sk) (simp add: replayStep_def accept_Source_def reservedSources_def)
  ultimately show ?thesis using s v(2) by (auto simp: clean_stop_def)
qed

theorem feeds_cannot_impersonate_witness:
  "\<exists>e. e = call_entry (\<lparr>stKey = [], stSigner = None, stTrusted = [], stPinned = [], stUnsignedHead = False, stRecovered = no_recovery,
        stReadOnly = False, stUncovered = no_uncovered, stLast = zero_entry, stHasLast = False, stSeq = 4, stLeaves = []\<rparr>, empty_disk)
      (feed_call (\<lambda>e. []) ''backup'' (feeds_Classify [(''kind'', JStr ''signal_received'')]) [(''kind'', JStr ''signal_received'')] sample_io) \<and>
     ValidateEventFeeds ((DefaultConfig ''/root'')\<lparr>cgEventFeeds := [\<lparr>efPath = ''/var/backup.ndjson'', efSource = ''backup''\<rparr>]\<rparr>) = None \<and>
     eEvent e = ''signal_received'' \<and> eSource e = ''backup'' \<and> \<not> clean_stop e"
proof -
  let ?cfg = "(DefaultConfig ''/root'')\<lparr>cgEventFeeds := [\<lparr>efPath = ''/var/backup.ndjson'', efSource = ''backup''\<rparr>]\<rparr>"
  let ?st = "\<lparr>stKey = [], stSigner = None, stTrusted = [], stPinned = [], stUnsignedHead = False, stRecovered = no_recovery,
        stReadOnly = False, stUncovered = no_uncovered, stLast = zero_entry, stHasLast = False, stSeq = 4, stLeaves = []\<rparr>"
  let ?evt = "[(''kind'', JStr ''signal_received'')]"
  define e where "e = call_entry (?st, empty_disk) (feed_call (\<lambda>e. []) ''backup'' (feeds_Classify ?evt) ?evt sample_io)"
  have ok: "ValidateEventFeeds ?cfg = None"
    by (simp add: ValidateEventFeeds_def feedSourceRE_def reservedSources_def Let_def)
  have "eSeq e = 5" "eEvent e = ''signal_received''"
    by (simp_all add: e_def call_entry_def feed_call_def newEntry_def feeds_Classify_def str_field_def kindRE_def is_alnum_def
        ToValidUTF8_ascii)
  moreover have "eSource e = ''backup''" "clean_stop e \<Longrightarrow> eSeq e = 1"
    using feeds_cannot_impersonate [OF ok, of "\<lparr>efPath = ''/var/backup.ndjson'', efSource = ''backup''\<rparr>" e] by (simp_all add: e_def)
  ultimately show ?thesis using ok unfolding e_def by auto
qed

end
