(* ===== verification/Feed_Bridges.thy ===== *)
theory Feed_Bridges
  imports Pipelock Config
begin

text \<open>
  The life cycle of the feeds that end in the log: the bridges of \<open>internal/feeds\<close>,
  \<open>internal/sbh\<close> and \<open>internal/farm\<close>, and the part of \<open>cmdStart\<close> (\<open>cmd/witness/main.go\<close>) that
  creates them. What they share, a forwarder that acknowledges what it has stored, is the
  locale \<open>acking_feed\<close>; its lemma on restarts is proved once and used for all three.
\<close>

section \<open>The contract of a forwarder\<close>

locale acking_feed =
  fixes forward :: "'e \<Rightarrow> 'io \<Rightarrow> 's \<times> tailer \<Rightarrow> 's \<times> tailer"
    and stored :: "'e \<Rightarrow> 'io \<Rightarrow> 's \<Rightarrow> bool"
  assumes stored_acks: "stored e io s \<Longrightarrow> \<exists>ok now. snd (forward e io (s, t)) = Ack ok now t"
    and failed_keeps: "\<not> stored e io s \<Longrightarrow> snd (forward e io (s, t)) = t"
    and state_independent: "fst (forward e io (s, t)) = fst (forward e io (s, t'))"
begin

definition forward_all :: "('e \<times> 'io) list \<Rightarrow> 's \<times> tailer \<Rightarrow> 's \<times> tailer" where
  "forward_all ws st = foldl (\<lambda>st (e, io). forward e io st) st ws"

text \<open>Every event of the run is stored.\<close>

fun all_stored :: "('e \<times> 'io) list \<Rightarrow> 's \<times> tailer \<Rightarrow> bool" where
  "all_stored [] st = True"
| "all_stored ((e, io) # ws) st \<longleftrightarrow> stored e io (fst st) \<and> all_stored ws (forward e io st)"

lemma forward_all_spec:
  "all_stored ws (s, t) \<Longrightarrow> tail_spec start k ls t \<Longrightarrow> k + length ws \<le> emitted_count ls \<Longrightarrow>
     tail_spec start (k + length ws) ls (snd (forward_all ws (s, t)))"
proof (induction ws arbitrary: s t k)
  case Nil
  then show ?case by (simp add: forward_all_def)
next
  case (Cons w ws)
  obtain e io where w: "w = (e, io)" by (cases w)
  obtain s1 t1 where f: "forward e io (s, t) = (s1, t1)" by (metis prod.exhaust)
  obtain ok now where "t1 = Ack ok now t" using stored_acks [of e io s t] Cons.prems(1) w f by auto
  then have "tail_spec start (Suc k) ls t1" using Ack_spec [OF Cons.prems(2), of ok now] Cons.prems(3) by simp
  then have "tail_spec start (Suc k + length ws) ls (snd (forward_all ws (s1, t1)))"
    using Cons.prems(1,3) w f by (intro Cons.IH) simp_all
  then show ?case using w f by (simp add: forward_all_def)
qed

text \<open>After some of the events on disk were stored, a restart reads exactly the others.\<close>

lemma restart_reads_rest:
  assumes "caught_up parse start rs" "all_stored ws (s, record_all (scan parse (rsPos rs) (unread rs)) (rsT rs))"
    and "length ws \<le> length (events_of (scan parse (rsPos rs) (unread rs)))"
  shows "reread parse (Flush True now (snd (forward_all ws (s, record_all (scan parse (rsPos rs) (unread rs)) (rsT rs))))) (rsFile rs) =
     (''resumed'', drop (length ws) (events_of (scan parse (rsPos rs) (unread rs))))"
proof -
  obtain ls where ls: "scan parse start (drop (nat start) (rsFile rs)) = ls @ scan parse (rsPos rs) (unread rs)"
      "tail_spec start (length (events_of ls)) (flags_of ls) (rsT rs)"
    using assms(1) by (auto simp: caught_up_def)
  have b: "0 \<le> start" "start \<le> int (length (rsFile rs))"
    using assms(1) by (auto simp: caught_up_def aligned_def)
  have "tail_spec start (length (events_of ls)) (flags_of (scan parse start (drop (nat start) (rsFile rs))))
      (record_all (scan parse (rsPos rs) (unread rs)) (rsT rs))"
    using record_all_spec [OF ls(2), of "scan parse (rsPos rs) (unread rs)"] ls(1) by simp
  then have "tail_spec start (length (events_of ls) + length ws) (flags_of (scan parse start (drop (nat start) (rsFile rs))))
      (snd (forward_all ws (s, record_all (scan parse (rsPos rs) (unread rs)) (rsT rs))))"
    using ls(1) assms(2,3) by (intro forward_all_spec) (simp_all add: emitted_count_flags)
  from reread_flushed [OF this b] show ?thesis using ls(1) by simp
qed

end

section \<open>Three forwarders\<close>

text \<open>The system's part of one append and of its acknowledgement.\<close>

type_synonym feed_io = "append_io \<times> bool \<times> time"

definition feeds_turn :: "env \<Rightarrow> (audit_event \<Rightarrow> bytes) \<Rightarrow> string \<Rightarrow> audit_event \<Rightarrow> feed_io \<Rightarrow> forward_state \<Rightarrow> forward_state" where
  "feeds_turn C marshal source evt io fs = (case io of (a, ok, now) \<Rightarrow> feeds_forward C marshal source evt a ok now fs)"

definition sbh_turn :: "env \<Rightarrow> (audit_event \<Rightarrow> bytes) \<Rightarrow> (audit_event \<Rightarrow> string \<times> string) \<Rightarrow> audit_event \<Rightarrow> feed_io \<Rightarrow> forward_state \<Rightarrow> forward_state" where
  "sbh_turn C marshal classify evt io fs = (case io of (a, ok, now) \<Rightarrow> sbh_forward C marshal classify evt a ok now fs)"

text \<open>The farm's forwarder also feeds the silence monitor, which is part of its state.\<close>

definition farm_turn ::
  "env \<Rightarrow> (audit_event \<Rightarrow> bytes) \<Rightarrow> (transition \<Rightarrow> bytes) \<Rightarrow> (string \<Rightarrow> time option) \<Rightarrow> audit_event \<Rightarrow> append_io \<times> feed_io \<Rightarrow>
   ((store \<times> disk) \<times> monitor) \<times> tailer \<Rightarrow> ((store \<times> disk) \<times> monitor) \<times> tailer" where
  "farm_turn C marshal marshalT parse evt io st =
     (case io of (io2, a, ok, now) \<Rightarrow> case st of ((sd, m), t) \<Rightarrow>
        case ingest C marshal marshalT parse evt a io2 ok now ((sd, t), m) of ((sd', t'), m') \<Rightarrow> ((sd', m'), t'))"

definition call_stored :: "env \<Rightarrow> append_call \<Rightarrow> store \<times> disk \<Rightarrow> bool" where
  "call_stored C c sd \<longleftrightarrow> fst (append_call C sd c) = None"

interpretation named_feed: acking_feed "feeds_turn C marshal source"
  "\<lambda>evt io sd. call_stored C (feed_call marshal source (feeds_Classify evt) evt (fst io)) sd" for C marshal source
  by unfold_locales
    (auto simp: feeds_turn_def feeds_forward_def appendAndAck_def call_stored_def split: prod.splits)

interpretation sbh_feed: acking_feed "sbh_turn C marshal classify"
  "\<lambda>evt io sd. call_stored C (feed_call marshal ''sbh'' (classify evt) evt (fst io)) sd" for C marshal classify
  by unfold_locales
    (auto simp: sbh_turn_def sbh_forward_def appendAndAck_def call_stored_def split: prod.splits)

interpretation farm_feed: acking_feed "farm_turn C marshal marshalT parse"
  "\<lambda>evt io s. call_stored C (feed_call marshal ''farm'' (farm_Classify evt) evt (fst (snd io))) (fst s)" for C marshal marshalT parse
  by unfold_locales
    (auto simp: farm_turn_def ingest_def call_stored_def Let_def split: prod.splits option.splits)

section \<open>Bridges\<close>

datatype feed_kind = NamedFeed string | SbhFeed string | FarmFeed

record feed_bridge =
  fbKind :: feed_kind
  fbTail :: run_state
  fbStarted :: bool

definition feed_New :: "string \<Rightarrow> feed_kind \<Rightarrow> feed_bridge" where
  "feed_New path kind = \<lparr>fbKind = kind, fbTail = startRun (NewTailer path), fbStarted = False\<rparr>"

definition feed_ResumeFrom :: "tail_state option \<Rightarrow> feed_bridge \<Rightarrow> feed_bridge" where
  "feed_ResumeFrom saved b = b\<lparr>fbTail := startRun (SetStateFile saved (rsT (fbTail b)))\<rparr>"

text \<open>The record of a (re)opened feed: its name in the event's data, and the source it is under.\<close>

definition feed_names :: "feed_kind \<Rightarrow> string \<times> string" where
  "feed_names k =
     (case k of NamedFeed source \<Rightarrow> (''feed_'' @ source, source) | SbhFeed feed \<Rightarrow> (feed, ''sbh'') | FarmFeed \<Rightarrow> (''farm_events'', ''farm''))"

definition openCall ::
  "(string \<Rightarrow> open_info \<Rightarrow> int \<Rightarrow> bytes) \<Rightarrow> feed_kind \<Rightarrow> open_info \<Rightarrow> append_io \<Rightarrow> append_call" where
  "openCall marshal k i io =
     (case OpenEvent (fst (feed_names k)) i of
        (level, event, feed, info, behind) \<Rightarrow>
          \<lparr>acLevel = level, acEvent = event, acSource = snd (feed_names k), acData = Some (Some (marshal feed info behind)), acIO = io\<rparr>)"

definition feed_Start :: "feed_bridge \<Rightarrow> feed_bridge" where
  "feed_Start b = b\<lparr>fbStarted := True\<rparr>"

text \<open>
  \<open>Stop\<close>: the tailer reads to the end of the file; the forwarder stores some of the events it
  was sent (\<open>ws\<close>) before it sees the stop channel and returns; the position is saved. The
  tailer's \<open>done\<close> channel is closed by its own goroutine only.
\<close>

definition feed_Stop ::
  "(audit_event \<Rightarrow> 'io \<Rightarrow> 's \<times> tailer \<Rightarrow> 's \<times> tailer) \<Rightarrow> (string \<Rightarrow> audit_event option) \<Rightarrow> turn_io list \<Rightarrow>
   (audit_event \<times> 'io) list \<Rightarrow> bool \<Rightarrow> time \<Rightarrow> feed_bridge \<times> 's \<Rightarrow> (feed_bridge \<times> 's) outcome" where
  "feed_Stop fwd parse turns ws ok now bs =
     (case bs of (b, s) \<Rightarrow>
        if \<not> fbStarted b then Diverge
        else case runLoop parse turns (fbTail b) of
          (rs, evs, ret) \<Rightarrow>
            if \<not> ret then Diverge
            else (case foldl (\<lambda>st (e, io). fwd e io st) (s, rsT rs) ws of
                    (s', t) \<Rightarrow> Value (b\<lparr>fbTail := rs\<lparr>rsT := Flush ok now t\<rparr>\<rparr>, s')))"

text \<open>\<open>Stop\<close> before \<open>Start\<close> waits for a goroutine that does not exist.\<close>

lemma stop_before_start_hangs: "feed_Stop fwd parse turns ws ok now (feed_ResumeFrom saved (feed_New path kind), s) = Diverge"
  by (simp add: feed_Stop_def feed_ResumeFrom_def feed_New_def)

lemma feed_Stop_drained:
  assumes "fbStarted b" "caught_up parse start (fbTail b)" "\<not> rsStopped (fbTail b)" "tuStop io"
    and "\<forall>i \<in> set (io # ios). draining (tuNow io + drainTimeout) (int (length (rsFile (fbTail b)))) i"
    and "length (scan parse (rsPos (fbTail b)) (unread (fbTail b))) < length (io # ios)"
  shows "\<exists>rs. feed_Stop fwd parse (io # ios) ws ok now (b, s) =
     (case foldl (\<lambda>st (e, io). fwd e io st) (s, record_all (scan parse (rsPos (fbTail b)) (unread (fbTail b))) (rsT (fbTail b))) ws of
        (s', t) \<Rightarrow> Value (b\<lparr>fbTail := rs\<lparr>rsT := Flush ok now t\<rparr>\<rparr>, s'))"
proof -
  define rs where "rs = seeStop io (fbTail b)"
  have rs: "rsStopped rs" "rsDeadline rs = tuNow io + drainTimeout" "aligned rs" "rsPos rs = rsPos (fbTail b)"
      "unread rs = unread (fbTail b)" "rsFile rs = rsFile (fbTail b)" "rsT rs = rsT (fbTail b)"
    using assms(2,3,4) by (auto simp: rs_def seeStop_def caught_up_def aligned_def unread_def)
  obtain rs' evs where run: "runLoop parse (io # ios) (fbTail b) = (rs', evs, True)"
      "rsT rs' = record_all (scan parse (rsPos (fbTail b)) (unread (fbTail b))) (rsT (fbTail b))"
    using drain_run [OF rs(3,1), of "io # ios" parse] assms(5,6) rs runLoop_seeStop [OF assms(4), of parse ios "fbTail b"]
    unfolding rs_def by auto
  show ?thesis
    using assms(1) run by (intro exI [of _ rs']) (simp only: feed_Stop_def prod.case simp_thms if_False)
qed

lemma feeds_turn_log:
  assumes "al.oks C sd (map (\<lambda>(evt, io). feed_call marshal source (feeds_Classify evt) evt (fst io)) ws)"
  shows "fst (named_feed.forward_all C marshal source ws (sd, t)) =
      foldl (append_step C) sd (map (\<lambda>(evt, io). feed_call marshal source (feeds_Classify evt) evt (fst io)) ws) \<and>
     named_feed.all_stored C marshal source ws (sd, t)"
  using assms
proof (induction ws arbitrary: sd t)
  case Nil
  then show ?case by (simp add: named_feed.forward_all_def)
next
  case (Cons w ws)
  obtain evt a ok now where w: "w = (evt, a, ok, now)" by (cases w) auto
  let ?c = "feed_call marshal source (feeds_Classify evt) evt a"
  have ok: "append_ok C sd ?c" "al.oks C (append_step C sd ?c) (map (\<lambda>(evt, io). feed_call marshal source (feeds_Classify evt) evt (fst io)) ws)"
    using Cons.prems by (simp_all add: w)
  obtain t' where f: "feeds_turn C marshal source evt (a, ok, now) (sd, t) = (append_step C sd ?c, t')"
    by (simp add: feeds_turn_def feeds_forward_def appendAndAck_def)
  have "call_stored C ?c sd" using ok(1) by (simp add: append_ok_def call_stored_def)
  then show ?case using Cons.IH [OF ok(2), of t'] f w by (simp add: named_feed.forward_all_def)
qed


definition sample_feed :: feed_bridge where
  "sample_feed = \<lparr>fbKind = NamedFeed ''feed'', fbTail = sample_tail, fbStarted = True\<rparr>"


section \<open>Which feeds the daemon starts\<close>

record feed_spec =
  fdPath :: string
  fdKind :: feed_kind
  fdState :: string

definition tailState :: "config \<Rightarrow> string \<Rightarrow> string" where
  "tailState cfg name = path_join [cgPrimaryDir cfg, ''tail-state'', name @ ''.json'']"

definition sbhLabel :: "string \<Rightarrow> string" where
  "sbhLabel label = ''sbh_'' @ map (\<lambda>c. if c = CHR '' '' then CHR ''_'' else c) label"

definition sbhSpecs :: "config \<Rightarrow> feed_spec list" where
  "sbhSpecs cfg =
     map (\<lambda>(path, label). \<lparr>fdPath = path, fdKind = SbhFeed (sbhLabel label), fdState = tailState cfg (sbhLabel label)\<rparr>)
       (filter (\<lambda>(path, label). path \<noteq> [])
         [(cgSBHAuditPath cfg, ''forge audit''), (cgSBHDecisionLogPath cfg, ''decision log''),
          (cgSBHSessionLogPath cfg, ''session escalations'')])"

definition farmSpecs :: "config \<Rightarrow> feed_spec list" where
  "farmSpecs cfg =
     (if cgFarmEventsPath cfg = [] then []
      else [\<lparr>fdPath = cgFarmEventsPath cfg, fdKind = FarmFeed, fdState = tailState cfg ''farm_events''\<rparr>])"

definition namedSpecs :: "config \<Rightarrow> feed_spec list" where
  "namedSpecs cfg =
     map (\<lambda>ef. \<lparr>fdPath = efPath ef, fdKind = NamedFeed (efSource ef), fdState = tailState cfg (''feed_'' @ efSource ef)\<rparr>)
       (cgEventFeeds cfg)"

text \<open>
  The feeds part of \<open>cmdStart\<close>: pipelock's audit position, then the harness, farm and named
  feeds. Named feeds are checked after the others have been started; the left value is the
  fatal exit, with what was already running.
\<close>

definition startFeeds :: "config \<Rightarrow> feed_error \<times> feed_spec list + feed_spec list" where
  "startFeeds cfg =
     (let running = sbhSpecs cfg @ farmSpecs cfg in
      case ValidateEventFeeds cfg of
        Some e \<Rightarrow> Inl (e, running)
      | None \<Rightarrow> Inr (running @ namedSpecs cfg))"

definition auditState :: "config \<Rightarrow> string" where
  "auditState cfg = tailState cfg ''pipelock_audit''"

text \<open>A name without a slash that is not empty, a dot or two dots is kept by \<open>filepath.Join\<close>.\<close>

lemma split_join_last:
  "CHR ''/'' \<notin> set name \<Longrightarrow> split_on (CHR ''/'') (p @ ''/'' @ name) = split_on (CHR ''/'') p @ [name]"
  using split_on_append_sep [of "CHR ''/''" p name] by (simp add: split_on_single)

lemma join_with_snoc: "ps \<noteq> [] \<Longrightarrow> join_with sep (ps @ [x]) = join_with sep ps @ sep @ x"
proof (induction ps)
  case (Cons p ps)
  then show ?case by (cases ps) auto
qed simp

lemma path_clean_last:
  assumes "CHR ''/'' \<notin> set name" "CHR ''/'' \<notin> set dir" "name \<notin> {[], ''.'', ''..''}" "dir \<notin> {[], ''.'', ''..''}" "p @ dir \<noteq> []"
  shows "\<exists>pre. path_clean (p @ ''/'' @ dir @ ''/'' @ name) = pre @ ''/'' @ name \<and>
     (\<forall>n. CHR ''/'' \<notin> set n \<and> n \<notin> {[], ''.'', ''..''} \<longrightarrow> path_clean (p @ ''/'' @ dir @ ''/'' @ n) = pre @ ''/'' @ n)"
proof -
  define rooted where "rooted = (p = [] \<or> hd p = CHR ''/'')"
  define out where "out = foldl (clean_step rooted) [] (split_on (CHR ''/'') p)"
  have "path_clean (p @ ''/'' @ dir @ ''/'' @ n) = ((if rooted then ''/'' else []) @ join_with ''/'' (rev out @ [dir])) @ ''/'' @ n"
    if n: "CHR ''/'' \<notin> set n" "n \<notin> {[], ''.'', ''..''}" for n
  proof -
    have hd: "hd (p @ ''/'' @ dir @ ''/'' @ n) = (if p = [] then CHR ''/'' else hd p)" by (cases p) auto
    have "split_on (CHR ''/'') ((p @ ''/'' @ dir) @ ''/'' @ n) = split_on (CHR ''/'') p @ [dir, n]"
      using split_join_last [OF n(1), of "p @ ''/'' @ dir"] split_join_last [OF assms(2), of p] by simp
    then have "foldl (clean_step rooted) [] (split_on (CHR ''/'') (p @ ''/'' @ dir @ ''/'' @ n)) = n # dir # out"
      using n(2) assms(4) by (simp add: out_def)
    moreover have "join_with ''/'' (rev out @ [dir] @ [n]) = join_with ''/'' (rev out @ [dir]) @ ''/'' @ n"
      using join_with_snoc [of "rev out @ [dir]" "''/''" n] by simp
    ultimately show ?thesis
      using hd by (auto simp: path_clean_def Let_def rooted_def)
  qed
  then show ?thesis using assms(1,3) by (intro exI) blast
qed

lemma tailState_inj:
  assumes "CHR ''/'' \<notin> set a" "CHR ''/'' \<notin> set b" "tailState cfg a = tailState cfg b"
  shows "a = b"
proof -
  have ok: "CHR ''/'' \<notin> set (x @ ''.json'') \<and> x @ ''.json'' \<notin> {[], ''.'', ''..''}" if "CHR ''/'' \<notin> set x" for x
    using that by (cases x) auto
  show ?thesis
  proof (cases "cgPrimaryDir cfg = []")
    case True
    have "tailState cfg x = ''tail-state/'' @ x @ ''.json''" if "CHR ''/'' \<notin> set x" for x
      using split_join_last [of "x @ ''.json''" "''tail-state''"] ok [OF that] True
      by (simp add: tailState_def path_join_def path_clean_def Let_def)
    then show ?thesis using assms by simp
  next
    case False
    have "tailState cfg x = path_clean (cgPrimaryDir cfg @ ''/'' @ ''tail-state'' @ ''/'' @ (x @ ''.json''))" for x
      using False by (simp add: tailState_def path_join_def)
    then show ?thesis
      using path_clean_last [of "a @ ''.json''" "''tail-state''" "cgPrimaryDir cfg"] ok [OF assms(1)] ok [OF assms(2)] assms(3)
      by auto
  qed
qed

definition spec_names :: "config \<Rightarrow> string list" where
  "spec_names cfg =
     ''pipelock_audit'' #
     map (\<lambda>(path, label). sbhLabel label) (filter (\<lambda>(path, label). path \<noteq> [])
       [(cgSBHAuditPath cfg, ''forge audit''), (cgSBHDecisionLogPath cfg, ''decision log''),
        (cgSBHSessionLogPath cfg, ''session escalations'')]) @
     (if cgFarmEventsPath cfg = [] then [] else [''farm_events'']) @
     map (\<lambda>ef. ''feed_'' @ efSource ef) (cgEventFeeds cfg)"

lemma feedSource_no_slash: "feedSourceRE x \<Longrightarrow> CHR ''/'' \<notin> set x"
  by (cases x) (auto simp: feedSourceRE_def Let_def list_all_iff)

lemma spec_names_ok:
  assumes "ValidateEventFeeds cfg = None"
  shows "distinct (spec_names cfg) \<and> (\<forall>x \<in> set (spec_names cfg). CHR ''/'' \<notin> set x)"
proof -
  have v: "\<forall>f \<in> set (cgEventFeeds cfg). feedSourceRE (efSource f)" "distinct (map efSource (cgEventFeeds cfg))"
    using validateFeeds_None assms unfolding ValidateEventFeeds_def by blast+
  have "distinct (map (\<lambda>ef. ''feed_'' @ efSource ef) (cgEventFeeds cfg))"
    using v(2) by (simp add: distinct_map inj_on_def)
  moreover have "\<forall>f \<in> set (cgEventFeeds cfg). CHR ''/'' \<notin> set (efSource f)" using v(1) feedSource_no_slash by blast
  ultimately show ?thesis by (auto simp: spec_names_def sbhLabel_def)
qed

text \<open>
  With a configuration that passes the check, no two feeds share a position file: the
  files of the pipelock audit log, the harness logs, the farm feed and every named feed are
  pairwise different, so no feed can resume at another one's offset.
\<close>

lemma feeds_have_own_state:
  assumes "startFeeds cfg = Inr specs"
  shows "distinct (auditState cfg # map fdState specs)"
proof -
  have v: "ValidateEventFeeds cfg = None" and sp: "specs = sbhSpecs cfg @ farmSpecs cfg @ namedSpecs cfg"
    using assms by (auto simp: startFeeds_def Let_def split: option.splits)
  have "auditState cfg # map fdState specs = map (tailState cfg) (spec_names cfg)"
    by (simp add: sp auditState_def spec_names_def sbhSpecs_def farmSpecs_def namedSpecs_def)
  moreover have "inj_on (tailState cfg) (set (spec_names cfg))"
    using spec_names_ok [OF v] tailState_inj by (intro inj_onI) blast
  ultimately show ?thesis using spec_names_ok [OF v] by (simp add: distinct_map)
qed

lemma feeds_have_own_state_witness:
  "\<exists>specs. startFeeds ((DefaultConfig ''/root'')\<lparr>cgEventFeeds := [\<lparr>efPath = ''/a'', efSource = ''a''\<rparr>, \<lparr>efPath = ''/b'', efSource = ''b''\<rparr>]\<rparr>) =
     Inr specs \<and> distinct (auditState (DefaultConfig ''/root'') # map fdState specs)"
proof -
  define cfg where "cfg = (DefaultConfig ''/root'')\<lparr>cgEventFeeds := [\<lparr>efPath = ''/a'', efSource = ''a''\<rparr>, \<lparr>efPath = ''/b'', efSource = ''b''\<rparr>]\<rparr>"
  have "ValidateEventFeeds cfg = None"
    by (simp add: cfg_def ValidateEventFeeds_def feedSourceRE_def reservedSources_def path_clean_def)
  then obtain specs where sp: "startFeeds cfg = Inr specs" by (simp add: startFeeds_def)
  have "auditState cfg = auditState (DefaultConfig ''/root'')" by (simp add: auditState_def tailState_def cfg_def)
  then show ?thesis using feeds_have_own_state [OF sp] sp unfolding cfg_def by auto
qed

text \<open>A bad named feed ends the program after the other feeds were started.\<close>

lemma bad_feed_found_late: "ValidateEventFeeds cfg = Some e \<Longrightarrow> startFeeds cfg = Inl (e, sbhSpecs cfg @ farmSpecs cfg)"
  by (simp add: startFeeds_def)

end
