(* ===== verification/Go_Flags.thy ===== *)
theory Go_Flags
  imports Go_Strings
begin

text \<open>
  What the commands use of Go's \<open>flag\<close> package: a \<open>FlagSet\<close> with string flags, parsed by
  \<open>FlagSet.Parse\<close>. Parsing ends at the first argument that is not a flag, or after \<open>--\<close>.
\<close>

datatype flag_error = FlagSyntax string | FlagUndefined string | FlagHelp | FlagNeedsValue string

text \<open>The name and the value of \<open>-name=value\<close>; the \<open>=\<close> is looked for from the second character on.\<close>

definition flag_name :: "string \<Rightarrow> string \<times> string option" where
  "flag_name s =
     (let n = hd s # takeWhile (\<lambda>c. c \<noteq> CHR ''='') (tl s); r = dropWhile (\<lambda>c. c \<noteq> CHR ''='') (tl s)
      in (n, if r = [] then None else Some (tl r)))"

text \<open>The defined names, the arguments, the values set so far (the last one counts).\<close>

fun flag_parse ::
  "string list \<Rightarrow> string list \<Rightarrow> (string \<times> string) list \<Rightarrow> flag_error + (string \<times> string) list \<times> string list" where
  "flag_parse names [] vals = Inr (vals, [])"
| "flag_parse names (s # args) vals =
     (if length s < 2 \<or> hd s \<noteq> CHR ''-'' then Inr (vals, s # args)
      else if s = ''--'' then Inr (vals, args)
      else let body = (if s ! 1 = CHR ''-'' then drop 2 s else drop 1 s) in
        if hd body = CHR ''-'' \<or> hd body = CHR ''='' then Inl (FlagSyntax s)
        else (case flag_name body of
          (n, v) \<Rightarrow>
            if n \<notin> set names then Inl (if n = ''help'' \<or> n = ''h'' then FlagHelp else FlagUndefined n)
            else (case v of
              Some x \<Rightarrow> flag_parse names args ((n, x) # vals)
            | None \<Rightarrow>
                (case args of
                   [] \<Rightarrow> Inl (FlagNeedsValue n)
                 | x # rest \<Rightarrow> flag_parse names rest ((n, x) # vals)))))"

definition flag_value :: "string \<Rightarrow> (string \<times> string) list \<Rightarrow> string" where
  "flag_value n vals = (case map_of vals n of None \<Rightarrow> [] | Some v \<Rightarrow> v)"

text \<open>The exit code of a set with \<open>flag.ExitOnError\<close>.\<close>

definition flag_exit :: "flag_error \<Rightarrow> nat" where
  "flag_exit e = (if e = FlagHelp then 0 else 2)"

text \<open>A flag given as two arguments, with one or two dashes, is read back.\<close>

lemma flag_name_plain: "n \<noteq> [] \<Longrightarrow> CHR ''='' \<notin> set n \<Longrightarrow> flag_name n = (n, None)"
  by (cases n) (auto simp: flag_name_def Let_def dropWhile_eq_Nil_conv takeWhile_eq_all_conv)

lemma flag_parse_pair:
  assumes "n \<in> set names" "n \<noteq> []" "CHR ''='' \<notin> set n" "hd n \<noteq> CHR ''-''" "d = ''-'' \<or> d = ''--''"
  shows "flag_parse names ((d @ n) # v # args) vals = flag_parse names args ((n, v) # vals)"
proof -
  obtain c m where n: "n = c # m" using assms(2) by (cases n) auto
  show ?thesis using assms flag_name_plain [OF assms(2,3)] unfolding n by (auto simp: Let_def)
qed

lemma flag_parse_positional: "length s < 2 \<or> hd s \<noteq> CHR ''-'' \<Longrightarrow> flag_parse names (s # args) vals = Inr (vals, s # args)"
  by simp

end
