(* ===== verification/Witness_Main.thy ===== *)
theory Witness_Main
  imports Commands Migrate Accept_Cmd Feed_Bridges Go_Flags
begin

text \<open>
  The rest of \<open>cmd/witness\<close>: the machine identity (\<open>internal/machid\<close>), key derivation
  (\<open>internal/encrypt\<close>), the ambient capabilities (\<open>internal/sandbox\<close>), the watchdog process, the
  commands \<open>soul\<close>, \<open>migrate\<close> and \<open>verify-death\<close>, and the dispatch of \<open>main\<close>.
\<close>

section \<open>Machine identity and key\<close>

text \<open>The serial number in the output of \<open>ioreg\<close>: the first line that names it and has four parts.\<close>

fun platformUUID :: "string list \<Rightarrow> string option" where
  "platformUUID [] = None"
| "platformUUID (l # ls) =
     (let parts = split_on (CHR 0x22) l in
      if Contains l ''IOPlatformUUID'' \<and> 4 \<le> length parts then Some (parts ! 3) else platformUUID ls)"

text \<open>\<open>Get\<close>: the arguments are the machine-id file, the output of \<open>ioreg\<close> and the host name.\<close>

definition machid_Get :: "env \<Rightarrow> string option \<Rightarrow> string option \<Rightarrow> string \<Rightarrow> string" where
  "machid_Get C idFile ioreg hostname =
     (let fallback = (case Option.bind ioreg (\<lambda>out. platformUUID (split_on LF out)) of
                        Some uuid \<Rightarrow> uuid
                      | None \<Rightarrow> hex_encode (sha256 C (bytes_of (''witness-fallback:'' @ hostname))))
      in case idFile of
           Some data \<Rightarrow> if TrimSpace data \<noteq> [] then TrimSpace data else fallback
         | None \<Rightarrow> fallback)"

definition keyLen :: nat where "keyLen = 32"
definition infoLabel :: string where "infoLabel = ''witness-aes256-gcm-v1''"
definition kdfSalt :: string where "kdfSalt = ''w1tn3ss-kdf-s4lt-2026''"

text \<open>
  HKDF-SHA256 is a parameter: secret, salt and info, and how many bytes are read. \<open>None\<close> is the
  error of a reader that is exhausted.
\<close>

type_synonym hkdf = "bytes \<Rightarrow> bytes \<Rightarrow> bytes \<Rightarrow> nat \<Rightarrow> bytes option"

definition hkdf_ok :: "hkdf \<Rightarrow> bool" where
  "hkdf_ok hk \<longleftrightarrow> (\<forall>s salt info n key. hk s salt info n = Some key \<longrightarrow> length key = n)"

definition DeriveKey :: "hkdf \<Rightarrow> string \<Rightarrow> bytes option" where
  "DeriveKey hk machineID = hk (bytes_of machineID) (bytes_of kdfSalt) (bytes_of infoLabel) keyLen"

text \<open>A derived key is one the cipher takes, so sealing never fails on it.\<close>

lemma DeriveKey_seals:
  assumes "hkdf_ok hk" "DeriveKey hk mid = Some key"
  shows "aes_key_ok key \<and> encrypt_Seal C (Some nonce) plain key \<noteq> None"
  using assms by (auto simp: hkdf_ok_def DeriveKey_def aes_key_ok_def keyLen_def encrypt_Seal_def)

text \<open>
  The identity, and so the key, survives a change of host name as long as the machine-id file
  is there; without it and without \<open>ioreg\<close> it is the digest of the host name.
\<close>

lemma machid_stable:
  "TrimSpace data \<noteq> [] \<Longrightarrow> machid_Get C (Some data) io1 host1 = machid_Get C (Some data) io2 host2"
  by (simp add: machid_Get_def)

lemma machid_hostname:
  "machid_Get C None None host = hex_encode (sha256 C (bytes_of (''witness-fallback:'' @ host)))"
  by (simp add: machid_Get_def)

section \<open>Ambient capabilities\<close>

definition hexdigit_value :: "char \<Rightarrow> nat option" where
  "hexdigit_value c =
     (let n = of_char c in
      if 48 \<le> n \<and> n \<le> 57 then Some (n - 48)
      else if 97 \<le> n \<and> n \<le> 102 then Some (n - 87)
      else if 65 \<le> n \<and> n \<le> 70 then Some (n - 55) else None)"

text \<open>\<open>strconv.ParseUint(s, 16, 64)\<close>.\<close>

definition ParseUint16 :: "string \<Rightarrow> u64 option" where
  "ParseUint16 s =
     (if s = [] \<or> (\<exists>c \<in> set s. hexdigit_value c = None) then None
      else let v = foldl (\<lambda>a c. a * 16 + the (hexdigit_value c)) 0 s in
        if v < 2 ^ 64 then Some (of_nat v) else None)"

fun capAmbLine :: "string list \<Rightarrow> u64 option" where
  "capAmbLine [] = None"
| "capAmbLine (l # ls) =
     (if maxLine \<le> length l then None
      else if HasPrefix (drop_cr l) ''CapAmb:'' then ParseUint16 (TrimSpace (TrimPrefix (drop_cr l) ''CapAmb:''))
      else capAmbLine ls)"

definition ambientCaps :: "string option \<Rightarrow> u64 option" where
  "ambientCaps status = Option.bind status (\<lambda>s. capAmbLine (raw_lines s))"

text \<open>
  \<open>DropAmbientCaps\<close> on the ambient set \<open>amb\<close> of the process; \<open>prctl\<close> is the error number of the
  system call, which clears the set when there is none.
\<close>

definition DropAmbientCaps :: "string option \<Rightarrow> nat option \<Rightarrow> u64 \<Rightarrow> nat option \<times> u64" where
  "DropAmbientCaps status prctl amb =
     (if ambientCaps status = Some 0 then (None, amb)
      else case prctl of None \<Rightarrow> (None, 0) | Some errno \<Rightarrow> (Some errno, amb))"

text \<open>
  When the status file tells the truth or nothing at all, success means that no program
  started afterwards inherits a capability, and failure leaves the set as it was.
\<close>

lemma no_inherited_caps:
  assumes "ambientCaps status = None \<or> ambientCaps status = Some amb"
    and "DropAmbientCaps status prctl amb = (err, amb')"
  shows "(err = None \<longrightarrow> amb' = 0) \<and> (err \<noteq> None \<longrightarrow> amb' = amb \<and> amb \<noteq> 0 \<or> ambientCaps status = None)"
  using assms by (auto simp: DropAmbientCaps_def split: if_splits option.splits)

lemma ambientCaps_sample:
  "capAmbLine [''CapEff: 1'', ''CapAmb: 0000000000000004''] = Some 4"
proof -
  have "TrimSpace '' 0000000000000004'' = ''0000000000000004''"
    by (simp add: TrimSpace_def trim_left.simps space_width_def all_space.simps)
  then show ?thesis
    by (simp add: maxLine_def drop_cr_def CR_def HasPrefix_def TrimPrefix_def ParseUint16_def hexdigit_value_def)
qed

section \<open>The watchdog\<close>

text \<open>\<open>spawnWatchdog\<close>: the argument vector of the child, if the program finds its own path and the child starts.\<close>

definition spawnWatchdog :: "string option \<Rightarrow> bool \<Rightarrow> int \<Rightarrow> string \<Rightarrow> string \<Rightarrow> string list option" where
  "spawnWatchdog self starts pid mid primaryDir =
     (case self of
        None \<Rightarrow> None
      | Some exe \<Rightarrow> if starts then Some [exe, ''watchdog'', fmt_int pid, primaryDir, mid] else None)"

record broadcaster =
  bcPrimaryDir :: string
  bcMachineID :: string

definition death_New :: "string \<Rightarrow> string \<Rightarrow> broadcaster" where
  "death_New primaryDir machineID = \<lparr>bcPrimaryDir = primaryDir, bcMachineID = machineID\<rparr>"

text \<open>What the broadcaster finds in the directories: the records, the genesis file, the log.\<close>

type_synonym death_world = "string \<Rightarrow> death_dir \<times> bytes \<times> bytes"

text \<open>\<open>Fire\<close>: the deadline of the context shows in the hash and history answers of \<open>io\<close>.\<close>

definition death_Fire ::
  "env \<Rightarrow> death_codec \<Rightarrow> fire_io \<Rightarrow> record_step option \<Rightarrow> string \<Rightarrow> broadcaster \<Rightarrow> string \<Rightarrow> death_world \<Rightarrow> fire_error option \<times> death_world" where
  "death_Fire C K io fails sfx b trigger w =
     (case w (bcPrimaryDir b) of
        (dd, gen, log) \<Rightarrow>
          (case fire C K io fails sfx dd (bcMachineID b) trigger gen log of
             (e, dd') \<Rightarrow> (e, w(bcPrimaryDir b := (dd', gen, log)))))"

datatype watch_result = WatchExit | Watching | WatchFired "fire_error option"

text \<open>One look at the parent: whether it is found, and whether it takes the null signal.\<close>

fun parentGone :: "(bool \<times> bool) list \<Rightarrow> bool" where
  "parentGone [] = False"
| "parentGone ((found, signals) # ps) = (if \<not> found \<or> \<not> signals then True else parentGone ps)"

text \<open>
  \<open>cmdWatchdog\<close> with \<open>os.Args\<close>; \<open>proc\<close> answers for a process number, in the order of the polls.
\<close>

definition cmdWatchdog ::
  "env \<Rightarrow> death_codec \<Rightarrow> fire_io \<Rightarrow> record_step option \<Rightarrow> string \<Rightarrow> (int \<Rightarrow> (bool \<times> bool) list) \<Rightarrow> string list \<Rightarrow> death_world \<Rightarrow>
   watch_result \<times> death_world" where
  "cmdWatchdog C K io fails sfx proc args w =
     (if length args < 5 then (WatchExit, w)
      else case Atoi (args ! 2) of
        None \<Rightarrow> (WatchExit, w)
      | Some ppid \<Rightarrow>
          let b = death_New (args ! 3) (args ! 4) in
          if \<not> parentGone (proc ppid) then (Watching, w)
          else (case death_Fire C K io fails sfx b ''watchdog_parent_exit'' w of (e, w') \<Rightarrow> (WatchFired e, w')))"

lemma parentGone_iff: "parentGone ps \<longleftrightarrow> (\<exists>p \<in> set ps. \<not> fst p \<or> \<not> snd p)"
  by (induction ps rule: parentGone.induct) auto

text \<open>
  The child reads back what the daemon passed: it watches that process, does nothing while
  it answers, and when it is gone leaves one more record, with the daemon's machine
  identifier, in the daemon's directory; the chain of records there verifies again. No other
  directory is touched.
\<close>

lemma watchdog_target:
  assumes "spawnWatchdog self starts (int pid) mid dir = Some args" "pid < 2 ^ 63"
  shows "cmdWatchdog C K io fails sfx proc args w =
    (if \<not> parentGone (proc (int pid)) then (Watching, w)
     else case death_Fire C K io fails sfx (death_New dir mid) ''watchdog_parent_exit'' w of (e, w') \<Rightarrow> (WatchFired e, w'))"
  using assms Atoi_decimal [OF assms(2)]
  by (auto simp: spawnWatchdog_def cmdWatchdog_def fmt_int_def Let_def split: option.splits if_splits)

lemma watchdog_records_death:
  assumes "spawnWatchdog self starts (int pid) mid dir = Some args" "pid < 2 ^ 63" "parentGone (proc (int pid))"
    and "w dir = (dd, gen, log @ new)"
    and "digest_ok C" "dir_wf dd" "chain_verified C K dd log" "good_fire io"
    and "recordNames dd = Inr ns" "\<forall>n \<in> set ns. n < record_name sfx"
    and "dc_marshal K (fireRecord C K io dd mid ''watchdog_parent_exit'' gen (log @ new)) = Some data" "length data < maxRecord"
    and "dc_unmarshal K (data @ [10]) = Inr ((fireRecord C K io dd mid ''watchdog_parent_exit'' gen (log @ new))\<lparr>drTreeHead := th\<rparr>)"
    and "good_log l" "rlBytes l = log @ new"
  shows "\<exists>dd'. cmdWatchdog C K io None sfx proc args w = (WatchFired None, w(dir := (dd', gen, log @ new))) \<and>
     recordNames dd' = Inr (ns @ [record_name sfx]) \<and> death_Verify C K dd' (Some l) = None"
proof -
  note st = fire_chain_step [OF assms(5-)]
  have "death_Fire C K io None sfx (death_New dir mid) ''watchdog_parent_exit'' w =
      (None, w(dir := (add_record (record_name sfx) (data @ [10]) dd, gen, log @ new)))"
    using st(1) assms(4) by (simp add: death_Fire_def death_New_def)
  then show ?thesis
    using watchdog_target [OF assms(1,2), of C K io None sfx proc w] assms(3) st(2) recordNames_add [OF assms(9,10)]
    by (intro exI [of _ "add_record (record_name sfx) (data @ [10]) dd"]) simp
qed

section \<open>The soul command\<close>

record soul_files =
  sfSoul :: file_text
  sfSig :: file_text
  sfAllow :: file_text

record soul_cmd_io =
  scMode :: "string option"
  scDev :: "signer option"
  scSoftware :: "signer option"
  scPIV :: "signer option"
  scNow :: string
  scSigWrite :: bool
  scAllowMkdir :: bool
  scAllowOpen :: bool
  scAllowPart :: "nat option"

datatype soul_result =
    SoulUsage | SoulFatal | SoulSigned "append_allow_error option" | SoulVerified | SoulInvalid sig_error | SoulUnknown string

text \<open>
  \<open>cmdSoul\<close> with the arguments after the command's name. \<open>scMode\<close> is the signer of the
  configuration, \<open>None\<close> if it does not load. A failure to update the allowlist is a warning.
\<close>

definition cmdSoul :: "env \<Rightarrow> soul_codec \<Rightarrow> soul_cmd_io \<Rightarrow> string list \<Rightarrow> soul_files \<Rightarrow> soul_result \<times> soul_files" where
  "cmdSoul C K io args fs =
     (case args of
        [] \<Rightarrow> (SoulUsage, fs)
      | sub # rest \<Rightarrow>
          (case scMode io of
             None \<Rightarrow> (SoulFatal, fs)
           | Some mode \<Rightarrow>
               if sub = ''sign'' then
                 (case resolveSigner (''--dev'' \<in> set rest) mode (scDev io) (scSoftware io) (scPIV io) of
                    Some (Some s) \<Rightarrow>
                      (case SignSoul K s (scNow io) (scSigWrite io) (sfSoul fs) (sfSig fs) of
                         (Some e, sig) \<Rightarrow> (SoulFatal, fs\<lparr>sfSig := sig\<rparr>)
                       | (None, sig) \<Rightarrow>
                           (case AppendAllowlist (scAllowMkdir io) (scAllowOpen io) (scAllowPart io) (sfAllow fs) ''operator'' (sgPublicKey s) of
                              (e, allow) \<Rightarrow> (SoulSigned e, fs\<lparr>sfSig := sig, sfAllow := allow\<rparr>)))
                  | _ \<Rightarrow> (SoulFatal, fs))
               else if sub = ''verify'' then
                 (case LoadAllowlist (sfAllow fs) of
                    Inl _ \<Rightarrow> (SoulFatal, fs)
                  | Inr allowlist \<Rightarrow>
                      (case VerifySoulSignature C K (sfSoul fs) (sfSig fs) allowlist of
                         Some e \<Rightarrow> (SoulInvalid e, fs)
                       | None \<Rightarrow> (SoulVerified, fs)))
               else (SoulUnknown sub, fs)))"

text \<open>
  \<open>witness soul sign\<close> makes the machine ready to start: if its writes succeed and the allowlist
  was missing, empty or ends in a newline and loads, then \<open>witness soul verify\<close> accepts the
  soul and the daemon's check at start-up passes in production mode.
\<close>

lemma operator_label_ok: "label_ok ''operator''"
  by (simp add: label_ok_def printable_def)

lemma signed_soul_starts:
  assumes "signer_ok C s" "\<forall>x y. so_marshal K x = Some y \<longrightarrow> so_unmarshal K y = Some x"
    and "scMode io = Some mode" "resolveSigner (''--dev'' \<in> set rest) mode (scDev io) (scSoftware io) (scPIV io) = Some (Some s)"
    and "sfSoul fs = Inr data" "scAllowMkdir io" "scAllowOpen io" "scAllowPart io = None" "scSigWrite io"
    and "sfAllow fs = Inl NotExist \<or> (\<exists>t es. sfAllow fs = Inr t \<and> (t = [] \<or> last t = LF) \<and> LoadAllowlist (sfAllow fs) = Inr es)"
    and "cmdSoul C K io (''sign'' # rest) fs = (SoulSigned e, fs')"
  shows "e = None \<and> cmdSoul C K io [''verify''] fs' = (SoulVerified, fs') \<and>
    checkSoulSignature C K (sfSoul fs') (sfSig fs') (sfAllow fs') False"
proof -
  obtain sig where sig: "SignSoul K s (scNow io) True (Inr data) (sfSig fs) = (None, sig)" "sfSig fs' = sig" "sfSoul fs' = Inr data"
    and allow: "AppendAllowlist True True None (sfAllow fs) ''operator'' (sgPublicKey s) = (e, sfAllow fs')"
    using assms(3-9,11) by (auto simp: cmdSoul_def split: prod.splits option.splits)
  obtain es where es: "sfAllow fs = Inl NotExist \<and> es = [] \<or> (\<exists>t. sfAllow fs = Inr t \<and> (t = [] \<or> last t = LF) \<and> LoadAllowlist (sfAllow fs) = Inr es)"
    using assms(10) by blast
  have "length (sgPublicKey s) = PublicKeySize" using assms(1) by (simp add: signer_ok_def)
  from appended_key_is_trusted [OF operator_label_ok this es] allow
  have e: "e = None" and ld: "LoadAllowlist (if sfAllow fs' = Inl NotExist then Inr [] else sfAllow fs') =
      Inr (if \<exists>x \<in> set es. alPubKey x = sgPublicKey s then es else es @ [\<lparr>alLabel = ''operator'', alPubKey = sgPublicKey s\<rparr>])"
    by auto
  have "sfAllow fs' \<noteq> Inl NotExist"
    using ld allow es by (auto simp: AppendAllowlist_def Let_def LoadAllowlist_def split: if_splits)
  then obtain l where l: "LoadAllowlist (sfAllow fs') = Inr l" "\<exists>x \<in> set l. alPubKey x = sgPublicKey s"
    using ld by (cases "\<exists>x \<in> set es. alPubKey x = sgPublicKey s") auto
  obtain sg where "sgSign s (bytes_of data) = Some sg" using sig(1) by (auto simp: SignSoul_def split: option.splits)
  moreover have "ed_verify C (sgPublicKey s) (bytes_of data) sg" using assms(1) calculation by (auto simp: signer_ok_def)
  ultimately have "VerifySoulSignature C K (sfSoul fs') (sfSig fs') l = None"
    using SignSoul_verify_iff [OF assms(1,2) sig(1), of data l] l(2) sig(2,3) by auto
  then show ?thesis using e l(1) assms(3) by (simp add: cmdSoul_def checkSoulSignature_def)
qed

section \<open>The migrate command\<close>

datatype migrate_result = MigrateFatal | MigrateOpen store_error | MigrateFailed import_error | Migrated import_result

text \<open>
  \<open>cmdMigrate\<close>: \<open>srcs\<close> gives the log of a directory named on the command line, \<open>None\<close> if it is
  the primary directory itself. The source is read after the store has been opened.
\<close>

definition cmdMigrate ::
  "env \<Rightarrow> (bytes \<Rightarrow> v1_entry option) \<Rightarrow> (bytes \<Rightarrow> bytes option) \<Rightarrow> (nat \<Rightarrow> nat \<Rightarrow> bytes) \<Rightarrow> open_io \<Rightarrow> (nat \<Rightarrow> append_io) \<Rightarrow>
   (string \<Rightarrow> fcontent option) \<Rightarrow> bool \<Rightarrow> bytes option \<Rightarrow> string list \<Rightarrow> disk \<Rightarrow> migrate_result \<times> disk" where
  "cmdMigrate C dec compact note_of oio ios srcs cfg key args d =
     (if \<not> cfg then (MigrateFatal, d)
      else case key of
        None \<Rightarrow> (MigrateFatal, d)
      | Some k \<Rightarrow>
          (case Open C d k None oio of
             (Inl e, d') \<Rightarrow> (MigrateOpen e, d')
           | (Inr st, d') \<Rightarrow>
               let src = (case args of [] \<Rightarrow> log_file d' | p # _ \<Rightarrow> (case srcs p of Some c \<Rightarrow> c | None \<Rightarrow> log_file d')) in
               (case FromV1Log C dec compact note_of k src ios (st, d') of
                  ((Some e, _), (st', d'')) \<Rightarrow> (MigrateFailed e, d'')
                | ((None, r), (st', d'')) \<Rightarrow> (case r of Some res \<Rightarrow> Migrated res | None \<Rightarrow> MigrateFatal, d''))))"

text \<open>
  Without an argument the command reads the log it appends to: every record of it that
  decodes as an old one is stored a second time.
\<close>

lemma migrate_copies_own_log:
  assumes "Open C d k None oio = (Inr st, d')" "log_inv C (st, d')" "log_file d' = Content b"
    and "readV1 C dec k b = (es, skipped)"
    and "cmdMigrate C dec compact note_of oio ios srcs True (Some k) [] d = (Migrated res, d'')"
    and "\<And>sd v i. v \<in> set es \<Longrightarrow> log_inv C sd \<Longrightarrow> call_fits C sd (v1_call compact (ios i) v)"
    and "\<And>sd i. log_inv C sd \<Longrightarrow> call_fits C sd (boundary_call note_of (ios i) (length es) skipped)"
  shows "irImported res = length es \<and>
     (\<exists>st'' new bd. log_records C (st'', d'') = log_records C (st, d') @ new @ [bd] \<and> list_all2 (imported_as compact) es new)"
proof -
  obtain err r sd where f: "FromV1Log C dec compact note_of k (Content b) ios (st, d') = ((err, r), sd)" by (metis prod.exhaust)
  then have "err = None" "r = Some res" "snd sd = d''"
    using assms(1,3,5) by (cases err; cases r; cases sd; simp add: cmdMigrate_def)+
  then have "FromV1Log C dec compact note_of k (Content b) ios (st, d') = ((None, Some res), (fst sd, d''))" using f by (cases sd) simp
  from import_complete [OF assms(2) this assms(4,6,7)] show ?thesis by auto
qed

section \<open>The verify-death command\<close>

text \<open>The exit code and, for a verification that fails, its error.\<close>

definition cmdVerifyDeath ::
  "env \<Rightarrow> death_codec \<Rightarrow> (string \<Rightarrow> death_dir) \<Rightarrow> (string \<Rightarrow> retained_log) \<Rightarrow> string list \<Rightarrow> nat \<times> verify_error option" where
  "cmdVerifyDeath C K dirs logs args =
     (case flag_parse [''log''] args [] of
        Inl e \<Rightarrow> (flag_exit e, None)
      | Inr (vals, pos) \<Rightarrow>
          (case pos of
             [dir] \<Rightarrow>
               (let log = flag_value ''log'' vals in
                case death_Verify C K (dirs dir) (if log = [] then None else Some (logs log)) of
                  None \<Rightarrow> (0, None)
                | Some e \<Rightarrow> (1, Some e))
           | _ \<Rightarrow> (1, None)))"

text \<open>
  With the flag before the directory, exit code 0 says that the records verify against the
  named log; with the flag behind the directory the command refuses.
\<close>

lemma verify_death_exit:
  assumes "logFile \<noteq> []" "HasPrefix dir ''/''"
  shows "fst (cmdVerifyDeath C K dirs logs [''--log'', logFile, dir]) = 0 \<longleftrightarrow> death_Verify C K (dirs dir) (Some (logs logFile)) = None"
    and "cmdVerifyDeath C K dirs logs [dir, ''--log'', logFile] = (1, None)"
proof -
  obtain r where r: "dir = CHR ''/'' # r" using assms(2) by (auto simp: HasPrefix_iff)
  have "flag_parse [''log''] [''--log'', logFile, dir] [] = Inr ([(''log'', logFile)], [dir])"
    using flag_parse_pair [of "''log''" "[''log'']" "''--''" logFile "[dir]" "[]"] by (simp add: r)
  then show "fst (cmdVerifyDeath C K dirs logs [''--log'', logFile, dir]) = 0 \<longleftrightarrow> death_Verify C K (dirs dir) (Some (logs logFile)) = None"
    using assms(1) by (simp add: cmdVerifyDeath_def flag_value_def split: option.splits)
  show "cmdVerifyDeath C K dirs logs [dir, ''--log'', logFile] = (1, None)" by (simp add: cmdVerifyDeath_def r)
qed

section \<open>Dispatch\<close>

datatype command =
    CmdInit | CmdStart | CmdStatus | CmdVerify | CmdVerifyDeath | CmdProve | CmdExport | CmdVerifyExport | CmdMigrate
  | CmdSoul | CmdAudit | CmdAccept | CmdWatchdog | CmdVersion

text \<open>The command \<open>main\<close> runs for \<open>os.Args\<close>; \<open>None\<close> prints the usage and exits with 1.\<close>

definition main_dispatch :: "string list \<Rightarrow> command option" where
  "main_dispatch args =
     (if length args < 2 then None
      else map_of
        [(''init'', CmdInit), (''start'', CmdStart), (''status'', CmdStatus), (''verify'', CmdVerify),
         (''verify-death'', CmdVerifyDeath), (''prove'', CmdProve), (''export'', CmdExport),
         (''verify-export'', CmdVerifyExport), (''migrate'', CmdMigrate), (''soul'', CmdSoul), (''audit'', CmdAudit),
         (''accept'', CmdAccept), (''watchdog'', CmdWatchdog), (''version'', CmdVersion), (''--version'', CmdVersion),
         (''-v'', CmdVersion)] (args ! 1))"

text \<open>The child the daemon spawns runs the watchdog command.\<close>

lemma spawned_runs_watchdog: "spawnWatchdog self starts pid mid dir = Some args \<Longrightarrow> main_dispatch args = Some CmdWatchdog"
  by (auto simp: spawnWatchdog_def main_dispatch_def split: option.splits if_splits)

text \<open>\<open>padRight\<close>: the text is filled with spaces, or cut, to \<open>n\<close> bytes.\<close>

definition padRight :: "string \<Rightarrow> nat \<Rightarrow> string" where
  "padRight s n = (let p = s @ replicate (n - length s) (CHR '' '') in if n < length p then take n p else p)"

lemma padRight_length [simp]: "length (padRight s n) = n"
  by (simp add: padRight_def Let_def)

end
