(* ===== verification/Pd_Main.thy ===== *)
theory Pd_Main
  imports Pd_Export Witness_Main
begin

text \<open>
  The rest of \<open>cmd/witness-pd\<close>: the data directory, the key of the police edition, the soul and
  configuration files that \<open>init\<close> leaves, signing keys for exports, and the dispatch of \<open>main\<close>.
\<close>

section \<open>Directory and key\<close>

text \<open>\<open>var\<close> is \<open>os.Getenv\<close>, \<open>home\<close> the home directory.\<close>

definition pdDir :: "(string \<Rightarrow> string) \<Rightarrow> string \<Rightarrow> string" where
  "pdDir var home = (if var ''WITNESS_PD_DIR'' \<noteq> [] then var ''WITNESS_PD_DIR'' else path_join [home, ''.witness-pd''])"

definition derivePDKey :: "hkdf \<Rightarrow> string \<Rightarrow> bytes option" where
  "derivePDKey hk machineID =
     hk (bytes_of machineID) (bytes_of ''witness-pd-kdf-salt-2026'') (bytes_of ''witness-pd-aes256-gcm-v1'') 32"

text \<open>The evidence log and the witness log of a machine use different salts and labels.\<close>

lemma derivePDKey_seals:
  "hkdf_ok hk \<Longrightarrow> derivePDKey hk mid = Some key \<Longrightarrow> aes_key_ok key \<and> encrypt_Seal C (Some nonce) plain key \<noteq> None"
  by (auto simp: hkdf_ok_def derivePDKey_def aes_key_ok_def encrypt_Seal_def)

section \<open>Configuration and soul\<close>

record pd_config =
  pgDepartment :: string
  pgNodeID :: string
  pgPort :: int
  pgSigningKeyPub :: string

text \<open>JSON: the indented text, and decoding into the zero value.\<close>

record pd_config_codec =
  pkMarshal :: "pd_config \<Rightarrow> string option"
  pkUnmarshal :: "string \<Rightarrow> pd_config option"

definition configFile :: "string \<Rightarrow> string" where
  "configFile dir = path_join [dir, ''config.json'']"

definition loadConfig :: "pd_config_codec \<Rightarrow> string \<Rightarrow> file_sys \<Rightarrow> pd_config option" where
  "loadConfig K dir fs = Option.bind (fsFiles fs (configFile dir)) (pkUnmarshal K)"

definition saveConfig :: "pd_config_codec \<Rightarrow> bool \<Rightarrow> write_result \<Rightarrow> string \<Rightarrow> pd_config \<Rightarrow> file_sys \<Rightarrow> bool \<times> file_sys" where
  "saveConfig K mkdir wr dir cfg fs =
     (case mkdirAll mkdir dir fs of
        (False, fs1) \<Rightarrow> (False, fs1)
      | (True, fs1) \<Rightarrow>
          (case pkMarshal K cfg of
             None \<Rightarrow> (False, fs1)
           | Some text \<Rightarrow> writeFile wr (configFile dir) text fs1))"

text \<open>\<open>installSoul\<close>: the first of the two candidates that can be read is copied.\<close>

fun firstReadable :: "string list \<Rightarrow> file_sys \<Rightarrow> string option" where
  "firstReadable [] fs = None"
| "firstReadable (p # ps) fs = (case fsFiles fs p of Some data \<Rightarrow> Some data | None \<Rightarrow> firstReadable ps fs)"

definition soulCandidates :: "string \<Rightarrow> string list" where
  "soulCandidates exe =
     [path_join [path_dir exe, ''../../payload/pd/default-pd-soul.toml''], ''payload/pd/default-pd-soul.toml'']"

definition installSoul :: "bool \<Rightarrow> write_result \<Rightarrow> string \<Rightarrow> string \<Rightarrow> file_sys \<Rightarrow> bool \<times> file_sys" where
  "installSoul mkdir wr exe dst fs =
     (if fsFiles fs dst \<noteq> None then (True, fs)
      else case mkdirAll mkdir (path_dir dst) fs of
        (False, fs1) \<Rightarrow> (False, fs1)
      | (True, fs1) \<Rightarrow>
          (case firstReadable (soulCandidates exe) fs1 of
             None \<Rightarrow> (False, fs1)
           | Some data \<Rightarrow> writeFile wr dst data fs1))"

lemma saved_config_loads:
  assumes "saveConfig K mkdir wr dir cfg fs = (True, fs')" "\<forall>c t. pkMarshal K c = Some t \<longrightarrow> pkUnmarshal K t = Some c"
  shows "loadConfig K dir fs' = Some cfg"
  using assms by (auto simp: saveConfig_def loadConfig_def dest!: writeFile_ok split: prod.splits bool.splits option.splits)

section \<open>Init\<close>

record init_io =
  iiSoulMkdir :: bool
  iiSoulWrite :: write_result
  iiExe :: string
  iiSoulLoads :: "string \<Rightarrow> bool"
  iiOpen :: open_io
  iiPd :: pd_io
  iiNotes :: bytes
  iiConfMkdir :: bool
  iiConfWrite :: write_result

text \<open>
  \<open>runInit\<close> with its files. The store part is \<open>runInit\<close> of the export theory; \<open>fsDirs\<close> gets the
  primary directory when opening the store makes it.
\<close>

definition initFiles ::
  "env \<Rightarrow> pd_config_codec \<Rightarrow> init_io \<Rightarrow> bytes option \<Rightarrow> string \<Rightarrow> string \<Rightarrow> string \<Rightarrow> file_sys \<times> pd_files \<Rightarrow> cli_outcome \<times> file_sys \<times> pd_files" where
  "initFiles C K io key dir dept nodeID w =
     (case w of (fs, df) \<Rightarrow>
        let primary = path_join [dir, ''primary'']; soulDst = path_join [dir, ''soul.toml''] in
        if primary \<in> fsDirs fs then (CliFatal, fs, df)
        else case installSoul (iiSoulMkdir io) (iiSoulWrite io) (iiExe io) soulDst fs of
          (False, fs1) \<Rightarrow> (CliFatal, fs1, df)
        | (True, fs1) \<Rightarrow>
            if \<not> (case fsFiles fs1 soulDst of Some t \<Rightarrow> iiSoulLoads io t | None \<Rightarrow> False) then (CliFatal, fs1, df)
            else (case key of
              None \<Rightarrow> (CliFatal, fs1, df)
            | Some k \<Rightarrow>
                let fs2 = (if oiMkdir (iiOpen io) then fs1\<lparr>fsDirs := insert primary (fsDirs fs1)\<rparr> else fs1) in
                (case runInit C False True True True k (iiOpen io) (iiPd io) (iiNotes io) df of
                   (CliDone, df') \<Rightarrow>
                     (case saveConfig K (iiConfMkdir io) (iiConfWrite io) dir
                             \<lparr>pgDepartment = dept, pgNodeID = nodeID, pgPort = 8890, pgSigningKeyPub = []\<rparr> fs2 of
                        (ok, fs3) \<Rightarrow> (if ok then CliDone else CliFatal, fs3, df'))
                 | (out, df') \<Rightarrow> (out, fs2, df'))))"

text \<open>After a successful \<open>init\<close> the other commands find a configuration, and a second \<open>init\<close> refuses.\<close>

lemma runInit_done_mkdir:
  assumes "runInit C False True True True k oio io notes df = (CliDone, df')"
  shows "oiMkdir oio"
proof (rule ccontr)
  assume "\<not> oiMkdir oio"
  then have "fst (pdOpen C df k oio) = Inl (LogFailed Log_Store.MkdirFailed)"
    by (simp add: pdOpen_def Open_def OpenTrusting_def openStore_def)
  then show False using assms by (cases "pdOpen C df k oio") (simp add: runInit_def)
qed

lemma saveConfig_dirs: "saveConfig K mkdir wr dir cfg fs = (ok, fs') \<Longrightarrow> fsDirs fs \<subseteq> fsDirs fs'"
  by (auto simp: saveConfig_def mkdirAll_def writeFile_def split: bool.splits option.splits write_result.splits if_splits)

lemma initialised:
  assumes "initFiles C K io key dir dept nodeID (fs, df) = (CliDone, fs', df')"
    and "\<forall>c t. pkMarshal K c = Some t \<longrightarrow> pkUnmarshal K t = Some c"
  shows "loadConfig K dir fs' = Some \<lparr>pgDepartment = dept, pgNodeID = nodeID, pgPort = 8890, pgSigningKeyPub = []\<rparr>"
    and "initFiles C K io2 key2 dir dept2 node2 (fs', df') = (CliFatal, fs', df')"
proof -
  obtain k fs2 where k: "runInit C False True True True k (iiOpen io) (iiPd io) (iiNotes io) df = (CliDone, df')"
      "saveConfig K (iiConfMkdir io) (iiConfWrite io) dir \<lparr>pgDepartment = dept, pgNodeID = nodeID, pgPort = 8890, pgSigningKeyPub = []\<rparr> fs2 = (True, fs')"
      "oiMkdir (iiOpen io) \<longrightarrow> path_join [dir, ''primary''] \<in> fsDirs fs2"
    using assms(1)
    by (auto simp: initFiles_def Let_def split: if_splits prod.splits bool.splits option.splits cli_outcome.splits)
  show "loadConfig K dir fs' = Some \<lparr>pgDepartment = dept, pgNodeID = nodeID, pgPort = 8890, pgSigningKeyPub = []\<rparr>"
    by (rule saved_config_loads [OF k(2) assms(2)])
  have "path_join [dir, ''primary''] \<in> fsDirs fs'"
    using k(3) runInit_done_mkdir [OF k(1)] saveConfig_dirs [OF k(2)] by blast
  then show "initFiles C K io2 key2 dir dept2 node2 (fs', df') = (CliFatal, fs', df')" by (simp add: initFiles_def Let_def)
qed

text \<open>
  An \<open>init\<close> that fails after the directory was made cannot be repeated: the next \<open>init\<close> says the
  store is initialised, every other command that it is not.
\<close>

lemma failed_init_is_stuck:
  assumes "initFiles C K io key dir dept nodeID (fs, df) = (CliFatal, fs', df')"
    and "path_join [dir, ''primary''] \<in> fsDirs fs'" "loadConfig K dir fs' = None"
  shows "initFiles C K io2 key2 dir dept2 node2 (fs', df') = (CliFatal, fs', df')"
    and "mustOpenStore C (loadConfig K dir fs' \<noteq> None) k oio df' = (None, df')"
  using assms by (simp_all add: initFiles_def mustOpenStore_def Let_def)

section \<open>Signing keys\<close>

text \<open>\<open>GenerateKeyPair\<close>: the random seed; the private key is the seed with the public key behind it.\<close>

definition GenerateKeyPair :: "ed_impl \<Rightarrow> bytes option \<Rightarrow> (string \<times> string) option" where
  "GenerateKeyPair E rnd = map_option (\<lambda>seed. (hex_encode (edPublic E seed), hex_encode (seed @ edPublic E seed))) rnd"

text \<open>\<open>runKeygen\<close> prints the pair.\<close>

definition runKeygen :: "ed_impl \<Rightarrow> bytes option \<Rightarrow> cli_outcome \<times> (string \<times> string) option" where
  "runKeygen E rnd = (case GenerateKeyPair E rnd of None \<Rightarrow> (CliFatal, None) | Some p \<Rightarrow> (CliDone, Some p))"

definition edSignPriv :: "ed_impl \<Rightarrow> bytes \<Rightarrow> bytes \<Rightarrow> bytes" where
  "edSignPriv E priv m = edSign E (take SeedSize priv) m"

text \<open>What \<open>keygen\<close> prints works: a bundle signed with the private part verifies under the public one.\<close>

lemma keygen_keys_work:
  assumes "ed_ok C E" "length seed = SeedSize" "runKeygen E (Some seed) = (CliDone, Some (pubHex, privHex))"
    and "Generate C K date rnd now entries cn dep node = Inr b" "bundle_Sign K (edSignPriv E) b privHex = Inr b'"
  shows "bundle_Verify C K b' pubHex = Value None"
proof -
  have ed: "length (edPublic E seed) = PublicKeySize" "length (edSign E seed m) = SignatureSize"
      "ed_verify C (edPublic E seed) m (edSign E seed m)" for m
    using assms(1,2) by (auto simp: ed_ok_def)
  have hex: "pubHex = hex_encode (edPublic E seed)" "hex_decode privHex = Some (seed @ edPublic E seed)"
    using assms(3) by (auto simp: runKeygen_def GenerateKeyPair_def)
  have sg: "edSignPriv E (seed @ edPublic E seed) p = edSign E seed p" for p using assms(2) by (simp add: edSignPriv_def)
  have "edSign E seed p \<noteq> []" for p using ed(2) [of p] by (auto simp: SignatureSize_def)
  then show ?thesis
    using signed_bundle_verifies(1) [OF assms(4,5) hex(2) ed(1)] ed(3) by (simp add: sg hex(1))
qed

section \<open>Dispatch\<close>

datatype pd_command = PdInit | PdStatus | PdIntake | PdTransfer | PdHold | PdExport | PdKeygen | PdVersion

definition pd_main :: "string list \<Rightarrow> pd_command option" where
  "pd_main args =
     (if length args < 2 then None
      else map_of
        [(''init'', PdInit), (''status'', PdStatus), (''intake'', PdIntake), (''transfer'', PdTransfer), (''hold'', PdHold),
         (''export'', PdExport), (''keygen'', PdKeygen), (''version'', PdVersion), (''--version'', PdVersion), (''-v'', PdVersion)]
        (args ! 1))"

end
