(* ===== verification/Shutdown.thy ===== *)
theory Shutdown
  imports Witness_Main
begin

text \<open>
  The way down of the daemon (\<open>fireDeath\<close> and \<open>stopFeeds\<close> in \<open>cmd/witness/main.go\<close>), composed from
  the bridges: every feed is stopped, then pipelock, then the DEATH record is appended and the
  death record fired. The composition refines \<open>fireDeath\<close> of the lifecycle theory, whose
  argument \<open>flushed\<close> stands for what the feeds still append.
\<close>

section \<open>Stopping the feeds\<close>

text \<open>The classifier each harness log is wired with.\<close>

definition sbhClassifier :: "string \<Rightarrow> audit_event \<Rightarrow> string \<times> string" where
  "sbhClassifier feed =
     (if feed = sbhLabel ''forge audit'' then ClassifyForge
      else if feed = sbhLabel ''decision log'' then ClassifyDecision else ClassifyEscalation)"

type_synonym log_monitor = "(store \<times> disk) \<times> monitor"

text \<open>One event through the forwarder of its feed; only the farm's forwarder uses the monitor.\<close>

definition feed_forward ::
  "env \<Rightarrow> (audit_event \<Rightarrow> bytes) \<Rightarrow> (transition \<Rightarrow> bytes) \<Rightarrow> (string \<Rightarrow> time option) \<Rightarrow> feed_kind \<Rightarrow> audit_event \<Rightarrow> append_io \<times> feed_io \<Rightarrow>
   log_monitor \<times> tailer \<Rightarrow> log_monitor \<times> tailer" where
  "feed_forward C marshal marshalT tparse kind evt io st =
     (case st of ((sd, m), t) \<Rightarrow>
        (case kind of
           NamedFeed source \<Rightarrow> (case feeds_turn C marshal source evt (snd io) (sd, t) of (sd', t') \<Rightarrow> ((sd', m), t'))
         | SbhFeed feed \<Rightarrow> (case sbh_turn C marshal (sbhClassifier feed) evt (snd io) (sd, t) of (sd', t') \<Rightarrow> ((sd', m), t'))
         | FarmFeed \<Rightarrow> farm_turn C marshal marshalT tparse evt io ((sd, m), t)))"

text \<open>What happens while one feed stops: the tailer's turns, the events its forwarder takes, the flush.\<close>

record stop_io =
  soTurns :: "turn_io list"
  soTaken :: "(audit_event \<times> append_io \<times> feed_io) list"
  soFlush :: bool
  soNow :: time

fun stopAll ::
  "env \<Rightarrow> (audit_event \<Rightarrow> bytes) \<Rightarrow> (transition \<Rightarrow> bytes) \<Rightarrow> (string \<Rightarrow> time option) \<Rightarrow> (string \<Rightarrow> audit_event option) \<Rightarrow>
   (feed_bridge \<times> stop_io) list \<Rightarrow> log_monitor \<Rightarrow> log_monitor outcome" where
  "stopAll C marshal marshalT tparse parse [] s = Value s"
| "stopAll C marshal marshalT tparse parse ((b, so) # bs) s =
     (case feed_Stop (feed_forward C marshal marshalT tparse (fbKind b)) parse (soTurns so) (soTaken so) (soFlush so) (soNow so) (b, s) of
        Value (b', s') \<Rightarrow> stopAll C marshal marshalT tparse parse bs s'
      | Panic \<Rightarrow> Panic
      | Diverge \<Rightarrow> Diverge)"

text \<open>\<open>stopFeeds\<close>: the named feeds, the harness logs, the farm feed.\<close>

definition stopFeeds ::
  "env \<Rightarrow> (audit_event \<Rightarrow> bytes) \<Rightarrow> (transition \<Rightarrow> bytes) \<Rightarrow> (string \<Rightarrow> time option) \<Rightarrow> (string \<Rightarrow> audit_event option) \<Rightarrow>
   (feed_bridge \<times> stop_io) list \<Rightarrow> (feed_bridge \<times> stop_io) list \<Rightarrow> (feed_bridge \<times> stop_io) option \<Rightarrow> log_monitor \<Rightarrow> log_monitor outcome" where
  "stopFeeds C marshal marshalT tparse parse eventFeeds sbhBridges farmBridge s =
     stopAll C marshal marshalT tparse parse
       (eventFeeds @ sbhBridges @ (case farmBridge of None \<Rightarrow> [] | Some b \<Rightarrow> [b])) s"

section \<open>The whole way down\<close>

record down_io =
  dwStderr :: "(string \<times> append_io) list"
  dwExits :: bool
  dwTurns :: "turn_io list"
  dwTaken :: "forwarded list"
  dwFlush :: bool
  dwNow :: time
  dwDetail :: bytes
  dwDeath :: append_io
  dwFire :: fire_io
  dwFails :: "record_step option"
  dwSuffix :: string

record wiring =
  wiMarshal :: "audit_event \<Rightarrow> bytes"
  wiMarshalT :: "transition \<Rightarrow> bytes"
  wiMarshalMsg :: "string \<Rightarrow> bytes"
  wiTime :: "string \<Rightarrow> time option"
  wiParse :: "string \<Rightarrow> audit_event option"
  wiCasing :: casing

text \<open>The bytes of the log as the death record sees them.\<close>

definition log_bytes :: "disk \<Rightarrow> bytes" where
  "log_bytes d = (case log_file d of Content b \<Rightarrow> b | _ \<Rightarrow> [])"

text \<open>
  \<open>shutdown\<close> is \<open>fireDeath\<close> of the source: the lines pipelock still writes to stderr are appended
  while it ends. The result is the log and the outcome of the death record.
\<close>

definition shutdown ::
  "env \<Rightarrow> death_codec \<Rightarrow> wiring \<Rightarrow> down_io \<Rightarrow> (feed_bridge \<times> stop_io) list \<Rightarrow> (feed_bridge \<times> stop_io) list \<Rightarrow> (feed_bridge \<times> stop_io) option \<Rightarrow>
   broadcaster \<Rightarrow> string \<Rightarrow> death_dir \<Rightarrow> bytes \<Rightarrow> bridge \<Rightarrow> log_monitor \<Rightarrow> ((store \<times> disk) \<times> fire_error option \<times> death_dir) outcome" where
  "shutdown C K W io eventFeeds sbhBridges farmBridge bc reason dd gen br s =
     (case stopFeeds C (wiMarshal W) (wiMarshalT W) (wiTime W) (wiParse W) eventFeeds sbhBridges farmBridge s of
        Panic \<Rightarrow> Panic
      | Diverge \<Rightarrow> Diverge
      | Value (sd, m) \<Rightarrow>
          (case bridge_Stop C (wiCasing W) (wiMarshal W) (wiParse W) (dwExits io) (dwTurns io) (dwTaken io) (dwFlush io) (dwNow io)
                  (foldl (\<lambda>bs (line, aio). forwardStderr C (wiMarshalMsg W) line aio bs) (br, sd) (dwStderr io)) of
             Panic \<Rightarrow> Panic
           | Diverge \<Rightarrow> Diverge
           | Value (br', sd1) \<Rightarrow>
               let sd2 = append_step C sd1 (death_call (dwDetail io) (dwDeath io) reason) in
               Value (sd2, fire C K (dwFire io) (dwFails io) (dwSuffix io) dd (bcMachineID bc) reason gen (log_bytes (snd sd2)))))"

section \<open>Refinement\<close>

text \<open>The log was only appended to.\<close>

definition appended :: "env \<Rightarrow> store \<times> disk \<Rightarrow> store \<times> disk \<Rightarrow> bool" where
  "appended C sd sd' \<longleftrightarrow> (\<exists>calls. sd' = foldl (append_step C) sd calls)"

lemma appended_refl [simp]: "appended C sd sd"
  unfolding appended_def by (intro exI [of _ "[]"]) simp

lemma appended_step [simp]: "appended C sd (append_step C sd c)"
  unfolding appended_def by (intro exI [of _ "[c]"]) simp

lemma appended_trans: "appended C a b \<Longrightarrow> appended C b c \<Longrightarrow> appended C a c"
  unfolding appended_def by (metis foldl_append)

lemma appended_foldl:
  assumes "\<And>s x. appended C (log s) (log (f s x))"
  shows "appended C (log s) (log (foldl f s xs))"
  by (induction xs arbitrary: s) (auto intro: appended_trans assms)

lemma farm_turn_appends: "appended C sd (fst (fst (farm_turn C marshal marshalT tparse evt io ((sd, m), t))))"
proof -
  obtain io2 a ok now where io: "io = (io2, a, ok, now)" by (metis prod.exhaust)
  obtain m1 tr where seen: "Seen m (str_or_empty evt ''source'') (str_or_empty evt ''kind'') (eventTime tparse evt now) = (m1, tr)"
    by (metis prod.exhaust)
  show ?thesis
    by (cases tr) (simp_all add: farm_turn_def ingest_def io seen Let_def case_prod_beta appended_trans [OF appended_step appended_step])
qed

lemma feed_forward_appends: "appended C (fst (fst st)) (fst (fst (feed_forward C marshal marshalT tparse kind evt io st)))"
proof -
  obtain sd m t where st: "st = ((sd, m), t)" by (metis prod.exhaust)
  show ?thesis
    by (cases kind)
      (simp_all add: feed_forward_def st feeds_turn_def feeds_forward_def sbh_turn_def sbh_forward_def appendAndAck_def
        farm_turn_appends case_prod_beta)
qed

lemma feed_Stop_appends:
  assumes "feed_Stop (feed_forward C marshal marshalT tparse kind) parse turns ws ok now (b, s) = Value (b', s')"
  shows "appended C (fst s) (fst s')"
proof -
  obtain rs evs where r: "runLoop parse turns (fbTail b) = (rs, evs, True)"
    using assms by (auto simp: feed_Stop_def split: if_splits prod.splits)
  let ?f = "\<lambda>st (e, io). feed_forward C marshal marshalT tparse kind e io st"
  have "appended C (fst (fst (s, rsT rs))) (fst (fst (foldl ?f (s, rsT rs) ws)))"
    by (rule appended_foldl [of C "\<lambda>x. fst (fst x)"]) (auto simp: feed_forward_appends split: prod.splits)
  moreover have "fst (foldl ?f (s, rsT rs) ws) = s'" using assms r by (auto simp: feed_Stop_def split: if_splits prod.splits)
  ultimately show ?thesis by simp
qed

lemma stopAll_appends: "stopAll C marshal marshalT tparse parse bs s = Value s' \<Longrightarrow> appended C (fst s) (fst s')"
proof (induction bs arbitrary: s)
  case (Cons x bs)
  obtain b so where x: "x = (b, so)" by (cases x)
  obtain b1 s1 where s1: "feed_Stop (feed_forward C marshal marshalT tparse (fbKind b)) parse (soTurns so) (soTaken so) (soFlush so) (soNow so) (b, s) = Value (b1, s1)"
    using Cons.prems x by (auto split: outcome.splits)
  then have "stopAll C marshal marshalT tparse parse bs s1 = Value s'" using Cons.prems x by simp
  then show ?case using Cons.IH feed_Stop_appends [OF s1] appended_trans by blast
qed simp

lemma forwardStderr_appends: "appended C (snd bs) (snd (forwardStderr C marshalMsg line io bs))"
  by (auto simp: forwardStderr_def Let_def split: prod.splits)

lemma drainRemaining_appends: "appended C (fst fs) (fst (drainRemaining C U marshal ws fs))"
  unfolding drainRemaining_def
  by (rule appended_foldl [of C fst]) (auto simp: bridge_forward_def appendAndAck_def split: prod.splits bridge_event.splits)

lemma bridge_Stop_appends:
  "bridge_Stop C U marshal parse exits turns ws ok now bs = Value bs' \<Longrightarrow> appended C (snd bs) (snd bs')"
  using drainRemaining_appends [of C _ U marshal ws]
  by (auto simp: bridge_Stop_def split: if_splits prod.splits outcome.splits) (metis fst_conv)

text \<open>
  The way down of the daemon is \<open>fireDeath\<close> with some list of flushed records: whatever the
  feeds, the forwarders and pipelock's stderr still write, it is written before the DEATH
  record, which is the last append. So what is proved of \<open>fireDeath\<close> for every list holds of it.
\<close>

lemma shutdown_refines_fireDeath:
  assumes "shutdown C K W io eventFeeds sbhBridges farmBridge bc reason dd gen br s = Value (sd', fired)"
  shows "\<exists>flushed. sd' = fireDeath C flushed (dwDetail io) (dwDeath io) reason (fst s)"
proof -
  obtain sd m where f: "stopFeeds C (wiMarshal W) (wiMarshalT W) (wiTime W) (wiParse W) eventFeeds sbhBridges farmBridge s = Value (sd, m)"
    using assms by (auto simp: shutdown_def split: outcome.splits)
  let ?bs = "foldl (\<lambda>bs (line, aio). forwardStderr C (wiMarshalMsg W) line aio bs) (br, sd) (dwStderr io)"
  obtain br1 sd1 where b: "bridge_Stop C (wiCasing W) (wiMarshal W) (wiParse W) (dwExits io) (dwTurns io) (dwTaken io) (dwFlush io) (dwNow io) ?bs = Value (br1, sd1)"
    and sd': "sd' = append_step C sd1 (death_call (dwDetail io) (dwDeath io) reason)"
    using assms f by (auto simp: shutdown_def Let_def split: outcome.splits)
  have a1: "appended C (fst s) sd" using stopAll_appends [OF f [unfolded stopFeeds_def]] by simp
  have "appended C (snd (br, sd)) (snd ?bs)"
    by (rule appended_foldl [of C snd]) (simp add: forwardStderr_appends case_prod_beta)
  then have a2: "appended C sd (snd ?bs)" by simp
  have a3: "appended C (snd ?bs) sd1" using bridge_Stop_appends [OF b] by simp
  obtain flushed where "sd1 = foldl (append_step C) (fst s) flushed"
    using appended_trans [OF a1 appended_trans [OF a2 a3]] unfolding appended_def by blast
  then have "sd' = fireDeath C flushed (dwDetail io) (dwDeath io) reason (fst s)" by (simp only: sd' fireDeath_def)
  then show ?thesis by blast
qed

end
