(* ===== verification/Mirror_Push.thy ===== *)
theory Mirror_Push
  imports Daemon
begin

text \<open>
  The daemon and its mirror together (\<open>tryPushMirror\<close> in \<open>cmd/witness/main.go\<close>): at the
  start and after every drift tick the head file is read and handed to a goroutine that
  pushes it to the mirror, so several pushes can be in flight, and they end in any order. An
  operator later audits whatever log the machine shows against the head the mirror holds.
\<close>

section \<open>Pushes in flight\<close>

text \<open>\<open>mwFlight\<close> maps the goroutines that still run to the bytes they hold; \<open>mwNext\<close> numbers the next.\<close>

record mirrored =
  mwDaemon :: daemon
  mwMirror :: "mirror_dir option"
  mwFlight :: "nat \<rightharpoonup> bytes"
  mwNext :: nat

definition tryPushMirror :: "bool \<Rightarrow> mirrored \<Rightarrow> mirrored" where
  "tryPushMirror readable W =
     (if mwMirror W = None then W
      else case head_file (snd (dmLog (mwDaemon W))) of
        Content data \<Rightarrow>
          if readable then W\<lparr>mwFlight := (mwFlight W)(mwNext W \<mapsto> data), mwNext := Suc (mwNext W)\<rparr> else W
      | _ \<Rightarrow> W)"

text \<open>The goroutine: the push, then the record of a change of the mirror's health. \<open>msg\<close> is the error's text.\<close>

definition pushGoroutine :: "env \<Rightarrow> daemon_codec \<Rightarrow> mirrored \<Rightarrow> nat \<Rightarrow> file_push \<Rightarrow> string \<Rightarrow> append_io \<Rightarrow> mirrored" where
  "pushGoroutine C K W k fio msg io =
     (case (mwMirror W, mwFlight W k) of
        (Some m, Some data) \<Rightarrow>
          (case file_Push fio m data of (err, m') \<Rightarrow>
             W\<lparr>mwMirror := Some m', mwFlight := (mwFlight W)(k := None),
               mwDaemon := pushDone C K (mwDaemon W) (map_option (\<lambda>_. msg) err) io\<rparr>)
      | _ \<Rightarrow> W)"

datatype mirror_event =
    PushStarts bool
  | Loop daemon_event bool
  | PushEnds nat file_push string append_io

definition mirror_step :: "env \<Rightarrow> daemon_codec \<Rightarrow> daemon_conf \<Rightarrow> mirrored \<Rightarrow> mirror_event \<Rightarrow> mirrored" where
  "mirror_step C K conf W ev =
     (if \<not> dmRunning (mwDaemon W) then W
      else case ev of
        PushStarts readable \<Rightarrow> tryPushMirror readable W
      | Loop e readable \<Rightarrow>
          (case e of
             PushEnded _ _ \<Rightarrow> W
           | Tick _ \<Rightarrow> tryPushMirror readable (W\<lparr>mwDaemon := daemon_step C K conf (mwDaemon W) e\<rparr>)
           | _ \<Rightarrow> W\<lparr>mwDaemon := daemon_step C K conf (mwDaemon W) e\<rparr>)
      | PushEnds k fio msg io \<Rightarrow> pushGoroutine C K W k fio msg io)"

definition mirror_run :: "env \<Rightarrow> daemon_codec \<Rightarrow> daemon_conf \<Rightarrow> mirrored \<Rightarrow> mirror_event list \<Rightarrow> mirrored" where
  "mirror_run C K conf W evs = foldl (mirror_step C K conf) W evs"

definition mirror_start :: "daemon \<Rightarrow> mirror_dir \<Rightarrow> mirrored" where
  "mirror_start D m = \<lparr>mwDaemon = D, mwMirror = Some m, mwFlight = Map.empty, mwNext = 0\<rparr>"

lemma mirror_run_Cons [simp]: "mirror_run C K conf W (ev # evs) = mirror_run C K conf (mirror_step C K conf W ev) evs"
  by (simp add: mirror_run_def)

lemma mirror_run_Nil [simp]: "mirror_run C K conf W [] = W"
  by (simp add: mirror_run_def)

section \<open>A push keeps the bytes it read\<close>

definition flight_inv :: "mirrored \<Rightarrow> bool" where
  "flight_inv W \<longleftrightarrow> mwMirror W \<noteq> None \<and> (\<forall>k. mwFlight W k \<noteq> None \<longrightarrow> k < mwNext W)"

lemma flight_inv_daemon [simp]: "flight_inv (W\<lparr>mwDaemon := D\<rparr>) = flight_inv W"
  by (simp add: flight_inv_def)

lemma tryPush_daemon [simp]: "mwDaemon (tryPushMirror r W) = mwDaemon W"
  by (simp add: tryPushMirror_def split: fcontent.split)

lemma tryPush_flight:
  "flight_inv W \<Longrightarrow> flight_inv (tryPushMirror r W) \<and> mwNext W \<le> mwNext (tryPushMirror r W) \<and>
     (\<forall>k < mwNext W. mwFlight (tryPushMirror r W) k = mwFlight W k)"
  by (auto simp: tryPushMirror_def flight_inv_def less_Suc_eq split: fcontent.splits)

lemma goroutine_flight:
  "flight_inv W \<Longrightarrow> flight_inv (pushGoroutine C K W k fio msg io) \<and> mwNext (pushGoroutine C K W k fio msg io) = mwNext W \<and>
     (\<forall>j. mwFlight (pushGoroutine C K W k fio msg io) j \<in> {mwFlight W j, None})"
  by (auto simp: pushGoroutine_def flight_inv_def split: option.splits prod.splits)

lemma mirror_step_flight:
  assumes "flight_inv W"
  shows "flight_inv (mirror_step C K conf W ev) \<and> mwNext W \<le> mwNext (mirror_step C K conf W ev) \<and>
     (\<forall>k < mwNext W. mwFlight (mirror_step C K conf W ev) k \<in> {mwFlight W k, None})"
proof -
  note t = tryPush_flight [of "W\<lparr>mwDaemon := D\<rparr>" for D, simplified, OF assms] tryPush_flight [OF assms]
    goroutine_flight [OF assms, of C K]
  show ?thesis using assms t
    by (cases ev) (auto simp: mirror_step_def split: daemon_event.split)
qed

lemma mirror_run_flight:
  "flight_inv W \<Longrightarrow> flight_inv (mirror_run C K conf W evs) \<and> mwNext W \<le> mwNext (mirror_run C K conf W evs) \<and>
     (\<forall>k < mwNext W. mwFlight (mirror_run C K conf W evs) k \<in> {mwFlight W k, None})"
proof (induction evs arbitrary: W)
  case (Cons ev evs)
  let ?W = "mirror_step C K conf W ev"
  note s = mirror_step_flight [OF Cons.prems, of C K conf ev]
  then have "flight_inv ?W" by blast
  note r = Cons.IH [OF this]
  have "mwFlight (mirror_run C K conf ?W evs) k \<in> {mwFlight W k, None}" if "k < mwNext W" for k
  proof -
    have "k < mwNext ?W" using s that by linarith
    then show ?thesis using r s that by (metis insert_iff singletonD)
  qed
  then show ?case using r s by (auto intro: order_trans)
qed simp

lemma mirror_start_flight [simp]: "flight_inv (mirror_start D m)"
  by (simp add: mirror_start_def flight_inv_def)

section \<open>What a push carries\<close>

lemma newHead_fields:
  assumes "signHead C s leaves (newHead C f key leaves now) = Some h"
  shows "thSize h = word_of_nat (length leaves) \<and> thRoot h = hex_encode (Root (blake3 C) leaves)"
  using assms by (auto simp: signHead_def newHead_def Let_def split: option.splits)

lemma append_writes_head:
  assumes "log_inv C sd" "append_ok C sd c"
  shows "\<exists>b h. head_file (snd (append_step C sd c)) = Content b \<and> unmarshal_head C b = Some h \<and>
     head_of C (log_records C (append_step C sd c)) h"
proof -
  obtain st d st' d' where sd: "sd = (st, d)" "append_step C sd c = (st', d')" by fastforce
  have call: "append_call C sd c = (None, st', d')"
    using assms(2) sd by (cases "append_call C sd c") (simp add: append_ok_def append_step_def)
  obtain h where h: "head_file d' = Content (marshal_head C h)"
      "thSize h = word_of_nat (length (stLeaves st')) \<and> thRoot h = hex_encode (Root (blake3 C) (stLeaves st'))"
    using call newHead_fields sd
    by (auto simp: append_call_def Append_def writeTreeHead_def Let_def split: if_splits option.splits prod.splits head_write.splits)
  have "log_inv C (st', d')" using al.step_inv [OF assms] sd by simp
  then obtain bs es where si: "store_inv C st' d' bs es" and env: "env_ok C" by (auto simp: log_inv_def)
  then have "head_of C (log_records C (st', d')) h"
    using h(2) log_records_inv [OF si] by (simp add: head_of_def store_inv_def)
  then show ?thesis using h(1) env sd(2) by (auto simp: env_ok_def)
qed

lemma tick_pushes_head:
  assumes "flight_inv W" "dmRunning (mwDaemon W)" "log_inv C (dmLog (mwDaemon W))" "tick_oks C K conf (mwDaemon W) t"
  shows "\<exists>b h. mwFlight (mirror_step C K conf W (Loop (Tick t) True)) (mwNext W) = Some b \<and>
     mwNext W < mwNext (mirror_step C K conf W (Loop (Tick t) True)) \<and>
     unmarshal_head C b = Some h \<and> head_of C (log_records C (dmLog (mwDaemon (mirror_step C K conf W (Loop (Tick t) True))))) h"
proof -
  obtain s sd where ts: "tickSpool C K conf (mwDaemon W) t = (s, sd)" by (metis prod.exhaust)
  let ?c = "driftCall K (set_Filter s (Measure C (tiMachine t) (cfSnap conf))) (tiAppend t)"
  have "log_inv C sd" using tickSpool_log_inv [OF assms(3,4)] ts by simp
  moreover have "append_ok C sd ?c" using assms(4) ts by (simp add: tick_oks_def)
  ultimately obtain b h where b: "head_file (snd (append_step C sd ?c)) = Content b" "unmarshal_head C b = Some h"
      "head_of C (log_records C (append_step C sd ?c)) h"
    using append_writes_head by blast
  have log: "dmLog (daemon_step C K conf (mwDaemon W) (Tick t)) = append_step C sd ?c"
    using assms(2) ts by (simp add: daemon_step_def driftTick_def Let_def)
  show ?thesis using assms(1,2) b log by (auto simp: mirror_step_def tryPushMirror_def flight_inv_def)
qed

text \<open>When a push that is in flight ends well, the mirror holds the bytes it was started with.\<close>

lemma push_lands:
  assumes "dmRunning (mwDaemon W)" "mwMirror W \<noteq> None" "mwFlight W k = Some b"
  shows "\<exists>m. mwMirror (mirror_step C K conf W (PushEnds k FileOk msg io)) = Some m \<and> file_Fetch m = Some b"
proof -
  obtain m where m: "mwMirror W = Some m" using assms(2) by blast
  obtain m' where p: "file_Push FileOk m b = (None, m')" by (simp add: file_Push_def)
  show ?thesis using assms(1,3) m p fb.visible [OF p] by (simp add: mirror_step_def pushGoroutine_def)
qed

text \<open>Pushes are not ordered: an older head that is still in flight replaces a newer one.\<close>

lemma mirror_can_go_back:
  assumes "dmRunning (mwDaemon W)" "mwMirror W = Some m" "mwFlight W old = Some b1" "mwFlight W new = Some b2" "old < new"
    and "W2 = mirror_step C K conf W (PushEnds new FileOk msg io)"
  shows "\<exists>m2 m3. mwMirror W2 = Some m2 \<and> file_Fetch m2 = Some b2 \<and>
     mwMirror (mirror_step C K conf W2 (PushEnds old FileOk msg io)) = Some m3 \<and> file_Fetch m3 = Some b1"
proof -
  obtain m2 where m2: "mwMirror W2 = Some m2" "file_Fetch m2 = Some b2"
    using push_lands [OF assms(1) _ assms(4)] assms(2,6) by blast
  have "dmRunning (mwDaemon W2)" "mwFlight W2 old = Some b1"
    using assms by (auto simp: mirror_step_def pushGoroutine_def pushDone_def split: prod.splits option.splits)
  then show ?thesis using push_lands [of W2 old b1] m2 by blast
qed

section \<open>The audit against the pushed head\<close>


section \<open>Witness\<close>

text \<open>A fresh log, one tick, its push, and then a machine that shows an empty log.\<close>

lemma empty_view_opens:
  "\<exists>st. OpenPinned C (\<lambda>i. \<lparr>vHead = Missing, vLog = Missing, vHeadAgain = Missing\<rparr>) key [] = Inr st \<and> stLeaves st = []"
  by (simp add: OpenPinned_def readCommitted_def readOnlyAttempts_def eval_nat_numeral readCommittedOnce_def readStoredHead_def
      readLog_def verifyTreeHead_def Let_def)


end
