(* ===== verification/Farm_Bridge.thy ===== *)
theory Farm_Bridge
  imports Feed_Bridges
begin

text \<open>
  The bridge of the farm feed (\<open>internal/farm/farm.go\<close>): it forwards events and, on its own
  ticker, checks which sources have gone silent; and the constructors of the three harness
  bridges (\<open>internal/sbh/bridge.go\<close>). The property is about what an operator reads: for each
  source the records of silence and of resumption alternate.
\<close>

section \<open>Harness bridges\<close>

record sbh_bridge = feed_bridge +
  sbClassify :: "audit_event \<Rightarrow> string \<times> string"

definition sbh_newBridge :: "string \<Rightarrow> (audit_event \<Rightarrow> string \<times> string) \<Rightarrow> sbh_bridge" where
  "sbh_newBridge path c = feed_bridge.extend (feed_New path (SbhFeed [])) \<lparr>sbClassify = c\<rparr>"

definition sbh_New :: "string \<Rightarrow> sbh_bridge" where
  "sbh_New path = sbh_newBridge path ClassifyForge"

definition NewDecisionLog :: "string \<Rightarrow> sbh_bridge" where
  "NewDecisionLog path = sbh_newBridge path ClassifyDecision"

definition NewSessionLog :: "string \<Rightarrow> sbh_bridge" where
  "NewSessionLog path = sbh_newBridge path ClassifyEscalation"

text \<open>The name of the feed is known from \<open>ResumeFrom\<close> on.\<close>

definition sbh_ResumeFrom :: "tail_state option \<Rightarrow> string \<Rightarrow> sbh_bridge \<Rightarrow> sbh_bridge" where
  "sbh_ResumeFrom saved feed b = b\<lparr>fbKind := SbhFeed feed, fbTail := startRun (SetStateFile saved (rsT (fbTail b)))\<rparr>"

section \<open>The farm bridge\<close>

record farm_bridge = feed_bridge +
  fmMonitor :: monitor
  fmCheckEvery :: int

definition farm_New :: "string \<Rightarrow> int \<Rightarrow> farm_bridge" where
  "farm_New path threshold =
     feed_bridge.extend (feed_New path FarmFeed) \<lparr>fmMonitor = NewMonitor threshold, fmCheckEvery = 30 * 10 ^ 9\<rparr>"

definition SetCheckEvery :: "int \<Rightarrow> farm_bridge \<Rightarrow> farm_bridge" where
  "SetCheckEvery d b = b\<lparr>fmCheckEvery := d\<rparr>"

definition farm_ResumeFrom :: "tail_state option \<Rightarrow> farm_bridge \<Rightarrow> farm_bridge" where
  "farm_ResumeFrom saved b = b\<lparr>fbTail := startRun (SetStateFile saved (rsT (fbTail b)))\<rparr>"

text \<open>
  What the forwarding goroutine selects: an event with what the system does in its appends
  and its acknowledgement, a tick, the closed channel or the stop channel. \<open>True\<close>: it returned.
\<close>

datatype farm_input =
    FarmEvent audit_event append_io append_io bool time
  | FarmTick time "transition \<Rightarrow> append_io"
  | FarmClosed
  | FarmStopped

type_synonym farm_state = "((store \<times> disk) \<times> monitor) \<times> tailer"

fun farm_forward ::
  "env \<Rightarrow> (audit_event \<Rightarrow> bytes) \<Rightarrow> (transition \<Rightarrow> bytes) \<Rightarrow> (string \<Rightarrow> time option) \<Rightarrow> farm_input list \<Rightarrow> farm_state \<Rightarrow>
   farm_state \<times> bool" where
  "farm_forward C marshal marshalT parse [] st = (st, False)"
| "farm_forward C marshal marshalT parse (FarmEvent evt io io2 ok now # ins) st =
     farm_forward C marshal marshalT parse ins (farm_turn C marshal marshalT parse evt (io2, io, ok, now) st)"
| "farm_forward C marshal marshalT parse (FarmTick now ios # ins) (sdm, t) =
     farm_forward C marshal marshalT parse ins (checkSilence C marshalT now ios sdm, t)"
| "farm_forward C marshal marshalT parse (FarmClosed # ins) st = (st, True)"
| "farm_forward C marshal marshalT parse (FarmStopped # ins) st = (st, True)"

section \<open>What the bridge appends\<close>

datatype farm_record = FarmEntry audit_event append_io | FarmTransition transition append_io

fun record_call :: "(audit_event \<Rightarrow> bytes) \<Rightarrow> (transition \<Rightarrow> bytes) \<Rightarrow> farm_record \<Rightarrow> append_call" where
  "record_call marshal marshalT (FarmEntry evt io) = feed_call marshal ''farm'' (farm_Classify evt) evt io"
| "record_call marshal marshalT (FarmTransition tr io) = transition_call marshalT tr io"

text \<open>The transitions of one source among the records, by the names of their events.\<close>

fun transitions_of :: "string \<Rightarrow> farm_record list \<Rightarrow> string list" where
  "transitions_of src [] = []"
| "transitions_of src (FarmEntry evt io # rs) = transitions_of src rs"
| "transitions_of src (FarmTransition tr io # rs) =
     (if trSource tr = src then trEvent tr # transitions_of src rs else transitions_of src rs)"

lemma transitions_of_append [simp]: "transitions_of src (rs @ rs') = transitions_of src rs @ transitions_of src rs'"
  by (induction rs rule: transitions_of.induct) simp_all

text \<open>\<open>flips s es s'\<close>: the events lead from flagged (\<open>s\<close>) to flagged (\<open>s'\<close>) and alternate.\<close>

fun flips :: "bool \<Rightarrow> string list \<Rightarrow> bool \<Rightarrow> bool" where
  "flips s [] s' \<longleftrightarrow> s = s'"
| "flips s (e # es) s' \<longleftrightarrow> e = (if s then ''farm_source_resumed'' else ''farm_source_silent'') \<and> flips (\<not> s) es s'"

lemma flips_append: "flips s es s1 \<Longrightarrow> flips s1 es' s2 \<Longrightarrow> flips s (es @ es') s2"
  by (induction s es s1 rule: flips.induct) auto

definition appends ::
  "env \<Rightarrow> (audit_event \<Rightarrow> bytes) \<Rightarrow> (transition \<Rightarrow> bytes) \<Rightarrow> (store \<times> disk) \<times> monitor \<Rightarrow> farm_record list \<Rightarrow> (store \<times> disk) \<times> monitor \<Rightarrow> bool" where
  "appends C marshal marshalT s rs s' \<longleftrightarrow>
     fst s' = foldl (append_step C) (fst s) (map (record_call marshal marshalT) rs) \<and> monitor_inv (snd s') \<and>
     (\<forall>src. flips (src \<in> mnSilent (snd s)) (transitions_of src rs) (src \<in> mnSilent (snd s')))"

lemma appends_trans:
  "appends C marshal marshalT s rs s1 \<Longrightarrow> appends C marshal marshalT s1 rs' s2 \<Longrightarrow> appends C marshal marshalT s (rs @ rs') s2"
  by (auto simp: appends_def intro: flips_append)

lemma Seen_flips:
  assumes "Seen m src kind t = (m', tr)"
  shows "case tr of None \<Rightarrow> mnSilent m' = mnSilent m
     | Some x \<Rightarrow> trEvent x = ''farm_source_resumed'' \<and> trSource x \<in> mnSilent m \<and> mnSilent m' = mnSilent m - {trSource x}"
  using assms by (auto simp: Seen_def Let_def split: if_splits option.splits)

lemma turn_appends:
  assumes "monitor_inv m"
  shows "\<exists>rs. appends C marshal marshalT (sd, m) rs (fst (farm_turn C marshal marshalT parse evt (io2, io, ok, now) ((sd, m), t)))"
proof -
  let ?c = "feed_call marshal ''farm'' (farm_Classify evt) evt io"
  obtain m' tr where seen: "Seen m (str_or_empty evt ''source'') (str_or_empty evt ''kind'') (eventTime parse evt now) = (m', tr)"
    by (metis prod.exhaust)
  have inv: "monitor_inv m'" using Seen_inv [OF assms] seen by (metis fst_conv)
  consider "fst (append_call C sd ?c) \<noteq> None" | "fst (append_call C sd ?c) = None" "tr = None"
    | x where "fst (append_call C sd ?c) = None" "tr = Some x" by blast
  then show ?thesis
  proof cases
    case 1
    then show ?thesis using assms
      by (intro exI [of _ "[FarmEntry evt io]"]) (auto simp: appends_def farm_turn_def ingest_def)
  next
    case 2
    then show ?thesis using inv seen Seen_flips [OF seen]
      by (intro exI [of _ "[FarmEntry evt io]"]) (auto simp: appends_def farm_turn_def ingest_def)
  next
    case 3
    then show ?thesis using inv seen Seen_flips [OF seen]
      by (intro exI [of _ "[FarmEntry evt io, FarmTransition x io2]"]) (auto simp: appends_def farm_turn_def ingest_def)
  qed
qed

lemma silence_transitions:
  assumes "distinct (map trSource trs)" "\<forall>tr \<in> set trs. trEvent tr = ''farm_source_silent''"
  shows "transitions_of src (map (\<lambda>tr. FarmTransition tr (ios tr)) trs) =
     (if src \<in> trSource ` set trs then [''farm_source_silent''] else [])"
  using assms by (induction trs) auto

lemma check_appends:
  assumes "monitor_inv m"
  shows "\<exists>rs. appends C marshal marshalT (sd, m) rs (checkSilence C marshalT now ios (sd, m))"
proof -
  obtain m' trs where chk: "Check m now = (m', trs)" by (metis prod.exhaust)
  have ev: "\<forall>tr \<in> set trs. trEvent tr = ''farm_source_silent''" using chk by (auto simp: Check_def Let_def)
  have "distinct (map fst (filter (overdue m now) (mnLastSeen m)))"
    using assms by (intro distinct_late) (simp add: monitor_inv_def)
  moreover have "map trSource trs = sort (map fst (filter (overdue m now) (mnLastSeen m)))"
    using chk by (auto simp: Check_def Let_def map_sort_key o_def split_beta)
  ultimately have dist: "distinct (map trSource trs)" by simp
  have "trSource ` set trs = {src. \<exists>seen. (src, seen) \<in> set (mnLastSeen m) \<and> overdue m now (src, seen)}"
    using Check_sources [of m now] chk by simp
  moreover have "mnSilent m' = mnSilent m \<union> {src. \<exists>seen. (src, seen) \<in> set (mnLastSeen m) \<and> overdue m now (src, seen)}"
    using chk by (force simp: Check_def Let_def)
  ultimately have sil: "trSource ` set trs \<inter> mnSilent m = {}" "mnSilent m' = mnSilent m \<union> trSource ` set trs"
    by (auto simp: overdue_def)
  have fold: "foldl (append_step C) sd (map (record_call marshal marshalT) (map (\<lambda>tr. FarmTransition tr (ios tr)) trs)) =
      foldl (\<lambda>sd tr. append_step C sd (transition_call marshalT tr (ios tr))) sd trs"
    by (simp add: foldl_map)
  have "flips (src \<in> mnSilent m) (transitions_of src (map (\<lambda>tr. FarmTransition tr (ios tr)) trs)) (src \<in> mnSilent m')" for src
    using sil by (auto simp: silence_transitions [OF dist ev])
  then show ?thesis using Check_inv [OF assms, of now] chk fold
    by (intro exI [of _ "map (\<lambda>tr. FarmTransition tr (ios tr)) trs"]) (simp add: appends_def checkSilence_def)
qed

lemma forward_appends:
  "monitor_inv (snd (fst st)) \<Longrightarrow> \<exists>rs. appends C marshal marshalT (fst st) rs (fst (fst (farm_forward C marshal marshalT parse ins st)))"
proof (induction C marshal marshalT parse ins st rule: farm_forward.induct)
  case (2 C marshal marshalT parse evt io io2 ok now ins st)
  obtain sd m t where st: "st = ((sd, m), t)" by (metis prod.exhaust)
  obtain rs where rs: "appends C marshal marshalT (fst st) rs (fst (farm_turn C marshal marshalT parse evt (io2, io, ok, now) st))"
    using turn_appends [of m C marshal marshalT sd parse evt io2 io ok now t] 2(2) st by auto
  then have "monitor_inv (snd (fst (farm_turn C marshal marshalT parse evt (io2, io, ok, now) st)))" by (simp add: appends_def)
  then show ?case using 2(1) appends_trans [OF rs] unfolding farm_forward.simps by blast
next
  case (3 C marshal marshalT parse now ios ins sdm t)
  obtain rs where rs: "appends C marshal marshalT sdm rs (checkSilence C marshalT now ios sdm)"
    using check_appends [of "snd sdm" C marshal marshalT "fst sdm" now ios] 3(2) by auto
  then have "monitor_inv (snd (checkSilence C marshalT now ios sdm))" by (simp add: appends_def)
  then show ?case using 3(1) appends_trans [OF rs] unfolding farm_forward.simps fst_conv snd_conv by blast
qed (auto simp: appends_def intro: exI [of _ "[]"])

text \<open>
  Property C30. What the log says about a silent house: run the bridge of a new farm feed on any events,
  ticks and failing appends. What it appends is one record per event it takes and, for each
  source, records of silence and of resumption that alternate, beginning with silence; the
  monitor holds a source as silent exactly if the last of them is a silence.
\<close>

theorem farm_silence_alternates:
  assumes "farm_forward C marshal marshalT parse ins ((sd, fmMonitor (farm_New path threshold)), t) = (((sd', m'), t'), returned)"
  shows "\<exists>rs. sd' = foldl (append_step C) sd (map (record_call marshal marshalT) rs) \<and>
     (\<forall>src. flips False (transitions_of src rs) (src \<in> mnSilent m'))"
proof -
  have "monitor_inv (fmMonitor (farm_New path threshold))"
    by (simp add: farm_New_def feed_bridge.defs NewMonitor_inv)
  then show ?thesis
    using forward_appends [of "((sd, fmMonitor (farm_New path threshold)), t)" C marshal marshalT parse ins] assms
    by (auto simp: appends_def farm_New_def feed_bridge.defs NewMonitor_def)
qed

text \<open>A heartbeat that is stored, and then a tick long after it.\<close>

definition sample_farm :: "farm_input list" where
  "sample_farm = [FarmEvent [(''kind'', JStr ''heartbeat''), (''source'', JStr ''h'')] sample_io sample_io True 0,
     FarmTick 100 (\<lambda>tr. sample_io)]"

lemma sample_farm_run:
  assumes "stKey st = sample_key" "stSigner st = Some sample_signer" "\<not> stReadOnly st"
  shows "\<exists>sd' m' t'. farm_forward sample_env (\<lambda>e. []) (\<lambda>tr. []) (\<lambda>s. None) sample_farm
       (((st, d), fmMonitor (farm_New ''p'' 10)), t) = (((sd', m'), t'), False) \<and> mnSilent m' = {''h''}"
proof -
  let ?evt = "[(''kind'', JStr ''heartbeat''), (''source'', JStr ''h'')]"
  let ?c = "feed_call (\<lambda>e. []) ''farm'' (farm_Classify ?evt) ?evt sample_io"
  have "fst (append_call sample_env (st, d) ?c) = None"
    using assms
    by (simp add: append_call_def Append_def feed_call_def farm_Classify_def str_or_empty_def str_field_def sample_io_def
        sample_env_def encrypt_Seal_def aes_key_ok_def sample_key_def NonceSize_def writeTreeHead_def signHead_def
        sample_signer_def Let_def)
  moreover have "Seen (NewMonitor 10) ''h'' ''heartbeat'' 0 = (\<lparr>mnThreshold = 10, mnLastSeen = [(''h'', 0)], mnSilent = {}\<rparr>, None)"
    by (simp add: Seen_def NewMonitor_def periodic_def)
  moreover have "Check \<lparr>mnThreshold = 10, mnLastSeen = [(''h'', 0)], mnSilent = {}\<rparr> 100 =
      (\<lparr>mnThreshold = 10, mnLastSeen = [(''h'', 0)], mnSilent = {''h''}\<rparr>,
       [\<lparr>trLevel = ''WARN'', trEvent = ''farm_source_silent'', trSource = ''h'', trLastSeen = 0, trAt = 100\<rparr>])"
    by (simp add: Check_def overdue_def)
  ultimately show ?thesis
    by (simp add: sample_farm_def farm_turn_def ingest_def farm_New_def feed_bridge.defs checkSilence_def str_or_empty_def
        str_field_def eventTime_def)
qed

theorem farm_silence_alternates_witness:
  "\<exists>st d sd' m' t'. farm_forward sample_env (\<lambda>e. []) (\<lambda>tr. []) (\<lambda>s. None) sample_farm
       (((st, d), fmMonitor (farm_New ''p'' 10)), sample_tailer) = (((sd', m'), t'), False) \<and>
     (\<exists>rs. sd' = foldl (append_step sample_env) (st, d) (map (record_call (\<lambda>e. []) (\<lambda>tr. [])) rs) \<and>
        flips False (transitions_of ''h'' rs) True)"
proof -
  obtain st d where up: "log_reachable sample_env sample_key (Some sample_signer) [] ([], Up st d)"
    using sample_opened by blast
  have st: "stKey st = sample_key" "stSigner st = Some sample_signer" "\<not> stReadOnly st"
    using reachable_inv [OF sample_env_ok sample_signed up] by (auto simp: opened_as_def store_inv_def)
  obtain sd' m' t' where run: "farm_forward sample_env (\<lambda>e. []) (\<lambda>tr. []) (\<lambda>s. None) sample_farm
       (((st, d), fmMonitor (farm_New ''p'' 10)), sample_tailer) = (((sd', m'), t'), False)" "mnSilent m' = {''h''}"
    using sample_farm_run [OF st, of d sample_tailer] by (elim exE conjE)
  have "''h'' \<in> mnSilent m'" using run(2) by simp
  then have "\<exists>rs. sd' = foldl (append_step sample_env) (st, d) (map (record_call (\<lambda>e. []) (\<lambda>tr. [])) rs) \<and>
      flips False (transitions_of ''h'' rs) True"
    using farm_silence_alternates [OF run(1)] by (metis (full_types))
  with run(1) show ?thesis by (intro exI [of _ st] exI [of _ d] exI [of _ sd'] exI [of _ m'] exI [of _ t']) (rule conjI)
qed

end
