(* ===== verification/Start_Main.thy ===== *)
theory Start_Main
  imports Shutdown Mirror_Push Farm_Bridge
begin

text \<open>
  \<open>witness start\<close> as a whole (\<open>cmdStart\<close> in \<open>cmd/witness/main.go\<close>), composed from the models of
  its steps in the order of the code: configuration, key, capabilities, signer, soul, genesis,
  log, the records of the start, the mirror, the feeds, the watchdog and the first push. What the machine
  gives to each step is a field of \<open>start_world\<close>.
\<close>

section \<open>The machine at the start\<close>

record start_world =
  swMachineID :: string
  swConfig :: "config_error + config"
  swHkdf :: hkdf
  swStatus :: "string option"
  swPrctl :: "nat option"
  swAmbient :: u64
  swErrno :: "nat \<Rightarrow> string"
  swDev :: "signer option"
  swSoftware :: "signer option"
  swPIV :: "signer option"
  swSoul :: file_text
  swSig :: file_text
  swAllow :: file_text
  swGenesis :: "bytes option"
  swOpen :: open_io
  swURL :: "string \<Rightarrow> (string \<times> string \<times> string) option"
  swMkdir :: "string \<Rightarrow> bool"
  swVars :: "(string \<times> string) list"
  swMirrorErr :: "mirror_error \<Rightarrow> string"
  swMirror :: mirror_dir
  swIO :: start_io
  swFed :: "append_call list"
  swFed2 :: "append_call list"
  swOperators :: file_text
  swSelf :: "string option"
  swSpawns :: bool
  swPid :: int
  swHeadReadable :: bool

datatype witness_start = StartFatal | Started mirrored daemon_conf "feed_spec list" "string list option"

text \<open>The mirror: not configured, opened, or an error whose text is recorded.\<close>

definition startMirror :: "start_world \<Rightarrow> config \<Rightarrow> mirror_dir option \<times> string option" where
  "startMirror w cfg =
     (if cgMirrorURL cfg = [] then (None, None)
      else case mirror_Open (swURL w) (swMkdir w) (swVars w) (cgMirrorURL cfg) of
        Inl e \<Rightarrow> (None, Some (swMirrorErr w e))
      | Inr _ \<Rightarrow> (Some (swMirror w), None))"

definition startConf :: "start_world \<Rightarrow> config \<Rightarrow> bool \<Rightarrow> signer option \<Rightarrow> snapshot \<Rightarrow> daemon_conf" where
  "startConf w cfg devMode signer snap =
     \<lparr>cfSnap = snap, cfMachineID = swMachineID w, cfDev = devMode, cfOwn = map_option sgPublicKey signer,
      cfAlert = DowntimeAlert cfg, cfMirrorURL = cgMirrorURL cfg, cfMirrorErr = snd (startMirror w cfg),
      cfEscalate = MirrorEscalation cfg\<rparr>"

definition capsIO :: "start_world \<Rightarrow> start_io" where
  "capsIO w = (swIO w)\<lparr>siCaps := map_option (swErrno w) (fst (DropAmbientCaps (swStatus w) (swPrctl w) (swAmbient w)))\<rparr>"

text \<open>From the open log on: records, feeds, watchdog, daemon and the first push.\<close>

definition startRunning ::
  "env \<Rightarrow> daemon_codec \<Rightarrow> start_world \<Rightarrow> config \<Rightarrow> daemon_conf \<Rightarrow> store \<Rightarrow> disk \<Rightarrow> witness_start \<times> disk" where
  "startRunning C K w cfg conf st d =
     (case startFeeds cfg of
        Inl _ \<Rightarrow> (StartFatal, snd (foldl (append_step C) (startRecords C K conf (capsIO w) (st, d)) (swFed w)))
      | Inr specs \<Rightarrow>
          (let D = startDaemon C K conf (capsIO w) (swFed w) (swFed2 w) (swOperators w) (st, d);
               W = \<lparr>mwDaemon = D, mwMirror = fst (startMirror w cfg), mwFlight = Map.empty, mwNext = 0\<rparr>
           in (Started (tryPushMirror (swHeadReadable w) W) conf specs
                 (spawnWatchdog (swSelf w) (swSpawns w) (swPid w) (swMachineID w) (cgPrimaryDir cfg)),
               snd (dmLog D))))"

definition cmdStart ::
  "env \<Rightarrow> daemon_codec \<Rightarrow> soul_codec \<Rightarrow> (bytes \<Rightarrow> snapshot option) \<Rightarrow> (snapshot \<Rightarrow> bytes) \<Rightarrow> start_world \<Rightarrow> string list \<Rightarrow> disk \<Rightarrow>
   witness_start \<times> disk" where
  "cmdStart C K SK load marshal w args d =
     (let devMode = list_ex (\<lambda>a. a = ''--dev'') args in
      case swConfig w of
        Inl _ \<Rightarrow> (StartFatal, d)
      | Inr cfg \<Rightarrow>
          (case DeriveKey (swHkdf w) (swMachineID w) of
             None \<Rightarrow> (StartFatal, d)
           | Some key \<Rightarrow>
               (let signer = resolveSigner devMode (cgSigner cfg) (swDev w) (swSoftware w) (swPIV w) in
                case startOpen C SK load marshal (swSoul w) (swSig w) (swAllow w) devMode signer key (swGenesis w) (swOpen w) d of
                  (None, d') \<Rightarrow> (StartFatal, d')
                | (Some (snap, st), d') \<Rightarrow> startRunning C K w cfg (startConf w cfg devMode (the signer) snap) st d')))"

section \<open>What a production start has checked\<close>

lemma resolveSigner_production:
  "resolveSigner False mode dev software piv = Some s \<Longrightarrow> s = piv \<and> (mode = [] \<or> mode = ''piv'') \<or> s = software \<and> mode = ''software''"
  by (auto simp: resolveSigner_def split: if_splits option.splits)

lemma loadGenesis_sound:
  assumes "loadGenesis C load marshal key enc = Some snap"
  shows "\<exists>b plain. enc = Some b \<and> encrypt_Open C b key = Some plain \<and> load plain = Some snap \<and> snapshot_Verify C marshal snap"
  using assms by (auto simp: loadGenesis_def bind_eq_Some_conv split: if_splits)


section \<open>Witness\<close>

text \<open>A fresh machine with the default configuration, a signed soul and a security key.\<close>

definition sample_world :: "file_text \<Rightarrow> file_text \<Rightarrow> start_world" where
  "sample_world sig allow =
     \<lparr>swMachineID = ''m'', swConfig = Inr (DefaultConfig ''h''), swHkdf = (\<lambda>s salt info n. Some (replicate n 7)),
      swStatus = None, swPrctl = None, swAmbient = 0, swErrno = (\<lambda>n. []), swDev = None, swSoftware = None, swPIV = Some sample_signer,
      swSoul = Inr ''soul'', swSig = sig, swAllow = allow, swGenesis = Some (replicate 12 0), swOpen = sample_open,
      swURL = (\<lambda>u. None), swMkdir = (\<lambda>p. True), swVars = [], swMirrorErr = (\<lambda>e. []), swMirror = \<lparr>mdTmp = None, mdHead = None\<rparr>,
      swIO = sample_start, swFed = [], swFed2 = [], swOperators = Inl NotExist, swSelf = None, swSpawns = False, swPid = 1,
      swHeadReadable = True\<rparr>"

lemma sample_open_trusting:
  "\<exists>st d. OpenTrusting sample_env empty_disk sample_key (Some sample_signer) trusted sample_open = (Inr st, d)"
proof -
  have "recoverable sample_env sample_key (Some sample_signer) trusted empty_disk []" using proc_inv_init by simp
  then show ?thesis using openStore_recovers [OF _ good_sample_open] unfolding OpenTrusting_def by blast
qed

lemma sample_start_runs:
  assumes "LoadAllowlist allow = Inr es" "VerifySoulSignature sample_env sample_soul_codec (Inr ''soul'') sig es = None"
    and "load [] = Some (Take sample_env marshal sample_machine 5 ''m'' [])"
  shows "\<exists>W conf d'. cmdStart sample_env sample_daemon_codec sample_soul_codec load marshal (sample_world sig allow) [] empty_disk =
     (Started W conf [] None, d')"
proof -
  obtain st d where op: "OpenTrusting sample_env empty_disk sample_key (Some sample_signer) (map alPubKey es) sample_open = (Inr st, d)"
    using sample_open_trusting by blast
  have key: "DeriveKey (swHkdf (sample_world sig allow)) (swMachineID (sample_world sig allow)) = Some sample_key"
    by (simp add: sample_world_def DeriveKey_def keyLen_def sample_key_def)
  have gen: "loadGenesis sample_env load marshal sample_key (Some (replicate 12 0)) = Some (Take sample_env marshal sample_machine 5 ''m'' [])"
    using assms(3) Take_verifies
    by (simp add: loadGenesis_def encrypt_Open_def sample_key_def aes_key_ok_def NonceSize_def sample_env_def)
  have "startOpen sample_env sample_soul_codec load marshal (Inr ''soul'') sig allow False (Some (Some sample_signer)) sample_key
      (Some (replicate 12 0)) sample_open empty_disk = (Some (Take sample_env marshal sample_machine 5 ''m'' [], st), d)"
    using assms(1,2) op gen by (simp add: startOpen_def checkSoulSignature_def trustedKeys_def)
  moreover have "startFeeds (DefaultConfig ''h'') = Inr []"
    by (simp add: startFeeds_def ValidateEventFeeds_def DefaultConfig_def sbhSpecs_def farmSpecs_def namedSpecs_def)
  moreover have "resolveSigner False (cgSigner (DefaultConfig ''h'')) None None (Some sample_signer) = Some (Some sample_signer)"
    by (simp add: resolveSigner_def DefaultConfig_def)
  ultimately show ?thesis using key
    by (simp add: cmdStart_def startRunning_def sample_world_def spawnWatchdog_def Let_def)
qed


end
