(* ===== verification/Detector.thy ===== *)
theory Detector
  imports Daemon
begin

text \<open>
  The running anomaly detector (\<open>internal/anomaly/detector.go\<close>) beside the daemon's loop: two
  goroutines with their tickers, the channel of eight events between them and the loop, and the
  stop. The property is what the storage probe is for: a disk that can no longer be written
  ends the daemon.
\<close>

section \<open>The detector\<close>

record detector =
  dtProbeDir :: string
  dtInterval :: int
  dtStorage :: nat
  dtNetwork :: nat
  dtEvents :: "anomaly_event list"
  dtStopped :: bool

definition anomaly_New :: "string \<Rightarrow> int \<Rightarrow> detector" where
  "anomaly_New probeDir interval =
     \<lparr>dtProbeDir = probeDir, dtInterval = interval, dtStorage = 0, dtNetwork = 0, dtEvents = [], dtStopped = False\<rparr>"

text \<open>\<open>Stop\<close> closes a channel: a second call panics.\<close>

definition anomaly_Stop :: "detector \<Rightarrow> detector outcome" where
  "anomaly_Stop dt = (if dtStopped dt then Panic else Value (dt\<lparr>dtStopped := True\<rparr>))"

definition anomalyChanSize :: nat where
  "anomalyChanSize = 8"

text \<open>A tick of each goroutine: a stopped one does nothing; the event goes to the channel if it has room.\<close>

definition hasRoom :: "detector \<Rightarrow> bool" where
  "hasRoom dt \<longleftrightarrow> length (dtEvents dt) < anomalyChanSize"

definition storageTick :: "detector \<Rightarrow> probe_io \<Rightarrow> detector" where
  "storageTick dt io =
     (if dtStopped dt then dt
      else case runStorage (hasRoom dt) (dtStorage dt) io of
        (n, ev) \<Rightarrow> dt\<lparr>dtStorage := n, dtEvents := dtEvents dt @ (case ev of None \<Rightarrow> [] | Some e \<Rightarrow> [e])\<rparr>)"

definition networkTick :: "detector \<Rightarrow> iface list option \<Rightarrow> detector" where
  "networkTick dt ifaces =
     (if dtStopped dt then dt
      else case runNetwork (hasRoom dt) (dtNetwork dt) ifaces of
        (n, ev) \<Rightarrow> dt\<lparr>dtNetwork := n, dtEvents := dtEvents dt @ (case ev of None \<Rightarrow> [] | Some e \<Rightarrow> [e])\<rparr>)"

section \<open>Detector and daemon\<close>

text \<open>
  \<open>Taken\<close> is a turn of the loop that receives from the anomaly channel, \<open>Turn\<close> any other
  turn; the detector of a daemon that has gone down is stopped.
\<close>

datatype watch_event =
    StorageTick probe_io
  | NetworkTick "iface list option"
  | Taken append_io "append_call list" append_io
  | Turn daemon_event

definition watch_step :: "env \<Rightarrow> daemon_codec \<Rightarrow> daemon_conf \<Rightarrow> detector \<times> daemon \<Rightarrow> watch_event \<Rightarrow> detector \<times> daemon" where
  "watch_step C K conf s ev =
     (case s of (dt, D) \<Rightarrow>
        if \<not> dmRunning D then (dt, D)
        else case ev of
          StorageTick io \<Rightarrow> (storageTick dt io, D)
        | NetworkTick ifaces \<Rightarrow> (networkTick dt ifaces, D)
        | Taken io flushed dio \<Rightarrow>
            (case dtEvents dt of
               [] \<Rightarrow> (dt, D)
             | a # as \<Rightarrow>
                 let D' = onAnomaly C K D a io flushed dio in
                 (dt\<lparr>dtEvents := as, dtStopped := \<not> dmRunning D'\<rparr>, D'))
        | Turn e \<Rightarrow>
            (case e of
               AnomalySeen _ _ _ _ \<Rightarrow> (dt, D)
             | _ \<Rightarrow> let D' = daemon_step C K conf D e in (dt\<lparr>dtStopped := \<not> dmRunning D'\<rparr>, D')))"

definition watch_run :: "env \<Rightarrow> daemon_codec \<Rightarrow> daemon_conf \<Rightarrow> detector \<times> daemon \<Rightarrow> watch_event list \<Rightarrow> detector \<times> daemon" where
  "watch_run C K conf s evs = foldl (watch_step C K conf) s evs"

lemma watch_run_simps [simp]:
  "watch_run C K conf s [] = s"
  "watch_run C K conf s (ev # evs) = watch_run C K conf (watch_step C K conf s ev) evs"
  by (simp_all add: watch_run_def)

section \<open>A dead disk ends the daemon\<close>

definition watch_inv :: "detector \<times> daemon \<Rightarrow> bool" where
  "watch_inv s \<longleftrightarrow> length (dtEvents (fst s)) \<le> anomalyChanSize \<and> dtStorage (fst s) < 3 \<and> dtNetwork (fst s) < 3 \<and>
     (dmRunning (snd s) \<longrightarrow> \<not> dtStopped (fst s))"

text \<open>A storage event waits in the channel, or the daemon is already down.\<close>

definition doomed :: "detector \<times> daemon \<Rightarrow> bool" where
  "doomed s \<longleftrightarrow> \<not> dmRunning (snd s) \<or> (\<exists>a \<in> set (dtEvents (fst s)). anKind a = KindStorage)"

lemma runStorage_count: "n < 3 \<Longrightarrow> fst (runStorage room n io) < 3"
  by (auto simp: runStorage_def Let_def split: option.splits)

lemma runNetwork_count: "n < 3 \<Longrightarrow> fst (runNetwork room n ifs) < 3"
  by (auto simp: runNetwork_def Let_def)

lemma events_bounded:
  "length (dtEvents dt) \<le> anomalyChanSize \<Longrightarrow> length (dtEvents (storageTick dt io)) \<le> anomalyChanSize"
  "length (dtEvents dt) \<le> anomalyChanSize \<Longrightarrow> length (dtEvents (networkTick dt ifs)) \<le> anomalyChanSize"
  by (auto simp: storageTick_def networkTick_def runStorage_def runNetwork_def hasRoom_def Let_def split: option.splits)

lemma tick_fields [simp]:
  "dtStopped (storageTick dt io) = dtStopped dt" "dtStopped (networkTick dt ifs) = dtStopped dt"
  "dtNetwork (storageTick dt io) = dtNetwork dt" "dtStorage (networkTick dt ifs) = dtStorage dt"
  by (simp_all add: storageTick_def networkTick_def split_beta)

lemma tick_counts:
  "dtStorage dt < 3 \<Longrightarrow> dtStorage (storageTick dt io) < 3" "dtNetwork dt < 3 \<Longrightarrow> dtNetwork (networkTick dt ifs) < 3"
  by (simp_all add: storageTick_def networkTick_def split_beta runStorage_count runNetwork_count)

lemma watch_step_inv: "watch_inv s \<Longrightarrow> watch_inv (watch_step C K conf s ev)"
  by (cases s; cases ev)
    (auto simp: watch_step_def watch_inv_def Let_def events_bounded tick_counts split: list.splits daemon_event.split)

lemma tick_keeps_events:
  "set (dtEvents dt) \<subseteq> set (dtEvents (storageTick dt io))" "set (dtEvents dt) \<subseteq> set (dtEvents (networkTick dt ifs))"
  by (auto simp: storageTick_def networkTick_def split_beta)

lemma onAnomaly_storage: "anKind a = KindStorage \<Longrightarrow> \<not> dmRunning (onAnomaly C K D a io flushed dio)"
  by (simp add: onAnomaly_def Let_def)

lemma watch_step_doomed: "doomed s \<Longrightarrow> doomed (watch_step C K conf s ev)"
  using tick_keeps_events onAnomaly_storage
  by (cases s; cases ev) (fastforce simp: watch_step_def doomed_def Let_def split: list.splits daemon_event.split)+

lemma watch_run_append [simp]: "watch_run C K conf s (evs @ evs') = watch_run C K conf (watch_run C K conf s evs) evs'"
  by (simp add: watch_run_def)

lemma watch_run_inv: "watch_inv s \<Longrightarrow> watch_inv (watch_run C K conf s evs)"
  by (induction evs arbitrary: s) (simp_all add: watch_step_inv)

lemma watch_run_doomed: "doomed s \<Longrightarrow> doomed (watch_run C K conf s evs)"
  by (induction evs arbitrary: s) (simp_all add: watch_step_doomed)

lemma anomaly_New_inv [simp]: "watch_inv (anomaly_New dir interval, D)"
  by (simp add: watch_inv_def anomaly_New_def)

text \<open>The probes among the events, and that the channel has room whenever one is made.\<close>

fun probes :: "watch_event list \<Rightarrow> probe_io list" where
  "probes [] = []"
| "probes (StorageTick io # evs) = io # probes evs"
| "probes (_ # evs) = probes evs"

fun takes :: "watch_event list \<Rightarrow> nat" where
  "takes [] = 0"
| "takes (Taken io flushed dio # evs) = Suc (takes evs)"
| "takes (_ # evs) = takes evs"

fun roomy :: "env \<Rightarrow> daemon_codec \<Rightarrow> daemon_conf \<Rightarrow> detector \<times> daemon \<Rightarrow> watch_event list \<Rightarrow> bool" where
  "roomy C K conf s [] = True"
| "roomy C K conf s (ev # evs) =
     ((case ev of StorageTick _ \<Rightarrow> hasRoom (fst s) | _ \<Rightarrow> True) \<and> roomy C K conf (watch_step C K conf s ev) evs)"

lemma failing_tick:
  assumes "\<not> dtStopped dt" "hasRoom dt" "writeProbe io \<noteq> None" "dtStorage dt < 3"
  shows "(\<exists>a \<in> set (dtEvents (storageTick dt io)). anKind a = KindStorage) \<or> dtStorage (storageTick dt io) = Suc (dtStorage dt)"
  using assms by (auto simp: storageTick_def runStorage_def Let_def)

lemma other_step_storage:
  "(\<forall>io. ev \<noteq> StorageTick io) \<Longrightarrow> dtStorage (fst (watch_step C K conf s ev)) = dtStorage (fst s)"
  by (cases s; cases ev) (auto simp: watch_step_def Let_def split: list.splits daemon_event.split)

lemma failing_step:
  assumes "watch_inv s" "hasRoom (fst s)" "writeProbe io \<noteq> None"
  shows "doomed (watch_step C K conf s (StorageTick io)) \<or>
     dtStorage (fst (watch_step C K conf s (StorageTick io))) = Suc (dtStorage (fst s))"
  using assms failing_tick [of "fst s" io]
  by (cases s) (auto simp: watch_step_def doomed_def watch_inv_def)

lemma failing_probes:
  assumes "watch_inv s" "\<forall>io \<in> set (probes evs). writeProbe io \<noteq> None" "roomy C K conf s evs"
  shows "doomed (watch_run C K conf s evs) \<or>
     dtStorage (fst (watch_run C K conf s evs)) = dtStorage (fst s) + length (probes evs)"
  using assms
proof (induction evs arbitrary: s)
  case (Cons ev evs)
  let ?s = "watch_step C K conf s ev"
  have inv: "watch_inv ?s" by (rule watch_step_inv [OF Cons.prems(1)])
  have rest: "\<forall>io \<in> set (probes evs). writeProbe io \<noteq> None" using Cons.prems(2) by (cases ev) auto
  note ih = Cons.IH [OF inv rest]
  show ?case
  proof (cases ev)
    case (StorageTick io)
    then have "doomed ?s \<or> dtStorage (fst ?s) = Suc (dtStorage (fst s))"
      using failing_step [OF Cons.prems(1)] Cons.prems(2,3) by simp
    then show ?thesis using ih Cons.prems(3) StorageTick watch_run_doomed [of ?s C K conf evs] by auto
  qed (use ih Cons.prems(3) other_step_storage [of ev C K conf s] in auto)
qed simp

text \<open>How many receives are left until the daemon takes the storage event.\<close>

definition distance :: "detector \<times> daemon \<Rightarrow> nat" where
  "distance s = (if dmRunning (snd s) then Suc (length (takeWhile (\<lambda>a. anKind a \<noteq> KindStorage) (dtEvents (fst s)))) else 0)"

lemma takeWhile_grows:
  "(\<exists>a \<in> set xs. \<not> P a) \<Longrightarrow> takeWhile P (xs @ ys) = takeWhile P xs"
  by (metis takeWhile_append1)

lemma tick_distance:
  assumes "\<exists>a \<in> set (dtEvents dt). anKind a = KindStorage"
  shows "distance (storageTick dt io, D) = distance (dt, D)" "distance (networkTick dt ifs, D) = distance (dt, D)"
  using assms by (auto simp: distance_def storageTick_def networkTick_def split_beta takeWhile_grows)

lemma turn_distance:
  "distance (dt\<lparr>dtStopped := b\<rparr>, D') \<le> distance (dt, D)" if "dmRunning D" for D'
  using that by (simp add: distance_def)

lemma step_distance:
  assumes "doomed s"
  shows "distance (watch_step C K conf s ev) \<le> distance s - (case ev of Taken _ _ _ \<Rightarrow> 1 | _ \<Rightarrow> 0)"
proof (cases "dmRunning (snd s)")
  case True
  obtain dt D where s: "s = (dt, D)" by (cases s)
  have st: "\<exists>a \<in> set (dtEvents dt). anKind a = KindStorage" and r: "dmRunning D" using assms True s by (auto simp: doomed_def)
  show ?thesis
  proof (cases ev)
    case (Taken io flushed dio)
    obtain a as where q: "dtEvents dt = a # as" using st by (cases "dtEvents dt") auto
    show ?thesis
      using onAnomaly_storage [of a C K D io flushed dio] r
      by (cases "anKind a = KindStorage") (auto simp: s Taken q watch_step_def Let_def distance_def)
  next
    case (Turn e)
    then show ?thesis using r turn_distance [OF r]
      by (cases e) (auto simp: s watch_step_def Let_def)
  qed (use tick_distance [OF st] r in \<open>simp_all add: s watch_step_def\<close>)
qed (cases s, auto simp: watch_step_def distance_def)

lemma run_distance: "doomed s \<Longrightarrow> distance (watch_run C K conf s evs) \<le> distance s - takes evs"
proof (induction evs arbitrary: s)
  case (Cons ev evs)
  have "distance (watch_run C K conf (watch_step C K conf s ev) evs) \<le> distance (watch_step C K conf s ev) - takes evs"
    using Cons.IH watch_step_doomed [OF Cons.prems] by blast
  then show ?case using step_distance [OF Cons.prems, of C K conf ev] by (cases ev) auto
qed simp

lemma takeWhile_shorter: "x \<in> set xs \<Longrightarrow> \<not> P x \<Longrightarrow> length (takeWhile P xs) < length xs"
  by (induction xs) auto

lemma distance_bound:
  assumes "watch_inv s" "doomed s"
  shows "distance s \<le> anomalyChanSize"
proof (cases "dmRunning (snd s)")
  case True
  then obtain a where "a \<in> set (dtEvents (fst s))" "anKind a = KindStorage" using assms(2) by (auto simp: doomed_def)
  then have "length (takeWhile (\<lambda>a. anKind a \<noteq> KindStorage) (dtEvents (fst s))) < length (dtEvents (fst s))"
    by (auto intro: takeWhile_shorter)
  then show ?thesis using assms(1) True by (simp add: distance_def watch_inv_def)
qed (simp add: distance_def)

text \<open>
  Property C22. A witness that cannot write does not linger. Run the detector beside the daemon
  through any events. If then three probes of the log's directory in a row fail, with whatever else happens
  between them and with room in the channel when they are made, and the loop afterwards receives from
  the channel eight times, among any other turns, the daemon is down.
\<close>

theorem storage_loss_ends_daemon:
  assumes "s = watch_run C K conf (anomaly_New dir interval, D) before"
    and "3 \<le> length (probes failing)" "\<forall>io \<in> set (probes failing). writeProbe io \<noteq> None" "roomy C K conf s failing"
    and "anomalyChanSize \<le> takes after"
  shows "\<not> dmRunning (snd (watch_run C K conf s (failing @ after)))"
proof -
  have inv: "watch_inv s" "watch_inv (watch_run C K conf s failing)" using watch_run_inv assms(1) by (simp_all add: watch_run_inv)
  have d: "doomed (watch_run C K conf s failing)"
    using failing_probes [OF inv(1) assms(3,4)] inv(2) assms(2) by (auto simp: watch_inv_def)
  have "distance (watch_run C K conf (watch_run C K conf s failing) after) = 0"
    using run_distance [OF d, of C K conf after] distance_bound [OF inv(2) d] assms(5) by linarith
  then show ?thesis by (simp add: distance_def split: if_splits)
qed

definition sample_probe :: probe_io where
  "sample_probe = \<lparr>poOpen = Some ''read-only file system'', poWrite = None, poClose = None\<rparr>"

theorem storage_loss_ends_daemon_witness:
  "\<exists>D. dmRunning D \<and> \<not> dmRunning (snd (watch_run sample_env sample_daemon_codec sample_conf
     (watch_run sample_env sample_daemon_codec sample_conf (anomaly_New [] 1, D) [])
     (replicate 3 (StorageTick sample_probe) @ replicate 8 (Taken sample_io [] sample_io))))"
proof -
  obtain D :: daemon where D: "dmRunning D" by (metis daemon.select_convs(4))
  let ?s = "watch_run sample_env sample_daemon_codec sample_conf (anomaly_New [] 1, D) []"
  have "roomy sample_env sample_daemon_codec sample_conf ?s (replicate 3 (StorageTick sample_probe))"
    using D by (simp add: numeral_3_eq_3 hasRoom_def anomaly_New_def anomalyChanSize_def watch_step_def storageTick_def runStorage_def
        writeProbe_def sample_probe_def)
  from storage_loss_ends_daemon [OF refl _ _ this, of "replicate 8 (Taken sample_io [] sample_io)"] D
  show ?thesis by (auto simp: numeral_3_eq_3 eval_nat_numeral anomalyChanSize_def writeProbe_def sample_probe_def)
qed

end
