(* ===== verification/Poultry_Demo.thy ===== *)
theory Poultry_Demo
  imports Farm_Bridge
begin

text \<open>
  The poultry-house demo (\<open>examples/poultry-demo/main.go\<close>): its small witness (store and farm
  bridge), the simulated farm's lines, the helpers that read and write the log's records
  and the last scene, in which the record is rewritten in four ways. The demo tells its
  reader that each attempt is caught; the property proves it. Printing to the terminal is
  left out; \<open>None\<close> is a failed \<open>check\<close> or a panic, either of which ends the demo.
\<close>

section \<open>The demo's witness\<close>

record demo_witness =
  dwStore :: store
  dwDisk :: disk
  dwBridge :: farm_bridge

definition demoKey :: bytes where
  "demoKey = replicate 32 0"

text \<open>
  \<open>waitFor\<close>: what the polls see, the number of entries and whether the deadline is still
  ahead, and the number of entries at the check after the loop. \<open>None\<close>: exit with status 1.
\<close>

fun waitFor :: "u64 \<Rightarrow> (u64 \<times> bool) list \<Rightarrow> u64 \<Rightarrow> unit option" where
  "waitFor n [] end = (if end < n then None else Some ())"
| "waitFor n ((sz, before) # polls) end =
     (if sz < n \<and> before then waitFor n polls end else if end < n then None else Some ())"

text \<open>\<open>start\<close> up to the wait, and the size it waits for.\<close>

definition demo_start ::
  "env \<Rightarrow> disk \<Rightarrow> string \<Rightarrow> int \<Rightarrow> tail_state option \<Rightarrow> open_io \<Rightarrow> string \<Rightarrow> (demo_witness \<times> u64) option" where
  "demo_start C d feedPath silence saved io now =
     (case Open C d demoKey None io of
        (Inl _, _) \<Rightarrow> None
      | (Inr s, d') \<Rightarrow>
          (let b = farm_ResumeFrom saved (SetCheckEvery (500 * 10 ^ 6) (farm_New feedPath silence));
               before = thSize (Head C s now)
           in Some (\<lparr>dwStore = s, dwDisk = d', dwBridge = b\<lparr>fbStarted := True\<rparr>\<rparr>, before + 1)))"

fun indexOf :: "entry list \<Rightarrow> string \<Rightarrow> int" where
  "indexOf [] event = - 1"
| "indexOf (e # es) event =
     (if eEvent e = event then 0 else let i = indexOf es event in if i < 0 then - 1 else i + 1)"

definition has :: "env \<Rightarrow> disk \<Rightarrow> string \<Rightarrow> bool option" where
  "has C d event = (case ReadAll C d demoKey of Inl _ \<Rightarrow> None | Inr es \<Rightarrow> Some (0 \<le> indexOf es event))"

section \<open>The simulated farm\<close>

text \<open>The verb \<open>%q\<close> on printable ASCII, and the line \<open>emit\<close> adds to the feed.\<close>

definition quoted :: "string \<Rightarrow> string" where
  "quoted s = [CHR 0x22] @ concat (map (\<lambda>c. if c = CHR 0x22 \<or> c = CHR 0x5C then [CHR 0x5C, c] else [c]) s) @ [CHR 0x22]"

definition emit :: "string \<Rightarrow> string \<Rightarrow> string \<Rightarrow> string \<Rightarrow> string \<Rightarrow> string" where
  "emit ts source kind extra feed =
     feed @ ''{'' @ quoted ''ts'' @ '':'' @ quoted ts @ '','' @ quoted ''source'' @ '':'' @ quoted source @ '','' @
     quoted ''kind'' @ '':'' @ quoted kind @ (if extra \<noteq> [] then '','' @ extra else []) @ ''}'' @ [LF]"

section \<open>Records\<close>

function readRecords :: "bytes \<Rightarrow> bytes list option" where
  "readRecords rest =
     (if length rest < 4 then Some []
      else let l = unat (get_u32 (take 4 rest)) in
        if length (drop 4 rest) < l then None
        else map_option (\<lambda>out. take l (drop 4 rest) # out) (readRecords (drop (4 + l) rest)))"
  by pat_completeness auto
termination
  by (relation "measure length") auto

declare readRecords.simps [simp del]

definition writeRecords :: "bytes list \<Rightarrow> bytes" where
  "writeRecords recs = concat (map (\<lambda>r. put_u32 (word_of_nat (length r)) @ r) recs)"

lemma writeRecords_frames: "writeRecords recs = frames_of recs"
  unfolding writeRecords_def frames_of_def frame_def ..

lemma readRecords_frame:
  assumes "length b < 2 ^ 32"
  shows "readRecords (frame b @ r) = map_option (Cons b) (readRecords r)"
proof -
  have "unat (get_u32 (take 4 (frame b))) = length b" using assms by (simp add: frame_def unat_of_nat)
  then show ?thesis by (subst readRecords.simps) (simp add: Let_def)
qed

lemma readRecords_writeRecords: "\<forall>r \<in> set recs. length r < 2 ^ 32 \<Longrightarrow> readRecords (writeRecords recs) = Some recs"
  unfolding writeRecords_frames
  by (induction recs) (simp_all add: readRecords_frame, simp add: readRecords.simps)

section \<open>Verification and tampering\<close>

datatype reason = ShorterThanHead | NotTheSignedEntries | HeadGone | OtherError store_error

definition short :: "store_error \<Rightarrow> reason" where
  "short err =
     (case err of
        HeadSizeMismatch \<Rightarrow> ShorterThanHead
      | HeadRootMismatch \<Rightarrow> NotTheSignedEntries
      | ErrMissingTreeHead \<Rightarrow> HeadGone
      | _ \<Rightarrow> OtherError err)"

datatype verdict = IntegrityFailure reason | Verified u64

definition demo_verify :: "env \<Rightarrow> disk \<Rightarrow> open_io \<Rightarrow> (nat \<Rightarrow> view) \<Rightarrow> verdict \<times> disk" where
  "demo_verify C d io vs =
     (case Open C d demoKey None io of
        (Inl err, d') \<Rightarrow> (IntegrityFailure (short err), d')
      | (Inr s, d') \<Rightarrow>
          (case VerifyIntegrity C s d' vs of
             Inl err \<Rightarrow> (IntegrityFailure (short err), d')
           | Inr n \<Rightarrow> (Verified n, d')))"

text \<open>An edit of the records may index out of range (\<open>None\<close>).\<close>

type_synonym edit = "bytes list \<Rightarrow> bytes list option"

definition tamperCopy :: "env \<Rightarrow> disk \<Rightarrow> edit \<Rightarrow> bool \<Rightarrow> open_io \<Rightarrow> (nat \<Rightarrow> view) \<Rightarrow> verdict option" where
  "tamperCopy C d edit keepHead io vs =
     (case log_file d of
        Content log \<Rightarrow>
          if keepHead \<and> (case head_file d of Content _ \<Rightarrow> False | _ \<Rightarrow> True) then None
          else Option.bind (readRecords log) (\<lambda>recs. Option.bind (edit recs) (\<lambda>recs'.
            Some (fst (demo_verify C
              \<lparr>log_file = Content (writeRecords recs'), head_file = (if keepHead then head_file d else Missing), quarantined = []\<rparr>
              io vs))))
      | _ \<Rightarrow> None)"

definition tamper :: "env \<Rightarrow> disk \<Rightarrow> edit \<Rightarrow> open_io \<Rightarrow> (nat \<Rightarrow> view) \<Rightarrow> verdict option" where
  "tamper C d edit io vs = tamperCopy C d edit True io vs"

definition tamperNoHead :: "env \<Rightarrow> disk \<Rightarrow> edit \<Rightarrow> open_io \<Rightarrow> (nat \<Rightarrow> view) \<Rightarrow> verdict option" where
  "tamperNoHead C d edit io vs = tamperCopy C d edit False io vs"

text \<open>The three edits of the last scene: an entry deleted, a byte in the middle of one changed, the end cut off.\<close>

definition deleteAt :: "int \<Rightarrow> edit" where
  "deleteAt i recs = (if 0 \<le> i \<and> i < int (length recs) then Some (take (nat i) recs @ drop (nat i + 1) recs) else None)"

definition flip_middle :: "bytes \<Rightarrow> bytes" where
  "flip_middle r = r[length r div 2 := Bit_Operations.xor (r ! (length r div 2)) 1]"

definition flipByte :: "int \<Rightarrow> edit" where
  "flipByte i recs =
     (if 0 \<le> i \<and> i < int (length recs) \<and> recs ! nat i \<noteq> [] then Some (recs[nat i := flip_middle (recs ! nat i)]) else None)"

definition cutEnd :: "int \<Rightarrow> edit" where
  "cutEnd i recs = (if 0 \<le> i \<and> i \<le> int (length recs) then Some (take (nat i) recs) else None)"

definition scene4 :: "env \<Rightarrow> disk \<Rightarrow> open_io \<Rightarrow> (nat \<Rightarrow> view) \<Rightarrow> verdict list option" where
  "scene4 C d io vs =
     (case ReadAll C d demoKey of
        Inl _ \<Rightarrow> None
      | Inr entries \<Rightarrow>
          (let (untouched, d') = demo_verify C d io vs;
               ventilation = indexOf entries ''farm_setting_change:min_ventilation_pct'';
               ammonia = indexOf entries ''farm_alarm:high_ammonia'';
               silent = indexOf entries ''farm_source_silent''
           in Option.bind (tamper C d' (deleteAt ventilation) io vs) (\<lambda>v1.
              Option.bind (tamper C d' (flipByte ammonia) io vs) (\<lambda>v2.
              Option.bind (tamper C d' (cutEnd silent) io vs) (\<lambda>v3.
              Option.bind (tamperNoHead C d' (cutEnd silent) io vs) (\<lambda>v4.
              Some [untouched, v1, v2, v3, v4]))))))"

section \<open>Output\<close>

text \<open>\<open>arrow\<close> is the UTF-8 of U+2192. \<open>detail\<close>: \<open>p\<close> gives the texts of the payload's values, \<open>None\<close> for null.\<close>

definition arrow :: string where
  "arrow = [char_of (226 :: nat), char_of (134 :: nat), char_of (146 :: nat)]"

definition detail :: "string \<Rightarrow> (string \<times> string option) list \<Rightarrow> string" where
  "detail event p =
     (let get = (\<lambda>k. case map_of p k of Some (Some v) \<Rightarrow> v | _ \<Rightarrow> []) in
      if HasPrefix event ''tail_'' then ''feed opened ('' @ get ''mode'' @ ''), '' @ get ''catch_up_bytes'' @ '' bytes to catch up''
      else if event = ''farm_source_silent'' then get ''source'' @ '' quiet for '' @ get ''silent_for_seconds'' @ ''s''
      else if event = ''farm_source_resumed'' then get ''source'' @ '' back after '' @ get ''silent_for_seconds'' @ ''s''
      else if HasPrefix event ''farm_setting_change'' then get ''from'' @ '' '' @ arrow @ '' '' @ get ''to'' @ '' by '' @ get ''by''
      else if HasPrefix event ''farm_alarm'' \<or> HasPrefix event ''farm_reading''
      then get ''source'' @ '' '' @ get ''value'' @ '' '' @ get ''unit''
      else if HasPrefix event ''farm_access'' then get ''person'' @ '' '' @ get ''direction''
      else if HasPrefix event ''farm_health'' then ''flock '' @ get ''flock'' @ '', by '' @ get ''by''
      else get ''source'')"

text \<open>\<open>printNew\<close>: a line per entry not shown yet (its mark, number, level, event, detail) and the new count.\<close>

record shown_line =
  slWarn :: bool
  slSeq :: u64
  slLevel :: string
  slEvent :: string
  slDetail :: string

definition printNew :: "env \<Rightarrow> (bytes option \<Rightarrow> (string \<times> string option) list) \<Rightarrow> disk \<Rightarrow> nat \<Rightarrow> (shown_line list \<times> nat) option" where
  "printNew C parse d shown =
     (case ReadAll C d demoKey of
        Inl _ \<Rightarrow> None
      | Inr es \<Rightarrow>
          if length es < shown then None
          else Some (map (\<lambda>e. \<lparr>slWarn = (eLevel e = ''WARN''), slSeq = eSeq e, slLevel = eLevel e, slEvent = eEvent e,
                 slDetail = detail (eEvent e) (parse (eData e))\<rparr>) (drop shown es), length es))"

section \<open>What the last scene shows\<close>

lemma indexOf_range: "0 \<le> indexOf es ev \<Longrightarrow> nat (indexOf es ev) < length es \<and> eEvent (es ! nat (indexOf es ev)) = ev"
  by (induction es) (auto simp: Let_def nth_Cons nat_add_distrib split: if_splits nat.split)

text \<open>A log with fewer readable records than its head covers, but some, does not open.\<close>

lemma shorter_log_refused:
  assumes "verifyTreeHead C (head_file d) key s trusted [] (map (leafHash C) es) = None" "length es < 2 ^ 63"
    and "readLog C (log_file d) key = Inr (found, ends, fr, sz)" "found \<noteq> []" "length found < length es"
  shows "\<exists>err d'. openStore C d key s trusted [] io = (Inl err, d')"
proof -
  have "es \<noteq> []" using assms(5) by auto
  then obtain h where h: "readStoredHead C (head_file d) = Inr h" "thSize h = word_of_nat (length es)"
    using verifyTreeHead_head [OF assms(1)] by auto
  have un: "unat (word_of_nat (length es) :: u64) = length es" "unat (word_of_nat (length found) :: u64) = length found"
      "unat (word_of_nat (length es) + 1 :: u64) = Suc (length es)"
    using assms(2,5) unat_word64 [of "Suc (length es)"] by (simp_all add: unat_word64 add.commute)
  then have ne: "(word_of_nat (length es) :: u64) \<noteq> word_of_nat (length found)" "(word_of_nat (length es) :: u64) + 1 \<noteq> word_of_nat (length found)"
    using assms(5) by (metis less_irrefl, metis not_less_eq less_SucI)
  then have cc: "committed_count C (head_file d) (length found) = length found" using h by (simp add: committed_count_def)
  obtain b where b: "head_file d = Content b" "unmarshal_head C b = Some h"
    using h(1) by (auto simp: readStoredHead_def split: fcontent.splits option.splits)
  have "verifyTreeHead C (head_file d) key s trusted [] (map (leafHash C) found) \<noteq> None"
    using b h(2) ne by (auto simp: verifyTreeHead_def checkTreeHead_def Let_def split: option.splits)
  then show ?thesis using assms(3,4) cc by (auto simp: openStore_def Let_def)
qed

lemma headless_log_refused:
  assumes "head_file d = Missing" "readLog C (log_file d) key = Inr (found, ends, fr, sz)" "found \<noteq> []" "oiMkdir io"
  shows "openStore C d key s trusted [] io = (Inl ErrMissingTreeHead, d)"
  using assms by (simp add: openStore_def Let_def verifyTreeHead_def committed_count_def readStoredHead_def)

text \<open>A record that no longer opens is skipped.\<close>

lemma readFrames_unreadable:
  assumes "0 < length b" "length b \<le> max_record" "encrypt_Open C b key = None"
  shows "readFrames C key (frame b @ r) off = readFrames C key r (off + 4 + length b)"
  using assms by (subst readFrames.simps) (simp add: frame_length_prefix Let_def split: prod.splits)

lemma readLog_with_unreadable:
  assumes "list_all2 (decodes C key) bs es" "list_all2 (decodes C key) bs' es'" "0 < length b" "length b \<le> max_record"
    and "encrypt_Open C b key = None"
  shows "\<exists>ends fr sz. readLog C (Content (writeRecords (bs @ b # bs'))) key = Inr (es @ es', ends, fr, sz)"
  using readFrames_frames [OF assms(1), of "frame b @ frames_of bs'" 0]
    readFrames_unreadable [OF assms(3-5), of "frames_of bs'" "length (frames_of bs)"]
    readFrames_frames [OF assms(2), of "[]" "length (frames_of bs) + 4 + length b"]
  by (simp add: readLog_def writeRecords_frames readFrames_Nil)

lemma readLog_records:
  assumes "list_all2 (decodes C key) bs es"
  shows "\<exists>ends fr sz. readLog C (Content (writeRecords bs)) key = Inr (es, ends, fr, sz)"
  using readFrames_frames [OF assms, of "[]" 0] by (simp add: readLog_def writeRecords_frames readFrames_Nil)

definition demo_log :: "env \<Rightarrow> disk \<Rightarrow> bytes list \<Rightarrow> entry list \<Rightarrow> bool" where
  "demo_log C d bs es \<longleftrightarrow>
     log_file d = Content (writeRecords bs) \<and> list_all2 (decodes C demoKey) bs es \<and> length es < 2 ^ 63 \<and>
     verifyTreeHead C (head_file d) demoKey None [] [] (map (leafHash C) es) = None"

lemma demo_log_reads: "demo_log C d bs es \<Longrightarrow> readRecords (writeRecords bs) = Some bs \<and> length bs = length es"
proof -
  assume d: "demo_log C d bs es"
  then have "\<forall>r \<in> set bs. length r \<le> max_record"
    by (auto simp: demo_log_def decodes_def list_all2_conv_all_nth in_set_conv_nth)
  then have "\<forall>r \<in> set bs. length r < 2 ^ 32" by (auto simp: max_record_def)
  then show ?thesis using d readRecords_writeRecords by (auto simp: demo_log_def dest: list_all2_lengthD)
qed

lemma demo_log_head: "demo_log C d bs es \<Longrightarrow> es \<noteq> [] \<Longrightarrow> \<exists>b. head_file d = Content b"
  by (auto simp: demo_log_def verifyTreeHead_def split: fcontent.splits)

lemma tamper_caught:
  assumes "demo_log C d bs es" "edit bs = Some recs" "readLog C (Content (writeRecords recs)) demoKey = Inr (found, ends, fr, sz)"
    and "found \<noteq> []" "length found < length es"
  shows "\<exists>r. tamper C d edit io vs = Some (IntegrityFailure r)"
proof -
  have log: "log_file d = Content (writeRecords bs)" "length es < 2 ^ 63"
      "verifyTreeHead C (head_file d) demoKey None [] [] (map (leafHash C) es) = None"
    using assms(1) by (auto simp: demo_log_def)
  define d2 where "d2 = \<lparr>log_file = Content (writeRecords recs), head_file = head_file d, quarantined = []\<rparr>"
  have "es \<noteq> []" using assms(5) by auto
  then obtain b where b: "head_file d = Content b" using demo_log_head [OF assms(1)] by blast
  obtain err d' where "openStore C d2 demoKey None [] [] io = (Inl err, d')"
    using shorter_log_refused [of C d2 demoKey None "[]" es found ends fr sz io] log(2,3) assms(3-5) by (auto simp: d2_def)
  then have "fst (demo_verify C d2 io vs) = IntegrityFailure (short err)"
    by (simp add: demo_verify_def Open_def OpenTrusting_def)
  then show ?thesis using log b demo_log_reads [OF assms(1)] assms(2) by (simp add: tamper_def tamperCopy_def d2_def)
qed

lemma headless_caught:
  assumes "demo_log C d bs es" "edit bs = Some recs" "readLog C (Content (writeRecords recs)) demoKey = Inr (found, ends, fr, sz)"
    and "found \<noteq> []" "good_open io"
  shows "tamperNoHead C d edit io vs = Some (IntegrityFailure HeadGone)"
proof -
  define d2 where "d2 = \<lparr>log_file = Content (writeRecords recs), head_file = Missing, quarantined = []\<rparr>"
  have "openStore C d2 demoKey None [] [] io = (Inl ErrMissingTreeHead, d2)"
    by (rule headless_log_refused) (use assms(3-5) in \<open>simp_all add: d2_def good_open_def\<close>)
  then have "fst (demo_verify C d2 io vs) = IntegrityFailure HeadGone"
    by (simp add: demo_verify_def Open_def OpenTrusting_def short_def)
  then show ?thesis using assms(1,2) demo_log_reads [OF assms(1)]
    by (simp add: tamperNoHead_def tamperCopy_def d2_def demo_log_def)
qed

lemma untouched_verifies:
  assumes "demo_log C d bs es" "good_open io"
  shows "demo_verify C d io vs = (Verified (word_of_nat (length es)), d)"
proof -
  have h: "log_holds C demoKey (log_file d) bs es"
      "verifyTreeHead C (head_file d) demoKey None [] [] (map (leafHash C) es) = None" "log_file d \<noteq> Missing"
    using assms(1) by (auto simp: demo_log_def log_holds_def writeRecords_frames)
  obtain st where op: "openStore C d demoKey None [] [] io = (Inr st, d)"
    using h(3) assms(2) by (simp add: openStore_covered [OF h(1) assms(2) h(2)] finishOpen_def good_open_def Let_def)
  have "\<exists>bs'. store_inv C st d bs' es"
    using finishOpen_inv [OF assms(2) h(1,2), of no_recovery] op by (auto simp: openStore_covered [OF h(1) assms(2) h(2)])
  then have "VerifyIntegrity C st d vs = Inr (word_of_nat (length es))" using VerifyIntegrity_inv by blast
  then show ?thesis using op by (simp add: demo_verify_def Open_def OpenTrusting_def)
qed

lemma drop_one: "i < length es \<Longrightarrow> 2 \<le> length es \<Longrightarrow>
     take i es @ drop (Suc i) es \<noteq> [] \<and> length (take i es @ drop (Suc i) es) < length es"
  by (auto simp flip: length_greater_0_conv)

lemma delete_caught:
  assumes "demo_log C d bs es" "i < length es" "2 \<le> length es"
  shows "\<exists>r. tamper C d (deleteAt (int i)) io vs = Some (IntegrityFailure r)"
proof -
  have "list_all2 (decodes C demoKey) (take i bs @ drop (Suc i) bs) (take i es @ drop (Suc i) es)"
    using assms(1) by (intro list_all2_appendI list_all2_takeI list_all2_dropI) (simp_all add: demo_log_def)
  then obtain ends fr sz where "readLog C (Content (writeRecords (take i bs @ drop (Suc i) bs))) demoKey =
      Inr (take i es @ drop (Suc i) es, ends, fr, sz)"
    using readLog_records by blast
  moreover have "deleteAt (int i) bs = Some (take i bs @ drop (Suc i) bs)"
    using assms(2) demo_log_reads [OF assms(1)] by (simp add: deleteAt_def)
  ultimately show ?thesis using tamper_caught [OF assms(1), where edit = "deleteAt (int i)"] drop_one [OF assms(2,3)] by blast
qed

lemma flip_caught:
  assumes "demo_log C d bs es" "i < length es" "2 \<le> length es" "encrypt_Open C (flip_middle (bs ! i)) demoKey = None"
  shows "\<exists>r. tamper C d (flipByte (int i)) io vs = Some (IntegrityFailure r)"
proof -
  have dec: "list_all2 (decodes C demoKey) bs es" using assms(1) by (simp add: demo_log_def)
  have len: "i < length bs" using assms(2) demo_log_reads [OF assms(1)] by simp
  have b: "0 < length (bs ! i)" "length (bs ! i) \<le> max_record" using list_all2_nthD [OF dec len] by (auto simp: decodes_def)
  obtain ends fr sz where "readLog C (Content (writeRecords (take i bs @ flip_middle (bs ! i) # drop (Suc i) bs))) demoKey =
      Inr (take i es @ drop (Suc i) es, ends, fr, sz)"
    using readLog_with_unreadable [OF list_all2_takeI [OF dec] list_all2_dropI [OF dec] _ _ assms(4), of i "Suc i"] b
    by (auto simp: flip_middle_def)
  moreover have "flipByte (int i) bs = Some (take i bs @ flip_middle (bs ! i) # drop (Suc i) bs)"
    using len b by (simp add: flipByte_def upd_conv_take_nth_drop)
  ultimately show ?thesis using tamper_caught [OF assms(1), where edit = "flipByte (int i)"] drop_one [OF assms(2,3)] by blast
qed

lemma cut_caught:
  assumes "demo_log C d bs es" "0 < i" "i < length es" "good_open io"
  shows "\<exists>r. tamper C d (cutEnd (int i)) io vs = Some (IntegrityFailure r)"
    and "tamperNoHead C d (cutEnd (int i)) io vs = Some (IntegrityFailure HeadGone)"
proof -
  have "list_all2 (decodes C demoKey) (take i bs) (take i es)"
    using assms(1) by (intro list_all2_takeI) (simp add: demo_log_def)
  then obtain ends fr sz where r: "readLog C (Content (writeRecords (take i bs))) demoKey = Inr (take i es, ends, fr, sz)"
    using readLog_records by blast
  have c: "cutEnd (int i) bs = Some (take i bs)" using assms(3) demo_log_reads [OF assms(1)] by (simp add: cutEnd_def)
  have "take i es \<noteq> []" "length (take i es) < length es" using assms(2,3) by auto
  then show "\<exists>r. tamper C d (cutEnd (int i)) io vs = Some (IntegrityFailure r)"
    and "tamperNoHead C d (cutEnd (int i)) io vs = Some (IntegrityFailure HeadGone)"
    using tamper_caught [where edit = "cutEnd (int i)", OF assms(1) c r]
      headless_caught [where edit = "cutEnd (int i)", OF assms(1) c r _ assms(4)] by blast+
qed

text \<open>
  Property C40. The demo's claim holds: on a log of the demo's witness that has the three events the
  last scene looks for, the silence not being the first record, the untouched record verifies with
  all its entries, and each of the four attempts (an entry erased, a byte of one changed, the end
  cut off, the end cut off and the head deleted) is reported as an integrity failure, the last as a missing
  head, provided only that the changed ciphertext does not open.
\<close>

theorem demo_catches_every_attempt:
  assumes "demo_log C d bs es" "good_open io"
    and "0 \<le> indexOf es ''farm_setting_change:min_ventilation_pct''" "0 \<le> indexOf es ''farm_alarm:high_ammonia''"
    and "0 < indexOf es ''farm_source_silent''"
    and "encrypt_Open C (flip_middle (bs ! nat (indexOf es ''farm_alarm:high_ammonia''))) demoKey = None"
  shows "\<exists>r1 r2 r3. scene4 C d io vs = Some [Verified (word_of_nat (length es)), IntegrityFailure r1, IntegrityFailure r2,
     IntegrityFailure r3, IntegrityFailure HeadGone]"
proof -
  define v where "v = nat (indexOf es ''farm_setting_change:min_ventilation_pct'')"
  define a where "a = nat (indexOf es ''farm_alarm:high_ammonia'')"
  define s where "s = nat (indexOf es ''farm_source_silent'')"
  have v: "v < length es" and a: "a < length es" and s: "0 < s" "s < length es"
    using indexOf_range [OF assms(3)] indexOf_range [OF assms(4)] indexOf_range [of es "''farm_source_silent''"] assms(5)
    by (auto simp: v_def a_def s_def)
  have idx: "indexOf es ''farm_setting_change:min_ventilation_pct'' = int v" "indexOf es ''farm_alarm:high_ammonia'' = int a"
      "indexOf es ''farm_source_silent'' = int s"
    using assms(3-5) by (simp_all add: v_def a_def s_def)
  have two: "2 \<le> length es" using s by linarith
  note cut = cut_caught [OF assms(1) s assms(2), of vs]
  obtain r1 r2 r3 where "tamper C d (deleteAt (int v)) io vs = Some (IntegrityFailure r1)"
      "tamper C d (flipByte (int a)) io vs = Some (IntegrityFailure r2)" "tamper C d (cutEnd (int s)) io vs = Some (IntegrityFailure r3)"
    using delete_caught [OF assms(1) v two, of io vs] flip_caught [OF assms(1) a two assms(6) [folded a_def], of io vs] cut(1) by blast
  moreover have "ReadAll C d demoKey = Inr es"
    using assms(1) by (intro ReadAll_holds [of _ _ _ bs]) (auto simp: log_holds_def demo_log_def writeRecords_frames)
  ultimately show ?thesis using cut(2) untouched_verifies [OF assms(1,2)] idx by (simp add: scene4_def)
qed

section \<open>Witness\<close>

text \<open>A cipher that repeats the text and compares the halves: a changed byte does not open.\<close>

definition demo_env :: env where
  "demo_env = sample_env\<lparr>gcm_seal := (\<lambda>k n p. p @ p),
     gcm_open := (\<lambda>k n c. if take (length c div 2) c = drop (length c div 2) c then Some (take (length c div 2) c) else None)\<rparr>"

lemma demo_env_ok: "env_ok demo_env"
  by (simp add: env_ok_def demo_env_def sample_env_def sample_entry_roundtrip sample_head_roundtrip)

definition demo_entries :: "entry list" where
  "demo_entries = map (\<lambda>ev. newEntry 0 0 [] ev [] None)
     [''farm_setting_change:min_ventilation_pct'', ''farm_alarm:high_ammonia'', ''farm_source_silent'']"

definition demo_seal :: "entry \<Rightarrow> bytes" where
  "demo_seal e = replicate 12 0 @ sample_enc_entry e @ sample_enc_entry e"

definition demo_disk :: disk where
  "demo_disk = \<lparr>log_file = Content (writeRecords (map demo_seal demo_entries)),
     head_file = Content (marshal_head demo_env (newHead demo_env Missing demoKey (map (leafHash demo_env) demo_entries) [])),
     quarantined = []\<rparr>"

lemma demo_events: "map eEvent demo_entries =
    [''farm_setting_change:min_ventilation_pct'', ''farm_alarm:high_ammonia'', ''farm_source_silent'']"
  by (simp add: demo_entries_def newEntry_def ToValidUTF8_ascii)

lemma enc_bytes_length: "length (enc_bytes b) = 2 * length b + 1"
  by (induction b) simp_all

lemma demo_entry_length: "e \<in> set demo_entries \<Longrightarrow> 6 \<le> length (sample_enc_entry e) \<and> length (demo_seal e) \<le> max_record"
  by (auto simp: demo_entries_def demo_seal_def sample_enc_entry_def enc_u64_def put_u64_def enc_int_def enc_string_def enc_data_def
      enc_bytes_length bytes_of_def newEntry_def ToValidUTF8_ascii max_record_def)

lemma demo_sealed: "encrypt_Seal demo_env (Some (replicate 12 0)) (sample_enc_entry e) demoKey = Some (demo_seal e)"
  by (simp add: encrypt_Seal_def demoKey_def aes_key_ok_def demo_seal_def demo_env_def)

lemma demo_marshal: "marshal_entry demo_env e = Some (sample_enc_entry e)"
  by (simp add: demo_env_def sample_env_def)

lemma demo_entry_wf: "e \<in> set demo_entries \<Longrightarrow> wf_entry demo_env e"
  by (auto simp: demo_entries_def wf_newEntry)

lemma demo_seal_decodes: "e \<in> set demo_entries \<Longrightarrow> decodes demo_env demoKey (demo_seal e) e"
  using sealed_decodes [OF demo_env_ok demo_entry_wf demo_marshal demo_sealed] demo_entry_length by (simp add: NonceSize_def)

lemma xor_one_neq: "Bit_Operations.xor a 1 \<noteq> (a :: byte)"
proof
  assume "Bit_Operations.xor a 1 = a"
  then have "Bit_Operations.xor a (Bit_Operations.xor a 1) = Bit_Operations.xor a a" by simp
  then show False by (simp flip: xor.assoc)
qed

lemma flipped_does_not_open:
  assumes "6 \<le> length (sample_enc_entry e)"
  shows "encrypt_Open demo_env (flip_middle (demo_seal e)) demoKey = None"
proof -
  let ?p = "sample_enc_entry e" and ?n = "length (sample_enc_entry e)"
  let ?i = "?n - 6" and ?x = "Bit_Operations.xor (sample_enc_entry e ! (length (sample_enc_entry e) - 6)) 1"
  have mid: "length (demo_seal e) div 2 = 12 + ?i" using assms by (simp add: demo_seal_def)
  have i: "?i < ?n" using assms by simp
  have "demo_seal e ! (12 + ?i) = ?p ! ?i" using i by (simp add: demo_seal_def nth_append)
  then have flip: "flip_middle (demo_seal e) = replicate 12 0 @ ?p[?i := ?x] @ ?p"
    unfolding flip_middle_def mid using i by (simp add: demo_seal_def list_update_append)
  have "?p[?i := ?x] ! ?i \<noteq> ?p ! ?i" using i xor_one_neq by simp
  then have "?p[?i := ?x] \<noteq> ?p" by auto
  then show ?thesis by (simp add: flip encrypt_Open_def demoKey_def aes_key_ok_def NonceSize_def demo_env_def)
qed

lemma demo_log_sample: "demo_log demo_env demo_disk (map demo_seal demo_entries) demo_entries"
proof -
  have "list_all2 (decodes demo_env demoKey) (map demo_seal demo_entries) demo_entries"
    using demo_seal_decodes by (simp add: list_all2_conv_all_nth)
  moreover have "checkTreeHead demo_env (newHead demo_env Missing demoKey (map (leafHash demo_env) demo_entries) []) demoKey None [] []
      (map (leafHash demo_env) demo_entries) = None"
    by (rule newHead_checks [where s = None]) (auto simp: signHead_def)
  ultimately show ?thesis using demo_env_ok
    by (simp add: demo_log_def demo_disk_def verifyTreeHead_def env_ok_def) (simp add: demo_entries_def)
qed

theorem demo_catches_every_attempt_witness:
  "\<exists>r1 r2 r3. scene4 demo_env demo_disk sample_open (\<lambda>i. quiet_view demo_disk) =
     Some [Verified 3, IntegrityFailure r1, IntegrityFailure r2, IntegrityFailure r3, IntegrityFailure HeadGone]"
proof -
  obtain e0 e1 e2 where es: "demo_entries = [e0, e1, e2]" by (simp add: demo_entries_def)
  then have ev: "eEvent e0 = ''farm_setting_change:min_ventilation_pct''" "eEvent e1 = ''farm_alarm:high_ammonia''"
      "eEvent e2 = ''farm_source_silent''"
    using demo_events unfolding es by auto
  have idx: "indexOf demo_entries ''farm_setting_change:min_ventilation_pct'' = 0" "indexOf demo_entries ''farm_alarm:high_ammonia'' = 1"
      "indexOf demo_entries ''farm_source_silent'' = 2"
    by (simp_all add: es ev)
  have "encrypt_Open demo_env (flip_middle (map demo_seal demo_entries ! nat (indexOf demo_entries ''farm_alarm:high_ammonia''))) demoKey = None"
    unfolding idx(2) using flipped_does_not_open [of e1] demo_entry_length [of e1] by (simp add: es)
  from demo_catches_every_attempt [OF demo_log_sample good_sample_open _ _ _ this, of "\<lambda>i. quiet_view demo_disk"] idx
  show ?thesis by (simp add: es)
qed

end
