(* ===== verification/Spec2Isabelle.thy ===== *)
theory Spec2Isabelle
  imports Enforcer_Daemon Gossip_Mesh Pd_Main Start_Main Detector Poultry_Demo
begin

text \<open>
  Verification of the kiss protocol: a witness that records what happens on a machine in an
  encrypted, Merkle-hashed, append-only log, and the programs around it.

  \<^bold>\<open>The program.\<close> The daemon (\<open>cmd/witness\<close>) takes a genesis snapshot of the machine
  (\<open>internal/genesis\<close>), compares the machine with it at every tick (\<open>internal/drift\<close>), lets
  operators approve known differences with signed requests (\<open>internal/accept\<close>), copies the
  events of other programs into the log (\<open>internal/pipelock\<close>, \<open>internal/pipelock_bridge\<close>,
  \<open>internal/sbh\<close>, \<open>internal/farm\<close>, \<open>internal/feeds\<close>), publishes the head of the log to a mirror
  (\<open>internal/mirror\<close>) and leaves death records when it ends (\<open>internal/death\<close>,
  \<open>internal/lifecycle\<close>). All of them write through one store (\<open>internal/store\<close> over
  \<open>internal/merkle\<close> and \<open>internal/encrypt\<close>). Offline commands verify, prove, export and audit the
  log. The enforcer (\<open>cmd/enforcer\<close>, \<open>internal/enforcer\<close>, \<open>internal/gossip\<close>) follows the log and
  exchanges heartbeats with its peers; the police edition (\<open>cmd/witness-pd\<close>, \<open>internal/pd\<close>) keeps
  an evidence catalogue on the same store.

  \<^bold>\<open>How it is modelled.\<close> Functions are HOL functions of the same name. Structs are records,
  error values are datatypes, a fallible call returns a sum or an option, an unchecked index
  or a loop that does not end is a value of the type \<open>outcome\<close>. Integers whose width matters are
  words; times are integers of nanoseconds. Files are values: a log is a disk with a log file,
  a head file and quarantined tails. Everything the system decides (the clock, random bytes,
  where a write stops, whether a rename succeeds, what another program has done to a file) is
  an argument of the operation, so that a theorem about all arguments is a theorem about all
  faults. What is not in the repository is a parameter with its laws as hypotheses: BLAKE3,
  SHA-256, Ed25519, AES-GCM and JSON are the fields of the record \<open>env\<close> (laws \<open>env_ok\<close>,
  \<open>signer_ok\<close>; \<open>Sample_Env\<close> shows that they can hold), other JSON texts are codec records.
  No theorem assumes that a hash has no collisions: where it matters, the hypothesis is that
  the hash is injective on the finitely many inputs the two sides hash.

  \<^bold>\<open>Theories and code.\<close>
  \<^item> \<open>Kiss_Prelude\<close>, \<open>Go_Encoding\<close>, \<open>Go_Strings\<close>, \<open>Go_Files\<close>, \<open>Go_Flags\<close>: generic lemmas, named
    collections, and what the code uses of Go's \<open>encoding\<close>, \<open>strings\<close>, \<open>strconv\<close>, \<open>unicode/utf8\<close>,
    \<open>path/filepath\<close>, \<open>os\<close> files and \<open>flag\<close>.
  \<^item> \<open>Merkle\<close>: \<open>internal/merkle\<close>. Proofs made by \<open>Prove\<close> verify; \<open>Verify\<close> accepts only the leaf at
    the index; the 64-bit loop of \<open>splitPoint\<close> ends with the right value; malformed proofs.
  \<^item> \<open>Witness_Env\<close>, \<open>Sample_Env\<close>: the environment, \<open>internal/encrypt\<close>, \<open>internal/signer\<close>, and a
    concrete instance for the witnesses.
  \<^item> \<open>Log_Store\<close>, \<open>Store_Correct\<close>, \<open>Log_Machine\<close>, \<open>Store_Props\<close>: \<open>internal/store/store.go\<close>. The
    operations; their invariant; the locale \<open>append_log\<close> (the contract its clients use,
    interpreted on \<open>Append\<close>) and the step relation \<open>log_step\<close> of a process that appends, fails,
    crashes and reopens; the properties.
  \<^item> \<open>Log_Export\<close>: \<open>internal/store/export.go\<close>. An accepted export shows the signed log.
  \<^item> \<open>Genesis\<close>: \<open>internal/genesis\<close>, \<open>internal/drift\<close>. \<open>Accept\<close>: \<open>internal/accept\<close>. \<open>Accept_Cmd\<close>: the
    files of a request, operator keys and every subcommand of \<open>witness accept\<close>.
  \<^item> \<open>Signers\<close>: \<open>internal/signer\<close>, with the locale \<open>signer_source\<close> interpreted on the development
    and the software signer.
  \<^item> \<open>Tailer\<close>: the offsets of \<open>internal/pipelock/tailer.go\<close>. \<open>Tailer_Run\<close>: its goroutine, as a loop
    of turns that refines the reader of \<open>Tailer\<close>, with stop and drain. \<open>Evidence_Tailer\<close>: the
    followers of \<open>evidence_tailer.go\<close>, and discovery and stop as the step relation \<open>ev_step\<close>.
  \<^item> \<open>Feeds\<close>: classification and forwarding of the feeds and bridges. \<open>Feed_Bridges\<close>: the life of a
    feed from start to restart, with the locale \<open>acking_feed\<close> interpreted on the three kinds of
    feed, and their wiring in \<open>cmdStart\<close>. \<open>Pipelock\<close>: \<open>runner.go\<close>, \<open>signingkey.go\<close> and the bridge
    around them. \<open>Farm_Bridge\<close>: the farm's bridge with its ticker, and the
    constructors of the harness bridges.
  \<^item> \<open>Death\<close>, \<open>Lifecycle\<close>: death records and their chain; downtime and mirror health.
  \<^item> \<open>Soul\<close>: \<open>internal/soul\<close>. \<open>Mirror\<close>: \<open>internal/mirror\<close> with the locale \<open>mirror_backend\<close>
    interpreted on the file backend, and the audit command. \<open>Config\<close>: \<open>internal/config\<close>.
    \<open>Anomaly\<close>: \<open>internal/anomaly\<close> with the locale \<open>three_strikes\<close> interpreted on both detectors;
    \<open>Detector\<close>: the running detector, its channel and the daemon's loop.
    \<open>Migrate\<close>: \<open>internal/migrate\<close>.
  \<^item> \<open>Daemon\<close>, \<open>Commands\<close>, \<open>Witness_Main\<close>: \<open>cmd/witness\<close>. Start-up and event loop composed from the
    components; the other commands, the watchdog, \<open>internal/machid\<close>, \<open>internal/sandbox\<close>.
    \<open>Shutdown\<close>: the way down, composed from the stops of the feeds and the bridge; it refines
    \<open>fireDeath\<close> of \<open>Lifecycle\<close>. \<open>Mirror_Push\<close>: the pushes in flight beside the loop, up to the audit
    of what they left on the mirror. \<open>Start_Main\<close>: \<open>witness start\<close> as a whole.
  \<^item> \<open>Gossip\<close>, \<open>Enforcer\<close>, \<open>Enforcer_Daemon\<close>: \<open>internal/gossip\<close>, \<open>internal/enforcer\<close>,
    \<open>cmd/enforcer\<close>. \<open>Gossip_Mesh\<close>: the life of a node (socket, three loops, stop) as the step
    relation \<open>live_step\<close>, and two nodes with a network that loses, repeats and reorders.
  \<^item> \<open>Poultry_Demo\<close>: \<open>examples/poultry-demo\<close>, its record reader and writer and the scene that
    rewrites the record.
  \<^item> \<open>Pd_Evidence\<close>, \<open>Pd_Export\<close>, \<open>Pd_Main\<close>: \<open>internal/pd\<close> and \<open>cmd/witness-pd\<close>.

  \<^bold>\<open>What is shown.\<close> Safety of the log: every acknowledged record survives any sequence of
  crashes, a replaced log is detected, readers beside the writer see exactly the covered
  records, exports and mirrored heads expose a rewrite; the head a tick pushes exposes, once it has
  arrived, any later log that does not extend the log of that tick. Composition: a production start
  runs only on a signed soul, an intact genesis and a verified log; at every tick of a daemon
  started on any log, a difference from genesis is recorded or covered by an operator's
  signature; a feed cannot speak for the witness; a recorded stop is told from an unrecorded
  one; a disk that fails three probes ends the daemon; an approval made on the command line takes
  effect as asked and no further; a peer whose heartbeats arrive raises no alarm, one that is silent
  raises each alarm once; a farm source's silences and resumptions alternate. Delivery:
  tailers deliver at least once, a feed that is stopped and started again stores each line once,
  a clean shutdown of the bridge loses nothing, evidence files are delivered line by line
  however they are written, the enforcer delivers every entry once and in order. The signer of
  the log is well typed and stable over restarts. Refinement: the evidence catalogue is the replay of the custody events in the log.
  Round trips of packets, exports, signatures and allowlists. Limits: theorems of kind error
  state where the code does less than its comments say, with the exact circumstances; the
  gravest are \<open>status_breaks_running_log\<close> and \<open>stop_drops_event\<close>.

  \<^bold>\<open>Bounds and termination.\<close> Logs have fewer than $2^{63}$ records (a 64-bit counter). Loops
  over files are total functions with a measure. A loop that polls runs over the list of its
  turns; the theorems that it returns say how many turns are enough (one more than the lines
  that are left, for a drain). Retry loops have the bound of the source (20
  attempts to read a consistent head, 3 pushes). Recursions on a \<open>uint64\<close> size that need not
  end are modelled with the value \<open>Diverge\<close>, and the theorems say when it does not occur.

  \<^bold>\<open>Not modelled.\<close> Goroutines, channels and timers appear as sequences of steps in any order
  the code allows, and the branch a \<open>select\<close> takes is an argument; locks are not modelled, every
  locked operation is one step (the two writes of an append are separated where another process
  can come between). What another process does (pipelock, \<open>ioreg\<close>, a smart card) is an argument.
  JSON text, TOML text, printing, usage texts and the narration of the demo under \<open>examples/\<close> are
  left out. The mirror a daemon pushes to is the file backend in \<open>Mirror_Push\<close>: the HTTP and S3
  backends are modelled in \<open>Mirror\<close>, where the HTTP one is shown not to keep the contract.
\<close>

end
